(* ===== verification/Prelude.thy ===== *)
theory Prelude
  imports Main "HOL-Library.AList" "HOL-Library.Char_ord" "HOL-Library.List_Lexorder"
    "HOL-Library.Code_Target_Nat"
begin

text \<open>
  What every component of the model shares: the faults of src/errors.ts as values, the result
  type of a computation that may throw, the sequencing of such computations with and without a
  threaded state, JavaScript's insertion-ordered Map as an association list, and the generic
  lemmas on sums, lists and maps the component theories rely on.
\<close>

section \<open>Faults (src/errors.ts)\<close>

datatype error_code =
    MALFORMED_OPERATION
  | INVALID_AMOUNT
  | AMOUNT_OVERFLOW
  | LEDGER_UNBALANCED
  | UNKNOWN_ACCOUNT
  | CURRENCY_MISMATCH
  | OVERDRAFT
  | COMMINGLING
  | INVALID_TRANSITION
  | SESSION_SETTLED
  | SESSION_MISROUTED
  | UNAUTHORIZED
  | INVALID_SIGNATURE
  | STORE_FAILURE
  | PROVIDER_FAILURE
  | CONFIG_INVALID
  | CHAIN_BROKEN

text \<open>
  What a throw carries: an EconomyError with its code and its retryable flag (messages and
  detail bags are for people and are left out), or a plain Error, TypeError or RangeError.
\<close>

datatype err =
    EconomyError error_code bool
  | HostError string

text \<open>\<open>fault code message\<close> with no retryable option: not retryable.\<close>

definition fault :: "error_code \<Rightarrow> err" where
  "fault c = EconomyError c False"

definition fault_retryable :: "error_code \<Rightarrow> bool \<Rightarrow> err" where
  "fault_retryable c r = EconomyError c r"

definition normalizeError :: "err \<Rightarrow> err" where
  "normalizeError e = (case e of EconomyError c r \<Rightarrow> EconomyError c r
     | HostError m \<Rightarrow> EconomyError STORE_FAILURE True)"

definition normalizePortError :: "err \<Rightarrow> err" where
  "normalizePortError e = (case e of EconomyError c r \<Rightarrow> EconomyError c r
     | HostError m \<Rightarrow> EconomyError PROVIDER_FAILURE True)"

definition bad_request_codes :: "error_code list" where
  "bad_request_codes = [MALFORMED_OPERATION, INVALID_AMOUNT, AMOUNT_OVERFLOW, CURRENCY_MISMATCH]"

definition statusForError :: "error_code \<Rightarrow> bool \<Rightarrow> int" where
  "statusForError c retryable =
     (if c = UNAUTHORIZED \<or> c = INVALID_SIGNATURE then 401
      else if c \<in> set bad_request_codes then 400
      else if retryable then 503 else 500)"

section \<open>Computations that may throw\<close>

type_synonym 'a res = "err + 'a"

definition rbind :: "'a res \<Rightarrow> ('a \<Rightarrow> 'b res) \<Rightarrow> 'b res" where
  "rbind m f = (case m of Inl e \<Rightarrow> Inl e | Inr x \<Rightarrow> f x)"

text \<open>\<open>ensure c e\<close>: go on when the condition holds, throw otherwise.\<close>

definition ensure :: "bool \<Rightarrow> err \<Rightarrow> unit res" where
  "ensure c e = (if c then Inr () else Inl e)"

fun rmap :: "('a \<Rightarrow> 'b res) \<Rightarrow> 'a list \<Rightarrow> 'b list res" where
  "rmap f [] = Inr []"
| "rmap f (x # xs) = rbind (f x) (\<lambda>y. rbind (rmap f xs) (\<lambda>ys. Inr (y # ys)))"

text \<open>\<open>reach f xs\<close>: a for-loop whose body only checks and may throw.\<close>

fun reach :: "('a \<Rightarrow> unit res) \<Rightarrow> 'a list \<Rightarrow> unit res" where
  "reach f [] = Inr ()"
| "reach f (x # xs) = rbind (f x) (\<lambda>_. reach f xs)"

lemma rbind_simps [simp]:
  "rbind (Inl e) f = Inl e"
  "rbind (Inr x) f = f x"
  by (simp_all add: rbind_def)

lemma rbind_Inr_iff [simp]: "rbind m f = Inr y \<longleftrightarrow> (\<exists>x. m = Inr x \<and> f x = Inr y)"
  by (cases m) auto

lemma rbind_Inl_iff: "rbind m f = Inl e \<longleftrightarrow> m = Inl e \<or> (\<exists>x. m = Inr x \<and> f x = Inl e)"
  by (cases m) auto

lemma ensure_Inr [simp]: "ensure c e = Inr u \<longleftrightarrow> c"
  by (simp add: ensure_def)

lemma ensure_Inl [simp]: "ensure c e = Inl e' \<longleftrightarrow> \<not> c \<and> e' = e"
  by (auto simp: ensure_def)

lemma ensure_True [simp]: "ensure True e = Inr ()"
  by (simp add: ensure_def)

lemma ensure_False [simp]: "ensure False e = Inl e"
  by (simp add: ensure_def)

lemma reach_Inr [simp]: "reach f xs = Inr u \<longleftrightarrow> (\<forall>x \<in> set xs. f x = Inr ())"
  by (induction xs) auto

lemma rmap_Inr_iff: "rmap f xs = Inr ys \<longleftrightarrow> list_all2 (\<lambda>x y. f x = Inr y) xs ys"
  by (induction xs arbitrary: ys) (auto simp: list_all2_Cons1)

lemma rmap_total: "(\<And>x. x \<in> set xs \<Longrightarrow> \<exists>y. f x = Inr y) \<Longrightarrow> \<exists>ys. rmap f xs = Inr ys"
proof (induction xs)
  case (Cons x xs)
  from Cons.prems [of x] obtain y where "f x = Inr y" by auto
  moreover obtain ys where "rmap f xs = Inr ys" using Cons by auto
  ultimately show ?case by simp
qed simp

lemma rmap_cong [fundef_cong]:
  "xs = ys \<Longrightarrow> (\<And>x. x \<in> set ys \<Longrightarrow> f x = g x) \<Longrightarrow> rmap f xs = rmap g ys"
proof (induction xs arbitrary: ys)
  case (Cons x xs)
  from Cons.IH [of "tl ys"] Cons.prems show ?case by auto
qed auto

lemma reach_cong [fundef_cong]:
  "xs = ys \<Longrightarrow> (\<And>x. x \<in> set ys \<Longrightarrow> f x = g x) \<Longrightarrow> reach f xs = reach g ys"
proof (induction xs arbitrary: ys)
  case (Cons x xs)
  from Cons.IH [of "tl ys"] Cons.prems show ?case by auto
qed auto

section \<open>Computations on a threaded state\<close>

text \<open>
  A step of a transaction: from a state to a fault, or to a result and the next state. A fault drops
  the state it was raised in, because the transaction that catches it restores the one it began with.
\<close>

type_synonym ('s, 'a) act = "'s \<Rightarrow> ('a \<times> 's) res"

definition ret :: "'a \<Rightarrow> ('s, 'a) act" where
  "ret x = (\<lambda>s. Inr (x, s))"

definition sbind :: "('s, 'a) act \<Rightarrow> ('a \<Rightarrow> ('s, 'b) act) \<Rightarrow> ('s, 'b) act" where
  "sbind m f = (\<lambda>s. case m s of Inl e \<Rightarrow> Inl e | Inr (x, s') \<Rightarrow> f x s')"

definition throw :: "err \<Rightarrow> ('s, 'a) act" where
  "throw e = (\<lambda>s. Inl e)"

definition lift :: "'a res \<Rightarrow> ('s, 'a) act" where
  "lift r = (\<lambda>s. case r of Inl e \<Rightarrow> Inl e | Inr x \<Rightarrow> Inr (x, s))"

definition gets :: "('s \<Rightarrow> 'a) \<Rightarrow> ('s, 'a) act" where
  "gets f = (\<lambda>s. Inr (f s, s))"

definition modify :: "('s \<Rightarrow> 's) \<Rightarrow> ('s, unit) act" where
  "modify f = (\<lambda>s. Inr ((), f s))"

text \<open>\<open>seach f xs\<close>: a for-loop over \<open>xs\<close>; \<open>smap\<close> collects what each iteration yields.\<close>

fun seach :: "('a \<Rightarrow> ('s, unit) act) \<Rightarrow> 'a list \<Rightarrow> ('s, unit) act" where
  "seach f [] = ret ()"
| "seach f (x # xs) = sbind (f x) (\<lambda>_. seach f xs)"

fun smap :: "('a \<Rightarrow> ('s, 'b) act) \<Rightarrow> 'a list \<Rightarrow> ('s, 'b list) act" where
  "smap f [] = ret []"
| "smap f (x # xs) = sbind (f x) (\<lambda>y. sbind (smap f xs) (\<lambda>ys. ret (y # ys)))"

lemma ret_apply [simp]: "ret x s = Inr (x, s)"
  by (simp add: ret_def)

lemma throw_apply [simp]: "throw e s = Inl e"
  by (simp add: throw_def)

lemma gets_apply [simp]: "gets f s = Inr (f s, s)"
  by (simp add: gets_def)

lemma modify_apply [simp]: "modify f s = Inr ((), f s)"
  by (simp add: modify_def)

lemma lift_apply [simp]: "lift (Inr x) s = Inr (x, s)" "lift (Inl e) s = Inl e"
  by (simp_all add: lift_def)

lemma lift_Inr [simp]: "lift r s = Inr (x, s') \<longleftrightarrow> r = Inr x \<and> s' = s"
  by (cases r) (auto simp: lift_def)

lemma lift_Inl: "lift r s = Inl e \<longleftrightarrow> r = Inl e"
  by (cases r) (auto simp: lift_def)

lemma sbind_Inr [simp]: "sbind m f s = Inr r \<longleftrightarrow> (\<exists>x s'. m s = Inr (x, s') \<and> f x s' = Inr r)"
  by (cases "m s") (auto simp: sbind_def)

lemma sbind_run: "m s = Inr (x, s') \<Longrightarrow> sbind m f s = f x s'"
  by (simp add: sbind_def)

lemma sbind_fails: "m s = Inl e \<Longrightarrow> sbind m f s = Inl e"
  by (simp add: sbind_def)

lemma sbind_Inl: "sbind m f s = Inl e \<longleftrightarrow> m s = Inl e \<or> (\<exists>x s'. m s = Inr (x, s') \<and> f x s' = Inl e)"
  by (cases "m s") (auto simp: sbind_def)

text \<open>
  \<open>keeps P m\<close>: when \<open>m\<close> succeeds from a state where \<open>P\<close> holds, \<open>P\<close> still holds. The rules of
  the collection \<open>keeps\<close> take a composed step apart along the program's own structure.
\<close>

named_theorems keeps_rules

definition keeps :: "('s \<Rightarrow> bool) \<Rightarrow> ('s, 'a) act \<Rightarrow> bool" where
  "keeps P m \<longleftrightarrow> (\<forall>s x s'. P s \<longrightarrow> m s = Inr (x, s') \<longrightarrow> P s')"

lemma keepsI: "(\<And>s x s'. P s \<Longrightarrow> m s = Inr (x, s') \<Longrightarrow> P s') \<Longrightarrow> keeps P m"
  by (auto simp: keeps_def)

lemma keepsD: "keeps P m \<Longrightarrow> m s = Inr (x, s') \<Longrightarrow> P s \<Longrightarrow> P s'"
  by (auto simp: keeps_def)

lemma keeps_ret [keeps_rules]: "keeps P (ret x)"
  and keeps_throw [keeps_rules]: "keeps P (throw e)"
  and keeps_gets [keeps_rules]: "keeps P (gets f)"
  and keeps_lift [keeps_rules]: "keeps P (lift r)"
  by (auto simp: keeps_def)

lemma keeps_Inr: "keeps P (\<lambda>s. Inr (x, s))"
  by (auto simp: keeps_def)

lemma keeps_modify: "(\<And>s. P s \<Longrightarrow> P (f s)) \<Longrightarrow> keeps P (modify f)"
  by (auto simp: keeps_def)

lemma keeps_sbind [keeps_rules]: "keeps P m \<Longrightarrow> (\<And>x. keeps P (f x)) \<Longrightarrow> keeps P (sbind m f)"
  unfolding keeps_def sbind_Inr by blast

lemma keeps_if [keeps_rules]: "(b \<Longrightarrow> keeps P m) \<Longrightarrow> (\<not> b \<Longrightarrow> keeps P n) \<Longrightarrow> keeps P (if b then m else n)"
  by simp

lemma keeps_option [keeps_rules]:
  "keeps P m \<Longrightarrow> (\<And>x. keeps P (f x)) \<Longrightarrow> keeps P (case v of None \<Rightarrow> m | Some x \<Rightarrow> f x)"
  by (cases v) auto

lemma keeps_seach [keeps_rules]: "(\<And>x. x \<in> set xs \<Longrightarrow> keeps P (f x)) \<Longrightarrow> keeps P (seach f xs)"
  by (induction xs) (simp_all add: keeps_ret keeps_sbind)

lemma keeps_smap [keeps_rules]: "(\<And>x. x \<in> set xs \<Longrightarrow> keeps P (f x)) \<Longrightarrow> keeps P (smap f xs)"
  by (induction xs) (simp_all add: keeps_ret keeps_sbind)

text \<open>
  \<open>yields P m Q\<close>: a success of \<open>m\<close> from a state where \<open>P\<close> holds leaves a result and a state that
  satisfy \<open>Q\<close>. The rules walk a composed step from its front; what a computation returned is known after it.
\<close>

definition yields :: "('s \<Rightarrow> bool) \<Rightarrow> ('s, 'a) act \<Rightarrow> ('a \<Rightarrow> 's \<Rightarrow> bool) \<Rightarrow> bool" where
  "yields P m Q \<longleftrightarrow> (\<forall>s x s'. P s \<longrightarrow> m s = Inr (x, s') \<longrightarrow> Q x s')"

lemma yieldsI: "(\<And>s x s'. P s \<Longrightarrow> m s = Inr (x, s') \<Longrightarrow> Q x s') \<Longrightarrow> yields P m Q"
  by (auto simp: yields_def)

lemma yieldsD: "yields P m Q \<Longrightarrow> m s = Inr (x, s') \<Longrightarrow> P s \<Longrightarrow> Q x s'"
  by (auto simp: yields_def)

lemma yields_ret: "(\<And>s. P s \<Longrightarrow> Q x s) \<Longrightarrow> yields P (ret x) Q"
  by (auto simp: yields_def)

lemma yields_throw: "yields P (throw e) Q"
  by (auto simp: yields_def)

lemma yields_gets: "(\<And>s. P s \<Longrightarrow> yields P (f (g s)) Q) \<Longrightarrow> yields P (sbind (gets g) f) Q"
  unfolding yields_def sbind_Inr gets_apply by blast

lemma yields_lift: "(\<And>x. r = Inr x \<Longrightarrow> yields P (f x) Q) \<Longrightarrow> yields P (sbind (lift r) f) Q"
  unfolding yields_def sbind_Inr lift_Inr by blast

lemma yields_sbind: "yields P m R \<Longrightarrow> (\<And>x. yields (R x) (f x) Q) \<Longrightarrow> yields P (sbind m f) Q"
  unfolding yields_def sbind_Inr by blast

lemma yields_kept: "keeps P m \<Longrightarrow> (\<And>x. yields P (f x) Q) \<Longrightarrow> yields P (sbind m f) Q"
  unfolding yields_def keeps_def sbind_Inr by blast

lemma yields_if: "(b \<Longrightarrow> yields P m Q) \<Longrightarrow> (\<not> b \<Longrightarrow> yields P n Q) \<Longrightarrow> yields P (if b then m else n) Q"
  by simp

lemma yields_option:
  "yields P m Q \<Longrightarrow> (\<And>x. v = Some x \<Longrightarrow> yields P (f x) Q) \<Longrightarrow> yields P (case v of None \<Rightarrow> m | Some x \<Rightarrow> f x) Q"
  by (cases v) auto

lemma yields_prod: "(\<And>a b. p = (a, b) \<Longrightarrow> yields P (f a b) Q) \<Longrightarrow> yields P (case p of (a, b) \<Rightarrow> f a b) Q"
  by (cases p) simp

lemma yields_weaken: "yields P m Q \<Longrightarrow> (\<And>s. P' s \<Longrightarrow> P s) \<Longrightarrow> (\<And>x s. Q x s \<Longrightarrow> Q' x s) \<Longrightarrow> yields P' m Q'"
  unfolding yields_def by blast

lemma keeps_yields: "keeps P m \<longleftrightarrow> yields P m (\<lambda>_. P)"
  by (auto simp: keeps_def yields_def)

lemma yields_any: "(\<And>x. yields (\<lambda>_. True) (f x) Q) \<Longrightarrow> yields (\<lambda>_. True) (sbind m f) Q"
  unfolding yields_def sbind_Inr by blast

section \<open>JavaScript's Map of counts\<close>

text \<open>
  A Map is an association list in insertion order: \<open>AList.update\<close> is \<open>set\<close> (in place for a known
  key, at the end for a new one), \<open>map_of\<close> is \<open>get\<close>, \<open>AList.delete\<close> is \<open>delete\<close>. \<open>getz\<close> is the
  idiom \<open>m.get(k) ?? 0n\<close> and \<open>bump\<close> is \<open>m.set(k, (m.get(k) ?? 0n) + v)\<close>.
\<close>

definition getz :: "('k \<times> int) list \<Rightarrow> 'k \<Rightarrow> int" where
  "getz m k = (case map_of m k of Some x \<Rightarrow> x | None \<Rightarrow> 0)"

definition bump :: "'k \<Rightarrow> int \<Rightarrow> ('k \<times> int) list \<Rightarrow> ('k \<times> int) list" where
  "bump k v m = AList.update k (getz m k + v) m"

lemma map_of_update [simp]: "map_of (AList.update k v m) = (map_of m)(k \<mapsto> v)"
  by (simp add: update_conv' fun_eq_iff)

lemma map_of_delete [simp]: "map_of (AList.delete k m) = (map_of m)(k := None)"
  by (simp add: delete_conv')

lemma getz_Nil [simp]: "getz [] k = 0"
  by (simp add: getz_def)

lemma getz_update [simp]: "getz (AList.update k v m) j = (if j = k then v else getz m j)"
  by (simp add: getz_def)

lemma getz_bump [simp]: "getz (bump k v m) j = getz m j + (if j = k then v else 0)"
  by (simp add: bump_def)

lemma distinct_bump: "distinct (map fst m) \<Longrightarrow> distinct (map fst (bump k v m))"
  by (simp add: bump_def distinct_update)

lemma keys_update: "fst ` set (AList.update k v m) = insert k (fst ` set m)"
  using dom_update [of k v m] by (simp add: dom_map_of_conv_image_fst)

lemma getz_foldl_bump:
  "getz (foldl (\<lambda>m x. bump (f x) (g x) m) m xs) k = getz m k + (\<Sum>x\<leftarrow>xs. if f x = k then g x else 0)"
  by (induction xs arbitrary: m) auto

lemma distinct_foldl_bump:
  "distinct (map fst m) \<Longrightarrow> distinct (map fst (foldl (\<lambda>m x. bump (f x) (g x) m) m xs))"
  by (induction xs arbitrary: m) (auto simp: distinct_bump)

lemma keys_foldl_bump:
  "fst ` set (foldl (\<lambda>m x. bump (f x) (g x) m) m xs) = fst ` set m \<union> f ` set xs"
  by (induction xs arbitrary: m) (auto simp: bump_def keys_update)

lemma getz_mem: "distinct (map fst m) \<Longrightarrow> (k, v) \<in> set m \<Longrightarrow> getz m k = v"
  by (simp add: getz_def map_of_eq_Some_iff [THEN iffD2])

lemma getz_not_key: "k \<notin> fst ` set m \<Longrightarrow> getz m k = 0"
  by (simp add: getz_def map_of_eq_None_iff [THEN iffD2] split: option.splits)

section \<open>Running a step\<close>

text \<open>How a sequence goes on when its first step is known.\<close>

lemma lift_bind: "r = Inr x \<Longrightarrow> sbind (lift r) f s = f x s"
  by (simp add: sbind_def lift_def)

lemma act_bind: "m s = Inr (x, s') \<Longrightarrow> sbind m f s = f x s'"
  by (simp add: sbind_def)

lemma gets_bind: "sbind (gets g) f s = f (g s) s"
  by (simp add: sbind_def gets_def)

lemma ret_bind: "sbind (ret x) f s = f x s"
  by (simp add: sbind_def ret_def)

lemma modify_bind: "sbind (modify h) f s = f () (h s)"
  by (simp add: sbind_def modify_def)

end
