(* ===== verification/MoneyCore.thy ===== *)
theory MoneyCore
  imports Prelude "HOL-Library.Signed_Division" "HOL-Library.Multiset"
begin

text \<open>
  The vendored minor-unit arithmetic, src/money.vendored.ts: range checks, division with a named
  rounding mode, allocation over weights and basis points, and the decimal and wire text forms.
  A bigint is an \<open>int\<close>; BigInt division and remainder truncate, which is \<open>sdiv\<close> and \<open>smod\<close> of
  HOL-Library.Signed_Division. A throw of a TypeError or RangeError is a \<open>HostError\<close>.
\<close>

section \<open>Range check\<close>

definition I64_MIN :: int where "I64_MIN = - (2 ^ 63)"
definition I64_MAX :: int where "I64_MAX = 2 ^ 63 - 1"

definition in_i64 :: "int \<Rightarrow> bool" where
  "in_i64 m \<longleftrightarrow> I64_MIN \<le> m \<and> m \<le> I64_MAX"

definition checkI64 :: "int \<Rightarrow> int res" where
  "checkI64 minor = (if minor < I64_MIN \<or> minor > I64_MAX
     then Inl (HostError ''i64 overflow'') else Inr minor)"

lemma checkI64_Inr [simp]: "checkI64 m = Inr n \<longleftrightarrow> in_i64 m \<and> n = m"
  by (auto simp: checkI64_def in_i64_def)

lemma checkI64_Inl: "checkI64 m = Inl e \<longleftrightarrow> \<not> in_i64 m \<and> e = HostError ''i64 overflow''"
  by (auto simp: checkI64_def in_i64_def)

section \<open>Rounded division\<close>

datatype rounding = Floor | Ceil | Trunc | HalfEven | HalfUp

definition divRound :: "int \<Rightarrow> int \<Rightarrow> rounding \<Rightarrow> int res" where
  "divRound num den mode =
     (if den = 0 then Inl (HostError ''divRound: zero divisor'')
      else
        let q = num sdiv den; r = num smod den in
        if r = 0 then checkI64 q
        else
          let negative = ((num < 0) \<noteq> (den < 0)) in
          (case mode of
             Trunc \<Rightarrow> checkI64 q
           | Floor \<Rightarrow> checkI64 (if negative then q - 1 else q)
           | Ceil \<Rightarrow> checkI64 (if negative then q else q + 1)
           | _ \<Rightarrow>
               let twice = 2 * (if r < 0 then - r else r);
                   magnitude = (if den < 0 then - den else den);
                   step = (if negative then - 1 else 1) in
               if twice < magnitude then checkI64 q
               else if twice > magnitude then checkI64 (q + step)
               else if mode = HalfUp then checkI64 (q + step)
               else checkI64 (if q smod 2 = 0 then q else q + step)))"

definition mulDiv :: "int \<Rightarrow> int \<Rightarrow> int \<Rightarrow> rounding \<Rightarrow> int res" where
  "mulDiv v num den mode = divRound (v * num) den mode"

section \<open>Currency exponents and conversion\<close>

record vamount =
  vcurrency :: string
  vminor :: int

record vrate =
  vnum :: int
  vden :: int

definition EXPONENTS :: "(string \<times> nat) list" where
  "EXPONENTS =
     [(''BIF'', 0), (''CLP'', 0), (''DJF'', 0), (''GNF'', 0), (''ISK'', 0), (''JPY'', 0),
      (''KMF'', 0), (''KRW'', 0), (''PYG'', 0), (''RWF'', 0), (''UGX'', 0), (''UYI'', 0),
      (''VND'', 0), (''VUV'', 0), (''XAF'', 0), (''XOF'', 0), (''XPF'', 0), (''BHD'', 3),
      (''IQD'', 3), (''JOD'', 3), (''KWD'', 3), (''LYD'', 3), (''OMR'', 3), (''TND'', 3),
      (''CLF'', 4), (''UYW'', 4)]"

definition exponent :: "string \<Rightarrow> nat" where
  "exponent cur = (case map_of EXPONENTS cur of Some e \<Rightarrow> e | None \<Rightarrow> 2)"

definition vamount_of :: "string \<Rightarrow> int \<Rightarrow> vamount res" where
  "vamount_of cur minor = rbind (checkI64 minor) (\<lambda>m. Inr \<lparr>vcurrency = cur, vminor = m\<rparr>)"

definition vsame_currency :: "vamount \<Rightarrow> vamount \<Rightarrow> unit res" where
  "vsame_currency a b = ensure (vcurrency a = vcurrency b) (HostError ''currency mismatch'')"

definition vadd :: "vamount \<Rightarrow> vamount \<Rightarrow> vamount res" where
  "vadd a b = rbind (vsame_currency a b) (\<lambda>_. vamount_of (vcurrency a) (vminor a + vminor b))"

definition vsub :: "vamount \<Rightarrow> vamount \<Rightarrow> vamount res" where
  "vsub a b = rbind (vsame_currency a b) (\<lambda>_. vamount_of (vcurrency a) (vminor a - vminor b))"

definition vneg :: "vamount \<Rightarrow> vamount res" where
  "vneg a = vamount_of (vcurrency a) (- vminor a)"

definition vabs :: "vamount \<Rightarrow> vamount res" where
  "vabs a = (if vminor a < 0 then vneg a else Inr a)"

definition vmul :: "vamount \<Rightarrow> int \<Rightarrow> vamount res" where
  "vmul a k = vamount_of (vcurrency a) (vminor a * k)"

definition vcompare :: "vamount \<Rightarrow> vamount \<Rightarrow> int res" where
  "vcompare a b = rbind (vsame_currency a b)
     (\<lambda>_. Inr (if vminor a < vminor b then - 1 else if vminor a > vminor b then 1 else 0))"

definition vconvert :: "vamount \<Rightarrow> string \<Rightarrow> vrate \<Rightarrow> rounding \<Rightarrow> vamount res" where
  "vconvert a to r mode =
     rbind (ensure (\<not> vden r \<le> 0) (HostError ''convert: non-positive rate denominator'')) (\<lambda>_.
     rbind (ensure (\<not> vnum r < 0) (HostError ''convert: negative rate numerator'')) (\<lambda>_.
     let scaleTo = 10 ^ exponent to; scaleFrom = 10 ^ exponent (vcurrency a) in
     rbind (divRound (vminor a * vnum r * scaleTo) (vden r * scaleFrom) mode) (vamount_of to)))"

section \<open>Allocation\<close>

text \<open>
  \<open>hand_out\<close> is the loop that gives the remainder away, one unit per index of the order. The
  comparator (larger fraction first, ties to the lower index) applied to index-ordered entries is
  the stable sort by falling fraction.
\<close>

fun hand_out :: "nat list \<Rightarrow> int \<Rightarrow> int list \<Rightarrow> int list" where
  "hand_out [] remainder shares = shares"
| "hand_out (i # order) remainder shares =
     (if remainder = 0 then shares
      else hand_out order (remainder - 1) (shares[i := shares ! i + 1]))"

definition allocate_order :: "int list \<Rightarrow> nat list" where
  "allocate_order fracs = map fst (sort_key (\<lambda>(i, frac). - frac) (enumerate 0 fracs))"

definition allocate_pos :: "int \<Rightarrow> int list \<Rightarrow> int \<Rightarrow> int list" where
  "allocate_pos minor weights wsum =
     (let shares = map (\<lambda>w. (minor * w) sdiv wsum) weights;
          remainder = minor - sum_list shares;
          order = allocate_order (map (\<lambda>w. (minor * w) smod wsum) weights)
      in hand_out order remainder shares)"

definition allocate :: "int \<Rightarrow> int list \<Rightarrow> int list res" where
  "allocate minor weights =
     rbind (ensure (weights \<noteq> []) (HostError ''allocate: no weights'')) (\<lambda>_.
     rbind (reach (\<lambda>w. ensure (\<not> w < 0) (HostError ''allocate: negative weight'')) weights) (\<lambda>_.
     let wsum = sum_list weights in
     rbind (ensure (wsum \<noteq> 0) (HostError ''allocate: zero total weight'')) (\<lambda>_.
     if minor < 0 then Inr (map (\<lambda>s. - s) (allocate_pos (- minor) weights wsum))
     else Inr (allocate_pos minor weights wsum))))"

definition splitBps :: "int \<Rightarrow> int list \<Rightarrow> (int list \<times> int) res" where
  "splitBps minor bps =
     rbind (reach (\<lambda>share. ensure (\<not> share < 0) (HostError ''splitBps: bad bps'')) bps) (\<lambda>_.
     rbind (ensure (\<not> sum_list bps > 10000) (HostError ''splitBps: bps exceed 10000'')) (\<lambda>_.
     let shares = map (\<lambda>share. (minor * share) sdiv 10000) bps in
     Inr (shares, minor - sum_list shares)))"

section \<open>What the rounding modes compute\<close>

text \<open>The integer the modes choose, before the range check.\<close>

definition rounded :: "int \<Rightarrow> int \<Rightarrow> rounding \<Rightarrow> int" where
  "rounded num den mode =
     (let q = num sdiv den; r = num smod den; step = (if (num < 0) \<noteq> (den < 0) then - 1 else 1)
      in if r = 0 then q
         else case mode of
           Trunc \<Rightarrow> q
         | Floor \<Rightarrow> (if step < 0 then q + step else q)
         | Ceil \<Rightarrow> (if step < 0 then q else q + step)
         | _ \<Rightarrow> (if 2 * \<bar>r\<bar> < \<bar>den\<bar> then q
                 else if 2 * \<bar>r\<bar> > \<bar>den\<bar> \<or> mode = HalfUp \<or> odd q then q + step else q))"

lemma smod_2_zero_iff: "(q :: int) smod 2 = 0 \<longleftrightarrow> even q"
proof -
  have "q smod 2 = 0 \<longleftrightarrow> sgn q = 0 \<or> \<bar>q\<bar> mod 2 = 0" by (simp add: signed_modulo_int_def)
  also have "\<dots> \<longleftrightarrow> even q" by (auto simp: sgn_0_0 even_abs_add_iff even_iff_mod_2_eq_zero[symmetric])
  finally show ?thesis .
qed

lemma divRound_rounded: "den \<noteq> 0 \<Longrightarrow> divRound num den mode = checkI64 (rounded num den mode)"
  by (cases mode) (simp_all add: divRound_def rounded_def Let_def abs_if smod_2_zero_iff)

lemma smod_eq_0_iff: "num smod den = 0 \<longleftrightarrow> den dvd (num :: int)"
  by (auto simp: signed_modulo_int_def sgn_0_0 mod_eq_0_iff_dvd)

lemma trunc_facts:
  fixes num den :: int
  assumes "den \<noteq> 0"
  shows trunc_eq: "num = num sdiv den * den + num smod den"
    and trunc_rem_bound: "\<bar>num smod den\<bar> < \<bar>den\<bar>" 
    and trunc_rem_sign: "num smod den \<noteq> 0 \<Longrightarrow> (num smod den < 0) = (num < 0)"
    and trunc_floor: "num div den = num sdiv den -
       of_bool (num smod den \<noteq> 0 \<and> (num < 0) \<noteq> (den < 0))"
proof -
  show "num = num sdiv den * den + num smod den" by (simp add: sdiv_mult_smod_eq)
  show "\<bar>num smod den\<bar> < \<bar>den\<bar>" using assms by (simp add: signed_modulo_int_def abs_mult abs_sgn_eq)
  show "num smod den \<noteq> 0 \<Longrightarrow> (num smod den < 0) = (num < 0)"
    using assms by (auto simp: signed_modulo_int_def sgn_if mult_less_0_iff) (smt (verit) pos_mod_sign)+
  have "(num \<noteq> 0 \<Longrightarrow> (sgn num \<noteq> sgn den) = ((num < 0) \<noteq> (den < 0)))"
    using assms by (auto simp: sgn_if)
  then show "num div den = num sdiv den -
       of_bool (num smod den \<noteq> 0 \<and> (num < 0) \<noteq> (den < 0))"
    using assms by (auto simp: divide_int_eq_signed_divide_int smod_eq_0_iff)
qed

lemma trunc_ceil:
  fixes num den :: int
  assumes "den \<noteq> 0"
  shows "- ((- num) div den) = num sdiv den + of_bool (num smod den \<noteq> 0 \<and> (num < 0) = (den < 0))"
  using trunc_floor[OF assms, of "- num"] assms
  by (cases "num = 0") (auto simp: smod_eq_0_iff)

lemma rounded_floor: "den \<noteq> 0 \<Longrightarrow> rounded num den Floor = num div den"
  by (simp add: rounded_def trunc_floor Let_def)

lemma rounded_ceil: "den \<noteq> 0 \<Longrightarrow> rounded num den Ceil = - ((- num) div den)"
  by (simp add: rounded_def trunc_ceil Let_def)

lemma rounded_between:
  assumes "den \<noteq> 0"
  shows "num div den \<le> rounded num den mode \<and> rounded num den mode \<le> - ((- num) div den)"
  unfolding trunc_floor[OF assms] trunc_ceil[OF assms]
  by (cases mode) (auto simp: rounded_def Let_def)

lemma rounded_value:
  shows "num smod den = 0 \<Longrightarrow> rounded num den mode = num sdiv den"
    and "rounded num den mode = num sdiv den \<or>
         rounded num den mode = num sdiv den + (if (num < 0) \<noteq> (den < 0) then - 1 else 1)"
  by (cases mode; simp add: rounded_def Let_def)+

lemma residue:
  fixes num den :: int
  assumes "den \<noteq> 0" "s = (if (num < 0) \<noteq> (den < 0) then - 1 else 1)"  "num smod den \<noteq> 0"
  shows "\<bar>num - (num sdiv den + s) * den\<bar> = \<bar>den\<bar> - \<bar>num smod den\<bar>"
    "\<bar>(num sdiv den + s) * den\<bar> > \<bar>num\<bar>"
proof -
  let ?q = "num sdiv den" let ?r = "num smod den"
  have e: "num - (?q + s) * den = ?r - s * den" using trunc_eq[OF assms(1), of num] by (simp add: algebra_simps)
  show "\<bar>num - (?q + s) * den\<bar> = \<bar>den\<bar> - \<bar>?r\<bar>"
    unfolding e using assms trunc_rem_sign[OF assms(1,3)] trunc_rem_bound[OF assms(1), of num]
    by (auto split: if_splits)
  show "\<bar>(?q + s) * den\<bar> > \<bar>num\<bar>" 
    using e assms trunc_rem_sign[OF assms(1,3)] trunc_rem_bound[OF assms(1), of num]
    by (auto split: if_splits)
qed

lemma rounded_error:
  assumes "den \<noteq> 0"
  shows "\<bar>num - rounded num den mode * den\<bar> < \<bar>den\<bar>"
proof (cases "rounded num den mode = num sdiv den")
  case True
  then show ?thesis
    using trunc_rem_bound[OF assms, of num] by (simp add: minus_sdiv_mult_eq_smod)
next
  case False
  then have r: "num smod den \<noteq> 0" using rounded_value(1) by blast
  with False rounded_value(2)[of num den mode] residue(1)[OF assms refl r] show ?thesis by auto
qed

text \<open>The nearest modes miss by at most half a divisor, and break the tie their own way.\<close>

lemma rounded_nearest:
  assumes "den \<noteq> 0" and "mode = HalfEven \<or> mode = HalfUp"
  shows "2 * \<bar>num - rounded num den mode * den\<bar> \<le> \<bar>den\<bar>"
    and "2 * \<bar>num - rounded num den HalfEven * den\<bar> = \<bar>den\<bar> \<Longrightarrow> even (rounded num den HalfEven)"
    and "2 * \<bar>num - rounded num den HalfUp * den\<bar> = \<bar>den\<bar> \<Longrightarrow>
         \<bar>num\<bar> < \<bar>rounded num den HalfUp * den\<bar>"
proof -
  note eq = trunc_eq[OF assms(1), of num] and bd = trunc_rem_bound[OF assms(1), of num]
  have z: "num - num sdiv den * den = num smod den" using eq by linarith
  show "2 * \<bar>num - rounded num den mode * den\<bar> \<le> \<bar>den\<bar>"
  proof (cases "num smod den = 0")
    case True
    then show ?thesis using z by (simp add: rounded_value(1))
  next
    case False
    show ?thesis
      using assms(2)
    proof
      assume "mode = HalfEven"
      then show ?thesis
        using residue(1)[OF assms(1) refl False] False z by (auto simp: rounded_def Let_def)
    next
      assume "mode = HalfUp"
      then show ?thesis
        using residue(1)[OF assms(1) refl False] False z by (auto simp: rounded_def Let_def)
    qed
  qed
  show "even (rounded num den HalfEven)" if t: "2 * \<bar>num - rounded num den HalfEven * den\<bar> = \<bar>den\<bar>"
  proof (cases "num smod den = 0")
    case True
    then show ?thesis using t z assms(1) by (simp add: rounded_value(1))
  next
    case False
    show ?thesis
      using t residue(1)[OF assms(1) refl False] False z by (auto simp: rounded_def Let_def split: if_splits)
  qed
  show "\<bar>num\<bar> < \<bar>rounded num den HalfUp * den\<bar>"
    if t: "2 * \<bar>num - rounded num den HalfUp * den\<bar> = \<bar>den\<bar>"
  proof (cases "num smod den = 0")
    case True
    then show ?thesis using t z assms(1) by (simp add: rounded_value(1))
  next
    case False
    show ?thesis
      using t residue[OF assms(1) refl False] False z by (auto simp: rounded_def Let_def split: if_splits)
  qed
qed

lemma rounded_trunc:
  assumes "den \<noteq> 0"
  shows "\<bar>rounded num den Trunc * den\<bar> \<le> \<bar>num\<bar>"
proof -
  have "rounded num den Trunc = num sdiv den" by (simp add: rounded_def Let_def)
  moreover have "\<bar>num sdiv den * den\<bar> = \<bar>num\<bar> div \<bar>den\<bar> * \<bar>den\<bar> * \<bar>sgn num\<bar>" 
    using assms by (auto simp: signed_divide_int_def abs_mult abs_sgn_eq pos_imp_zdiv_nonneg_iff abs_of_nonneg)
  ultimately show ?thesis using assms by (auto simp: abs_sgn_eq minus_mod_eq_div_mult[symmetric])
qed

section \<open>Allocation loses no unit\<close>

lemma length_hand_out [simp]: "length (hand_out order rem sh) = length sh"
  by (induction order rem sh rule: hand_out.induct) auto

lemma hand_out_nth:
  assumes "distinct order" "set order \<subseteq> {..<length sh}" "0 \<le> rem" "i < length sh"
  shows "hand_out order rem sh ! i = sh ! i + of_bool (i \<in> set (take (nat rem) order))"
  using assms
proof (induction order rem sh rule: hand_out.induct)
  case (1 rem sh)
  then show ?case by simp
next
  case (2 k order rem sh)
  show ?case
  proof (cases "rem = 0")
    case False
    with 2(4) have r: "nat rem = Suc (nat (rem - 1))" by arith
    have "k \<notin> set (take (nat (rem - 1)) order)" using 2(2) by (meson distinct.simps(2) in_set_takeD)
    then show ?thesis using 2 False r by (auto simp: nth_list_update)
  qed simp
qed

lemma allocate_order_perm:
  "distinct (allocate_order fracs)" "set (allocate_order fracs) = {..<length fracs}"
proof -
  have m: "mset (allocate_order fracs) = mset [0..<length fracs]"
    unfolding allocate_order_def mset_map mset_sort by (simp flip: mset_map)
  then show "distinct (allocate_order fracs)" by (metis distinct_upt mset_eq_imp_distinct_iff)
  from m show "set (allocate_order fracs) = {..<length fracs}"
    by (metis atLeast_upt mset_eq_setD)
qed

lemma allocate_order_length [simp]: "length (allocate_order fracs) = length fracs"
  by (simp add: allocate_order_def)

lemma allocate_order_falling:
  assumes "j \<le> k" "k < length fracs"
  shows "fracs ! (allocate_order fracs ! k) \<le> fracs ! (allocate_order fracs ! j)"
proof -
  let ?s = "sort_key (\<lambda>(i, frac). - frac) (enumerate 0 fracs)"
  have nth: "fracs ! (allocate_order fracs ! i) = snd (?s ! i)" if "i < length fracs" for i
  proof -
    have "?s ! i \<in> set ?s" using that by (intro nth_mem) simp
    then have "?s ! i \<in> set (enumerate 0 fracs)" by simp
    then show ?thesis using that by (auto simp: allocate_order_def in_set_enumerate_eq)
  qed
  have "sorted (map (\<lambda>(i, frac). - frac) ?s)" by simp
  from sorted_nth_mono[OF this assms(1)] assms show ?thesis 
    by (simp add: nth split_beta)
qed

lemma sum_hand_out:
  assumes "distinct order" "set order \<subseteq> {..<length sh}" "0 \<le> rem" "rem \<le> int (length order)"
  shows "sum_list (hand_out order rem sh) = sum_list sh + rem"
proof -
  let ?T = "set (take (nat rem) order)"
  have T: "?T \<subseteq> {..<length sh}" using assms(2) by (meson set_take_subset subset_trans)
  have "sum_list (hand_out order rem sh) = (\<Sum>i<length sh. sh ! i + of_bool (i \<in> ?T))"
    by (simp add: sum_list_sum_nth atLeast0LessThan hand_out_nth[OF assms(1-3)])
  also have "\<dots> = sum_list sh + (\<Sum>i<length sh. of_bool (i \<in> ?T))"
    by (simp add: sum.distrib sum_list_sum_nth atLeast0LessThan)
  also have "(\<Sum>i<length sh. of_bool (i \<in> ?T)) = int (card ?T)"
    using T by (simp add: sum.If_cases of_bool_def Int_absorb1 Int_commute)
  also have "card ?T = nat rem"
    using assms by (subst distinct_card) auto
  finally show ?thesis using assms(3) by simp
qed

text \<open>The three accepted-input facts: what the guards of \<open>allocate\<close> leave.\<close>

lemma allocate_pos_facts:
  fixes minor wsum :: int
  assumes "0 \<le> minor" "\<forall>w \<in> set weights. 0 \<le> w" "wsum = sum_list weights" "0 < wsum"
  defines "fl \<equiv> map (\<lambda>w. (minor * w) div wsum) weights"
    and "fr \<equiv> map (\<lambda>w. (minor * w) mod wsum) weights"
  defines "rem \<equiv> minor - sum_list fl"
  shows "allocate_pos minor weights wsum = hand_out (allocate_order fr) rem fl"
    and "rem * wsum = sum_list fr" and "0 \<le> rem" and "rem \<le> int (length weights)"
    and "\<And>j. j < nat rem \<Longrightarrow> 0 < fr ! (allocate_order fr ! j)"
proof -
  have sd: "(minor * w) sdiv wsum = (minor * w) div wsum" "(minor * w) smod wsum = (minor * w) mod wsum"
    if "w \<in> set weights" for w
    using that assms(1,2,4) by (auto simp: signed_divide_int_def signed_modulo_int_def sgn_if zero_less_mult_iff mult_less_0_iff)
  then have *: "map (\<lambda>w. (minor * w) sdiv wsum) weights = fl" "map (\<lambda>w. (minor * w) smod wsum) weights = fr"
    by (simp_all add: fl_def fr_def)
  show "allocate_pos minor weights wsum = hand_out (allocate_order fr) rem fl"
    by (simp add: allocate_pos_def * rem_def)
  have "sum_list fl * wsum + sum_list fr = sum_list (map (\<lambda>w. minor * w) weights)"
    unfolding fl_def fr_def by (induction weights) (auto simp: algebra_simps)
  also have "\<dots> = minor * wsum" unfolding assms(3) by (simp add: sum_list_const_mult)
  finally show e: "rem * wsum = sum_list fr" by (simp add: rem_def algebra_simps)
  have frb: "0 \<le> f \<and> f \<le> wsum - 1" if "f \<in> set fr" for f using that assms(4) by (auto simp: fr_def)
  then have "0 \<le> sum_list fr" by (auto intro: sum_list_nonneg)
  with e assms(4) show rem0: "0 \<le> rem" by (metis zero_le_mult_iff less_le_not_le)
  have le_mult: "sum_list xs \<le> int (length xs) * (wsum - 1)" if "\<forall>f \<in> set xs. f \<le> wsum - 1" for xs
    using that by (induction xs) (auto simp: algebra_simps)
  have "rem * wsum \<le> int (length fr) * (wsum - 1)" using le_mult[of fr] frb e by auto
  also have "\<dots> \<le> int (length fr) * wsum" by (simp add: mult_left_mono)
  finally show rl: "rem \<le> int (length weights)" using assms(4) by (simp add: fr_def)
  show "0 < fr ! (allocate_order fr ! j)" if j: "j < nat rem" for j
  proof (rule ccontr)
    let ?o = "allocate_order fr"
    assume "\<not> 0 < fr ! (?o ! j)"
    have jl: "j < length fr" using j rl by (simp add: fr_def)
    have inb: "?o ! k < length fr" if "k < length fr" for k
      using that allocate_order_perm(2)[of fr] nth_mem[of k ?o] by simp
    have z: "fr ! (?o ! k) = 0" if "j \<le> k" "k < length fr" for k
      using allocate_order_falling[OF that] \<open>\<not> 0 < fr ! (?o ! j)\<close> frb[of "fr ! (?o ! k)"] inb[OF that(2)] by force
    have "sum_list fr = sum_list (map (\<lambda>i. fr ! i) ?o)"
    proof -
      have "mset ?o = mset [0..<length fr]"
        using allocate_order_perm[of fr] by (metis atLeast_upt distinct_upt set_eq_iff_mset_eq_distinct)
      then have "mset (map (\<lambda>i. fr ! i) ?o) = mset (map (\<lambda>i. fr ! i) [0..<length fr])" by (simp only: mset_map)
      then show ?thesis by (metis map_nth sum_mset_sum_list)
    qed
    also have "\<dots> = sum_list (map (\<lambda>i. fr ! i) (take j ?o)) + sum_list (map (\<lambda>i. fr ! i) (drop j ?o))"
      by (metis append_take_drop_id map_append sum_list_append)
    also have "sum_list (map (\<lambda>i. fr ! i) (drop j ?o)) = 0"
    proof -
      have "map (\<lambda>i. fr ! i) (drop j ?o) = replicate (length fr - j) 0"
        by (rule nth_equalityI) (use z in auto)
      then show ?thesis by (simp add: sum_list_replicate)
    qed
    also have "sum_list (map (\<lambda>i. fr ! i) (take j ?o)) \<le> int j * (wsum - 1)"
    proof -
      have "\<forall>f \<in> set (map (\<lambda>i. fr ! i) (take j ?o)). f \<le> wsum - 1"
        using allocate_order_perm(2)[of fr] frb by (auto dest!: in_set_takeD)
      from le_mult[OF this] show ?thesis using jl by simp
    qed
    finally have "rem * wsum \<le> int j * (wsum - 1)" using e by simp
    also have "\<dots> \<le> int j * wsum" by (simp add: mult_left_mono)
    finally have "rem \<le> int j" using assms(4) by simp
    with j show False by simp
  qed
qed

lemma allocate_Inr:
  assumes "allocate minor weights = Inr shares"
  shows "\<forall>w \<in> set weights. 0 \<le> w" and "0 < sum_list weights"
    and "shares = (if minor < 0 then map uminus (allocate_pos (- minor) weights (sum_list weights))
                   else allocate_pos minor weights (sum_list weights))"
proof -
  from assms have w: "\<forall>w \<in> set weights. \<not> w < 0" and n: "sum_list weights \<noteq> 0"
    by (auto simp: allocate_def Let_def)
  then show "\<forall>w \<in> set weights. 0 \<le> w" by auto
  then have "0 \<le> sum_list weights" by (auto intro!: sum_list_nonneg)
  with n show "0 < sum_list weights" by simp
  show "shares = (if minor < 0 then map uminus (allocate_pos (- minor) weights (sum_list weights))
                   else allocate_pos minor weights (sum_list weights))"
    using assms by (auto simp: allocate_def Let_def split: if_splits)
qed

lemma allocate_pos_sum:
  assumes "0 \<le> minor" "\<forall>w \<in> set weights. 0 \<le> w" "0 < sum_list weights"
  shows "sum_list (allocate_pos minor weights (sum_list weights)) = minor"
    and "length (allocate_pos minor weights (sum_list weights)) = length weights"
proof -
  note f = allocate_pos_facts[OF assms(1,2) refl assms(3)]
  show "sum_list (allocate_pos minor weights (sum_list weights)) = minor"
    unfolding f(1) by (subst sum_hand_out) (use f allocate_order_perm in auto)
  show "length (allocate_pos minor weights (sum_list weights)) = length weights"
    unfolding f(1) by simp
qed

text \<open>Every share is its exact proportion to within less than one unit.\<close>

lemma allocate_pos_quota:
  assumes "0 \<le> minor" "\<forall>w \<in> set weights. 0 \<le> w" "0 < sum_list weights" "i < length weights"
  shows "\<bar>allocate_pos minor weights (sum_list weights) ! i * sum_list weights - minor * weights ! i\<bar>
    < sum_list weights"
proof -
  note f = allocate_pos_facts[OF assms(1,2) refl assms(3)]
  let ?W = "sum_list weights"
  let ?fr = "map (\<lambda>w. (minor * w) mod ?W) weights"
  let ?x = "minor * weights ! i"
  have sh: "allocate_pos minor weights ?W ! i = ?x div ?W + of_bool (i \<in> set (take
      (nat (minor - sum_list (map (\<lambda>w. (minor * w) div ?W) weights))) (allocate_order ?fr)))"
    unfolding f(1) by (subst hand_out_nth) (use f allocate_order_perm assms in auto)
  have m: "?x div ?W * ?W = ?x - ?x mod ?W" by (simp add: minus_mod_eq_div_mult)
  have b: "0 \<le> ?x mod ?W" "?x mod ?W < ?W" using assms(3) by auto
  show ?thesis
  proof (cases "i \<in> set (take (nat (minor - sum_list (map (\<lambda>w. (minor * w) div ?W) weights))) (allocate_order ?fr))")
    case True
    then have "0 < ?fr ! i" using f(5) f(4) by (auto simp: in_set_conv_nth)
    then have "0 < ?x mod ?W" using assms(4) by simp
    with True b show ?thesis unfolding sh by (simp add: distrib_right m)
  next
    case False
    with b show ?thesis unfolding sh by (simp add: m)
  qed
qed

section \<open>Properties\<close>

text \<open>
  (C32) A rounded division that returns, returns a 64-bit value less than one unit away from the exact
  quotient, between its floor and its ceiling; floor and ceil return exactly those, trunc rounds
  toward zero, and the two half modes return a nearest integer, halfEven an even one on a tie and
  halfUp the one further from zero.
\<close>

theorem divRound_correct:
  assumes "divRound num den mode = Inr q"
  shows "den \<noteq> 0 \<and> in_i64 q \<and> \<bar>num - q * den\<bar> < \<bar>den\<bar> \<and> num div den \<le> q \<and> q \<le> - ((- num) div den) \<and>
    (mode = Floor \<longrightarrow> q = num div den) \<and> (mode = Ceil \<longrightarrow> q = - ((- num) div den)) \<and>
    (mode = Trunc \<longrightarrow> \<bar>q * den\<bar> \<le> \<bar>num\<bar>) \<and>
    (mode \<in> {HalfEven, HalfUp} \<longrightarrow> 2 * \<bar>num - q * den\<bar> \<le> \<bar>den\<bar>) \<and>
    (mode = HalfEven \<and> 2 * \<bar>num - q * den\<bar> = \<bar>den\<bar> \<longrightarrow> even q) \<and>
    (mode = HalfUp \<and> 2 * \<bar>num - q * den\<bar> = \<bar>den\<bar> \<longrightarrow> \<bar>num\<bar> < \<bar>q * den\<bar>)"
proof -
  have d: "den \<noteq> 0" using assms by (auto simp: divRound_def)
  then have q: "in_i64 q" "q = rounded num den mode" using assms by (auto simp: divRound_rounded)
  show ?thesis
    using d q rounded_error [OF d] rounded_between [OF d] rounded_floor [OF d] rounded_ceil [OF d]
      rounded_trunc [OF d] rounded_nearest(1) [OF d] rounded_nearest(2) [OF d, of HalfEven num]
      rounded_nearest(3) [OF d, of HalfUp num] by (auto simp: q(2))
qed

theorem divRound_correct_witness:
  "divRound (- 7) 2 HalfEven = Inr (- 4) \<and> in_i64 (- 4) \<and> even (- 4 :: int)"
proof -
  have "divRound (- 7) 2 HalfEven = Inr (- 4)" by code_simp
  from this divRound_correct [OF this] show ?thesis by simp
qed

text \<open>
  (C33) An allocation that returns hands out the amount exactly: the shares sum to it, there is one
  per weight, and each differs from its exact proportion by less than one unit.
\<close>

theorem allocate_exact:
  assumes "allocate m weights = Inr shares"
  shows "sum_list shares = m \<and> length shares = length weights \<and>
    (\<forall>i < length weights. \<bar>shares ! i * sum_list weights - m * weights ! i\<bar> < sum_list weights)"
proof -
  note a = allocate_Inr [OF assms]
  show ?thesis
  proof (cases "m < 0")
    case True
    then have n: "0 \<le> - m" by simp
    have neg: "sum_list (map uminus xs) = - sum_list xs" for xs :: "int list" by (induction xs) auto
    have "\<bar>- s * w - m * v\<bar> = \<bar>s * w - - m * v\<bar>" for s w v :: int
      using abs_minus_cancel [of "s * w + m * v"] by simp
    then show ?thesis
      using a(3) True allocate_pos_sum [OF n a(1,2)] allocate_pos_quota [OF n a(1,2)] by (simp add: neg)
  next
    case False
    then show ?thesis
      using a(3) allocate_pos_sum [OF _ a(1,2)] allocate_pos_quota [OF _ a(1,2)] by simp
  qed
qed

theorem allocate_exact_witness:
  "allocate (- 100) [1, 1, 1] = Inr [- 34, - 33, - 33] \<and> sum_list [- 34, - 33, - 33 :: int] = - 100"
proof -
  have "allocate (- 100) [1, 1, 1] = Inr [- 34, - 33, - 33]" by code_simp
  from this allocate_exact [OF this] show ?thesis by simp
qed

end
