(* ===== verification/MoneyText.thy ===== *)
theory MoneyText
  imports MoneyCore
begin

text \<open>
  The text forms of src/money.vendored.ts: decimal digits, \<open>format\<close> and \<open>parse\<close>, and the canonical
  wire form \<open>encode\<close> and \<open>decode\<close>. Each regular expression of the source is a recogniser written
  out over the character list; a failed match is \<open>None\<close>, as the source's null.
\<close>

section \<open>Decimal digits\<close>

definition digit_char :: "nat \<Rightarrow> char" where
  "digit_char d = char_of (48 + d)"

definition char_digit :: "char \<Rightarrow> nat" where
  "char_digit c = of_char c - 48"

definition is_digit :: "char \<Rightarrow> bool" where
  "is_digit c \<longleftrightarrow> 48 \<le> (of_char c :: nat) \<and> (of_char c :: nat) \<le> 57"

text \<open>\<open>BigInt.toString\<close> on a natural number, and \<open>BigInt(text)\<close> on a digit string.\<close>

fun nat_text :: "nat \<Rightarrow> string" where
  "nat_text n = (if n < 10 then [digit_char n] else nat_text (n div 10) @ [digit_char (n mod 10)])"

declare nat_text.simps [simp del]

definition int_text :: "int \<Rightarrow> string" where
  "int_text i = (if i < 0 then ''-'' @ nat_text (nat (- i)) else nat_text (nat i))"

definition digits_val :: "string \<Rightarrow> nat" where
  "digits_val s = foldl (\<lambda>acc c. acc * 10 + char_digit c) 0 s"

definition padStart :: "nat \<Rightarrow> string \<Rightarrow> string" where
  "padStart n s = replicate (n - length s) CHR ''0'' @ s"

definition padEnd :: "nat \<Rightarrow> string \<Rightarrow> string" where
  "padEnd n s = s @ replicate (n - length s) CHR ''0''"

section \<open>format and parse\<close>

text \<open>
  A separator goes before every group of three digits counted from the right, never first. (A
  separator with a dollar sign, which \<open>replace\<close> would expand, is outside the model; the callers
  pass a comma or nothing.)
\<close>

fun group3 :: "string \<Rightarrow> string \<Rightarrow> string" where
  "group3 g [] = []"
| "group3 g (c # cs) = c # (if cs \<noteq> [] \<and> length cs mod 3 = 0 then g @ group3 g cs else group3 g cs)"

definition format :: "int \<Rightarrow> nat \<Rightarrow> string \<Rightarrow> string \<Rightarrow> string" where
  "format minor exp grp decimal =
     (let sign = (if minor < 0 then ''-'' else []);
          digits = padStart (exp + 1) (nat_text (nat (if minor < 0 then - minor else minor)));
          whole = (if exp = 0 then digits else take (length digits - exp) digits);
          grouped = group3 grp whole
      in if exp = 0 then sign @ grouped
         else sign @ grouped @ decimal @ drop (length digits - exp) digits)"

fun comma_groups :: "string \<Rightarrow> bool" where
  "comma_groups [] = True"
| "comma_groups (c # a # b # d # rest) =
     (c = CHR '','' \<and> is_digit a \<and> is_digit b \<and> is_digit d \<and> comma_groups rest)"
| "comma_groups _ = False"

text \<open>The whole part of the number: digits, or one to three digits and comma groups.\<close>

definition whole_ok :: "string \<Rightarrow> bool" where
  "whole_ok w \<longleftrightarrow> (w \<noteq> [] \<and> list_all is_digit w) \<or>
     (let h = takeWhile is_digit w; t = dropWhile is_digit w
      in 1 \<le> length h \<and> length h \<le> 3 \<and> t \<noteq> [] \<and> comma_groups t)"

definition parse_match :: "string \<Rightarrow> (bool \<times> string \<times> string option) option" where
  "parse_match text =
     (let neg = (case text of c # _ \<Rightarrow> c = CHR ''-'' | [] \<Rightarrow> False);
          body = (if neg then tl text else text);
          whole = takeWhile (\<lambda>c. c \<noteq> CHR ''.'') body;
          rest = dropWhile (\<lambda>c. c \<noteq> CHR ''.'') body
      in if \<not> whole_ok whole then None
         else case rest of
             [] \<Rightarrow> Some (neg, whole, None)
           | _ # frac \<Rightarrow> (if frac \<noteq> [] \<and> list_all is_digit frac
                           then Some (neg, whole, Some frac) else None))"

definition parse :: "string \<Rightarrow> nat \<Rightarrow> int option" where
  "parse text exp =
     (case parse_match text of
        None \<Rightarrow> None
      | Some (neg, wholeRaw, fraction) \<Rightarrow>
          (if (case fraction of None \<Rightarrow> False | Some f \<Rightarrow> exp = 0 \<or> length f > exp) then None
           else
             let whole = filter (\<lambda>c. c \<noteq> CHR '','') wholeRaw;
                 scaled = int (digits_val (whole @ padEnd exp (case fraction of None \<Rightarrow> [] | Some f \<Rightarrow> f)));
                 minor = (if neg then - scaled else scaled)
             in if minor < I64_MIN \<or> minor > I64_MAX then None else Some minor))"

section \<open>encode and decode\<close>

definition is_upper :: "char \<Rightarrow> bool" where
  "is_upper c \<longleftrightarrow> 65 \<le> (of_char c :: nat) \<and> (of_char c :: nat) \<le> 90"

definition currency_ok :: "string \<Rightarrow> bool" where
  "currency_ok cur \<longleftrightarrow> 3 \<le> length cur \<and> length cur \<le> 12 \<and> list_all is_upper cur"

definition canonical_int :: "string \<Rightarrow> bool" where
  "canonical_int s \<longleftrightarrow> s = ''0'' \<or>
     (let d = (case s of c # cs \<Rightarrow> if c = CHR ''-'' then cs else s | [] \<Rightarrow> [])
      in d \<noteq> [] \<and> hd d \<noteq> CHR ''0'' \<and> list_all is_digit d)"

definition encode :: "vamount \<Rightarrow> string res" where
  "encode a =
     rbind (ensure (currency_ok (vcurrency a)) (HostError ''encode: bad currency'')) (\<lambda>_.
     rbind (checkI64 (vminor a)) (\<lambda>m. Inr (vcurrency a @ '':'' @ int_text m)))"

definition text_int :: "string \<Rightarrow> int" where
  "text_int s = (case s of c # cs \<Rightarrow> if c = CHR ''-'' then - int (digits_val cs) else int (digits_val s)
                  | [] \<Rightarrow> 0)"

definition decode :: "string \<Rightarrow> vamount option" where
  "decode text =
     (let cur = takeWhile (\<lambda>c. c \<noteq> CHR '':'') text;
          rest = dropWhile (\<lambda>c. c \<noteq> CHR '':'') text
      in if currency_ok cur \<and> rest \<noteq> [] \<and> canonical_int (tl rest)
         then let minor = text_int (tl rest)
              in if minor < I64_MIN \<or> minor > I64_MAX then None
                 else Some \<lparr>vcurrency = cur, vminor = minor\<rparr>
         else None)"

section \<open>The digits of a number\<close>

lemma digit_char_simps [simp]:
  "digit_char 0 = CHR ''0''" "digit_char 1 = CHR ''1''" "digit_char 2 = CHR ''2''"
  "digit_char 3 = CHR ''3''" "digit_char 4 = CHR ''4''" "digit_char 5 = CHR ''5''"
  "digit_char 6 = CHR ''6''" "digit_char 7 = CHR ''7''" "digit_char 8 = CHR ''8''"
  "digit_char 9 = CHR ''9''"
  by (simp_all add: digit_char_def char_of_def bit_Suc_0_iff)

lemma char_digit_digit_char: "d < 10 \<Longrightarrow> char_digit (digit_char d) = d"
  by (simp add: char_digit_def digit_char_def of_char_of)

lemma is_digit_digit_char: "d < 10 \<Longrightarrow> is_digit (digit_char d)"
  by (simp add: is_digit_def digit_char_def of_char_of)

lemma digit_char_char_digit: "is_digit c \<Longrightarrow> digit_char (char_digit c) = c"
  by (simp add: is_digit_def digit_char_def char_digit_def)

lemma char_digit_less: "is_digit c \<Longrightarrow> char_digit c < 10"
  by (auto simp: is_digit_def char_digit_def)

lemma char_digit_0: "is_digit c \<Longrightarrow> char_digit c = 0 \<longleftrightarrow> c = CHR ''0''"
  using digit_char_char_digit [of c] by (auto simp: char_digit_def)

lemma not_digit_sep [simp]:
  "\<not> is_digit CHR ''-''" "\<not> is_digit CHR '':''" "\<not> is_digit CHR '',''" "\<not> is_digit CHR ''.''"
  by (simp_all add: is_digit_def)

lemma digits_val_Nil [simp]: "digits_val [] = 0"
  by (simp add: digits_val_def)

lemma digits_val_snoc [simp]: "digits_val (s @ [c]) = digits_val s * 10 + char_digit c"
  by (simp add: digits_val_def)

lemma digits_val_append: "digits_val (s @ t) = digits_val s * 10 ^ length t + digits_val t"
proof (induction t rule: rev_induct)
  case (snoc c t)
  then show ?case
    using digits_val_snoc [of "s @ t" c] by (simp add: algebra_simps)
qed simp

lemma digits_val_zeros [simp]: "digits_val (replicate n CHR ''0'') = 0"
  by (induction n) (simp_all add: replicate_append_same [symmetric] char_digit_def)

lemma nat_text_digits: "list_all is_digit (nat_text n) \<and> nat_text n \<noteq> [] \<and> digits_val (nat_text n) = n"
proof (induction n rule: nat_text.induct)
  case (1 n)
  show ?case
  proof (cases "n < 10")
    case True
    then show ?thesis
      using digits_val_snoc [of "[]" "digit_char n"]
      by (simp add: nat_text.simps is_digit_digit_char char_digit_digit_char)
  next
    case False
    then show ?thesis
      using 1 by (subst (1 2 3) nat_text.simps) (simp add: is_digit_digit_char char_digit_digit_char)
  qed
qed

lemmas nat_text_is_digits = nat_text_digits [THEN conjunct1]
  and nat_text_nonempty [simp] = nat_text_digits [THEN conjunct2, THEN conjunct1]
  and digits_val_nat_text [simp] = nat_text_digits [THEN conjunct2, THEN conjunct2]

lemma digits_val_pos: "list_all is_digit s \<Longrightarrow> s \<noteq> [] \<Longrightarrow> hd s \<noteq> CHR ''0'' \<Longrightarrow> 0 < digits_val s"
proof (induction s rule: rev_induct)
  case (snoc c s)
  show ?case
  proof (cases "s = []")
    case True
    then have "char_digit c \<noteq> 0" using snoc.prems by (simp add: char_digit_0)
    then show ?thesis by simp
  next
    case False
    then have "0 < digits_val s" using snoc by simp
    then show ?thesis by simp
  qed
qed simp

text \<open>A digit string with no leading zero is the decimal form of its value.\<close>

lemma nat_text_digits_val:
  "list_all is_digit s \<Longrightarrow> s \<noteq> [] \<Longrightarrow> hd s \<noteq> CHR ''0'' \<Longrightarrow> nat_text (digits_val s) = s"
proof (induction s rule: rev_induct)
  case (snoc c s)
  have c: "is_digit c" using snoc.prems by simp
  show ?case
  proof (cases "s = []")
    case True
    with c show ?thesis
      by (subst nat_text.simps) (simp add: char_digit_less digit_char_char_digit digits_val_def)
  next
    case False
    with snoc.prems have s: "list_all is_digit s" "hd s \<noteq> CHR ''0''" by auto
    have "0 < digits_val s" by (rule digits_val_pos [OF s(1) False s(2)])
    then show ?thesis
      using snoc.IH [OF s(1) False s(2)] char_digit_less [OF c] c
      by (subst nat_text.simps) (simp add: digit_char_char_digit)
  qed
qed simp

lemma hd_nat_text: "n \<noteq> 0 \<Longrightarrow> hd (nat_text n) \<noteq> CHR ''0''"
proof (induction n rule: nat_text.induct)
  case (1 n)
  show ?case
  proof (cases "n < 10")
    case True
    have "digit_char n \<noteq> CHR ''0''"
      using True 1 char_digit_digit_char [of n] by (auto simp: char_digit_def)
    then show ?thesis using True by (simp add: nat_text.simps)
  next
    case False
    then show ?thesis using 1 by (subst nat_text.simps) simp
  qed
qed

lemma digit_not_minus: "is_digit c \<Longrightarrow> c \<noteq> CHR ''-''"
  by auto

lemma nat_text_hd_digit: "is_digit (hd (nat_text n))"
  using nat_text_is_digits [of n] nat_text_nonempty [of n] by (cases "nat_text n") auto

lemma text_int_int_text [simp]: "text_int (int_text i) = i"
proof -
  obtain c cs where c: "nat_text (nat i) = c # cs" "c \<noteq> CHR ''-''"
    using nat_text_nonempty [of "nat i"] nat_text_hd_digit [of "nat i"]
    by (cases "nat_text (nat i)") (auto dest: digit_not_minus)
  moreover have "digits_val (c # cs) = nat i" using digits_val_nat_text [of "nat i"] c by simp
  ultimately show ?thesis
    by (auto simp: text_int_def int_text_def)
qed

lemma canonical_int_int_text [simp]: "canonical_int (int_text i)"
proof (cases "i < 0")
  case True
  then show ?thesis
    using hd_nat_text [of "nat (- i)"] nat_text_is_digits [of "nat (- i)"]
    by (simp add: canonical_int_def int_text_def)
next
  case False
  show ?thesis
  proof (cases "i = 0")
    case True
    then show ?thesis by (simp add: canonical_int_def int_text_def nat_text.simps)
  next
    case nz: False
    obtain c cs where c: "nat_text (nat i) = c # cs" "is_digit c" "list_all is_digit cs"
      using nat_text_nonempty [of "nat i"] nat_text_is_digits [of "nat i"] by (cases "nat_text (nat i)") auto
    then show ?thesis
      using False nz hd_nat_text [of "nat i"] by (auto simp: canonical_int_def int_text_def)
  qed
qed

lemma int_text_text_int:
  assumes "canonical_int s"
  shows "int_text (text_int s) = s"
proof (cases "s = ''0''")
  case True
  then show ?thesis by (simp add: text_int_def int_text_def nat_text.simps digits_val_def char_digit_def)
next
  case False
  then obtain c cs where s: "s = c # cs" using assms by (cases s) (auto simp: canonical_int_def)
  show ?thesis
  proof (cases "c = CHR ''-''")
    case True
    with assms s have cs: "cs \<noteq> []" "hd cs \<noteq> CHR ''0''" "list_all is_digit cs"
      by (auto simp: canonical_int_def)
    have "0 < digits_val cs" by (rule digits_val_pos [OF cs(3,1,2)])
    then show ?thesis
      using True s nat_text_digits_val [OF cs(3,1,2)] by (simp add: text_int_def int_text_def)
  next
    case nm: False
    with assms s False have "list_all is_digit s" "s \<noteq> []" "hd s \<noteq> CHR ''0''"
      by (auto simp: canonical_int_def)
    from nat_text_digits_val [OF this] show ?thesis
      using nm s by (simp add: text_int_def int_text_def)
  qed
qed

section \<open>Round trips\<close>

lemma upper_not_colon: "list_all is_upper s \<Longrightarrow> CHR '':'' \<notin> set s"
  by (auto simp: list_all_iff is_upper_def)

text \<open>The wire form is exactly the image of encode: decode and encode are inverse to each other.\<close>

lemma decode_Some_iff_encode: "decode t = Some a \<longleftrightarrow> encode a = Inr t"
proof
  assume d: "decode t = Some a"
  define cur where "cur = takeWhile (\<lambda>c. c \<noteq> CHR '':'') t"
  define rest where "rest = dropWhile (\<lambda>c. c \<noteq> CHR '':'') t"
  have t: "t = cur @ rest" by (simp add: cur_def rest_def)
  have *: "currency_ok cur" "rest \<noteq> []" "canonical_int (tl rest)" "in_i64 (text_int (tl rest))"
    "a = \<lparr>vcurrency = cur, vminor = text_int (tl rest)\<rparr>"
    using d by (auto simp: decode_def Let_def cur_def rest_def in_i64_def split: if_splits)
  moreover have "hd rest = CHR '':''"
    using hd_dropWhile [of "\<lambda>c. c \<noteq> CHR '':''" t] *(2) by (simp add: rest_def)
  then have "rest = CHR '':'' # tl rest" using *(2) by (cases rest) auto
  ultimately show "encode a = Inr t"
    by (simp add: encode_def int_text_text_int t)
next
  assume e: "encode a = Inr t"
  then have *: "currency_ok (vcurrency a)" "in_i64 (vminor a)"
    "t = vcurrency a @ CHR '':'' # int_text (vminor a)"
    by (auto simp: encode_def)
  have "\<forall>c \<in> set (vcurrency a). c \<noteq> CHR '':''"
    using *(1) upper_not_colon by (auto simp: currency_ok_def)
  then have "takeWhile (\<lambda>c. c \<noteq> CHR '':'') t = vcurrency a"
    "dropWhile (\<lambda>c. c \<noteq> CHR '':'') t = CHR '':'' # int_text (vminor a)"
    by (simp_all add: *(3) takeWhile_append2 dropWhile_append2)
  then show "decode t = Some a"
    using * by (auto simp: decode_def Let_def in_i64_def)
qed

lemma takeWhile_sep: "x \<notin> set xs \<Longrightarrow> takeWhile (\<lambda>c. c \<noteq> x) (xs @ x # ys) = xs"
  by (induction xs) auto

lemma dropWhile_sep: "x \<notin> set xs \<Longrightarrow> dropWhile (\<lambda>c. c \<noteq> x) (xs @ x # ys) = x # ys"
  by (induction xs) auto

lemma group3_none [simp]: "group3 [] w = w"
  by (induction w) auto

definition comma_tail :: "string \<Rightarrow> string" where
  "comma_tail cs = (if cs = [] then [] else CHR '','' # group3 '','' cs)"

lemma group3_Cons:
  "group3 '','' (c # cs) = c # (if length cs mod 3 = 0 then comma_tail cs else group3 '','' cs)"
  by (auto simp: comma_tail_def)

lemma group3_three:
  assumes "length cs mod 3 = 0"
  shows "group3 '','' (a # cs) = a # comma_tail cs"
    "group3 '','' (b # a # cs) = b # a # comma_tail cs"
    "group3 '','' (d # b # a # cs) = d # b # a # comma_tail cs"
proof -
  have "Suc (length cs) mod 3 \<noteq> 0" "Suc (Suc (length cs)) mod 3 \<noteq> 0"
    using assms by presburger+
  then show "group3 '','' (a # cs) = a # comma_tail cs"
    "group3 '','' (b # a # cs) = b # a # comma_tail cs"
    "group3 '','' (d # b # a # cs) = d # b # a # comma_tail cs"
    using assms by (simp_all add: group3_Cons del: group3.simps)
qed

lemma comma_tail_ok:
  "length cs mod 3 = 0 \<Longrightarrow> list_all is_digit cs \<Longrightarrow>
   comma_groups (comma_tail cs) \<and> filter (\<lambda>c. c \<noteq> CHR '','') (comma_tail cs) = cs"
proof (induction "length cs" arbitrary: cs rule: less_induct)
  case less
  show ?case
  proof (cases "cs = []")
    case True then show ?thesis by (simp add: comma_tail_def)
  next
    case False
    with less.prems(1) have "3 \<le> length cs" by (cases cs; cases "tl cs"; cases "tl (tl cs)") auto
    then obtain a b d r where cs: "cs = a # b # d # r"
      by (cases cs; cases "tl cs"; cases "tl (tl cs)") auto
    have r: "length r mod 3 = 0" using less.prems(1) by (simp add: cs mod_Suc split: if_splits)
    have "comma_tail cs = CHR '','' # a # b # d # comma_tail r"
      by (simp add: comma_tail_def [of "a # b # d # r"] cs group3_three [OF r] del: group3.simps)
    then show ?thesis
      using less.hyps [of r] less.prems r by (auto simp: cs)
  qed
qed

lemma group3_split:
  assumes "w \<noteq> []" "list_all is_digit w"
  obtains h t where "w = h @ t" "group3 '','' w = h @ comma_tail t" "1 \<le> length h" "length h \<le> 3"
    "length t mod 3 = 0" "list_all is_digit h" "list_all is_digit t"
proof -
  define k where "k = (if length w mod 3 = 0 then 3 else length w mod 3)"
  have "0 < n \<Longrightarrow> 1 \<le> (if n mod 3 = 0 then 3 else n mod 3) \<and> (if n mod 3 = 0 then 3 else n mod 3) \<le> 3 \<and>
    (if n mod 3 = 0 then 3 else n mod 3) \<le> n \<and> (n - (if n mod 3 = 0 then 3 else n mod 3)) mod 3 = 0"
    for n :: nat by presburger
  from this [of "length w"] assms(1)
  have k: "1 \<le> k" "k \<le> 3" "k \<le> length w" "(length w - k) mod 3 = 0"
    by (simp_all add: k_def)
  define h where "h = take k w"
  define t where "t = drop k w"
  have w: "w = h @ t" by (simp add: h_def t_def)
  have ht: "length h = k" "length t mod 3 = 0" using k by (simp_all add: h_def t_def)
  have d: "list_all is_digit h" "list_all is_digit t" using assms(2) by (simp_all add: w)
  have "group3 '','' w = h @ comma_tail t"
  proof -
    consider "length h = 1" | "length h = 2" | "length h = 3" using ht k by linarith
    then show ?thesis
      by cases (auto simp: w length_Suc_conv numeral_2_eq_2 numeral_3_eq_3
          group3_three [OF ht(2)] simp del: group3.simps)
  qed
  from that [OF w this _ _ ht(2) d] k ht show ?thesis by simp
qed

lemma whole_ok_grouped:
  assumes "w \<noteq> []" "list_all is_digit w" "g = [] \<or> g = '','' "
  shows "whole_ok (group3 g w)" "filter (\<lambda>c. c \<noteq> CHR '','') (group3 g w) = w"
    "CHR ''.'' \<notin> set (group3 g w)" "group3 g w \<noteq> []" "is_digit (hd (group3 g w))"
proof -
  have digits: "filter (\<lambda>c. c \<noteq> CHR '','') s = s" "CHR ''.'' \<notin> set s" if "list_all is_digit s" for s
    using that by (auto simp: list_all_iff intro!: filter_True)
  have "whole_ok (group3 g w) \<and> filter (\<lambda>c. c \<noteq> CHR '','') (group3 g w) = w \<and>
    CHR ''.'' \<notin> set (group3 g w) \<and> group3 g w \<noteq> [] \<and> is_digit (hd (group3 g w))"
  proof (cases "g = []")
    case True
    then show ?thesis using assms digits [of w] by (cases w) (auto simp: whole_ok_def)
  next
    case False
    then have g: "g = '',''" using assms(3) by simp
    obtain h t where s: "w = h @ t" "group3 '','' w = h @ comma_tail t" "1 \<le> length h" "length h \<le> 3"
      "length t mod 3 = 0" "list_all is_digit h" "list_all is_digit t"
      by (rule group3_split [OF assms(1,2)])
    have c: "comma_groups (comma_tail t)" "filter (\<lambda>c. c \<noteq> CHR '','') (comma_tail t) = t"
      using comma_tail_ok [OF s(5,7)] by auto
    have "CHR ''.'' \<notin> set (filter (\<lambda>c. c \<noteq> CHR '','') (comma_tail t))"
      using digits(2) [OF s(7)] by (simp only: c(2) not_False_eq_True)
    then have dot: "CHR ''.'' \<notin> set (comma_tail t)" by simp
    have "takeWhile is_digit (h @ comma_tail t) = h \<and> dropWhile is_digit (h @ comma_tail t) = comma_tail t"
      using s(6) by (auto simp: comma_tail_def list_all_iff takeWhile_append2 dropWhile_append2)
    then have "whole_ok (h @ comma_tail t)"
      using s c by (cases "comma_tail t = []") (auto simp: whole_ok_def Let_def)
    moreover have "h \<noteq> [] \<and> is_digit (hd h)" using s(3,6) by (cases h) auto
    ultimately show ?thesis
      using s(6) digits [OF s(6)] dot by (simp add: g s(2) c(2)) (simp add: s(1))
  qed
  then show "whole_ok (group3 g w)" "filter (\<lambda>c. c \<noteq> CHR '','') (group3 g w) = w"
    "CHR ''.'' \<notin> set (group3 g w)" "group3 g w \<noteq> []" "is_digit (hd (group3 g w))" by auto
qed

text \<open>Parsing undoes formatting, grouped or not, at every exponent; out of range is refused.\<close>

lemma parse_format:
  assumes "g = [] \<or> g = '',''"
  shows "parse (format m e g ''.'') e = (if in_i64 m then Some m else None)"
proof -
  define u where "u = nat (if m < 0 then - m else m)"
  define ds where "ds = padStart (e + 1) (nat_text u)"
  define w where "w = (if e = 0 then ds else take (length ds - e) ds)"
  define f where "f = drop (length ds - e) ds"
  define body where "body = group3 g w @ (if e = 0 then [] else CHR ''.'' # f)"
  have ds: "list_all is_digit ds" "digits_val ds = u" "e + 1 \<le> length ds"
    using nat_text_is_digits [of u]
    by (auto simp: ds_def padStart_def digits_val_append list_all_iff is_digit_def)
  have w: "w \<noteq> []" "list_all is_digit w" and wf: "e \<noteq> 0 \<Longrightarrow> w @ f = ds"
    and f: "list_all is_digit f" "length f = e"
    using ds by (auto simp: w_def f_def list_all_iff dest: in_set_takeD in_set_dropD)
  note wo = whole_ok_grouped [OF w assms]
  have fmt: "format m e g ''.'' = (if m < 0 then ''-'' else []) @ body"
    by (simp add: format_def Let_def body_def w_def f_def ds_def u_def)
  have body: "takeWhile (\<lambda>c. c \<noteq> CHR ''.'') body = group3 g w"
    "dropWhile (\<lambda>c. c \<noteq> CHR ''.'') body = (if e = 0 then [] else CHR ''.'' # f)"
    using wo(3) by (auto simp: body_def takeWhile_eq_all_conv takeWhile_sep dropWhile_sep)
  obtain c cs where cb: "body = c # cs" "c \<noteq> CHR ''-''"
    using wo(4,5) by (cases "group3 g w") (auto simp: body_def dest: digit_not_minus)
  have mt: "parse_match (format m e g ''.'') = Some (m < 0, group3 g w, if e = 0 then None else Some f)"
    using wo(1) f w cb body by (auto simp: parse_match_def fmt Let_def)
  have dv: "digits_val (w @ padEnd e (case if e = 0 then None else Some f of None \<Rightarrow> [] | Some f \<Rightarrow> f)) = u"
    using ds(2) wf f(2) by (cases "e = 0") (auto simp: padEnd_def w_def)
  have fits: "\<not> (case if e = 0 then None else Some f of None \<Rightarrow> False | Some f \<Rightarrow> e = 0 \<or> e < length f)"
    using f(2) by simp
  have m: "(if m < 0 then - int u else int u) = m" by (simp add: u_def)
  show ?thesis
    unfolding parse_def mt option.case prod.case if_not_P [OF fits] Let_def wo(2) dv m
    by (simp add: in_i64_def)
qed

section \<open>Properties\<close>

text \<open>
  (C35) Parsing undoes formatting: at every exponent, with comma groups or without, the decimal text
  of a minor-unit count parses back to that count exactly when it fits 64 bits, and is refused
  otherwise.
\<close>

theorem parse_undoes_format:
  "parse (format m e (if grouped then '','' else []) ''.'') e = (if in_i64 m then Some m else None)"
  by (rule parse_format) auto

text \<open>
  The canonical wire is one encoding per value: a text decodes to an amount exactly when that
  amount encodes to that text, so each is the inverse of the other on its valid domain.
\<close>

theorem decode_inverse_of_encode: "decode t = Some a \<longleftrightarrow> encode a = Inr t"
  by (rule decode_Some_iff_encode)

end
