(* ===== verification/Money.thy ===== *)
theory Money
  imports MoneyText
begin

text \<open>
  src/money.ts: the ledger's money. An \<open>Amount\<close> is a currency and a signed count of minor units
  that fits 64 bits; every construction goes through \<open>toAmount\<close>. The file's own strict wire form
  (\<open>CREDIT:12.34\<close>) and the conversions at a rate are modelled on the vendored arithmetic.
\<close>

section \<open>Amounts\<close>

datatype currency = CREDIT | USD

record amount =
  currency :: currency
  minor :: int

record rate =
  rate :: int
  scale :: nat
  rateId :: string

definition FRACTION_DIGITS :: nat where "FRACTION_DIGITS = 2"
definition SCALE :: int where "SCALE = 100"

definition toAmount :: "currency \<Rightarrow> int \<Rightarrow> amount res" where
  "toAmount c m =
     (if m < I64_MIN \<or> m > I64_MAX then Inl (fault AMOUNT_OVERFLOW)
      else Inr \<lparr>currency = c, minor = m\<rparr>)"

definition isZero :: "amount \<Rightarrow> bool" where "isZero a \<longleftrightarrow> minor a = 0"
definition isNegative :: "amount \<Rightarrow> bool" where "isNegative a \<longleftrightarrow> minor a < 0"

definition assertSameCurrency :: "amount \<Rightarrow> amount \<Rightarrow> unit res" where
  "assertSameCurrency a b = ensure (currency a = currency b) (fault CURRENCY_MISMATCH)"

definition add :: "amount \<Rightarrow> amount \<Rightarrow> amount res" where
  "add a b = rbind (assertSameCurrency a b) (\<lambda>_. toAmount (currency a) (minor a + minor b))"

definition negate :: "amount \<Rightarrow> amount res" where
  "negate a = toAmount (currency a) (- minor a)"

definition compare :: "amount \<Rightarrow> amount \<Rightarrow> int res" where
  "compare a b = rbind (assertSameCurrency a b) (\<lambda>_.
     Inr (if minor a < minor b then - 1 else if minor a > minor b then 1 else 0))"

definition zero_amount :: "currency \<Rightarrow> amount" where
  "zero_amount c = \<lparr>currency = c, minor = 0\<rparr>"

text \<open>\<open>credits\<close> on a bigint or a safe integer; a fractional number is refused before this.\<close>

definition credits :: "int \<Rightarrow> amount res" where
  "credits whole = toAmount CREDIT (whole * SCALE)"

section \<open>The wire form\<close>

definition currency_text :: "currency \<Rightarrow> string" where
  "currency_text c = (case c of CREDIT \<Rightarrow> ''CREDIT'' | USD \<Rightarrow> ''USD'')"

definition isCurrency :: "string \<Rightarrow> currency option" where
  "isCurrency s = (if s = ''CREDIT'' then Some CREDIT else if s = ''USD'' then Some USD else None)"

definition encodeAmount :: "amount \<Rightarrow> string" where
  "encodeAmount a =
     currency_text (currency a) @ '':'' @ format (minor a) FRACTION_DIGITS [] ''.''"

definition decodeAmount :: "string \<Rightarrow> currency \<Rightarrow> amount res" where
  "decodeAmount decimal c =
     (case (if CHR '','' \<in> set decimal then None else parse decimal FRACTION_DIGITS) of
        None \<Rightarrow> Inl (fault INVALID_AMOUNT)
      | Some m \<Rightarrow> toAmount c m)"

definition usd :: "string \<Rightarrow> amount res" where
  "usd decimal = decodeAmount decimal USD"

definition requirePositiveCredit :: "amount \<Rightarrow> amount res" where
  "requirePositiveCredit a =
     rbind (ensure (currency a = CREDIT) (fault MALFORMED_OPERATION)) (\<lambda>_.
     rbind (ensure (0 < minor a) (fault INVALID_AMOUNT)) (\<lambda>_. Inr a))"

text \<open>The currency is what stands before the first colon; a colon at the start is no currency.\<close>

definition decodeAmountWire :: "string \<Rightarrow> amount res" where
  "decodeAmountWire encoded =
     (let pre = takeWhile (\<lambda>c. c \<noteq> CHR '':'') encoded;
          post = dropWhile (\<lambda>c. c \<noteq> CHR '':'') encoded;
          cur = (if post \<noteq> [] \<and> pre \<noteq> [] then pre else [])
      in case isCurrency cur of
           None \<Rightarrow> Inl (fault INVALID_AMOUNT)
         | Some c \<Rightarrow> decodeAmount (tl post) c)"

section \<open>Rates\<close>

definition rateGte :: "rate \<Rightarrow> rate \<Rightarrow> bool" where
  "rateGte a b \<longleftrightarrow> rate a * 10 ^ scale b \<ge> rate b * 10 ^ scale a"

definition convertMinor :: "int \<Rightarrow> rate \<Rightarrow> rounding \<Rightarrow> int res" where
  "convertMinor m r mode =
     (case mulDiv m (rate r) (10 ^ scale r) mode of
        Inl _ \<Rightarrow> Inl (fault AMOUNT_OVERFLOW) | Inr q \<Rightarrow> Inr q)"

definition convertFloor :: "amount \<Rightarrow> rate \<Rightarrow> currency \<Rightarrow> amount res" where
  "convertFloor a r to = rbind (convertMinor (minor a) r Floor) (toAmount to)"

definition convertCeil :: "amount \<Rightarrow> rate \<Rightarrow> currency \<Rightarrow> amount res" where
  "convertCeil a r to = rbind (convertMinor (minor a) r Ceil) (toAmount to)"

section \<open>JSON-shaped values\<close>

text \<open>
  What a metadata bag or a stored operation holds: JSON, with the two shapes JSON has not (a raw
  bigint and a branded amount) and JavaScript's undefined. An object is its entries in order.
\<close>

datatype json =
    JUndef
  | JNull
  | JBool bool
  | JNum int
  | JStr string
  | JBigint int
  | JAmount amount
  | JArr "json list"
  | JObj "(string \<times> json) list"


definition tryDecodeAmountString :: "string \<Rightarrow> amount option" where
  "tryDecodeAmountString wire =
     (if CHR '':'' \<notin> set wire then None
      else case decodeAmountWire wire of Inl _ \<Rightarrow> None | Inr a \<Rightarrow> Some a)"


section \<open>Lemmas on amounts\<close>

lemma toAmount_Inr [simp]: "toAmount c m = Inr a \<longleftrightarrow> in_i64 m \<and> a = \<lparr>currency = c, minor = m\<rparr>"
  by (auto simp: toAmount_def in_i64_def)

lemma toAmount_ok: "in_i64 m \<Longrightarrow> toAmount c m = Inr \<lparr>currency = c, minor = m\<rparr>"
  by simp

lemma toAmount_Inl: "toAmount c m = Inl e \<longleftrightarrow> \<not> in_i64 m \<and> e = fault AMOUNT_OVERFLOW"
  by (auto simp: toAmount_def in_i64_def)

lemma add_Inr [simp]:
  "add a b = Inr c \<longleftrightarrow> currency a = currency b \<and> in_i64 (minor a + minor b) \<and>
     c = \<lparr>currency = currency a, minor = minor a + minor b\<rparr>"
  by (auto simp: add_def assertSameCurrency_def)

lemma negate_Inr [simp]:
  "negate a = Inr b \<longleftrightarrow> in_i64 (- minor a) \<and> b = \<lparr>currency = currency a, minor = - minor a\<rparr>"
  by (simp add: negate_def)

lemma zero_amount_sel [simp]: "currency (zero_amount c) = c" "minor (zero_amount c) = 0"
  by (simp_all add: zero_amount_def)

lemma zero_in_i64 [simp]: "in_i64 0"
  by (simp add: in_i64_def I64_MIN_def I64_MAX_def)

lemma zero_amount_toAmount: "toAmount c 0 = Inr (zero_amount c)"
  by (simp add: zero_amount_def)

lemma amount_eq_iff: "(a :: amount) = b \<longleftrightarrow> currency a = currency b \<and> minor a = minor b"
  by (cases a; cases b) auto

lemma requirePositiveCredit_Inr [simp]:
  "requirePositiveCredit a = Inr b \<longleftrightarrow> b = a \<and> currency a = CREDIT \<and> 0 < minor a"
  by (auto simp: requirePositiveCredit_def)

section \<open>The wire form round trips\<close>

lemma currency_text_no_sep: "CHR '':'' \<notin> set (currency_text c)" "currency_text c \<noteq> []"
  by (cases c; simp add: currency_text_def)+

lemma isCurrency_text [simp]: "isCurrency (currency_text c) = Some c"
  by (cases c) (simp_all add: isCurrency_def currency_text_def)

lemma isCurrency_Some: "isCurrency s = Some c \<longleftrightarrow> s = currency_text c"
  by (cases c) (auto simp: isCurrency_def currency_text_def)

lemma nat_text_no_comma: "CHR '','' \<notin> set (nat_text n)"
  using nat_text_is_digits [of n] by (auto simp: list_all_iff)

lemma format_no_comma: "CHR '','' \<notin> set (format m e [] ''.'')"
  using nat_text_no_comma
  by (auto simp: format_def Let_def padStart_def dest: in_set_takeD in_set_dropD)

lemma decodeAmount_format:
  "decodeAmount (format m FRACTION_DIGITS [] ''.'') c =
     (if in_i64 m then Inr \<lparr>currency = c, minor = m\<rparr> else Inl (fault INVALID_AMOUNT))"
  by (simp add: decodeAmount_def format_no_comma parse_format)

lemma decodeAmountWire_encode:
  "decodeAmountWire (encodeAmount a) = (if in_i64 (minor a) then Inr a else Inl (fault INVALID_AMOUNT))"
  using currency_text_no_sep [of "currency a"]
  by (simp add: decodeAmountWire_def encodeAmount_def takeWhile_sep dropWhile_sep decodeAmount_format)

lemma encodeAmount_inj:
  assumes "encodeAmount a = encodeAmount b" "in_i64 (minor a)"
  shows "a = b"
proof -
  have "decodeAmountWire (encodeAmount b) = Inr a"
    using decodeAmountWire_encode [of a] assms by simp
  then show ?thesis
    using decodeAmountWire_encode [of b] by (auto split: if_splits)
qed

lemma encodeAmount_colon: "CHR '':'' \<in> set (encodeAmount a)"
  by (simp add: encodeAmount_def)

lemma tryDecode_encode [simp]:
  "in_i64 (minor a) \<Longrightarrow> tryDecodeAmountString (encodeAmount a) = Some a"
  by (simp only: tryDecodeAmountString_def decodeAmountWire_encode encodeAmount_colon if_True
      not_True_eq_False if_False sum.case)



section \<open>Conversions are exact\<close>

lemma convertFloor_value:
  "convertFloor a r to =
     (let q = minor a * rate r div 10 ^ scale r
      in if in_i64 q then Inr \<lparr>currency = to, minor = q\<rparr> else Inl (fault AMOUNT_OVERFLOW))"
  by (simp add: convertFloor_def convertMinor_def mulDiv_def divRound_rounded rounded_floor
      checkI64_def toAmount_def in_i64_def Let_def)

lemma convertCeil_value:
  "convertCeil a r to =
     (let q = - (- (minor a * rate r) div 10 ^ scale r)
      in if in_i64 q then Inr \<lparr>currency = to, minor = q\<rparr> else Inl (fault AMOUNT_OVERFLOW))"
  by (simp add: convertCeil_def convertMinor_def mulDiv_def divRound_rounded rounded_ceil
      checkI64_def toAmount_def in_i64_def Let_def)

section \<open>Properties\<close>

text \<open>
  A ledger amount survives the wire: decoding its encoding returns the same currency and the
  same count, for every storable amount, and refuses an amount outside 64 bits.
\<close>

theorem amount_wire_roundtrip:
  "decodeAmountWire (encodeAmount a) = (if in_i64 (minor a) then Inr a else Inl (fault INVALID_AMOUNT))"
  by (rule decodeAmountWire_encode)

text \<open>
  Conversion at a rate is exact rounding in the named direction: convertFloor returns the floor
  of minor * rate / 10^scale and convertCeil its ceiling, for either sign, and a result outside 64
  bits is the overflow fault, whatever the intermediate product.
\<close>

theorem conversions_round_exactly:
  "convertFloor a r to =
     (if in_i64 (minor a * rate r div 10 ^ scale r)
      then Inr \<lparr>currency = to, minor = minor a * rate r div 10 ^ scale r\<rparr>
      else Inl (fault AMOUNT_OVERFLOW)) \<and>
   convertCeil a r to =
     (if in_i64 (- (- (minor a * rate r) div 10 ^ scale r))
      then Inr \<lparr>currency = to, minor = - (- (minor a * rate r) div 10 ^ scale r)\<rparr>
      else Inl (fault AMOUNT_OVERFLOW))"
  by (simp only: convertFloor_value convertCeil_value Let_def)



end
