(* ===== verification/Contract.thy ===== *)
theory Contract
  imports Money
begin

text \<open>
  The shared types of src/contract.ts and src/ports.ts: principals, the Operation union, legs,
  postings and transactions, rejections and outcomes. An account reference is a string. A number
  that reaches the engine from a caller and is checked there is a \<open>jsnum\<close>; timestamps and basis
  points the code computes with are integers. A field of the source that may be absent is an option.
\<close>

type_synonym AccountRef = string

datatype jsnum = NInt int | NFrac int | NPosInf | NNegInf | NNaN

text \<open>\<open>NFrac n\<close> stands for any non-integral number with floor \<open>n\<close>.\<close>

definition num_isInteger :: "jsnum \<Rightarrow> bool" where
  "num_isInteger x = (case x of NInt _ \<Rightarrow> True | _ \<Rightarrow> False)"

definition num_isFinite :: "jsnum \<Rightarrow> bool" where
  "num_isFinite x = (case x of NInt _ \<Rightarrow> True | NFrac _ \<Rightarrow> True | _ \<Rightarrow> False)"

definition num_le :: "jsnum \<Rightarrow> int \<Rightarrow> bool" where
  "num_le x n = (case x of NInt i \<Rightarrow> i \<le> n | NFrac i \<Rightarrow> i < n | NNegInf \<Rightarrow> True | _ \<Rightarrow> False)"

definition num_gt :: "jsnum \<Rightarrow> int \<Rightarrow> bool" where
  "num_gt x n = (case x of NInt i \<Rightarrow> n < i | NFrac i \<Rightarrow> n \<le> i | NPosInf \<Rightarrow> True | _ \<Rightarrow> False)"

definition num_floor :: "jsnum \<Rightarrow> int" where
  "num_floor x = (case x of NInt i \<Rightarrow> i | NFrac i \<Rightarrow> i | _ \<Rightarrow> 0)"

section \<open>Operations\<close>

datatype principal = UserActor string | SystemActor string | OperatorActor string

record recipient =
  sellerId :: string
  shareBps :: int

record ent_attrs =
  quantity :: "jsnum option"
  eversion :: "jsnum option"
  eexpiresAt :: "jsnum option"
  esource :: "string option"

text \<open>
  One constructor per operation kind, with its own fields in the order contract.ts lists them.
\<close>

datatype payload =
    TopUp "string" "amount" "string"
  | Spend "string" "string" "string" "amount" "recipient list" "bool" "string option"
  | Refund "string" "string option"
  | Clawback "string" "amount" "string option" "string option" "string option"
  | RequestPayout "string" "amount"
  | Subscribe "string" "string" "string" "amount" "jsnum"
  | CancelSubscription "string"
  | GrantEntitlement "string" "string" "ent_attrs option"
  | RevokeEntitlement "string" "string" "string option"
  | GrantPromo "string" "amount" "jsnum"
  | Adjust "AccountRef" "amount" "string"
  | Reverse "string" "string"
  | ReversePayout "string" "string" "string" "bool"
  | SettlePayout "string" "string" "amount option"

record operation =
  idempotencyKey :: string
  actor :: principal
  payload :: payload

section \<open>Postings and outcomes\<close>

record leg =
  account :: AccountRef
  amount :: amount

type_synonym meta = "(string \<times> json) list"

record posting =
  txnId :: string
  legs :: "leg list"
  meta :: meta

record link =
  laccount :: AccountRef
  prevHash :: string
  lhash :: string

text \<open>A committed posting; the source's \<open>id\<close> is the posting's \<open>txnId\<close>.\<close>

record transaction = posting +
  postedAt :: int
  links :: "link list"

datatype risk_window = Inflow | Outflow | BothFlows

datatype rejection =
    INSUFFICIENT_FUNDS AccountRef amount amount
  | FUNDS_IMMATURE string int
  | RISK_DENIED risk_window int
  | DUPLICATE_ORDER string
  | UNKNOWN_ORDER string
  | NOT_ENTITLED string string
  | UNKNOWN_SUBSCRIPTION string
  | ALREADY_SUBSCRIBED string string
  | BELOW_MINIMUM amount amount
  | PAYOUT_TOO_SOON int
  | PAYEE_UNVERIFIED string
  | ECONOMY_PAUSED "int option"

datatype outcome = Committed transaction | Duplicate transaction | Rejected rejection

section \<open>JavaScript string helpers\<close>

text \<open>The parts around the first and around the last occurrence of a separator.\<close>

definition split_first :: "char \<Rightarrow> string \<Rightarrow> (string \<times> string) option" where
  "split_first c s =
     (if c \<in> set s then Some (takeWhile (\<lambda>x. x \<noteq> c) s, tl (dropWhile (\<lambda>x. x \<noteq> c) s)) else None)"

definition split_last :: "char \<Rightarrow> string \<Rightarrow> (string \<times> string) option" where
  "split_last c s = map_option (\<lambda>(a, b). (rev b, rev a)) (split_first c (rev s))"

definition starts_with :: "string \<Rightarrow> string \<Rightarrow> bool" where
  "starts_with p s \<longleftrightarrow> take (length p) s = p"

text \<open>JavaScript white space among the code units below 256, as \<open>trim\<close> strips it.\<close>

definition is_space :: "char \<Rightarrow> bool" where
  "is_space c \<longleftrightarrow> (of_char c :: nat) \<in> {9, 10, 11, 12, 13, 32, 160}"

definition blank :: "string \<Rightarrow> bool" where
  "blank s \<longleftrightarrow> list_all is_space s"

lemma split_first_append: "c \<notin> set a \<Longrightarrow> split_first c (a @ c # b) = Some (a, b)"
  by (simp add: split_first_def takeWhile_sep dropWhile_sep)

lemma split_first_None [simp]: "split_first c s = None \<longleftrightarrow> c \<notin> set s"
  by (simp add: split_first_def)

lemma split_first_Some:
  "split_first c s = Some (a, b) \<Longrightarrow> s = a @ c # b \<and> c \<notin> set a"
proof -
  assume s: "split_first c s = Some (a, b)"
  then have c: "c \<in> set s" by (auto simp: split_first_def split: if_splits)
  then obtain ys zs where "s = ys @ c # zs" "c \<notin> set ys" by (meson split_list_first)
  then show ?thesis using s split_first_append by fastforce
qed

lemma split_last_append: "c \<notin> set b \<Longrightarrow> split_last c (a @ c # b) = Some (a, b)"
  using split_first_append [of c "rev b" "rev a"] by (simp add: split_last_def)

lemma split_last_None [simp]: "split_last c s = None \<longleftrightarrow> c \<notin> set s"
  by (simp add: split_last_def)

lemma split_last_Some: "split_last c s = Some (a, b) \<Longrightarrow> s = a @ c # b \<and> c \<notin> set b"
  by (auto simp: split_last_def dest!: split_first_Some)
    (metis append.assoc append_Cons append_Nil rev.simps(2) rev_append rev_rev_ident)

lemma starts_with_append [simp]: "starts_with p (p @ s)"
  by (simp add: starts_with_def)

lemma starts_with_longer: "starts_with p s \<Longrightarrow> starts_with p (s @ t)"
proof -
  assume a: "starts_with p s"
  then have "length p \<le> length s"
    unfolding starts_with_def by (metis length_take min.cobounded1)
  with a show ?thesis by (simp add: starts_with_def)
qed

end
