(* ===== verification/Config.thy ===== *)
theory Config
  imports Contract
begin

text \<open>
  src/env.ts and src/config.ts: the parse rules of environment values and the policy object every
  component reads. An environment is an association list (an unset name has no entry), a record
  with string keys such as the maturity horizons is an association list, a knob that may be absent
  is an option. A JavaScript number read from the environment is a safe integer, hence an \<open>int\<close>.
\<close>

section \<open>Parse rules (src/env.ts)\<close>

type_synonym env_map = "(string \<times> string) list"

definition MAX_SAFE_INTEGER :: int where "MAX_SAFE_INTEGER = 2 ^ 53 - 1"

definition all_digits :: "string \<Rightarrow> bool" where
  "all_digits s \<longleftrightarrow> s \<noteq> [] \<and> list_all is_digit s"

text \<open>The value of a text matching \<open>-?\\d+\<close>; parseInt rounds beyond 2^53, where it is unsafe anyway.\<close>

definition readIntOrNull :: "string option \<Rightarrow> int \<Rightarrow> int \<Rightarrow> int option" where
  "readIntOrNull value lo hi =
     (case value of
        None \<Rightarrow> None
      | Some v \<Rightarrow>
          (let neg = starts_with ''-'' v; body = (if neg then tl v else v) in
           if \<not> all_digits body then None
           else let parsed = (if neg then - int (digits_val body) else int (digits_val body)) in
             if \<bar>parsed\<bar> > MAX_SAFE_INTEGER then None
             else if lo \<le> parsed \<and> parsed \<le> hi then Some parsed else None))"

definition readInt :: "string option \<Rightarrow> int \<Rightarrow> int \<Rightarrow> int \<Rightarrow> int" where
  "readInt value fallback lo hi = (case readIntOrNull value lo hi of Some n \<Rightarrow> n | None \<Rightarrow> fallback)"

definition readBigIntOrNull :: "string option \<Rightarrow> int option" where
  "readBigIntOrNull value =
     (case value of None \<Rightarrow> None
      | Some v \<Rightarrow> (if all_digits v then Some (int (digits_val v)) else None))"

definition readBigInt :: "string option \<Rightarrow> int \<Rightarrow> int" where
  "readBigInt value fallback = (case readBigIntOrNull value of Some n \<Rightarrow> n | None \<Rightarrow> fallback)"

definition readUrl :: "string option \<Rightarrow> string option" where
  "readUrl value = (case value of None \<Rightarrow> None | Some v \<Rightarrow> if v = [] then None else Some v)"

definition readEnum :: "string option \<Rightarrow> string list \<Rightarrow> string \<Rightarrow> string" where
  "readEnum value allowed fallback =
     (case value of Some v \<Rightarrow> if v \<in> set allowed then v else fallback | None \<Rightarrow> fallback)"

definition trim :: "string \<Rightarrow> string" where
  "trim s = rev (dropWhile is_space (rev (dropWhile is_space s)))"

fun split_on :: "char \<Rightarrow> string \<Rightarrow> string list" where
  "split_on c [] = [[]]"
| "split_on c (x # xs) =
     (if x = c then [] # split_on c xs
      else case split_on c xs of [] \<Rightarrow> [[x]] | p # ps \<Rightarrow> (x # p) # ps)"

definition readList :: "string option \<Rightarrow> string list" where
  "readList value =
     filter (\<lambda>s. s \<noteq> []) (map trim (split_on CHR '','' (case value of Some v \<Rightarrow> v | None \<Rightarrow> [])))"

definition readFlag :: "string option \<Rightarrow> bool" where
  "readFlag value \<longleftrightarrow> value = Some ''1'' \<or> value = Some ''true''"

definition isProduction :: "env_map \<Rightarrow> bool" where
  "isProduction env \<longleftrightarrow> map_of env ''NODE_ENV'' = Some ''production''"

definition isPostgresUrl :: "string \<Rightarrow> bool" where
  "isPostgresUrl url \<longleftrightarrow> starts_with ''postgres://'' url \<or> starts_with ''postgresql://'' url"

definition isMysqlUrl :: "string \<Rightarrow> bool" where
  "isMysqlUrl url \<longleftrightarrow> starts_with ''mysql://'' url"

record store_urls =
  postgres_url :: "string option"
  mysql_url :: "string option"

definition storeUrls :: "env_map \<Rightarrow> store_urls" where
  "storeUrls env =
     (let canonical = (case map_of env ''DATABASE_URL'' of Some u \<Rightarrow> u | None \<Rightarrow> [])
      in \<lparr>postgres_url = (if isPostgresUrl canonical then Some canonical else readUrl (map_of env ''PG_URL'')),
          mysql_url = (if isMysqlUrl canonical then Some canonical else readUrl (map_of env ''MYSQL_TEST_URL''))\<rparr>)"

record service_urls =
  redis_url :: "string option"
  sqs_url :: "string option"
  dispatcher_url :: "string option"
  processor_url :: "string option"
  taskq_url :: "string option"
  tiliaPayees_url :: "string option"

definition serviceUrls :: "env_map \<Rightarrow> service_urls" where
  "serviceUrls env =
     \<lparr>redis_url = readUrl (map_of env ''REDIS_URL''), sqs_url = readUrl (map_of env ''SQS_QUEUE_URL''),
      dispatcher_url = readUrl (map_of env ''DISPATCHER_URL''),
      processor_url = readUrl (map_of env ''PROCESSOR_URL''),
      taskq_url = readUrl (map_of env ''TASKQ_DATABASE_URL''),
      tiliaPayees_url = readUrl (map_of env ''TILIA_PAYEE_DATABASE_URL'')\<rparr>"

definition REQUIRED_SECRETS :: "string list" where
  "REQUIRED_SECRETS = [''WEBHOOK_SECRET'', ''SIGNING_SECRET'']"

definition missingSecrets :: "env_map \<Rightarrow> string list" where
  "missingSecrets env =
     filter (\<lambda>key. (case map_of env key of Some v \<Rightarrow> v | None \<Rightarrow> []) = []) REQUIRED_SECRETS"

section \<open>The policy object (src/config.ts)\<close>

record config =
  replayWindowMs :: int
  maxPayoutAttempts :: int
  maxOutboxAttempts :: int
  maxInboxAttempts :: int
  maxSubscriptionAttempts :: int
  maxPayoutAgeMs :: int
  platformFeeBps :: int
  payoutFeeBps :: int
  velocityLimitMinor :: int
  velocityInflowLimitMinor :: "int option"
  velocityOutflowLimitMinor :: "int option"
  velocityWindowMs :: int
  subscriptionPriceMinMinor :: int
  subscriptionPriceMaxMinor :: int
  topUpBundlesMinor :: "int list option"
  maturityHorizons :: "(string \<times> int) list"
  payoutSla :: "(string \<times> int) list"
  payoutMinimumEarnedMinor :: int
  payoutMinIntervalMs :: int
  pauseStartMs :: "int option"
  pauseEndMs :: "int option"
  dbPoolMax :: "int option"
  platformShards :: int
  accrualDrain :: bool

text \<open>\<open>Partial<Config>\<close>: the nullable knobs are options of options.\<close>

record config_overrides =
  o_replayWindowMs :: "int option"
  o_maxPayoutAttempts :: "int option"
  o_maxOutboxAttempts :: "int option"
  o_maxInboxAttempts :: "int option"
  o_maxSubscriptionAttempts :: "int option"
  o_maxPayoutAgeMs :: "int option"
  o_platformFeeBps :: "int option"
  o_payoutFeeBps :: "int option"
  o_velocityLimitMinor :: "int option"
  o_velocityInflowLimitMinor :: "int option"
  o_velocityOutflowLimitMinor :: "int option"
  o_velocityWindowMs :: "int option"
  o_subscriptionPriceMinMinor :: "int option"
  o_subscriptionPriceMaxMinor :: "int option"
  o_topUpBundlesMinor :: "int list option"
  o_maturityHorizons :: "(string \<times> int) list option"
  o_payoutSla :: "(string \<times> int) list option"
  o_payoutMinimumEarnedMinor :: "int option"
  o_payoutMinIntervalMs :: "int option"
  o_pauseStartMs :: "int option option"
  o_pauseEndMs :: "int option option"
  o_dbPoolMax :: "int option option"
  o_platformShards :: "int option"
  o_accrualDrain :: "bool option"

definition no_overrides :: config_overrides where
  "no_overrides = \<lparr>o_replayWindowMs = None, o_maxPayoutAttempts = None, o_maxOutboxAttempts = None,
     o_maxInboxAttempts = None, o_maxSubscriptionAttempts = None, o_maxPayoutAgeMs = None,
     o_platformFeeBps = None, o_payoutFeeBps = None, o_velocityLimitMinor = None,
     o_velocityInflowLimitMinor = None, o_velocityOutflowLimitMinor = None, o_velocityWindowMs = None,
     o_subscriptionPriceMinMinor = None, o_subscriptionPriceMaxMinor = None, o_topUpBundlesMinor = None,
     o_maturityHorizons = None, o_payoutSla = None, o_payoutMinimumEarnedMinor = None,
     o_payoutMinIntervalMs = None, o_pauseStartMs = None, o_pauseEndMs = None, o_dbPoolMax = None,
     o_platformShards = None, o_accrualDrain = None\<rparr>"

definition MAX_BUNDLE_MINOR :: int where "MAX_BUNDLE_MINOR = 1000000000000000"

definition bundle_ok :: "string \<Rightarrow> bool" where
  "bundle_ok e \<longleftrightarrow> all_digits e \<and> 0 < int (digits_val e) \<and> int (digits_val e) \<le> MAX_BUNDLE_MINOR"

definition bigIntListIfSet :: "string option \<Rightarrow> int list option res" where
  "bigIntListIfSet value =
     (case value of
        None \<Rightarrow> Inr None
      | Some v \<Rightarrow>
          (if trim v = [] then Inr None
           else let entries = map trim (split_on CHR '','' v) in
             rbind (ensure (list_all bundle_ok entries) (fault CONFIG_INVALID)) (\<lambda>_.
             Inr (Some (sort (remdups (map (\<lambda>e. int (digits_val e)) entries)))))))"

record secrets =
  webhookSecret :: string
  signingSecret :: string
  signingSecretsPrior :: "string list option"

record secrets_overrides =
  so_webhookSecret :: "string option"
  so_signingSecret :: "string option"
  so_signingSecretsPrior :: "string list option"

definition missingSecretFields :: "secrets \<Rightarrow> string list" where
  "missingSecretFields s =
     (if webhookSecret s = [] then [''WEBHOOK_SECRET''] else []) @
     (if signingSecret s = [] then [''SIGNING_SECRET''] else [])"

definition or_env :: "string option \<Rightarrow> string option \<Rightarrow> string" where
  "or_env a b = (case a of Some v \<Rightarrow> v | None \<Rightarrow> (case b of Some v \<Rightarrow> v | None \<Rightarrow> []))"

definition loadSecrets :: "env_map \<Rightarrow> secrets_overrides \<Rightarrow> secrets res" where
  "loadSecrets env ov =
     (let prior = readList (map_of env ''SIGNING_SECRETS_PRIOR'');
          s = \<lparr>webhookSecret = or_env (so_webhookSecret ov) (map_of env ''WEBHOOK_SECRET''),
               signingSecret = or_env (so_signingSecret ov) (map_of env ''SIGNING_SECRET''),
               signingSecretsPrior =
                 (case so_signingSecretsPrior ov of Some p \<Rightarrow> Some p
                  | None \<Rightarrow> if prior \<noteq> [] then Some prior else None)\<rparr>
      in if isProduction env \<and> missingSecretFields s \<noteq> [] then Inl (fault CONFIG_INVALID) else Inr s)"

definition missingPolicyAnchors :: "env_map \<Rightarrow> config_overrides \<Rightarrow> string list" where
  "missingPolicyAnchors env ov =
     (if \<not> isProduction env then []
      else (if (case o_maturityHorizons ov of None \<Rightarrow> True | Some h \<Rightarrow> map_of h ''card'' = None) \<and>
               or_env None (map_of env ''MATURITY_HORIZON_CARD_MS'') = []
            then [''MATURITY_HORIZON_CARD_MS''] else []) @
           (if o_velocityLimitMinor ov = None \<and> or_env None (map_of env ''VELOCITY_LIMIT_MINOR'') = []
            then [''VELOCITY_LIMIT_MINOR''] else []))"

definition buildConfig :: "env_map \<Rightarrow> config res" where
  "buildConfig env =
     (let num = (\<lambda>key fallback. readInt (map_of env key) fallback 0 MAX_SAFE_INTEGER);
          pos = (\<lambda>key fallback. readInt (map_of env key) fallback 1 MAX_SAFE_INTEGER);
          bps = (\<lambda>key fallback. readInt (map_of env key) fallback 0 10000);
          big = (\<lambda>key. readBigInt (map_of env key));
          orNull = (\<lambda>key. readIntOrNull (map_of env key) 0 MAX_SAFE_INTEGER);
          card = num ''MATURITY_HORIZON_CARD_MS'' 0
      in rbind (bigIntListIfSet (map_of env ''TOP_UP_BUNDLES_MINOR'')) (\<lambda>bundles.
         Inr \<lparr>replayWindowMs = num ''REPLAY_WINDOW_MS'' (5 * 60000),
           maxPayoutAttempts = pos ''MAX_PAYOUT_ATTEMPTS'' 5,
           maxOutboxAttempts = pos ''MAX_OUTBOX_ATTEMPTS'' 10,
           maxInboxAttempts = pos ''MAX_INBOX_ATTEMPTS'' 10,
           maxSubscriptionAttempts = pos ''MAX_SUBSCRIPTION_ATTEMPTS'' 10,
           maxPayoutAgeMs = num ''MAX_PAYOUT_AGE_MS'' (72 * 60 * 60000),
           platformFeeBps = bps ''PLATFORM_FEE_BPS'' 1530,
           payoutFeeBps = bps ''PAYOUT_FEE_BPS'' 150,
           velocityLimitMinor = big ''VELOCITY_LIMIT_MINOR'' 100000,
           velocityInflowLimitMinor = readBigIntOrNull (map_of env ''VELOCITY_INFLOW_LIMIT_MINOR''),
           velocityOutflowLimitMinor = readBigIntOrNull (map_of env ''VELOCITY_OUTFLOW_LIMIT_MINOR''),
           velocityWindowMs = pos ''VELOCITY_WINDOW_MS'' (60 * 60000),
           subscriptionPriceMinMinor = big ''SUBSCRIPTION_PRICE_MIN_MINOR'' 10000,
           subscriptionPriceMaxMinor = big ''SUBSCRIPTION_PRICE_MAX_MINOR'' 1000000,
           topUpBundlesMinor = bundles,
           maturityHorizons = [(''card'', card), (''crypto'', num ''MATURITY_HORIZON_CRYPTO_MS'' card),
             (''steam'', num ''MATURITY_HORIZON_STEAM_MS'' card), (''meta'', num ''MATURITY_HORIZON_META_MS'' card),
             (''default'', num ''MATURITY_HORIZON_DEFAULT_MS'' card)],
           payoutSla = [(''PENDING'', num ''SLA_PENDING_MS'' 30000), (''SUBMITTED'', num ''SLA_SUBMITTED_MS'' 120000),
             (''DEFAULT'', num ''SLA_DEFAULT_MS'' 60000)],
           payoutMinimumEarnedMinor = big ''PAYOUT_MIN_EARNED_MINOR'' 2000000,
           payoutMinIntervalMs = num ''PAYOUT_MIN_INTERVAL_MS'' (24 * 60 * 60000),
           pauseStartMs = orNull ''ECONOMY_PAUSE_START_MS'', pauseEndMs = orNull ''ECONOMY_PAUSE_END_MS'',
           dbPoolMax = orNull ''DB_POOL_MAX'', platformShards = pos ''PLATFORM_SHARDS'' 1,
           accrualDrain = readFlag (map_of env ''ACCRUAL_DRAIN'')\<rparr>))"

definition over :: "'a \<Rightarrow> 'a option \<Rightarrow> 'a" where
  "over b v = (case v of None \<Rightarrow> b | Some x \<Rightarrow> x)"

text \<open>Spreading one record over another: later entries win, a new key goes to the end.\<close>

definition spread :: "(string \<times> int) list \<Rightarrow> (string \<times> int) list \<Rightarrow> (string \<times> int) list" where
  "spread base new = fold (\<lambda>(k, v). AList.update k v) new base"

definition mergeConfig :: "config \<Rightarrow> config_overrides \<Rightarrow> config" where
  "mergeConfig b ov =
     \<lparr>replayWindowMs = over (replayWindowMs b) (o_replayWindowMs ov),
      maxPayoutAttempts = over (maxPayoutAttempts b) (o_maxPayoutAttempts ov),
      maxOutboxAttempts = over (maxOutboxAttempts b) (o_maxOutboxAttempts ov),
      maxInboxAttempts = over (maxInboxAttempts b) (o_maxInboxAttempts ov),
      maxSubscriptionAttempts = over (maxSubscriptionAttempts b) (o_maxSubscriptionAttempts ov),
      maxPayoutAgeMs = over (maxPayoutAgeMs b) (o_maxPayoutAgeMs ov),
      platformFeeBps = over (platformFeeBps b) (o_platformFeeBps ov),
      payoutFeeBps = over (payoutFeeBps b) (o_payoutFeeBps ov),
      velocityLimitMinor = over (velocityLimitMinor b) (o_velocityLimitMinor ov),
      velocityInflowLimitMinor = over (velocityInflowLimitMinor b) (map_option Some (o_velocityInflowLimitMinor ov)),
      velocityOutflowLimitMinor = over (velocityOutflowLimitMinor b) (map_option Some (o_velocityOutflowLimitMinor ov)),
      velocityWindowMs = over (velocityWindowMs b) (o_velocityWindowMs ov),
      subscriptionPriceMinMinor = over (subscriptionPriceMinMinor b) (o_subscriptionPriceMinMinor ov),
      subscriptionPriceMaxMinor = over (subscriptionPriceMaxMinor b) (o_subscriptionPriceMaxMinor ov),
      topUpBundlesMinor = over (topUpBundlesMinor b) (map_option Some (o_topUpBundlesMinor ov)),
      maturityHorizons = (case o_maturityHorizons ov of None \<Rightarrow> maturityHorizons b
        | Some h \<Rightarrow> spread (maturityHorizons b) h),
      payoutSla = (case o_payoutSla ov of None \<Rightarrow> payoutSla b | Some h \<Rightarrow> spread (payoutSla b) h),
      payoutMinimumEarnedMinor = over (payoutMinimumEarnedMinor b) (o_payoutMinimumEarnedMinor ov),
      payoutMinIntervalMs = over (payoutMinIntervalMs b) (o_payoutMinIntervalMs ov),
      pauseStartMs = over (pauseStartMs b) (o_pauseStartMs ov),
      pauseEndMs = over (pauseEndMs b) (o_pauseEndMs ov),
      dbPoolMax = over (dbPoolMax b) (o_dbPoolMax ov),
      platformShards = over (platformShards b) (o_platformShards ov),
      accrualDrain = over (accrualDrain b) (o_accrualDrain ov)\<rparr>"

definition inspectConfig :: "env_map \<Rightarrow> config_overrides \<Rightarrow> config res" where
  "inspectConfig env ov =
     rbind (ensure (missingPolicyAnchors env ov = []) (fault CONFIG_INVALID)) (\<lambda>_.
     rbind (buildConfig env) (\<lambda>b. Inr (mergeConfig b ov)))"

definition loadConfig :: "env_map \<Rightarrow> config res" where
  "loadConfig env = inspectConfig env no_overrides"

definition defaultConfig :: "config_overrides \<Rightarrow> config res" where
  "defaultConfig ov = rbind (loadConfig []) (\<lambda>b. Inr (mergeConfig b ov))"

definition economyPaused :: "int \<Rightarrow> config \<Rightarrow> bool" where
  "economyPaused now cfg =
     (case (pauseStartMs cfg, pauseEndMs cfg) of
        (Some s, Some e) \<Rightarrow> s \<le> now \<and> now < e
      | _ \<Rightarrow> False)"

section \<open>What every parsed environment satisfies\<close>





lemma bigIntListIfSet_Inl: "bigIntListIfSet v = Inl e \<Longrightarrow> e = fault CONFIG_INVALID"
  by (auto simp: bigIntListIfSet_def Let_def rbind_Inl_iff split: option.splits if_splits)



lemma merge_none [simp]: "mergeConfig b no_overrides = b"
  by (simp add: mergeConfig_def no_overrides_def over_def)







section \<open>Properties\<close>


end
