(* ===== verification/Trust.thy ===== *)
theory Trust
  imports Config
begin

text \<open>
  src/trust.ts, the velocity limit, and the trust store of src/adapters/memory.ts that feeds it. The
  pure functions of trust.ts sum a subject's attempts over a sliding window from the whole history;
  the store keeps the sum incrementally and forgets what aged out. The refinement at the end shows
  that the two always read the same.
\<close>

section \<open>The reference (src/trust.ts)\<close>

record attempt =
  attemptKey :: string
  attemptAmount :: amount
  attemptAt :: int
  attemptCommitted :: bool

record velocity =
  vsubject :: string
  windowStart :: int
  spent :: amount
  vattempts :: nat

definition VELOCITY_CURRENCY :: currency where "VELOCITY_CURRENCY = CREDIT"

text \<open>One turn of the loop: the spent total, the window start (0 while unset) and the count.\<close>

definition window_step :: "int \<Rightarrow> int \<times> int \<times> nat \<Rightarrow> attempt \<Rightarrow> int \<times> int \<times> nat" where
  "window_step cutoff acc a =
     (case acc of (spentMinor, start, n) \<Rightarrow>
        if attemptAt a \<le> cutoff then acc
        else (spentMinor + minor (attemptAmount a),
              (if start = 0 \<or> attemptAt a < start then attemptAt a else start), n + 1))"

definition windowedVelocity :: "string \<Rightarrow> attempt list \<Rightarrow> int \<Rightarrow> int \<Rightarrow> velocity res" where
  "windowedVelocity subject attempts now windowMs =
     (case foldl (window_step (now - windowMs)) (0, 0, 0) attempts of
        (spentMinor, start, n) \<Rightarrow>
          rbind (toAmount VELOCITY_CURRENCY spentMinor) (\<lambda>a.
          Inr \<lparr>vsubject = subject, windowStart = start, spent = a, vattempts = n\<rparr>))"

datatype risk_class = RiskIn | RiskOut

text \<open>\<open>out:<userId>\<close> and \<open>in:<userId>\<close>.\<close>

definition riskSubject :: "operation \<Rightarrow> (string \<times> risk_class) option" where
  "riskSubject opn =
     (case payload opn of
        Spend _ buyerId _ _ _ _ _ \<Rightarrow> Some (''out:'' @ buyerId, RiskOut)
      | RequestPayout userId _ \<Rightarrow> Some (''out:'' @ userId, RiskOut)
      | Subscribe userId _ _ _ _ \<Rightarrow> Some (''out:'' @ userId, RiskOut)
      | TopUp userId _ _ \<Rightarrow> Some (''in:'' @ userId, RiskIn)
      | GrantPromo userId _ _ \<Rightarrow> Some (''in:'' @ userId, RiskIn)
      | _ \<Rightarrow> None)"

definition classLimitMinor :: "config \<Rightarrow> risk_class \<Rightarrow> int" where
  "classLimitMinor cfg cls =
     (let own = (if cls = RiskIn then velocityInflowLimitMinor cfg else velocityOutflowLimitMinor cfg)
      in case own of Some l \<Rightarrow> l | None \<Rightarrow> velocityLimitMinor cfg)"

definition attemptMinor :: "operation \<Rightarrow> int" where
  "attemptMinor opn =
     (case payload opn of
        Spend _ _ _ price _ _ _ \<Rightarrow> minor price
      | Subscribe _ _ _ price _ \<Rightarrow> minor price
      | TopUp _ a _ \<Rightarrow> minor a
      | GrantPromo _ a _ \<Rightarrow> minor a
      | RequestPayout _ a \<Rightarrow> minor a
      | _ \<Rightarrow> 0)"

text \<open>The verdict: true allows, false denies as RISK_DENIED.\<close>

definition assessRisk :: "velocity \<Rightarrow> operation \<Rightarrow> config \<Rightarrow> bool" where
  "assessRisk v opn cfg =
     (case riskSubject opn of
        None \<Rightarrow> True
      | Some (_, cls) \<Rightarrow> \<not> (minor (spent v) + attemptMinor opn > classLimitMinor cfg cls))"

definition riskAttempt :: "operation \<Rightarrow> outcome \<Rightarrow> int \<Rightarrow> attempt option res" where
  "riskAttempt opn out at =
     (if riskSubject opn = None \<or> (case out of Duplicate _ \<Rightarrow> True | _ \<Rightarrow> False) then Inr None
      else rbind (toAmount VELOCITY_CURRENCY (attemptMinor opn)) (\<lambda>a.
        Inr (Some \<lparr>attemptKey = idempotencyKey opn, attemptAmount = a, attemptAt = at,
          attemptCommitted = (case out of Committed _ \<Rightarrow> True | _ \<Rightarrow> False)\<rparr>)))"

section \<open>The store\<close>

record trust_window =
  wattempts :: "attempt list"
  whead :: nat
  wsum :: int

record trust_store =
  bySubject :: "(string \<times> trust_window) list"
  seenAttempts :: "string list"

definition empty_trust :: trust_store where
  "empty_trust = \<lparr>bySubject = [], seenAttempts = []\<rparr>"

definition trust_insert :: "string \<Rightarrow> attempt \<Rightarrow> trust_store \<Rightarrow> trust_store" where
  "trust_insert subject a s =
     (if attemptKey a \<in> set (seenAttempts s) then s
      else let w = (case map_of (bySubject s) subject of
                      Some w \<Rightarrow> w | None \<Rightarrow> \<lparr>wattempts = [], whead = 0, wsum = 0\<rparr>)
           in \<lparr>bySubject = AList.update subject
                 \<lparr>wattempts = wattempts w @ [a], whead = whead w, wsum = wsum w + minor (attemptAmount a)\<rparr>
                 (bySubject s),
               seenAttempts = attemptKey a # seenAttempts s\<rparr>)"

text \<open>The undo of an insertion: take the attempt out of its window again.\<close>

definition splice1 :: "nat \<Rightarrow> 'a list \<Rightarrow> 'a list" where
  "splice1 i xs = take i xs @ drop (Suc i) xs"

fun index_of :: "('a \<Rightarrow> bool) \<Rightarrow> 'a list \<Rightarrow> nat option" where
  "index_of P [] = None"
| "index_of P (x # xs) = (if P x then Some 0 else map_option Suc (index_of P xs))"

definition trust_remove :: "string \<Rightarrow> attempt \<Rightarrow> trust_store \<Rightarrow> trust_store" where
  "trust_remove subject a s =
     (let s1 = s\<lparr>seenAttempts := removeAll (attemptKey a) (seenAttempts s)\<rparr>
      in case map_of (bySubject s1) subject of
           None \<Rightarrow> s1
         | Some w \<Rightarrow>
             (case index_of (\<lambda>b. attemptKey b = attemptKey a) (wattempts w) of
                None \<Rightarrow> s1
              | Some i \<Rightarrow>
                  (let w1 = w\<lparr>wattempts := splice1 i (wattempts w)\<rparr>;
                       w2 = (if i \<ge> whead w then w1\<lparr>wsum := wsum w - minor (attemptAmount a)\<rparr>
                             else w1\<lparr>whead := whead w - 1\<rparr>)
                   in s1\<lparr>bySubject := AList.update subject w2 (bySubject s1)\<rparr>)))"

text \<open>The while loop that moves the head past what aged out, over the attempts from the head on.\<close>

fun expire :: "int \<Rightarrow> attempt list \<Rightarrow> nat \<Rightarrow> int \<Rightarrow> nat \<times> int" where
  "expire cutoff [] head_ix sum_minor = (head_ix, sum_minor)"
| "expire cutoff (a # as) head_ix sum_minor =
     (if attemptAt a \<le> cutoff then expire cutoff as (head_ix + 1) (sum_minor - minor (attemptAmount a))
      else (head_ix, sum_minor))"

definition compact :: "trust_window \<Rightarrow> trust_window" where
  "compact w =
     (if whead w > 0 \<and> whead w * 2 \<ge> length (wattempts w)
      then w\<lparr>wattempts := drop (whead w) (wattempts w), whead := 0\<rparr> else w)"

definition age_window :: "int \<Rightarrow> trust_window \<Rightarrow> trust_window" where
  "age_window cutoff w =
     (case expire cutoff (drop (whead w) (wattempts w)) (whead w) (wsum w) of
        (h, m) \<Rightarrow> compact (w\<lparr>whead := h, wsum := m\<rparr>))"

definition trust_measure :: "string \<Rightarrow> int \<Rightarrow> int \<Rightarrow> (trust_store, velocity) act" where
  "trust_measure subject now windowMs s =
     (case map_of (bySubject s) subject of
        None \<Rightarrow> Inr (\<lparr>vsubject = subject, windowStart = 0, spent = zero_amount VELOCITY_CURRENCY, vattempts = 0\<rparr>, s)
      | Some w0 \<Rightarrow>
          (let w = age_window (now - windowMs) w0;
               live_n = length (wattempts w) - whead w;
               s1 = s\<lparr>bySubject := AList.update subject w (bySubject s)\<rparr>
           in rbind (toAmount VELOCITY_CURRENCY (wsum w)) (\<lambda>a.
              Inr (\<lparr>vsubject = subject,
                 windowStart = (if live_n > 0 then attemptAt (wattempts w ! whead w) else 0),
                 spent = a, vattempts = live_n\<rparr>, s1))))"

definition trust_record :: "string \<Rightarrow> attempt \<Rightarrow> int \<Rightarrow> int \<Rightarrow> (trust_store, velocity) act" where
  "trust_record subject a now windowMs =
     sbind (modify (trust_insert subject a)) (\<lambda>_. trust_measure subject now windowMs)"

section \<open>The store reads what the reference computes from the history\<close>

text \<open>
  The abstract state is the history of accepted attempts with their subjects. The store represents it
  at clock reading \<open>now\<close> when each subject's window is a suffix of the subject's history whose missing
  part, and whose part before the head, was already outside some window that ended by \<open>now\<close>.
\<close>

type_synonym history = "(string \<times> attempt) list"

definition attempts_of :: "string \<Rightarrow> history \<Rightarrow> attempt list" where
  "attempts_of subject h = map snd (filter (\<lambda>(s, a). s = subject) h)"

definition window_ok :: "int \<Rightarrow> attempt list \<Rightarrow> trust_window \<Rightarrow> bool" where
  "window_ok cutoff as w \<longleftrightarrow>
     (\<exists>gone. as = gone @ wattempts w \<and> whead w \<le> length (wattempts w) \<and>
        (\<forall>a \<in> set gone \<union> set (take (whead w) (wattempts w)). attemptAt a \<le> cutoff) \<and>
        wsum w = (\<Sum>a\<leftarrow>drop (whead w) (wattempts w). minor (attemptAmount a)))"

definition history_ok :: "int \<Rightarrow> history \<Rightarrow> bool" where
  "history_ok now h \<longleftrightarrow>
     distinct (map (attemptKey \<circ> snd) h) \<and> (\<forall>(u, a) \<in> set h. 0 < attemptAt a \<and> attemptAt a \<le> now) \<and>
     sorted (map (attemptAt \<circ> snd) h)"

definition represents :: "int \<Rightarrow> int \<Rightarrow> trust_store \<Rightarrow> history \<Rightarrow> bool" where
  "represents windowMs now s h \<longleftrightarrow>
     history_ok now h \<and> set (seenAttempts s) = (attemptKey \<circ> snd) ` set h \<and>
     (\<forall>u. (case map_of (bySubject s) u of
         None \<Rightarrow> attempts_of u h = []
       | Some w \<Rightarrow> window_ok (now - windowMs) (attempts_of u h) w))"

text \<open>What each operation does to the history.\<close>

definition hist_insert :: "string \<Rightarrow> attempt \<Rightarrow> history \<Rightarrow> history" where
  "hist_insert subject a h = (if attemptKey a \<in> (attemptKey \<circ> snd) ` set h then h else h @ [(subject, a)])"

definition hist_remove :: "attempt \<Rightarrow> history \<Rightarrow> history" where
  "hist_remove a h = filter (\<lambda>(u, b). attemptKey b \<noteq> attemptKey a) h"

lemma attempts_of_simps [simp]:
  "attempts_of subject [] = []"
  "attempts_of subject (h @ h') = attempts_of subject h @ attempts_of subject h'"
  "attempts_of subject ((u, a) # h) = (if u = subject then a # attempts_of subject h else attempts_of subject h)"
  by (simp_all add: attempts_of_def)

lemma set_attempts_of: "a \<in> set (attempts_of u h) \<longleftrightarrow> (u, a) \<in> set h"
  by (auto simp: attempts_of_def image_iff)

lemma window_ok_mono:
  assumes "window_ok c as w" "c \<le> d"
  shows "window_ok d as w"
proof -
  obtain gone where "as = gone @ wattempts w" "whead w \<le> length (wattempts w)"
    "\<forall>a \<in> set gone \<union> set (take (whead w) (wattempts w)). attemptAt a \<le> c"
    "wsum w = (\<Sum>a\<leftarrow>drop (whead w) (wattempts w). minor (attemptAmount a))"
    using assms(1) by (auto simp: window_ok_def)
  moreover have "\<forall>a \<in> set gone \<union> set (take (whead w) (wattempts w)). attemptAt a \<le> d"
    using calculation(3) assms(2) by (meson order_trans)
  ultimately show ?thesis unfolding window_ok_def by (intro exI [of _ gone]) (simp only: simp_thms)
qed

lemma window_ok_empty: "window_ok c [] \<lparr>wattempts = [], whead = 0, wsum = 0\<rparr>"
  by (simp add: window_ok_def)

lemma window_ok_push:
  assumes "window_ok c as w"
  shows "window_ok c (as @ [a])
    \<lparr>wattempts = wattempts w @ [a], whead = whead w, wsum = wsum w + minor (attemptAmount a)\<rparr>"
proof -
  obtain gone where "as = gone @ wattempts w" "whead w \<le> length (wattempts w)"
    "\<forall>a \<in> set gone \<union> set (take (whead w) (wattempts w)). attemptAt a \<le> c"
    "wsum w = (\<Sum>a\<leftarrow>drop (whead w) (wattempts w). minor (attemptAmount a))"
    using assms by (auto simp: window_ok_def)
  then show ?thesis unfolding window_ok_def by (intro exI [of _ gone]) simp
qed

lemma represents_empty: "represents windowMs now empty_trust []"
  by (simp add: represents_def history_ok_def empty_trust_def)

lemma represents_later:
  assumes "represents windowMs now s h" "now \<le> t"
  shows "represents windowMs t s h"
proof -
  have "case map_of (bySubject s) u of None \<Rightarrow> attempts_of u h = []
      | Some w \<Rightarrow> window_ok (t - windowMs) (attempts_of u h) w" for u
  proof -
    have "case map_of (bySubject s) u of None \<Rightarrow> attempts_of u h = []
      | Some w \<Rightarrow> window_ok (now - windowMs) (attempts_of u h) w"
      using assms(1) unfolding represents_def by blast
    then show ?thesis using assms(2) window_ok_mono [of "now - windowMs" "attempts_of u h" _ "t - windowMs"]
      by (cases "map_of (bySubject s) u") simp_all
  qed
  moreover have "history_ok t h" using assms by (fastforce simp: represents_def history_ok_def)
  ultimately show ?thesis using assms by (simp add: represents_def)
qed

lemma insert_represents:
  assumes "represents windowMs now s h" "now \<le> attemptAt a" "0 < attemptAt a"
  shows "represents windowMs (attemptAt a) (trust_insert u a s) (hist_insert u a h)"
proof -
  have r: "represents windowMs (attemptAt a) s h" using assms(1,2) by (rule represents_later)
  then have seen: "set (seenAttempts s) = (attemptKey \<circ> snd) ` set h" and ok: "history_ok (attemptAt a) h"
    and win: "\<And>v. case map_of (bySubject s) v of None \<Rightarrow> attempts_of v h = []
      | Some w \<Rightarrow> window_ok (attemptAt a - windowMs) (attempts_of v h) w"
    by (simp_all add: represents_def)
  show ?thesis
  proof (cases "attemptKey a \<in> set (seenAttempts s)")
    case True
    then have "hist_insert u a h = h" unfolding hist_insert_def seen by simp
    then show ?thesis using True r by (simp add: trust_insert_def)
  next
    case False
    define w where "w = (case map_of (bySubject s) u of Some w \<Rightarrow> w | None \<Rightarrow> \<lparr>wattempts = [], whead = 0, wsum = 0\<rparr>)"
    have h: "hist_insert u a h = h @ [(u, a)]" using False unfolding hist_insert_def seen by simp
    have "window_ok (attemptAt a - windowMs) (attempts_of u h) w"
      using win [of u] window_ok_empty by (auto simp: w_def split: option.splits)
    note wpush = window_ok_push [OF this, of a]
    have wins:
      "case map_of (bySubject (trust_insert u a s)) v of None \<Rightarrow> attempts_of v (h @ [(u, a)]) = []
        | Some w \<Rightarrow> window_ok (attemptAt a - windowMs) (attempts_of v (h @ [(u, a)])) w" for v
    proof (cases "v = u")
      case other: False
      then have "attempts_of v (h @ [(u, a)]) = attempts_of v h" by simp
      then show ?thesis using False win [of v] other by (simp only:) (simp add: trust_insert_def Let_def)
    qed (use \<open>attemptKey a \<notin> _\<close> wpush in \<open>simp add: trust_insert_def w_def [symmetric] Let_def\<close>)
    have "history_ok (attemptAt a) (h @ [(u, a)])"
      using ok False assms(3) unfolding history_ok_def seen by (auto simp: sorted_append)
    then show ?thesis using wins seen False by (auto simp: represents_def h trust_insert_def Let_def)
  qed
qed

lemma expire_is:
  "expire c as h m = (h + length (takeWhile (\<lambda>a. attemptAt a \<le> c) as),
     m - (\<Sum>a\<leftarrow>takeWhile (\<lambda>a. attemptAt a \<le> c) as. minor (attemptAmount a)))"
  by (induction as arbitrary: h m) auto

lemma sum_split: "(\<Sum>a\<leftarrow>as. f a) = (\<Sum>a\<leftarrow>takeWhile P as. f a) + (\<Sum>a\<leftarrow>dropWhile P as. (f a :: int))"
  using takeWhile_dropWhile_id [of P as] by (metis map_append sum_list_append)

lemma dropWhile_len: "drop (length (takeWhile P as)) as = dropWhile P as"
  by (simp add: dropWhile_eq_drop)

lemma take_len: "take (length (takeWhile P as)) as = takeWhile P as"
  by (metis takeWhile_eq_take)

lemma sorted_dropWhile_gt:
  "sorted (map attemptAt as) \<Longrightarrow> a \<in> set (dropWhile (\<lambda>a. attemptAt a \<le> c) as) \<Longrightarrow> c < attemptAt a"
  by (induction as) (force split: if_splits)+

lemma age_window_spec:
  assumes "window_ok c as w" "c \<le> d" "sorted (map attemptAt as)"
  defines "w' \<equiv> age_window d w"
  shows "window_ok d as w'" "\<forall>a \<in> set (drop (whead w') (wattempts w')). d < attemptAt a"
proof -
  obtain gone where g: "as = gone @ wattempts w" "whead w \<le> length (wattempts w)"
    "\<forall>a \<in> set gone \<union> set (take (whead w) (wattempts w)). attemptAt a \<le> c"
    "wsum w = (\<Sum>a\<leftarrow>drop (whead w) (wattempts w). minor (attemptAmount a))"
    using assms(1) by (auto simp: window_ok_def)
  let ?tail = "drop (whead w) (wattempts w)" and ?P = "\<lambda>a. attemptAt a \<le> d"
  define n where "n = whead w + length (takeWhile ?P ?tail)"
  define v where "v = w\<lparr>whead := n, wsum := wsum w - (\<Sum>a\<leftarrow>takeWhile ?P ?tail. minor (attemptAmount a))\<rparr>"
  have w': "w' = compact v" unfolding w'_def age_window_def expire_is v_def n_def by simp
  have tl: "drop n (wattempts w) = dropWhile ?P ?tail"
    unfolding n_def by (metis drop_drop dropWhile_len add.commute)
  have hd: "take n (wattempts w) = take (whead w) (wattempts w) @ takeWhile ?P ?tail"
    unfolding n_def take_add take_len ..
  have "length (takeWhile ?P ?tail) \<le> length ?tail" by (rule length_takeWhile_le)
  then have le: "n \<le> length (wattempts w)" using g(2) by (simp add: n_def)
  have old: "\<forall>a \<in> set gone \<union> set (take n (wattempts w)). attemptAt a \<le> d"
  proof -
    have "\<forall>a \<in> set gone \<union> set (take (whead w) (wattempts w)). attemptAt a \<le> d"
      using g(3) assms(2) by (meson order_trans)
    then show ?thesis unfolding hd by (auto dest: set_takeWhileD)
  qed
  have sum: "wsum v = (\<Sum>a\<leftarrow>drop n (wattempts w). minor (attemptAmount a))"
    unfolding v_def tl using g(4) sum_split [of _ ?tail ?P] by simp
  have sorted: "sorted (map attemptAt ?tail)"
    using assms(3) unfolding g(1) by (metis drop_map map_append sorted_append sorted_wrt_drop)
  have live: "\<forall>a \<in> set (drop n (wattempts w)). d < attemptAt a"
    unfolding tl using sorted_dropWhile_gt [OF sorted] by blast
  show "window_ok d as w'"
  proof (cases "n > 0 \<and> n * 2 \<ge> length (wattempts w)")
    case True
    then have e: "w' = v\<lparr>wattempts := drop n (wattempts w), whead := 0\<rparr>" by (simp add: w' compact_def v_def)
    have "as = (gone @ take n (wattempts w)) @ drop n (wattempts w)" using g(1) by simp
    then show ?thesis using old sum unfolding window_ok_def e
      by (intro exI [of _ "gone @ take n (wattempts w)"]) (auto simp: v_def)
  next
    case False
    then have e: "w' = v" by (auto simp: w' compact_def v_def)
    show ?thesis using g(1) le old sum unfolding window_ok_def e
      by (intro exI [of _ gone]) (simp add: v_def)
  qed
  show "\<forall>a \<in> set (drop (whead w') (wattempts w')). d < attemptAt a"
    using live by (simp add: w' compact_def v_def)
qed

text \<open>The reference skips what is too old, and in time order it starts at the first live attempt.\<close>

lemma steps_old: "\<forall>a \<in> set as. attemptAt a \<le> c \<Longrightarrow> foldl (window_step c) acc as = acc"
  by (induction as arbitrary: acc) (auto simp: window_step_def split: prod.splits)

lemma steps_live:
  "\<forall>a \<in> set as. c < attemptAt a \<and> 0 < attemptAt a \<Longrightarrow> sorted (map attemptAt as) \<Longrightarrow>
   start \<noteq> 0 \<Longrightarrow> \<forall>a \<in> set as. start \<le> attemptAt a \<Longrightarrow>
   foldl (window_step c) (m, start, n) as = (m + (\<Sum>a\<leftarrow>as. minor (attemptAmount a)), start, n + length as)"
  by (induction as arbitrary: m n) (auto simp: window_step_def)

lemma steps_all:
  assumes "\<forall>a \<in> set as. c < attemptAt a \<and> 0 < attemptAt a" "sorted (map attemptAt as)"
  shows "foldl (window_step c) (0, 0, 0) as =
    ((\<Sum>a\<leftarrow>as. minor (attemptAmount a)), (if as = [] then 0 else attemptAt (hd as)), length as)"
proof (cases as)
  case (Cons b bs)
  then show ?thesis
    using assms steps_live [of bs c "attemptAt b" "minor (attemptAmount b)" "Suc 0"] by (auto simp: window_step_def)
qed simp

lemma attempts_sorted: "history_ok now h \<Longrightarrow> sorted (map attemptAt (attempts_of u h))"
proof -
  assume "history_ok now h"
  then have "sorted (map (attemptAt \<circ> snd) h)" by (simp add: history_ok_def)
  then have "sorted (map (attemptAt \<circ> snd) (filter (\<lambda>(s, a). s = u) h))"
    by (rule sorted_filter)
  then show ?thesis by (simp add: attempts_of_def)
qed

lemma measure_represents:
  assumes "represents windowMs t s h" "t \<le> now"
  shows "case windowedVelocity u (attempts_of u h) now windowMs of
     Inl e \<Rightarrow> trust_measure u now windowMs s = Inl e
   | Inr v \<Rightarrow> \<exists>s'. trust_measure u now windowMs s = Inr (v, s') \<and> represents windowMs now s' h"
proof -
  have r: "represents windowMs now s h" using assms by (rule represents_later)
  then have ok: "history_ok now h" and win: "\<And>v. case map_of (bySubject s) v of None \<Rightarrow> attempts_of v h = []
      | Some w \<Rightarrow> window_ok (now - windowMs) (attempts_of v h) w"
    by (simp_all add: represents_def)
  let ?as = "attempts_of u h" and ?c = "now - windowMs"
  have sorted: "sorted (map attemptAt ?as)" using ok by (rule attempts_sorted)
  have pos: "\<forall>a \<in> set ?as. 0 < attemptAt a" using ok by (auto simp: set_attempts_of history_ok_def)
  show ?thesis
  proof (cases "map_of (bySubject s) u")
    case None
    then have "?as = []" using win [of u] by simp
    then show ?thesis using None r
      by (simp add: windowedVelocity_def trust_measure_def zero_amount_def toAmount_def I64_MIN_def I64_MAX_def)
  next
    case (Some w0)
    define w where "w = age_window ?c w0"
    have "window_ok ?c ?as w0" using win [of u] Some by simp
    from age_window_spec [OF this order_refl sorted]
    have wok: "window_ok ?c ?as w" and live: "\<forall>a \<in> set (drop (whead w) (wattempts w)). ?c < attemptAt a"
      by (simp_all add: w_def)
    obtain gone where g: "?as = gone @ wattempts w" "whead w \<le> length (wattempts w)"
      "\<forall>a \<in> set gone \<union> set (take (whead w) (wattempts w)). attemptAt a \<le> ?c"
      "wsum w = (\<Sum>a\<leftarrow>drop (whead w) (wattempts w). minor (attemptAmount a))"
      using wok by (auto simp: window_ok_def)
    let ?live = "drop (whead w) (wattempts w)"
    have split: "?as = (gone @ take (whead w) (wattempts w)) @ ?live" using g(1) by simp
    have "sorted (map attemptAt ?live)" using sorted unfolding split map_append sorted_append by blast
    moreover have "\<forall>a \<in> set ?live. ?c < attemptAt a \<and> 0 < attemptAt a"
    proof -
      have "set ?live \<subseteq> set ?as" using set_drop_subset [of "whead w" "wattempts w"] g(1) by auto
      then show ?thesis using live pos by blast
    qed
    ultimately have "foldl (window_step ?c) (0, 0, 0) ?live =
        (wsum w, (if ?live = [] then 0 else attemptAt (hd ?live)), length ?live)"
      unfolding g(4) by (intro steps_all)
    moreover have "foldl (window_step ?c) (0, 0, 0) (gone @ take (whead w) (wattempts w)) = (0, 0, 0)"
      by (rule steps_old) (use g(3) in auto)
    ultimately have "foldl (window_step ?c) (0, 0, 0) ?as =
        (wsum w, (if ?live = [] then 0 else attemptAt (hd ?live)), length ?live)"
      by (subst split) (simp only: foldl_append)
    moreover have "hd ?live = wattempts w ! whead w" if "?live \<noteq> []" using that by (simp add: hd_drop_conv_nth)
    ultimately have ref: "windowedVelocity u ?as now windowMs =
        rbind (toAmount VELOCITY_CURRENCY (wsum w)) (\<lambda>a. Inr \<lparr>vsubject = u,
          windowStart = (if length (wattempts w) - whead w > 0 then attemptAt (wattempts w ! whead w) else 0),
          spent = a, vattempts = length (wattempts w) - whead w\<rparr>)"
      by (auto simp: windowedVelocity_def)
    define s' where "s' = s\<lparr>bySubject := AList.update u w (bySubject s)\<rparr>"
    have "case map_of (bySubject s') v of None \<Rightarrow> attempts_of v h = []
      | Some w \<Rightarrow> window_ok ?c (attempts_of v h) w" for v
      using win [of v] wok by (cases "v = u") (simp_all add: s'_def)
    then have "represents windowMs now s' h" using r by (simp add: represents_def s'_def)
    have tm: "trust_measure u now windowMs s = rbind (toAmount VELOCITY_CURRENCY (wsum w)) (\<lambda>a. Inr (\<lparr>vsubject = u,
          windowStart = (if length (wattempts w) - whead w > 0 then attemptAt (wattempts w ! whead w) else 0),
          spent = a, vattempts = length (wattempts w) - whead w\<rparr>, s'))"
      using Some by (simp add: trust_measure_def w_def [symmetric] s'_def Let_def)
    show ?thesis
    proof (cases "toAmount VELOCITY_CURRENCY (wsum w)")
      case (Inr x)
      then show ?thesis using \<open>represents windowMs now s' h\<close> unfolding ref tm Inr rbind_simps sum.case by blast
    next
      case (Inl e)
      then show ?thesis unfolding ref tm Inl rbind_simps sum.case by simp
    qed
  qed
qed

text \<open>Undoing an insertion takes the attempt out of the history.\<close>

lemma index_of_None: "index_of P xs = None \<longleftrightarrow> (\<forall>x \<in> set xs. \<not> P x)"
  by (induction xs) auto

lemma index_of_Some: "index_of P xs = Some i \<Longrightarrow> i < length xs \<and> P (xs ! i)"
  by (induction xs arbitrary: i) (auto split: if_splits)

lemma splice1_filter:
  assumes "distinct (map f xs)" "i < length xs"
  shows "splice1 i xs = filter (\<lambda>b. f b \<noteq> f (xs ! i)) xs"
  using assms
proof (induction xs arbitrary: i)
  case (Cons x xs)
  show ?case
  proof (cases i)
    case 0
    have "filter (\<lambda>b. f b \<noteq> f x) xs = xs" using Cons.prems(1) by (auto simp: filter_id_conv image_iff)
    then show ?thesis using 0 by (simp add: splice1_def)
  next
    case (Suc j)
    then have "f x \<noteq> f (xs ! j)" using Cons.prems by (auto simp: image_iff)
    then show ?thesis using Cons.IH [of j] Cons.prems Suc by (simp add: splice1_def)
  qed
qed simp

lemma window_ok_splice:
  assumes "as = gone @ wattempts w" "whead w \<le> length (wattempts w)"
    "\<forall>a \<in> set gone \<union> set (take (whead w) (wattempts w)). attemptAt a \<le> c"
    "wsum w = (\<Sum>a\<leftarrow>drop (whead w) (wattempts w). minor (attemptAmount a))" "i < length (wattempts w)"
  shows "window_ok c (gone @ splice1 i (wattempts w))
    (if i \<ge> whead w then w\<lparr>wattempts := splice1 i (wattempts w), wsum := wsum w - minor (attemptAmount (wattempts w ! i))\<rparr>
     else w\<lparr>wattempts := splice1 i (wattempts w), whead := whead w - 1\<rparr>)"
proof (cases "i \<ge> whead w")
  case True
  let ?xs = "wattempts w" and ?h = "whead w"
  have tk: "take ?h (splice1 i ?xs) = take ?h ?xs" using True assms(5) by (simp add: splice1_def min_def)
  have e1: "drop ?h ?xs = take (i - ?h) (drop ?h ?xs) @ ?xs ! i # drop (Suc i) ?xs"
    using True assms(5) by (metis Cons_nth_drop_Suc append_take_drop_id drop_drop le_add_diff_inverse2)
  have e2: "drop ?h (splice1 i ?xs) = take (i - ?h) (drop ?h ?xs) @ drop (Suc i) ?xs"
    using True assms(5) by (simp add: splice1_def drop_take)
  have "wsum w = (\<Sum>a\<leftarrow>take (i - ?h) (drop ?h ?xs) @ ?xs ! i # drop (Suc i) ?xs. minor (attemptAmount a))"
    unfolding assms(4) by (rule arg_cong [OF e1])
  then have sm: "(\<Sum>a\<leftarrow>drop ?h (splice1 i ?xs). minor (attemptAmount a)) = wsum w - minor (attemptAmount (?xs ! i))"
    unfolding e2 by simp
  have len: "?h \<le> length (splice1 i ?xs)" using True assms(5) by (simp add: splice1_def)
  show ?thesis using True tk sm len assms(3) by (simp add: window_ok_def)
next
  case False
  let ?xs = "wattempts w" and ?h = "whead w"
  have tk: "set (take (?h - 1) (splice1 i ?xs)) \<subseteq> set (take ?h ?xs)"
  proof -
    have "i \<le> ?h - 1" using False by simp
    then have "take (?h - 1) (splice1 i ?xs) = take i ?xs @ take (?h - 1 - i) (drop (Suc i) ?xs)"
      using assms(5) by (simp add: splice1_def min.absorb2)
    moreover have "take (?h - 1 - i) (drop (Suc i) ?xs) = drop (Suc i) (take ?h ?xs)"
      using False by (simp add: drop_take)
    moreover have "set (take i ?xs) \<subseteq> set (take ?h ?xs)" using False by (intro set_take_subset_set_take) simp
    ultimately show ?thesis by (auto dest: in_set_dropD)
  qed
  have dr: "drop (?h - 1) (splice1 i ?xs) = drop ?h ?xs"
    using False assms(2,5) by (simp add: splice1_def)
  have "?h - 1 \<le> length (splice1 i ?xs)" using False assms(2,5) by (simp add: splice1_def)
  then show ?thesis using False tk dr assms(3,4) by (auto simp: window_ok_def)
qed

lemma remove_represents:
  assumes "represents windowMs now s h" "(u, a) \<in> set h"
  shows "represents windowMs now (trust_remove u a s) (hist_remove a h)"
proof -
  let ?c = "now - windowMs" and ?k = "attemptKey a"
  have ok: "history_ok now h" and seen: "set (seenAttempts s) = (attemptKey \<circ> snd) ` set h"
    and win: "\<And>v. case map_of (bySubject s) v of None \<Rightarrow> attempts_of v h = []
      | Some w \<Rightarrow> window_ok ?c (attempts_of v h) w"
    using assms(1) by (simp_all add: represents_def)
  have dist: "distinct (map (attemptKey \<circ> snd) h)" using ok by (simp add: history_ok_def)
  have only: "x = (u, a)" if "x \<in> set h" "attemptKey (snd x) = ?k" for x
    using dist that assms(2) unfolding distinct_map inj_on_def by force
  have cut: "attempts_of v (hist_remove a h) = filter (\<lambda>b. attemptKey b \<noteq> ?k) (attempts_of v h)" for v
    by (simp add: attempts_of_def hist_remove_def filter_map o_def case_prod_beta conj_commute)
  have other: "attempts_of v (hist_remove a h) = attempts_of v h" if "v \<noteq> u" for v
    unfolding cut using only that by (auto simp: filter_id_conv set_attempts_of)
  have hok: "history_ok now (hist_remove a h)"
    using ok by (auto simp: history_ok_def hist_remove_def distinct_map_filter sorted_filter)
  have keys: "set (seenAttempts s) - {?k} = (attemptKey \<circ> snd) ` set (hist_remove a h)"
    by (auto simp: seen hist_remove_def)
  obtain w where w: "map_of (bySubject s) u = Some w" "window_ok ?c (attempts_of u h) w"
    using win [of u] assms(2) by (cases "map_of (bySubject s) u") (auto simp: set_attempts_of [symmetric])
  obtain gone where g: "attempts_of u h = gone @ wattempts w" "whead w \<le> length (wattempts w)"
    "\<forall>a \<in> set gone \<union> set (take (whead w) (wattempts w)). attemptAt a \<le> ?c"
    "wsum w = (\<Sum>a\<leftarrow>drop (whead w) (wattempts w). minor (attemptAmount a))"
    using w(2) by (auto simp: window_ok_def)
  have ds: "distinct (map attemptKey (attempts_of u h))"
    using dist unfolding attempts_of_def map_map by (rule distinct_map_filter)
  show ?thesis
  proof (cases "index_of (\<lambda>b. attemptKey b = ?k) (wattempts w)")
    case None
    then have "filter (\<lambda>b. attemptKey b \<noteq> ?k) (wattempts w) = wattempts w"
      by (auto simp: index_of_None filter_id_conv)
    then have "window_ok ?c (attempts_of u (hist_remove a h)) w"
      unfolding cut g(1) window_ok_def using g(2-4) by (intro exI [of _ "filter (\<lambda>b. attemptKey b \<noteq> ?k) gone"]) auto
    then have "case map_of (bySubject s) v of None \<Rightarrow> attempts_of v (hist_remove a h) = []
      | Some w \<Rightarrow> window_ok ?c (attempts_of v (hist_remove a h)) w" for v
      using w(1) win [of v] other [of v] by (cases "v = u") (simp_all only: option.case simp_thms)
    then show ?thesis using None w(1) hok keys by (simp add: trust_remove_def represents_def)
  next
    case (Some i)
    from index_of_Some [OF Some] have i: "i < length (wattempts w)" "attemptKey (wattempts w ! i) = ?k" by simp_all
    have "(u, wattempts w ! i) \<in> set h"
      unfolding set_attempts_of [symmetric] g(1) using i(1) by simp
    then have a: "wattempts w ! i = a" using only i(2) by fastforce
    have "a \<notin> set gone" using ds g(1) i(1) a by (metis disjoint_iff distinct_append distinct_map nth_mem)
    have "filter (\<lambda>b. attemptKey b \<noteq> ?k) gone = gone"
      using only ds g(1) i a unfolding filter_id_conv by (auto simp: distinct_map_filter image_iff disjoint_iff)
    moreover have "splice1 i (wattempts w) = filter (\<lambda>b. attemptKey b \<noteq> ?k) (wattempts w)"
      using splice1_filter [of attemptKey "wattempts w" i] ds g(1) i by simp
    ultimately have e: "attempts_of u (hist_remove a h) = gone @ splice1 i (wattempts w)"
      unfolding cut g(1) by simp
    define w' where "w' = (if i \<ge> whead w then w\<lparr>wattempts := splice1 i (wattempts w), wsum := wsum w - minor (attemptAmount a)\<rparr>
       else w\<lparr>wattempts := splice1 i (wattempts w), whead := whead w - 1\<rparr>)"
    have "window_ok ?c (attempts_of u (hist_remove a h)) w'"
      unfolding e w'_def using window_ok_splice [OF g(1-4) i(1)] unfolding a by simp
    then have "case map_of (AList.update u w' (bySubject s)) v of None \<Rightarrow> attempts_of v (hist_remove a h) = []
      | Some w \<Rightarrow> window_ok ?c (attempts_of v (hist_remove a h)) w" for v
      using win [of v] other [of v] by (cases "v = u") (simp_all only: option.case simp_thms map_of_update fun_upd_same fun_upd_other not_False_eq_True)
    then show ?thesis using Some w(1) hok keys
      by (simp add: trust_remove_def represents_def Let_def w'_def [symmetric])
  qed
qed

section \<open>Properties\<close>

text \<open>
  A run of the store: attempts recorded and windows read as the clock moves on, and insertions undone
  when their transaction rolls back. Beside the state it carries the history the reference would see.
\<close>

inductive trust_run :: "int \<Rightarrow> int \<Rightarrow> trust_store \<Rightarrow> history \<Rightarrow> bool" for windowMs where
  start: "trust_run windowMs now empty_trust []"
| insert: "trust_run windowMs t s h \<Longrightarrow> t \<le> attemptAt a \<Longrightarrow> 0 < attemptAt a \<Longrightarrow>
    trust_run windowMs (attemptAt a) (trust_insert u a s) (hist_insert u a h)"
| measure: "trust_run windowMs t s h \<Longrightarrow> t \<le> now \<Longrightarrow> trust_measure u now windowMs s = Inr (v, s') \<Longrightarrow>
    trust_run windowMs now s' h"
| undo: "trust_run windowMs t s h \<Longrightarrow> (u, a) \<in> set h \<Longrightarrow> trust_run windowMs t (trust_remove u a s) (hist_remove a h)"

lemma trust_run_represents: "trust_run windowMs now s h \<Longrightarrow> represents windowMs now s h"
proof (induction rule: trust_run.induct)
  case (measure t s h now u v s')
  from measure_represents [OF measure.IH measure.hyps(2), of u] measure.hyps(3) show ?case
    by (auto split: sum.splits)
qed (simp_all add: represents_empty insert_represents remove_represents)

text \<open>
  (C28) The trust store is the sliding window. In every state the store reaches by recording attempts
  under a clock that moves forward, reading windows and undoing insertions, reading a subject's window
  gives exactly what the reference sums from the whole history: the same total, count and window start,
  and the same overflow fault.
\<close>
theorem trust_store_is_window:
  assumes "trust_run windowMs t s h" "t \<le> now"
  shows "rbind (trust_measure u now windowMs s) (\<lambda>(v, s'). Inr v) = windowedVelocity u (attempts_of u h) now windowMs"
  using measure_represents [OF trust_run_represents [OF assms(1)] assms(2), of u]
  by (cases "windowedVelocity u (attempts_of u h) now windowMs") auto

definition demo_attempt :: "string \<Rightarrow> int \<Rightarrow> int \<Rightarrow> attempt" where
  "demo_attempt k m t = \<lparr>attemptKey = k, attemptAmount = \<lparr>currency = CREDIT, minor = m\<rparr>, attemptAt = t, attemptCommitted = True\<rparr>"

theorem trust_store_is_window_witness:
  "rbind (trust_measure ''out:u'' 130 60
      (trust_insert ''out:u'' (demo_attempt ''b'' 30 100) (trust_insert ''out:u'' (demo_attempt ''a'' 20 50) empty_trust)))
     (\<lambda>(v, s'). Inr v) = windowedVelocity ''out:u'' [demo_attempt ''a'' 20 50, demo_attempt ''b'' 30 100] 130 60"
proof -
  have "trust_run 60 50 (trust_insert ''out:u'' (demo_attempt ''a'' 20 50) empty_trust)
      (hist_insert ''out:u'' (demo_attempt ''a'' 20 50) [])"
    using trust_run.insert [OF trust_run.start [of 60 0], of "demo_attempt ''a'' 20 50"] by (simp add: demo_attempt_def)
  from trust_run.insert [OF this, of "demo_attempt ''b'' 30 100" "''out:u''"]
  show ?thesis
    using trust_store_is_window [of 60 100 _ _ 130 "''out:u''"] by (simp add: demo_attempt_def hist_insert_def)
qed

text \<open>
  (C29) The verdict is the limit. An operation is denied exactly when it is risk-checked and the attempts
  of its subject inside the window, together with its own amount, exceed the limit of its class: the
  class's own limit when set, the common one otherwise.
\<close>
theorem risk_denied_iff:
  assumes "windowedVelocity u (attempts_of u h) now windowMs = Inr v" "riskSubject opn = Some (u, cls)"
  shows "assessRisk v opn cfg \<longleftrightarrow>
    (\<Sum>a\<leftarrow>filter (\<lambda>a. now - windowMs < attemptAt a) (attempts_of u h). minor (attemptAmount a)) + attemptMinor opn
      \<le> (case (if cls = RiskIn then velocityInflowLimitMinor cfg else velocityOutflowLimitMinor cfg) of
           Some l \<Rightarrow> l | None \<Rightarrow> velocityLimitMinor cfg)"
proof -
  have "fst (foldl (window_step c) (m, st, n) as) =
      m + (\<Sum>a\<leftarrow>filter (\<lambda>a. c < attemptAt a) as. minor (attemptAmount a))" for c m st n as
    by (induction as arbitrary: m st n) (auto simp: window_step_def not_less)
  from this [of "now - windowMs" 0 0 0 "attempts_of u h"] show ?thesis
    using assms by (auto simp: windowedVelocity_def toAmount_Inr assessRisk_def classLimitMinor_def not_less split: prod.splits)
qed

theorem risk_denied_iff_witness:
  "\<not> assessRisk \<lparr>vsubject = ''in:u'', windowStart = 90, spent = \<lparr>currency = CREDIT, minor = 700\<rparr>, vattempts = 1\<rparr>
     \<lparr>idempotencyKey = ''k'', actor = UserActor ''u'', payload = TopUp ''u'' \<lparr>currency = CREDIT, minor = 400\<rparr> ''card''\<rparr>
     ((projr (loadConfig []))\<lparr>velocityInflowLimitMinor := Some 1000\<rparr>)"
proof -
  let ?v = "\<lparr>vsubject = ''in:u'', windowStart = 90, spent = \<lparr>currency = CREDIT, minor = 700\<rparr>, vattempts = 1\<rparr>"
  let ?o = "\<lparr>idempotencyKey = ''k'', actor = UserActor ''u'', payload = TopUp ''u'' \<lparr>currency = CREDIT, minor = 400\<rparr> ''card''\<rparr>"
  let ?h = "[(''in:u'', demo_attempt ''x'' 300 10), (''in:u'', demo_attempt ''a'' 700 90)]"
  have "windowedVelocity ''in:u'' (attempts_of ''in:u'' ?h) 100 50 = Inr ?v"
    by (simp add: windowedVelocity_def window_step_def demo_attempt_def toAmount_def VELOCITY_CURRENCY_def
        I64_MIN_def I64_MAX_def)
  moreover have "riskSubject ?o = Some (''in:u'', RiskIn)" by (simp add: riskSubject_def)
  ultimately show ?thesis
    using risk_denied_iff [of "''in:u''" ?h 100 50 ?v ?o RiskIn "(projr (loadConfig []))\<lparr>velocityInflowLimitMinor := Some 1000\<rparr>"]
    by (simp add: demo_attempt_def attemptMinor_def)
qed

end
