(* ===== verification/Accounts.thy ===== *)
theory Accounts
  imports Contract "HOL-Library.Word"
begin

text \<open>
  src/accounts.ts: account identifiers, the shard routing of the platform's hot accounts, the traits
  of the system accounts (denomination, normal side, class in the backing check), and the accounts
  an operation locks before it posts.
\<close>

unbundle bit_operations_syntax

section \<open>Identifiers\<close>

datatype AccountKind = Kspendable | Kearned | Kpromo | Kescrow

definition spendable :: "string \<Rightarrow> AccountRef" where "spendable u = u @ '':spendable''"
definition sessionEscrow :: "string \<Rightarrow> string \<Rightarrow> AccountRef" where
  "sessionEscrow u s = u @ '':'' @ s @ '':escrow''"
definition earned :: "string \<Rightarrow> AccountRef" where "earned u = u @ '':earned''"
definition promo :: "string \<Rightarrow> AccountRef" where "promo u = u @ '':promo''"

definition walletKindOf :: "AccountRef \<Rightarrow> AccountKind option" where
  "walletKindOf ref =
     (case split_last CHR '':'' ref of
        None \<Rightarrow> None
      | Some (_, suffix) \<Rightarrow>
          (if suffix = ''spendable'' then Some Kspendable
           else if suffix = ''earned'' then Some Kearned
           else if suffix = ''promo'' then Some Kpromo
           else if suffix = ''escrow'' then Some Kescrow
           else None))"

definition escrowPartsOf :: "AccountRef \<Rightarrow> (string \<times> string) option" where
  "escrowPartsOf ref =
     (if walletKindOf ref \<noteq> Some Kescrow then None
      else case split_last CHR '':'' ref of
             None \<Rightarrow> None
           | Some (front, _) \<Rightarrow> split_first CHR '':'' front)"

definition "TRUST_CASH = ''platform:trust_cash''"
definition "REVENUE = ''platform:revenue''"
definition "STORED_VALUE = ''platform:stored_value''"
definition "PAYOUT_RESERVE = ''platform:payout_reserve''"
definition "RECEIVABLE = ''platform:receivable''"
definition "PROMO_FLOAT = ''platform:promo_float''"
definition "USD_CLEARING = ''platform:usd_clearing''"
definition "REVENUE_USD = ''platform:revenue_usd''"
definition "OPENING_EQUITY = ''platform:opening_equity''"
definition "NETTING_CLEARING = ''platform:netting_clearing''"
definition "SETTLEMENT_ACCRUAL = ''platform:settlement_accrual''"

lemmas system_ids = TRUST_CASH_def REVENUE_def STORED_VALUE_def PAYOUT_RESERVE_def RECEIVABLE_def
  PROMO_FLOAT_def USD_CLEARING_def REVENUE_USD_def OPENING_EQUITY_def NETTING_CLEARING_def
  SETTLEMENT_ACCRUAL_def

definition SYSTEM :: "AccountRef list" where
  "SYSTEM = [TRUST_CASH, REVENUE, STORED_VALUE, PAYOUT_RESERVE, RECEIVABLE, PROMO_FLOAT,
     USD_CLEARING, REVENUE_USD, OPENING_EQUITY, NETTING_CLEARING, SETTLEMENT_ACCRUAL]"

section \<open>Shards\<close>

definition SHARDED :: "AccountRef list" where
  "SHARDED = [REVENUE, PROMO_FLOAT, STORED_VALUE, TRUST_CASH, USD_CLEARING, REVENUE_USD,
     PAYOUT_RESERVE, SETTLEMENT_ACCRUAL]"

definition baseOf :: "AccountRef \<Rightarrow> AccountRef" where
  "baseOf ref =
     (if \<not> starts_with ''platform:'' ref then ref
      else case split_first CHR ''#'' ref of None \<Rightarrow> ref | Some (base, _) \<Rightarrow> base)"

definition shardRef :: "AccountRef \<Rightarrow> nat \<Rightarrow> AccountRef" where
  "shardRef base shard = (if shard = 0 then base else base @ ''#'' @ nat_text shard)"

definition shardsOf :: "AccountRef \<Rightarrow> nat \<Rightarrow> AccountRef list" where
  "shardsOf base shards = map (shardRef base) [0..<max 1 shards]"

definition isShardedBase :: "AccountRef \<Rightarrow> bool" where
  "isShardedBase ref \<longleftrightarrow> ref \<in> set SHARDED"

definition fnv1a :: "string \<Rightarrow> 32 word" where
  "fnv1a key = foldl (\<lambda>hash c. (hash XOR of_char c) * 0x01000193) 0x811c9dc5 key"

definition platformShard :: "AccountRef \<Rightarrow> string \<Rightarrow> nat \<Rightarrow> AccountRef" where
  "platformShard ref key shards =
     (if shards < 2 \<or> ref \<notin> set SHARDED then ref
      else shardRef ref (nat (uint (fnv1a key) mod int shards)))"

definition routePlatformLegs :: "leg list \<Rightarrow> string \<Rightarrow> nat \<Rightarrow> leg list" where
  "routePlatformLegs ls key shards =
     (if shards < 2 then ls
      else map (\<lambda>l. let routed = platformShard (account l) key shards
                    in if routed = account l then l else l\<lparr>account := routed\<rparr>) ls)"

section \<open>Identity and classification\<close>

definition isWalletAccount :: "AccountRef \<Rightarrow> bool" where
  "isWalletAccount ref \<longleftrightarrow> CHR '':'' \<in> set ref \<and> \<not> starts_with ''platform:'' ref"

definition ownerOf :: "AccountRef \<Rightarrow> string" where
  "ownerOf ref = (case split_last CHR '':'' ref of None \<Rightarrow> ref | Some (front, _) \<Rightarrow> front)"

datatype account_class = Custodial | Excluded | HouseAsset | HouseLiability

definition SYSTEM_TRAITS :: "(AccountRef \<times> currency \<times> bool \<times> account_class) list" where
  "SYSTEM_TRAITS =
    [(TRUST_CASH, USD, True, HouseAsset),
     (USD_CLEARING, USD, True, HouseAsset),
     (REVENUE_USD, USD, True, HouseAsset),
     (STORED_VALUE, CREDIT, True, HouseAsset),
     (RECEIVABLE, CREDIT, True, HouseAsset),
     (OPENING_EQUITY, CREDIT, True, HouseAsset),
     (PROMO_FLOAT, CREDIT, True, HouseLiability),
     (REVENUE, CREDIT, False, HouseLiability),
     (PAYOUT_RESERVE, CREDIT, False, Excluded),
     (SETTLEMENT_ACCRUAL, CREDIT, False, Excluded)]"

text \<open>The source's \<open>currency\<close> of an account; the amount record has a field of that name.\<close>

definition currencyOf :: "AccountRef \<Rightarrow> currency" where
  "currencyOf ref = (case map_of SYSTEM_TRAITS (baseOf ref) of Some (c, _, _) \<Rightarrow> c | None \<Rightarrow> CREDIT)"

definition classify :: "AccountRef \<Rightarrow> account_class" where
  "classify ref =
     (case map_of SYSTEM_TRAITS (baseOf ref) of
        Some (_, _, cl) \<Rightarrow> cl
      | None \<Rightarrow> (let kind = walletKindOf ref
                 in if kind = Some Kspendable \<or> kind = Some Kescrow then Custodial else Excluded))"

definition isDebitNormal :: "AccountRef \<Rightarrow> bool" where
  "isDebitNormal ref = (case map_of SYSTEM_TRAITS (baseOf ref) of Some (_, d, _) \<Rightarrow> d | None \<Rightarrow> False)"

section \<open>Lock sets\<close>

definition REVERSAL_CONTRAS :: "AccountRef list" where
  "REVERSAL_CONTRAS = [REVENUE, PROMO_FLOAT, RECEIVABLE]"

definition accountsOf :: "operation \<Rightarrow> nat \<Rightarrow> bool \<Rightarrow> AccountRef list" where
  "accountsOf opn s accrual =
     (let key = idempotencyKey opn in
      case payload opn of
        TopUp userId _ _ \<Rightarrow>
          [spendable userId, platformShard STORED_VALUE key s, platformShard TRUST_CASH key s,
           platformShard USD_CLEARING key s, platformShard REVENUE_USD key s]
      | Spend _ buyerId _ _ recipients _ _ \<Rightarrow>
          [promo buyerId, spendable buyerId, platformShard PROMO_FLOAT key s,
           platformShard REVENUE key s] @
          (if accrual then [platformShard SETTLEMENT_ACCRUAL key s]
           else map (\<lambda>r. earned (sellerId r)) recipients)
      | Refund _ _ \<Rightarrow> REVERSAL_CONTRAS
      | Clawback userId _ _ _ _ \<Rightarrow> [spendable userId, STORED_VALUE, RECEIVABLE]
      | RequestPayout userId _ \<Rightarrow> [earned userId, platformShard PAYOUT_RESERVE userId s]
      | Subscribe userId seller _ _ _ \<Rightarrow>
          (if accrual
           then [promo userId, spendable userId, platformShard PROMO_FLOAT key s,
                 platformShard REVENUE key s, platformShard SETTLEMENT_ACCRUAL key s]
           else [promo userId, spendable userId, PROMO_FLOAT, REVENUE, earned seller])
      | CancelSubscription _ \<Rightarrow> []
      | GrantEntitlement _ _ _ \<Rightarrow> []
      | RevokeEntitlement _ _ _ \<Rightarrow> []
      | GrantPromo userId _ _ \<Rightarrow> [promo userId, PROMO_FLOAT]
      | Adjust acct _ _ \<Rightarrow> [acct, OPENING_EQUITY]
      | Reverse _ _ \<Rightarrow> REVERSAL_CONTRAS
      | ReversePayout userId _ _ _ \<Rightarrow> [platformShard PAYOUT_RESERVE userId s, earned userId]
      | SettlePayout _ _ _ \<Rightarrow> [PAYOUT_RESERVE, REVENUE, USD_CLEARING, TRUST_CASH])"

section \<open>Lemmas on identifiers\<close>

lemma wallet_ids_inj [simp]:
  "spendable u = spendable v \<longleftrightarrow> u = v" "earned u = earned v \<longleftrightarrow> u = v" "promo u = promo v \<longleftrightarrow> u = v"
  by (simp_all add: spendable_def earned_def promo_def)

lemma split_last_wallet [simp]:
  "split_last CHR '':'' (spendable u) = Some (u, ''spendable'')"
  "split_last CHR '':'' (earned u) = Some (u, ''earned'')"
  "split_last CHR '':'' (promo u) = Some (u, ''promo'')"
  "split_last CHR '':'' (sessionEscrow u s) = Some (u @ '':'' @ s, ''escrow'')"
  using split_last_append [of "CHR '':''" "''spendable''" u] split_last_append [of "CHR '':''" "''earned''" u]
    split_last_append [of "CHR '':''" "''promo''" u] split_last_append [of "CHR '':''" "''escrow''" "u @ '':'' @ s"]
  by (simp_all add: spendable_def earned_def promo_def sessionEscrow_def)

lemma walletKindOf_wallet [simp]:
  "walletKindOf (spendable u) = Some Kspendable" "walletKindOf (earned u) = Some Kearned"
  "walletKindOf (promo u) = Some Kpromo" "walletKindOf (sessionEscrow u s) = Some Kescrow"
  by (simp_all add: walletKindOf_def)

lemma wallet_ids_distinct [simp]:
  "spendable u \<noteq> earned v" "spendable u \<noteq> promo v" "earned u \<noteq> promo v"
  "earned u \<noteq> spendable v" "promo u \<noteq> spendable v" "promo u \<noteq> earned v"
  by (auto dest: arg_cong [where f = walletKindOf])

lemma ownerOf_wallet [simp]: "ownerOf (spendable u) = u" "ownerOf (earned u) = u" "ownerOf (promo u) = u"
  by (simp_all add: ownerOf_def)

lemma escrowPartsOf_sessionEscrow:
  "escrowPartsOf (sessionEscrow u s) = Some (u, s) \<longleftrightarrow> CHR '':'' \<notin> set u"
  by (auto simp: escrowPartsOf_def split_first_append dest: split_first_Some)

lemma escrowPartsOf_Some: "escrowPartsOf ref = Some (u, s) \<Longrightarrow> ref = sessionEscrow u s"
  by (auto simp: escrowPartsOf_def walletKindOf_def sessionEscrow_def
      dest!: split_first_Some split_last_Some split: option.splits if_splits prod.splits)

lemma system_ids_wallet:
  "ref \<in> set SYSTEM \<Longrightarrow> walletKindOf ref = None \<and> \<not> isWalletAccount ref"
proof -
  have "list_all (\<lambda>ref. walletKindOf ref = None \<and> \<not> isWalletAccount ref) SYSTEM" by code_simp
  then show "ref \<in> set SYSTEM \<Longrightarrow> walletKindOf ref = None \<and> \<not> isWalletAccount ref"
    by (simp add: list_all_iff)
qed

lemma system_not_wallet [simp]:
  "ref \<in> set SYSTEM \<Longrightarrow> ref \<noteq> spendable u" "ref \<in> set SYSTEM \<Longrightarrow> ref \<noteq> earned u"
  "ref \<in> set SYSTEM \<Longrightarrow> ref \<noteq> promo u"
  by (auto dest!: system_ids_wallet)

section \<open>A shard behaves like its parent\<close>

lemma sharded_shape: "ref \<in> set SHARDED \<Longrightarrow> starts_with ''platform:'' ref \<and> CHR ''#'' \<notin> set ref"
proof -
  have "list_all (\<lambda>ref. starts_with ''platform:'' ref \<and> CHR ''#'' \<notin> set ref) SHARDED" by code_simp
  then show "ref \<in> set SHARDED \<Longrightarrow> starts_with ''platform:'' ref \<and> CHR ''#'' \<notin> set ref"
    by (simp add: list_all_iff)
qed

lemma baseOf_shardRef:
  assumes "starts_with ''platform:'' ref" "CHR ''#'' \<notin> set ref"
  shows "baseOf (shardRef ref k) = ref"
proof -
  have "starts_with ''platform:'' (ref @ t)" for t
    using assms(1) by (rule starts_with_longer)
  then show ?thesis
    using assms by (simp add: baseOf_def shardRef_def split_first_def takeWhile_sep)
qed

lemma baseOf_sharded [simp]: "ref \<in> set SHARDED \<Longrightarrow> baseOf (shardRef ref k) = ref"
  using sharded_shape baseOf_shardRef by blast

lemma baseOf_platformShard [simp]: "baseOf (platformShard ref key n) = baseOf ref"
proof (cases "ref \<in> set SHARDED")
  case True
  have "baseOf ref = ref" using baseOf_sharded [OF True, of 0] by (simp add: shardRef_def)
  then show ?thesis using True by (simp add: platformShard_def)
qed (simp add: platformShard_def)

lemma sharded_traits: "ref \<in> set SHARDED \<Longrightarrow> map_of SYSTEM_TRAITS ref \<noteq> None"
proof -
  have "list_all (\<lambda>ref. map_of SYSTEM_TRAITS ref \<noteq> None) SHARDED" by code_simp
  then show "ref \<in> set SHARDED \<Longrightarrow> map_of SYSTEM_TRAITS ref \<noteq> None"
    by (simp add: list_all_iff)
qed

lemma traits_platformShard [simp]:
  "currencyOf (platformShard ref key n) = currencyOf ref"
  "isDebitNormal (platformShard ref key n) = isDebitNormal ref"
  by (simp_all add: currencyOf_def isDebitNormal_def)

lemma classify_platformShard [simp]: "classify (platformShard ref key n) = classify ref"
proof (cases "ref \<in> set SHARDED")
  case True
  have "baseOf ref = ref" using baseOf_sharded [OF True, of 0] by (simp add: shardRef_def)
  then show ?thesis
    using sharded_traits [OF True] by (auto simp: classify_def split: option.splits)
qed (simp add: platformShard_def)

lemma routePlatformLegs_map:
  "routePlatformLegs ls key n = map (\<lambda>l. l\<lparr>account := platformShard (account l) key n\<rparr>) ls"
proof -
  have "l\<lparr>account := account l\<rparr> = l" for l :: leg by simp
  then show ?thesis
    by (auto simp: routePlatformLegs_def Let_def platformShard_def intro!: map_cong [symmetric] map_idI [symmetric])
qed

lemma nat_text_inj [simp]: "nat_text m = nat_text n \<longleftrightarrow> m = n"
  by (metis digits_val_nat_text)

lemma shardRef_inj: "shardRef ref j = shardRef ref k \<longleftrightarrow> j = k"
  by (auto simp: shardRef_def)

lemma shardsOf_distinct: "distinct (shardsOf ref n)"
  by (simp add: shardsOf_def distinct_map inj_on_def shardRef_inj)

lemma platformShard_in_shardsOf: "platformShard ref key n \<in> set (shardsOf ref n)"
proof (cases "n < 2 \<or> ref \<notin> set SHARDED")
  case True
  then show ?thesis by (auto simp: platformShard_def shardsOf_def shardRef_def image_iff intro!: bexI [of _ 0])
next
  case False
  then have "nat (uint (fnv1a key) mod int n) < max 1 n"
    using pos_mod_bound [of "int n" "uint (fnv1a key)"] by (simp add: nat_less_iff)
  with False show ?thesis by (simp add: platformShard_def shardsOf_def)
qed

section \<open>Properties\<close>

text \<open>
  (C37) Routing a posting to shards changes no identity: every routed leg keeps its amount, and its
  account keeps its currency, its normal side and its class and is one of the shards its base lists.
\<close>

theorem routing_keeps_identity:
  "list_all2 (\<lambda>l r. amount r = amount l \<and> currencyOf (account r) = currencyOf (account l) \<and>
       isDebitNormal (account r) = isDebitNormal (account l) \<and>
       classify (account r) = classify (account l) \<and>
       account r \<in> set (shardsOf (account l) shards))
     ls (routePlatformLegs ls key shards)"
  by (auto simp: routePlatformLegs_map list_all2_map2 platformShard_in_shardsOf intro!: list.rel_refl_strong)

text \<open>
  A session escrow id parses back to the user and session it was built from exactly when the
  user id has no colon, and whatever parses was built that way.
\<close>

theorem escrow_id_roundtrip:
  "(escrowPartsOf (sessionEscrow u s) = Some (u, s)) = (CHR '':'' \<notin> set u) \<and>
   (\<forall>ref. case escrowPartsOf ref of None \<Rightarrow> True | Some (v, t) \<Rightarrow> ref = sessionEscrow v t)"
  by (auto simp: escrowPartsOf_sessionEscrow dest: escrowPartsOf_Some split: option.splits)

end
