(* ===== verification/Bytes.thy ===== *)
theory Bytes
  imports Accounts
begin

text \<open>
  src/bytes.ts: bytes as 8-bit words, lowercase hex both ways, the 8-byte big-endian form of a
  signed 64-bit integer, and the UTF-8 encoder the ledger hashes text through.
\<close>

type_synonym byte = "8 word"

definition hex_char :: "nat \<Rightarrow> char" where
  "hex_char n = (if n < 10 then char_of (48 + n) else char_of (87 + n))"

text \<open>The table row of one byte: \<open>toString(16)\<close> padded to two characters.\<close>

definition HEX :: "byte \<Rightarrow> string" where
  "HEX b = padStart 2 (if unat b < 16 then [hex_char (unat b)]
                       else [hex_char (unat b div 16), hex_char (unat b mod 16)])"

definition toHex :: "byte list \<Rightarrow> string" where
  "toHex bytes = concat (map HEX bytes)"

definition hexDigit :: "char \<Rightarrow> nat res" where
  "hexDigit c =
     (let code = (of_char c :: nat)
      in if 48 \<le> code \<and> code \<le> 57 then Inr (code - 48)
         else if 97 \<le> code \<and> code \<le> 102 then Inr (code - 87)
         else Inl (fault MALFORMED_OPERATION))"

fun fromHex_pairs :: "string \<Rightarrow> byte list res" where
  "fromHex_pairs (h # l # rest) =
     rbind (hexDigit h) (\<lambda>high. rbind (hexDigit l) (\<lambda>low.
     rbind (fromHex_pairs rest) (\<lambda>bytes.
       Inr ((push_bit 4 (word_of_nat high) OR word_of_nat low) # bytes))))"
| "fromHex_pairs _ = Inr []"

definition fromHex :: "string \<Rightarrow> byte list res" where
  "fromHex hex =
     rbind (ensure (length hex mod 2 = 0) (fault MALFORMED_OPERATION)) (\<lambda>_. fromHex_pairs hex)"

definition int64_bytes :: "64 word \<Rightarrow> byte list" where
  "int64_bytes w = map (\<lambda>k. ucast (drop_bit (8 * k) w)) (rev [0..<8])"

definition toInt64BE :: "int \<Rightarrow> byte list res" where
  "toInt64BE v =
     (if v < - (2 ^ 63) \<or> v \<ge> 2 ^ 63 then Inl (fault AMOUNT_OVERFLOW)
      else Inr (int64_bytes (word_of_int v)))"

definition byCodeUnit :: "string \<Rightarrow> string \<Rightarrow> int" where
  "byCodeUnit a b = (if a < b then - 1 else if a > b then 1 else 0)"

text \<open>\<open>TextEncoder.encode\<close> on a string whose code units are below 256.\<close>

definition utf8_char :: "char \<Rightarrow> byte list" where
  "utf8_char c =
     (if (of_char c :: nat) < 128 then [of_char c]
      else [0xC0 OR drop_bit 6 (of_char c), 0x80 OR (of_char c AND 0x3F)])"

definition utf8 :: "string \<Rightarrow> byte list" where
  "utf8 s = concat (map utf8_char s)"

section \<open>Hex round trips\<close>

lemma byte_bound: "unat (b :: byte) < 256"
proof -
  have "unat b < 2 ^ LENGTH(8)" by (rule unsigned_less)
  then show ?thesis by simp
qed

lemma hexDigit_hex_char: "n < 16 \<Longrightarrow> hexDigit (hex_char n) = Inr n"
  by (auto simp: hexDigit_def hex_char_def of_char_of Let_def)

lemma hexDigit_Inr: "hexDigit c = Inr n \<Longrightarrow> n < 16 \<and> hex_char n = c"
  by (auto simp: hexDigit_def hex_char_def Let_def split: if_splits)

lemma HEX_digits: "HEX b = [hex_char (unat b div 16), hex_char (unat b mod 16)]"
  by (auto simp: HEX_def padStart_def hex_char_def char_of_def bit_Suc_0_iff)

lemma bit_unat_word: "bit (unat (w :: byte)) n = bit w n"
  by (auto simp: bit_unsigned_iff dest: bit_imp_le_length)

lemma low_nibble_bit: "m < 16 \<Longrightarrow> bit (word_of_nat m :: byte) n \<Longrightarrow> n < 4"
proof -
  assume m: "m < 16" and b: "bit (word_of_nat m :: byte) n"
  have "bit (unat (word_of_nat m :: byte)) n" using b by (simp only: bit_unat_word)
  then have "bit m n" using m by (simp add: unat_of_nat)
  then show "n < 4"
    using take_bit_nat_eq_self [of m 4] bit_take_bit_iff [of 4 m n] m by simp
qed

lemma byte_of_nibbles:
  assumes "high < 16" "low < 16"
  shows "unat (push_bit 4 (word_of_nat high) OR word_of_nat low :: byte) = 16 * high + low"
proof -
  let ?h = "push_bit 4 (word_of_nat high) :: byte"
  have "?h + word_of_nat low = (?h OR word_of_nat low)"
    by (rule disjunctive_add) (use low_nibble_bit [OF assms(2)] in \<open>fastforce simp: bit_push_bit_iff\<close>)
  then have "?h OR word_of_nat low = word_of_nat (16 * high + low)"
    by (simp add: push_bit_eq_mult mult.commute)
  then show ?thesis using assms by (simp only: unat_of_nat) simp
qed

lemma nibble_bounds: "unat (b :: byte) div 16 < 16" "unat (b :: byte) mod 16 < 16"
  using byte_bound [of b] by auto

lemma byte_nibbles: "push_bit 4 (word_of_nat (unat b div 16)) OR word_of_nat (unat b mod 16) = (b :: byte)"
  by (rule word_unat_eq_iff [THEN iffD2]) (simp add: byte_of_nibbles [OF nibble_bounds])

lemma fromHex_pairs_iff:
  "length h mod 2 = 0 \<Longrightarrow> fromHex_pairs h = Inr bs \<longleftrightarrow> toHex bs = h"
proof (induction h arbitrary: bs rule: fromHex_pairs.induct)
  case (1 h l rest)
  have "length rest mod 2 = 0" using 1(2) by (simp add: mod_Suc split: if_splits)
  note IH = 1(1) [OF this]
  show ?case
  proof
    assume "fromHex_pairs (h # l # rest) = Inr bs"
    then obtain hi lo cs where *: "hexDigit h = Inr hi" "hexDigit l = Inr lo" "fromHex_pairs rest = Inr cs"
      "bs = (push_bit 4 (word_of_nat hi) OR word_of_nat lo) # cs" by auto
    then show "toHex bs = h # l # rest"
      using IH hexDigit_Inr [OF *(1)] hexDigit_Inr [OF *(2)]
      by (auto simp: toHex_def HEX_digits byte_of_nibbles)
  next
    assume a: "toHex bs = h # l # rest"
    then obtain b cs where bs: "bs = b # cs" by (cases bs) (auto simp: toHex_def)
    with a have *: "h = hex_char (unat b div 16)" "l = hex_char (unat b mod 16)" "toHex cs = rest"
      by (auto simp: toHex_def HEX_digits)
    have d: "hexDigit h = Inr (unat b div 16)" "hexDigit l = Inr (unat b mod 16)"
      using * nibble_bounds by (simp_all add: hexDigit_hex_char)
    show "fromHex_pairs (h # l # rest) = Inr bs"
      using IH d * by (simp add: bs byte_nibbles)
  qed
qed (auto simp: toHex_def HEX_digits)

lemma length_toHex: "length (toHex bs) = 2 * length bs"
  by (induction bs) (simp_all add: toHex_def HEX_digits)

text \<open>Decoding inverts encoding and nothing else decodes: one text per byte string.\<close>

lemma fromHex_iff_toHex: "fromHex h = Inr bs \<longleftrightarrow> toHex bs = h"
  using fromHex_pairs_iff [of h bs] length_toHex [of bs] by (auto simp: fromHex_def)

lemma toHex_inj [simp]: "toHex a = toHex b \<longleftrightarrow> a = b"
  using fromHex_iff_toHex by (metis sum.inject(2))

section \<open>Fixed-width integers and UTF-8\<close>

lemma int64_bytes_inj: "int64_bytes v = int64_bytes w \<Longrightarrow> v = w"
proof (rule bit_word_eqI)
  fix n assume eq: "int64_bytes v = int64_bytes w" and n: "n < LENGTH(64)"
  have "ucast (drop_bit (8 * (n div 8)) v) = (ucast (drop_bit (8 * (n div 8)) w) :: byte)"
    using eq n by (auto simp: int64_bytes_def map_eq_conv)
  then have "bit (ucast (drop_bit (8 * (n div 8)) v) :: byte) (n mod 8) =
      bit (ucast (drop_bit (8 * (n div 8)) w) :: byte) (n mod 8)" by simp
  then show "bit v n = bit w n" using n by (simp add: bit_ucast_iff bit_drop_bit_eq)
qed

lemma toInt64BE_inj: "toInt64BE m = Inr bs \<Longrightarrow> toInt64BE n = Inr bs \<Longrightarrow> m = n"
proof -
  assume "toInt64BE m = Inr bs" "toInt64BE n = Inr bs"
  then have w: "(word_of_int m :: 64 word) = word_of_int n" and
    b: "- (2 ^ 63) \<le> m" "m < 2 ^ 63" "- (2 ^ 63) \<le> n" "n < 2 ^ 63"
    by (auto simp: toInt64BE_def split: if_splits intro!: int64_bytes_inj)
  have "sint (word_of_int k :: 64 word) = k" if "- (2 ^ 63) \<le> k" "k < 2 ^ 63" for k
    using that by (simp add: signed_of_int signed_take_bit_int_eq_self)
  then show "m = n" using w b by metis
qed

lemma length_toInt64BE: "toInt64BE m = Inr bs \<Longrightarrow> length bs = 8"
  by (auto simp: toInt64BE_def int64_bytes_def split: if_splits)

lemma toInt64BE_total: "(\<exists>bs. toInt64BE m = Inr bs) \<longleftrightarrow> in_i64 m"
  by (auto simp: toInt64BE_def in_i64_def I64_MIN_def I64_MAX_def)

lemma high_bit: "bit (w :: byte) 7 \<longleftrightarrow> 128 \<le> unat w"
proof -
  have "bit w 7 = odd (unat w div 2 ^ 7)"
    using bit_iff_odd [of "unat w" 7] by (simp only: bit_unat_word)
  moreover have "unat w div 128 = 0 \<or> unat w div 128 = 1" using byte_bound [of w] by linarith
  ultimately show ?thesis by auto
qed

lemma of_char_byte: "unat (of_char c :: byte) = of_char c"
proof -
  have "unat (word_of_nat (of_char c :: nat) :: byte) = of_char c"
    using nat_of_char_less_256 [of c] by (simp only: unat_of_nat) simp
  then show ?thesis by (metis of_nat_of_char)
qed

lemma of_char_byte_inj: "(of_char c :: byte) = of_char d \<Longrightarrow> c = d"
  by (metis of_char_byte of_char_eq_iff)

lemma two_byte_inj:
  assumes "0xC0 OR drop_bit 6 x = 0xC0 OR drop_bit 6 (y :: byte)" "0x80 OR (x AND 0x3F) = 0x80 OR (y AND 0x3F)"
  shows "x = y"
proof (rule bit_word_eqI)
  fix n assume n: "n < LENGTH(8)"
  have h: "bit (0xC0 OR drop_bit 6 x) m = bit (0xC0 OR drop_bit 6 y) m"
    "bit (0x80 OR (x AND 0x3F)) m = bit (0x80 OR (y AND 0x3F)) m" for m using assms by simp_all
  from n have "n \<in> {0, 1, 2, 3, 4, 5, 6, 7}" by auto
  then show "bit x n = bit y n"
    using h(1) [of 0] h(1) [of 1] h(2) [of 0] h(2) [of 1] h(2) [of 2] h(2) [of 3] h(2) [of 4] h(2) [of 5]
    by (simp add: bit_or_iff bit_and_iff bit_drop_bit_eq) (elim disjE; simp)
qed

lemma lead_byte: "128 \<le> unat (0xC0 OR x :: byte)"
  by (simp add: bit_or_iff flip: high_bit)

lemma utf8_char_prefix_free:
  assumes "utf8_char c @ s = utf8_char d @ t"
  shows "c = d \<and> s = t"
proof -
  have lead: "of_char c \<noteq> (0xC0 OR x :: byte)" if "(of_char c :: nat) < 128" for c x
    using that lead_byte [of x] of_char_byte [of c] by auto
  consider "(of_char c :: nat) < 128" "(of_char d :: nat) < 128"
    | "\<not> (of_char c :: nat) < 128" "\<not> (of_char d :: nat) < 128"
    using assms lead [of c] lead [of d, symmetric] unfolding utf8_char_def by (auto split: if_splits)
  then show ?thesis
  proof cases
    case 1
    then show ?thesis using assms of_char_byte_inj [of c d] by (simp add: utf8_char_def)
  next
    case 2
    then have eq: "0xC0 OR drop_bit 6 (of_char c) = 0xC0 OR drop_bit 6 (of_char d :: byte)"
      "0x80 OR (of_char c AND 0x3F) = 0x80 OR (of_char d AND (0x3F :: byte))" "s = t"
      using assms by (simp_all only: utf8_char_def if_False append_Cons append_Nil list.inject)
    then have "c = d" using two_byte_inj [OF eq(1,2)] of_char_byte_inj by blast
    then show ?thesis using eq(3) by simp
  qed
qed

lemma utf8_char_nonempty: "utf8_char c \<noteq> []"
  by (simp add: utf8_char_def)

lemma utf8_inj: "utf8 s = utf8 t \<Longrightarrow> s = t"
proof (induction s arbitrary: t)
  case Nil
  then show ?case by (cases t) (auto simp: utf8_def utf8_char_nonempty)
next
  case (Cons c s)
  then obtain d t' where t: "t = d # t'" by (cases t) (auto simp: utf8_def utf8_char_nonempty)
  with Cons.prems have "utf8_char c @ utf8 s = utf8_char d @ utf8 t'" by (simp add: utf8_def)
  from utf8_char_prefix_free [OF this] show ?case using Cons.IH t by simp
qed

section \<open>Properties\<close>

text \<open>Hex decoding accepts exactly the texts hex encoding produces, and inverts it.\<close>

theorem hex_roundtrip: "fromHex h = Inr bs \<longleftrightarrow> toHex bs = h"
  by (rule fromHex_iff_toHex)

end
