(* ===== verification/Ledger.thy ===== *)
theory Ledger
  imports Bytes "HOL-Library.Multiset"
begin

text \<open>
  src/ledger.ts: debit and credit legs, the validation every posting passes before it is appended,
  and the bytes a chain link hashes. The ledger itself is an interface there and here: the record
  \<open>ledger\<close> of the operations the functions below call, over a state of its own.
\<close>

section \<open>Legs\<close>

definition GENESIS :: "byte list" where "GENESIS = replicate 32 0"
definition GENESIS_HEX :: string where "GENESIS_HEX = replicate 64 CHR ''0''"

definition debit :: "AccountRef \<Rightarrow> amount \<Rightarrow> leg" where
  "debit acct a = \<lparr>account = acct, amount = a\<rparr>"

definition credit :: "AccountRef \<Rightarrow> amount \<Rightarrow> leg res" where
  "credit acct a =
     rbind (toAmount (currency a) (- minor a)) (\<lambda>n. Inr \<lparr>account = acct, amount = n\<rparr>)"

definition balanceDelta :: "leg \<Rightarrow> amount res" where
  "balanceDelta l =
     (let sign = (if isDebitNormal (account l) then 1 else - 1)
      in toAmount (currency (amount l)) (minor (amount l) * sign))"

definition isUserGuarded :: "AccountRef \<Rightarrow> bool" where
  "isUserGuarded acct \<longleftrightarrow>
     (classify acct = Custodial \<or> classify acct = Excluded) \<and> CHR '':'' \<in> set acct"

section \<open>The ledger interface and locks\<close>

record 's ledger =
  l_hasAccount :: "AccountRef \<Rightarrow> ('s, bool) act"
  l_balance :: "AccountRef \<Rightarrow> ('s, amount) act"
  l_append :: "posting \<Rightarrow> ('s, transaction) act"
  l_appendAll :: "(posting list \<Rightarrow> ('s, transaction list) act) option"
  l_lock :: "AccountRef \<Rightarrow> ('s, unit) act"
  l_lockMany :: "(AccountRef list \<Rightarrow> ('s, unit) act) option"

definition lock_order :: "AccountRef list \<Rightarrow> AccountRef list" where
  "lock_order accounts = sort (remdups accounts)"

definition lockAll :: "'s ledger \<Rightarrow> AccountRef list \<Rightarrow> ('s, unit) act" where
  "lockAll L accounts =
     (let ordered = lock_order accounts
      in case l_lockMany L of Some many \<Rightarrow> many ordered | None \<Rightarrow> seach (l_lock L) ordered)"

section \<open>Posting\<close>

definition dropZeroLegs :: "posting \<Rightarrow> posting" where
  "dropZeroLegs p =
     (let ls = filter (\<lambda>l. minor (amount l) \<noteq> 0) (legs p)
      in if length ls = length (legs p) then p else p\<lparr>legs := ls\<rparr>)"

definition assertSingleCurrencyPerLeg :: "posting \<Rightarrow> unit res" where
  "assertSingleCurrencyPerLeg p =
     reach (\<lambda>l. ensure (currency (amount l) = currencyOf (account l)) (fault CURRENCY_MISMATCH)) (legs p)"

definition currency_sums :: "leg list \<Rightarrow> (currency \<times> int) list" where
  "currency_sums ls =
     foldl (\<lambda>sums l. bump (currency (amount l)) (minor (amount l)) sums) [] ls"

text \<open>The residual in the error's detail is an amount itself, so building it may overflow first.\<close>

definition assertBalanced :: "posting \<Rightarrow> unit res" where
  "assertBalanced p =
     reach (\<lambda>(c, total). if total \<noteq> 0
              then rbind (toAmount c total) (\<lambda>_. Inl (fault LEDGER_UNBALANCED))
              else Inr ()) (currency_sums (legs p))"

definition assertKnownAccounts :: "'s ledger \<Rightarrow> posting \<Rightarrow> ('s, unit) act" where
  "assertKnownAccounts L p =
     seach (\<lambda>l. sbind (l_hasAccount L (account l)) (\<lambda>known.
       if known then ret () else throw (fault UNKNOWN_ACCOUNT))) (legs p)"

fun guarded_deltas :: "leg list \<Rightarrow> (AccountRef \<times> int) list \<Rightarrow> (AccountRef \<times> int) list res" where
  "guarded_deltas [] ds = Inr ds"
| "guarded_deltas (l # ls) ds =
     (if \<not> isUserGuarded (account l) then guarded_deltas ls ds
      else rbind (balanceDelta l) (\<lambda>d.
        guarded_deltas ls (bump (account l) (minor d) ds)))"

definition assertNoOverdraft :: "'s ledger \<Rightarrow> posting \<Rightarrow> ('s, unit) act" where
  "assertNoOverdraft L p =
     sbind (lift (guarded_deltas (legs p) [])) (\<lambda>deltas.
     seach (\<lambda>(acct, delta).
       if 0 \<le> delta then ret ()
       else sbind (l_balance L acct) (\<lambda>current.
            sbind (lift (toAmount (currency current) (minor current + delta))) (\<lambda>projected.
              if minor projected < 0 then throw (fault OVERDRAFT) else ret ()))) deltas)"

definition post_checks :: "'s ledger \<Rightarrow> posting \<Rightarrow> ('s, unit) act" where
  "post_checks L p =
     sbind (lift (assertSingleCurrencyPerLeg p)) (\<lambda>_.
     sbind (lift (assertBalanced p)) (\<lambda>_.
     sbind (assertKnownAccounts L p) (\<lambda>_.
     assertNoOverdraft L p)))"

definition postEntry :: "'s ledger \<Rightarrow> posting \<Rightarrow> ('s, transaction) act" where
  "postEntry L p =
     (let cleaned = dropZeroLegs p
      in sbind (post_checks L cleaned) (\<lambda>_. l_append L cleaned))"

text \<open>Whether two of the postings share an account: each posting's own accounts count once.\<close>

fun disjoint_accounts :: "posting list \<Rightarrow> AccountRef list \<Rightarrow> bool" where
  "disjoint_accounts [] seen = True"
| "disjoint_accounts (p # ps) seen =
     (list_all (\<lambda>l. account l \<notin> set seen) (legs p) \<and>
      disjoint_accounts ps (map account (legs p) @ seen))"

definition postEntries :: "'s ledger \<Rightarrow> posting list \<Rightarrow> ('s, transaction list) act" where
  "postEntries L ps =
     (case l_appendAll L of
        None \<Rightarrow> smap (postEntry L) ps
      | Some appendAll \<Rightarrow>
          (let cleaned = map dropZeroLegs ps
           in if \<not> disjoint_accounts cleaned [] then smap (postEntry L) ps
              else sbind (seach (post_checks L) cleaned) (\<lambda>_. appendAll cleaned)))"

section \<open>The bytes of a chain link\<close>

text \<open>\<open>JSON.stringify\<close> of a string whose code units are below 256.\<close>

definition hex2 :: "nat \<Rightarrow> string" where
  "hex2 n = [hex_char (n div 16), hex_char (n mod 16)]"

definition json_char :: "char \<Rightarrow> string" where
  "json_char c =
     (let n = (of_char c :: nat)
      in if n = 34 \<or> n = 92 then [char_of (92 :: nat), c]
         else if n = 8 then [char_of (92 :: nat), CHR ''b'']
         else if n = 9 then [char_of (92 :: nat), CHR ''t'']
         else if n = 10 then [char_of (92 :: nat), CHR ''n'']
         else if n = 12 then [char_of (92 :: nat), CHR ''f'']
         else if n = 13 then [char_of (92 :: nat), CHR ''r'']
         else if n < 32 then char_of (92 :: nat) # ''u00'' @ hex2 n
         else [c])"

definition json_string :: "string \<Rightarrow> string" where
  "json_string s = (let q = char_of (34 :: nat) in [q] @ concat (map json_char s) @ [q])"

fun join :: "string \<Rightarrow> string list \<Rightarrow> string" where
  "join sep [] = []"
| "join sep [x] = x"
| "join sep (x # y # zs) = x @ sep @ join sep (y # zs)"

text \<open>
  \<open>canonicalMeta\<close>: \<open>None\<close> is JavaScript's undefined, which a join reads as the empty string and a
  template literal as the word. An amount is an object with a bigint field, so it is refused too.
\<close>

fun canonicalMeta :: "json \<Rightarrow> string option res" where
  "canonicalMeta (JArr xs) =
     rbind (rmap canonicalMeta xs) (\<lambda>parts.
       Inr (Some (''['' @ join '','' (map (\<lambda>v. case v of None \<Rightarrow> [] | Some t \<Rightarrow> t) parts) @ '']'')))"
| "canonicalMeta (JObj kvs) =
     rbind (rmap (\<lambda>kv. rbind (canonicalMeta (snd kv)) (\<lambda>v. Inr (fst kv, v))) (sort_key fst kvs)) (\<lambda>parts.
       Inr (Some (''{'' @ join '','' (map (\<lambda>(k, v). json_string k @ '':'' @
              (case v of None \<Rightarrow> ''undefined'' | Some t \<Rightarrow> t)) parts) @ ''}'')))"
| "canonicalMeta (JBigint _) = Inl (fault MALFORMED_OPERATION)"
| "canonicalMeta (JAmount _) = Inl (fault MALFORMED_OPERATION)"
| "canonicalMeta JUndef = Inr None"
| "canonicalMeta JNull = Inr (Some ''null'')"
| "canonicalMeta (JBool b) = Inr (Some (if b then ''true'' else ''false''))"
| "canonicalMeta (JNum n) = Inr (Some (int_text n))"
| "canonicalMeta (JStr s) = Inr (Some (json_string s))"

definition be32 :: "nat \<Rightarrow> byte list" where
  "be32 n = map (\<lambda>k. word_of_int (int n div 2 ^ k)) [24, 16, 8, 0]"

definition lengthPrefixed :: "byte list list \<Rightarrow> byte list" where
  "lengthPrefixed frames = concat (map (\<lambda>f. be32 (length f) @ f) frames)"

definition own_amounts :: "AccountRef \<Rightarrow> leg list \<Rightarrow> string list" where
  "own_amounts acct ls =
     sort (map (\<lambda>l. encodeAmount (amount l)) (filter (\<lambda>l. account l = acct) ls))"

definition chainPreimage ::
    "byte list \<Rightarrow> string \<Rightarrow> AccountRef \<Rightarrow> leg list \<Rightarrow> meta \<Rightarrow> byte list res" where
  "chainPreimage prev txn acct ls m =
     rbind (canonicalMeta (JObj m)) (\<lambda>cm.
       Inr (lengthPrefixed
         [prev, utf8 txn, utf8 (join [char_of (0 :: nat)] (own_amounts acct ls)),
          utf8 (case cm of None \<Rightarrow> [] | Some t \<Rightarrow> t)]))"

type_synonym digest = "byte list \<Rightarrow> byte list"

definition chainHash ::
    "digest \<Rightarrow> byte list \<Rightarrow> string \<Rightarrow> AccountRef \<Rightarrow> leg list \<Rightarrow> meta \<Rightarrow> string res" where
  "chainHash dig prev txn acct ls m =
     rbind (chainPreimage prev txn acct ls m) (\<lambda>pre. Inr (toHex (dig pre)))"

section \<open>What a posting moves\<close>

text \<open>The signed amount a leg moves its account by, and the net move of a list of legs.\<close>

definition moved :: "leg \<Rightarrow> int" where
  "moved l = minor (amount l) * (if isDebitNormal (account l) then 1 else - 1)"

definition net :: "AccountRef \<Rightarrow> leg list \<Rightarrow> int" where
  "net acct ls = (\<Sum>l\<leftarrow>ls. if account l = acct then moved l else 0)"

definition cur_sum :: "currency \<Rightarrow> leg list \<Rightarrow> int" where
  "cur_sum c ls = (\<Sum>l\<leftarrow>ls. if currency (amount l) = c then minor (amount l) else 0)"

lemma net_simps [simp]:
  "net a [] = 0" "net a (l # ls) = (if account l = a then moved l else 0) + net a ls"
  "net a (xs @ ys) = net a xs + net a ys"
  by (simp_all add: net_def)

lemma cur_sum_simps [simp]:
  "cur_sum c [] = 0"
  "cur_sum c (l # ls) = (if currency (amount l) = c then minor (amount l) else 0) + cur_sum c ls"
  "cur_sum c (xs @ ys) = cur_sum c xs + cur_sum c ys"
  by (simp_all add: cur_sum_def)

lemma balanceDelta_moved: "balanceDelta l = toAmount (currency (amount l)) (moved l)"
  by (simp add: balanceDelta_def moved_def Let_def)

lemma credit_Inr [simp]:
  "credit a m = Inr l \<longleftrightarrow> in_i64 (- minor m) \<and>
     l = \<lparr>account = a, amount = \<lparr>currency = currency m, minor = - minor m\<rparr>\<rparr>"
  by (auto simp: credit_def)

lemma debit_sel [simp]: "account (debit a m) = a" "amount (debit a m) = m"
  by (simp_all add: debit_def)

lemma net_drop: "net a (filter (\<lambda>l. minor (amount l) \<noteq> 0) ls) = net a ls"
  by (induction ls) (auto simp: moved_def)

lemma length_filter_id: "length (filter P xs) = length xs \<longleftrightarrow> filter P xs = xs"
  by (metis filter_id_conv length_filter_less less_irrefl)

lemma dropZeroLegs_sel:
  "legs (dropZeroLegs p) = filter (\<lambda>l. minor (amount l) \<noteq> 0) (legs p)"
  "txnId (dropZeroLegs p) = txnId p" "meta (dropZeroLegs p) = meta p"
  by (simp_all add: dropZeroLegs_def Let_def length_filter_id)

lemma net_dropZeroLegs [simp]: "net a (legs (dropZeroLegs p)) = net a (legs p)"
  by (simp add: dropZeroLegs_sel net_drop)

lemma assertSingleCurrencyPerLeg_Inr:
  "assertSingleCurrencyPerLeg p = Inr () \<longleftrightarrow>
     (\<forall>l \<in> set (legs p). currency (amount l) = currencyOf (account l))"
  by (simp add: assertSingleCurrencyPerLeg_def)

lemma currency_sums_facts:
  "getz (currency_sums ls) c = cur_sum c ls" "distinct (map fst (currency_sums ls))"
  "fst ` set (currency_sums ls) = (\<lambda>l. currency (amount l)) ` set ls"
  by (simp_all add: currency_sums_def getz_foldl_bump cur_sum_def distinct_foldl_bump keys_foldl_bump)

lemma assertBalanced_Inr: "assertBalanced p = Inr () \<longleftrightarrow> (\<forall>c. cur_sum c (legs p) = 0)"
proof -
  let ?s = "currency_sums (legs p)"
  have "assertBalanced p = Inr () \<longleftrightarrow> (\<forall>(c, t) \<in> set ?s. t = 0)"
    by (auto simp: assertBalanced_def split: if_splits)
  also have "\<dots> \<longleftrightarrow> (\<forall>c. getz ?s c = 0)"
  proof
    assume z: "\<forall>(c, t) \<in> set ?s. t = 0"
    show "\<forall>c. getz ?s c = 0"
    proof
      fix c show "getz ?s c = 0"
        using z by (auto simp: getz_def dest: map_of_SomeD split: option.splits)
    qed
  next
    assume "\<forall>c. getz ?s c = 0"
    then show "\<forall>(c, t) \<in> set ?s. t = 0"
      using getz_mem [OF currency_sums_facts(2)] by fastforce
  qed
  finally show ?thesis by (simp add: currency_sums_facts)
qed

lemma guarded_deltas_Inr:
  "guarded_deltas ls ds = Inr r \<longleftrightarrow>
     (\<forall>l \<in> set ls. isUserGuarded (account l) \<longrightarrow> in_i64 (moved l)) \<and>
     r = foldl (\<lambda>m l. bump (account l) (moved l) m) ds (filter (\<lambda>l. isUserGuarded (account l)) ls)"
  by (induction ls arbitrary: ds) (auto simp: balanceDelta_moved)

lemma guarded_deltas_facts:
  assumes "guarded_deltas ls [] = Inr r"
  shows "distinct (map fst r)" "isUserGuarded a \<Longrightarrow> getz r a = net a ls"
    "fst ` set r = {a \<in> account ` set ls. isUserGuarded a}"
proof -
  have r: "r = foldl (\<lambda>m l. bump (account l) (moved l) m) [] (filter (\<lambda>l. isUserGuarded (account l)) ls)"
    using assms by (simp add: guarded_deltas_Inr)
  show "distinct (map fst r)" by (simp add: r distinct_foldl_bump)
  show "fst ` set r = {a \<in> account ` set ls. isUserGuarded a}" by (auto simp: r keys_foldl_bump)
  have "(\<Sum>l\<leftarrow>filter (\<lambda>l. isUserGuarded (account l)) ls. if account l = a then moved l else 0) = net a ls"
    if "isUserGuarded a" using that by (induction ls) auto
  then show "isUserGuarded a \<Longrightarrow> getz r a = net a ls" by (simp add: r getz_foldl_bump)
qed

section \<open>Lock order\<close>

lemma lock_order_facts: "sorted (lock_order as)" "distinct (lock_order as)" "set (lock_order as) = set as"
  by (simp_all add: lock_order_def)

text \<open>
  Two operations that share accounts take the shared locks in the same order: each lock order,
  restricted to the shared accounts, is the same list.
\<close>

lemma lock_order_agree:
  "filter (\<lambda>a. a \<in> set bs) (lock_order as) = filter (\<lambda>a. a \<in> set as) (lock_order bs)"
  by (rule sorted_distinct_set_unique) (auto simp: lock_order_facts sorted_wrt_filter)

section \<open>The bytes of a link determine what it commits to\<close>

lemma filter_key: "distinct (map f xs) \<Longrightarrow> k \<in> set xs \<Longrightarrow> filter (\<lambda>x. f k = f x) xs = [k]"
proof (induction xs)
  case (Cons x xs)
  then have "f x \<notin> f ` set xs" by simp
  then have "k = x \<Longrightarrow> filter (\<lambda>y. f k = f y) xs = []" by (auto simp: filter_empty_conv)
  then show ?case using Cons by (auto simp: image_iff)
qed simp

lemma sort_key_perm:
  assumes "mset xs = mset ys" "distinct (map f xs)"
  shows "sort_key f xs = sort_key f ys"
proof (rule properties_for_sort_key)
  have d: "distinct (map f ys)" using assms by (metis mset_eq_imp_distinct_iff mset_map)
  then have ds: "distinct (map f (sort_key f ys))" by (metis mset_eq_imp_distinct_iff mset_map mset_sort)
  show "mset (sort_key f ys) = mset xs" using assms(1) by simp
  show "filter (\<lambda>x. f k = f x) (sort_key f ys) = filter (\<lambda>x. f k = f x) xs" if "k \<in> set (sort_key f ys)" for k
  proof -
    have "k \<in> set xs" using that assms(1) by (metis set_sort set_mset_mset)
    then show ?thesis using filter_key [OF ds that] filter_key [OF assms(2)] by simp
  qed
qed simp

lemma canonicalMeta_perm:
  "mset kvs = mset kvs' \<Longrightarrow> distinct (map fst kvs) \<Longrightarrow>
   canonicalMeta (JObj kvs) = canonicalMeta (JObj kvs')"
  using sort_key_perm [of kvs kvs' fst] by simp

lemma be32_nat:
  "be32 n = [word_of_nat (n div 16777216), word_of_nat (n div 65536), word_of_nat (n div 256), word_of_nat n]"
proof -
  have wd: "(word_of_int (int n div d) :: byte) = word_of_nat (n div nat d)" if "0 < d" for d
    using that by (metis int_nat_eq less_imp_le of_int_of_nat_eq zdiv_int)
  show ?thesis by (simp add: be32_def wd)
qed

lemma be32_inj:
  assumes "be32 m = be32 n" "m < 2 ^ 32" "n < 2 ^ 32"
  shows "m = n"
proof -
  have w: "a mod 256 = b mod 256" if "(word_of_nat a :: byte) = word_of_nat b" for a b
    using arg_cong [OF that, of unat] by (simp add: unat_of_nat)
  have k: "m div 16777216 mod 256 = n div 16777216 mod 256" "m div 65536 mod 256 = n div 65536 mod 256"
    "m div 256 mod 256 = n div 256 mod 256" "m mod 256 = n mod 256"
    using assms(1) by (auto simp: be32_nat dest!: w)
  have "m div 16777216 < 256" "n div 16777216 < 256" using assms(2,3) by (simp_all add: less_mult_imp_div_less)
  then have e3: "m div 16777216 = n div 16777216" using k(1) by simp
  have split: "x div 65536 = 256 * (x div 16777216) + x div 65536 mod 256"
    "x div 256 = 256 * (x div 65536) + x div 256 mod 256" "x = 256 * (x div 256) + x mod 256" for x :: nat
    using div_mult2_eq [of x 65536 256] div_mult2_eq [of x 256 256] by (simp_all add: mult.commute)
  have "m div 65536 = n div 65536" using split(1) [of m] split(1) [of n] e3 k(2) by simp
  then have "m div 256 = n div 256" using split(2) [of m] split(2) [of n] k(3) by simp
  then show ?thesis using split(3) [of m] split(3) [of n] k(4) by simp
qed

lemma length_be32 [simp]: "length (be32 n) = 4"
  by (simp add: be32_def)

lemma lengthPrefixed_Cons: "lengthPrefixed (f # fs) = be32 (length f) @ f @ lengthPrefixed fs"
  by (simp add: lengthPrefixed_def)

lemma lengthPrefixed_inj:
  "lengthPrefixed fs = lengthPrefixed gs \<Longrightarrow> length (lengthPrefixed fs) < 2 ^ 32 \<Longrightarrow> fs = gs"
proof (induction fs arbitrary: gs)
  case Nil
  then show ?case by (cases gs) (auto simp: lengthPrefixed_def be32_def)
next
  case (Cons f fs)
  then obtain g gs' where g: "gs = g # gs'"
    by (cases gs) (auto simp: lengthPrefixed_def be32_def)
  have eq: "be32 (length f) @ f @ lengthPrefixed fs = be32 (length g) @ g @ lengthPrefixed gs'"
    using Cons.prems(1) by (simp add: g lengthPrefixed_Cons)
  have "length (lengthPrefixed (f # fs)) = 4 + length f + length (lengthPrefixed fs)"
    "length (lengthPrefixed (f # fs)) = 4 + length g + length (lengthPrefixed gs')"
    using arg_cong [OF eq, of length] by (simp_all add: lengthPrefixed_Cons)
  then have b: "length f < 2 ^ 32" "length g < 2 ^ 32" "length (lengthPrefixed fs) < 2 ^ 32"
    using Cons.prems(2) by linarith+
  have "length f = length g" using eq be32_inj [OF _ b(1,2)] by simp
  then show ?case using eq Cons.IH [of gs'] b(3) by (simp add: g)
qed

definition nul :: char where "nul = char_of (0 :: nat)"

lemma not_digit_nul [simp]: "\<not> is_digit nul"
  by (simp add: is_digit_def nul_def)

lemma join_inj:
  assumes "list_all (\<lambda>x. x \<noteq> [] \<and> nul \<notin> set x) xs" "list_all (\<lambda>x. x \<noteq> [] \<and> nul \<notin> set x) ys"
    "join [nul] xs = join [nul] ys"
  shows "xs = ys"
  using assms
proof (induction "[nul]" xs arbitrary: ys rule: join.induct)
  case 1
  then show ?case by (cases ys; cases "tl ys") auto
next
  case (2 x)
  then show ?case
    by (cases ys; cases "tl ys") auto
next
  case (3 x y zs)
  then obtain a b cs where ys: "ys = a # b # cs"
    by (cases ys; cases "tl ys") auto
  have "split_first nul (x @ nul # join [nul] (y # zs)) = split_first nul (a @ nul # join [nul] (b # cs))"
    using 3 by (simp add: ys)
  moreover have "nul \<notin> set x" "nul \<notin> set a" using 3 by (simp_all add: ys)
  ultimately have "x = a" "join [nul] (y # zs) = join [nul] (b # cs)"
    using split_first_append by simp_all
  moreover have "y # zs = b # cs"
    by (rule "3.hyps") (use 3 calculation in \<open>simp_all add: ys\<close>)
  ultimately show ?case by (simp add: ys)
qed

lemma format_no_nul: "nul \<notin> set (format m e [] ''.'')"
proof -
  have "nul \<notin> set (nat_text n)" for n using nat_text_is_digits [of n] by (auto simp: list_all_iff)
  then show ?thesis
    by (auto simp: format_def Let_def padStart_def nul_def char_of_def dest: in_set_takeD in_set_dropD)
qed

lemma encodeAmount_no_nul: "nul \<notin> set (encodeAmount a) \<and> encodeAmount a \<noteq> []"
  using format_no_nul [of "minor a" FRACTION_DIGITS]
  by (cases "currency a") (auto simp: encodeAmount_def currency_text_def nul_def char_of_def)

text \<open>The amounts an account's own legs carry, as a bag: the order of the legs is not hashed.\<close>

definition own_bag :: "AccountRef \<Rightarrow> leg list \<Rightarrow> amount multiset" where
  "own_bag acct ls = mset (map amount (filter (\<lambda>l. account l = acct) ls))"

lemma own_amounts_inj:
  assumes "own_amounts a ls = own_amounts b ks"
    "\<forall>l \<in> set ls \<union> set ks. in_i64 (minor (amount l))"
  shows "own_bag a ls = own_bag b ks"
proof -
  define dec where "dec = (\<lambda>s. case decodeAmountWire s of Inr x \<Rightarrow> x | Inl _ \<Rightarrow> zero_amount CREDIT)"
  have dec: "in_i64 (minor x) \<Longrightarrow> dec (encodeAmount x) = x" for x
    by (simp add: dec_def decodeAmountWire_encode)
  have bag: "own_bag c xs = mset (map dec (own_amounts c xs))" if "\<forall>l \<in> set xs. in_i64 (minor (amount l))" for c xs
  proof -
    have "mset (map dec (own_amounts c xs)) =
        image_mset dec (mset (map (\<lambda>l. encodeAmount (amount l)) (filter (\<lambda>l. account l = c) xs)))"
      by (simp only: own_amounts_def mset_map mset_sort)
    also have "\<dots> = mset (map (\<lambda>l. dec (encodeAmount (amount l))) (filter (\<lambda>l. account l = c) xs))"
      by (simp add: image_mset.compositionality comp_def)
    also have "map (\<lambda>l. dec (encodeAmount (amount l))) (filter (\<lambda>l. account l = c) xs) =
        map amount (filter (\<lambda>l. account l = c) xs)"
      using that by (simp add: dec)
    finally show ?thesis by (simp add: own_bag_def)
  qed
  show ?thesis using bag [of ls a] bag [of ks b] assms by auto
qed

lemma chainPreimage_commits:
  assumes "chainPreimage p t a ls m = Inr b" "chainPreimage p' t' a' ls' m' = Inr b"
    and "\<forall>l \<in> set ls \<union> set ls'. in_i64 (minor (amount l))" "length b < 2 ^ 32"
  shows "p = p' \<and> t = t' \<and> own_bag a ls = own_bag a' ls' \<and>
    canonicalMeta (JObj m) = canonicalMeta (JObj m')"
proof -
  obtain c c' where c: "canonicalMeta (JObj m) = Inr (Some c)" "canonicalMeta (JObj m') = Inr (Some c')"
    using assms(1,2) by (auto simp: chainPreimage_def)
  have b: "b = lengthPrefixed [p, utf8 t, utf8 (join [nul] (own_amounts a ls)), utf8 c]"
    "b = lengthPrefixed [p', utf8 t', utf8 (join [nul] (own_amounts a' ls')), utf8 c']"
    using assms(1,2) c by (simp_all add: chainPreimage_def nul_def del: canonicalMeta.simps)
  then have eq: "p = p'" "utf8 t = utf8 t'"
    "utf8 (join [nul] (own_amounts a ls)) = utf8 (join [nul] (own_amounts a' ls'))" "utf8 c = utf8 c'"
    using lengthPrefixed_inj [of "[p, utf8 t, utf8 (join [nul] (own_amounts a ls)), utf8 c]"
        "[p', utf8 t', utf8 (join [nul] (own_amounts a' ls')), utf8 c']"] assms(4) by simp_all
  have ok: "list_all (\<lambda>x. x \<noteq> [] \<and> nul \<notin> set x) (own_amounts d xs)" for d xs
    using encodeAmount_no_nul by (auto simp: own_amounts_def list_all_iff)
  have "own_bag a ls = own_bag a' ls'"
    by (rule own_amounts_inj [OF join_inj [OF ok ok utf8_inj [OF eq(3)]] assms(3)])
  then show ?thesis
    using eq(1) utf8_inj [OF eq(2)] utf8_inj [OF eq(4)] c by (simp del: canonicalMeta.simps)
qed

section \<open>The ledger interface's contract\<close>

text \<open>
  What a caller of the interface relies on: asking for an account changes nothing, a balance read
  returns the account's balance in its own currency, and an append moves every balance by exactly
  the posting's net.
\<close>

locale ledger_port =
  fixes L :: "'s ledger" and bal :: "'s \<Rightarrow> AccountRef \<Rightarrow> int"
  assumes has_pure: "l_hasAccount L a s = Inr (b, s') \<Longrightarrow> s' = s"
    and balance_reads: "l_balance L a s = Inr (v, s') \<Longrightarrow> s' = s \<and> minor v = bal s a \<and> currency v = currencyOf a"
    and append_moves: "l_append L p s = Inr (t, s') \<Longrightarrow>
      (\<forall>a. bal s' a = bal s a + net a (legs p)) \<and> legs t = legs p \<and> txnId t = txnId p \<and> meta t = meta p"
begin

lemma assertKnownAccounts_pure: "assertKnownAccounts L p s = Inr ((), s') \<Longrightarrow> s' = s"
proof -
  have "seach (\<lambda>l. sbind (l_hasAccount L (account l)) (\<lambda>known.
      if known then ret () else throw (fault UNKNOWN_ACCOUNT))) ls s = Inr ((), s') \<Longrightarrow> s' = s" for ls
    by (induction ls) (auto dest!: has_pure split: if_splits)
  then show "assertKnownAccounts L p s = Inr ((), s') \<Longrightarrow> s' = s"
    by (simp add: assertKnownAccounts_def)
qed

lemma overdraft_loop:
  "seach (\<lambda>(acct, delta).
       if 0 \<le> delta then ret ()
       else sbind (l_balance L acct) (\<lambda>current.
            sbind (lift (toAmount (currency current) (minor current + delta))) (\<lambda>projected.
              if minor projected < 0 then throw (fault OVERDRAFT) else ret ()))) ds s = Inr ((), s') \<Longrightarrow>
   s' = s \<and> (\<forall>(a, d) \<in> set ds. d < 0 \<longrightarrow> 0 \<le> bal s a + d)"
proof (induction ds)
  case (Cons x ds)
  then show ?case
    by (cases x) (auto split: if_splits dest!: balance_reads)
qed simp

lemma assertNoOverdraft_spec:
  assumes "assertNoOverdraft L p s = Inr ((), s')"
  shows "s' = s" "isUserGuarded a \<Longrightarrow> net a (legs p) < 0 \<Longrightarrow> 0 \<le> bal s a + net a (legs p)"
proof -
  obtain ds where d: "guarded_deltas (legs p) [] = Inr ds"
    and "s' = s \<and> (\<forall>(a, d) \<in> set ds. d < 0 \<longrightarrow> 0 \<le> bal s a + d)"
    using assms by (auto simp: assertNoOverdraft_def dest!: overdraft_loop)
  then show "s' = s" by simp
  have ok: "\<forall>(a, d) \<in> set ds. d < 0 \<longrightarrow> 0 \<le> bal s a + d"
    using \<open>s' = s \<and> (\<forall>(a, d) \<in> set ds. d < 0 \<longrightarrow> 0 \<le> bal s a + d)\<close> by simp
  show "0 \<le> bal s a + net a (legs p)" if g: "isUserGuarded a" and n: "net a (legs p) < 0"
  proof -
    have v: "getz ds a = net a (legs p)" by (rule guarded_deltas_facts(2) [OF d g])
    then have "a \<in> fst ` set ds" using n getz_not_key [of a ds] by auto
    then obtain w where "(a, w) \<in> set ds" by auto
    moreover have "w = net a (legs p)"
      using getz_mem [OF guarded_deltas_facts(1) [OF d] \<open>(a, w) \<in> set ds\<close>] v by simp
    ultimately show ?thesis using ok n by fastforce
  qed
qed

lemma post_checks_spec:
  assumes "post_checks L p s = Inr ((), s')"
  shows "s' = s" "\<forall>c. cur_sum c (legs p) = 0"
    "\<forall>l \<in> set (legs p). currency (amount l) = currencyOf (account l)"
    "isUserGuarded a \<Longrightarrow> net a (legs p) < 0 \<Longrightarrow> 0 \<le> bal s a + net a (legs p)"
  using assms assertNoOverdraft_spec
  by (auto simp: post_checks_def assertBalanced_Inr assertSingleCurrencyPerLeg_Inr
      dest!: assertKnownAccounts_pure)

text \<open>A posting that goes through balances, is single-currency and moves each account by its net.\<close>

lemma postEntry_spec:
  assumes "postEntry L p s = Inr (t, s')"
  shows "bal s' a = bal s a + net a (legs p)" "legs t = filter (\<lambda>l. minor (amount l) \<noteq> 0) (legs p)"
    "cur_sum c (legs t) = 0" "\<forall>l \<in> set (legs t). currency (amount l) = currencyOf (account l)"
    "isUserGuarded a \<Longrightarrow> 0 \<le> bal s a \<Longrightarrow> 0 \<le> bal s' a"
proof -
  obtain s1 where c: "post_checks L (dropZeroLegs p) s = Inr ((), s1)" and
    ap: "l_append L (dropZeroLegs p) s1 = Inr (t, s')"
    using assms by (auto simp: postEntry_def Let_def)
  note pc = post_checks_spec [OF c] and am = append_moves [OF ap]
  show e: "bal s' a = bal s a + net a (legs p)" using am pc(1) by simp
  show "legs t = filter (\<lambda>l. minor (amount l) \<noteq> 0) (legs p)" using am by (simp add: dropZeroLegs_sel)
  show "cur_sum c (legs t) = 0" "\<forall>l \<in> set (legs t). currency (amount l) = currencyOf (account l)"
    using am pc(2,3) by auto
  show "isUserGuarded a \<Longrightarrow> 0 \<le> bal s a \<Longrightarrow> 0 \<le> bal s' a"
    using e pc(4) by fastforce
qed

lemma postEntry_sequence:
  assumes "smap (postEntry L) ps s = Inr (ts, s')"
  shows "bal s' a = bal s a + (\<Sum>p\<leftarrow>ps. net a (legs p))"
  using assms
  by (induction ps arbitrary: s ts) (auto dest!: postEntry_spec(1) [where a = a])

end

section \<open>Properties\<close>

text \<open>
  (C23) A chain link commits to everything it covers: two links with the same hashed bytes (below
  4 GiB) have the same previous hash, the same transaction id, the same bag of amounts on the
  account and the same canonical metadata, whatever the order of legs and of object keys.
\<close>

theorem preimage_commits:
  assumes "chainPreimage p t a ls m = Inr b" "chainPreimage p' t' a' ls' m' = Inr b"
    and "\<forall>l \<in> set ls \<union> set ls'. in_i64 (minor (amount l))" "length b < 2 ^ 32"
  shows "p = p' \<and> t = t' \<and> own_bag a ls = own_bag a' ls' \<and>
    canonicalMeta (JObj m) = canonicalMeta (JObj m')"
  by (rule chainPreimage_commits [OF assms])

theorem preimage_commits_witness:
  "\<exists>b. chainPreimage [] ''t'' ''a'' [] [(''b'', JNull), (''a'', JNull)] = Inr b \<and>
     chainPreimage [] ''t'' ''a'' [] [(''a'', JNull), (''b'', JNull)] = Inr b \<and> length b < 2 ^ 32 \<and>
     canonicalMeta (JObj [(''b'', JNull), (''a'', JNull)]) = canonicalMeta (JObj [(''a'', JNull), (''b'', JNull)])"
proof -
  obtain b where b: "chainPreimage [] ''t'' ''a'' [] [(''b'', JNull), (''a'', JNull)] = Inr b" "length b < 2 ^ 32"
    "chainPreimage [] ''t'' ''a'' [] [(''a'', JNull), (''b'', JNull)] = Inr b"
    by (simp add: chainPreimage_def own_amounts_def lengthPrefixed_def utf8_def utf8_char_def of_char_of
        json_string_def json_char_def Let_def char_of_def)
  from preimage_commits [OF b(1,3) _ b(2)] b show ?thesis by simp
qed

text \<open>
  Metadata hashes the same in any key order: two objects with the same entries, listed in any
  two orders, have the same canonical text.
\<close>

theorem meta_order_free:
  "mset kvs = mset kvs' \<Longrightarrow> distinct (map fst kvs) \<Longrightarrow> canonicalMeta (JObj kvs) = canonicalMeta (JObj kvs')"
  by (rule canonicalMeta_perm)

theorem meta_order_free_witness:
  "canonicalMeta (JObj [(''b'', JNum 2), (''a'', JNum 1)]) = canonicalMeta (JObj [(''a'', JNum 1), (''b'', JNum 2)])"
  by (rule meta_order_free) (simp_all add: add_mset_commute)

text \<open>
  Locks are taken in one global order: the accounts an operation locks come out sorted, each
  once, and any two operations take the accounts they share in the same relative order.
\<close>

theorem locks_one_order:
  "sorted (lock_order as) \<and> distinct (lock_order as) \<and> set (lock_order as) = set as \<and>
   filter (\<lambda>a. a \<in> set bs) (lock_order as) = filter (\<lambda>a. a \<in> set as) (lock_order bs)"
  using lock_order_facts lock_order_agree by blast

end
