(* ===== verification/Column.thy ===== *)
theory Column
  imports Bytes
begin

text \<open>
  The resident balance columns: src/fold-column.ts (the growable i64 buffer and \<open>foldColumn\<close>) and
  the fold of src/fold.vendored.ts, both its bigint reference and the WebAssembly kernel it ships.
  The kernel detects overflow with three bitwise operations on 64-bit words; it is proved equal to
  the reference. Address arithmetic and the growth of the linear memory are not modelled: the
  kernel's loop is over the words it loads.
\<close>

section \<open>The growable column\<close>

record I64Column =
  buffer :: "int list"
  live :: nat

definition new_column :: "nat \<Rightarrow> I64Column" where
  "new_column capacity = \<lparr>buffer = replicate capacity 0, live = 0\<rparr>"

text \<open>Storing into a BigInt64Array keeps the low 64 bits, read as signed.\<close>

definition asIntN64 :: "int \<Rightarrow> int" where
  "asIntN64 v = signed_take_bit 63 v"

definition col_push :: "I64Column \<Rightarrow> int \<Rightarrow> I64Column" where
  "col_push c v =
     (let grown = (if live c = length (buffer c)
                   then buffer c @ replicate (length (buffer c)) 0 else buffer c)
      in \<lparr>buffer = grown[live c := asIntN64 v], live = live c + 1\<rparr>)"

definition col_pop :: "I64Column \<Rightarrow> I64Column" where
  "col_pop c = (if live c > 0 then c\<lparr>live := live c - 1\<rparr> else c)"

definition col_view :: "I64Column \<Rightarrow> int list" where
  "col_view c = take (live c) (buffer c)"

section \<open>The fold\<close>

definition foldRef :: "int list \<Rightarrow> int res" where
  "foldRef vs =
     foldl (\<lambda>acc v. rbind acc (\<lambda>sum.
       if v < I64_MIN \<or> v > I64_MAX then Inl (HostError ''RangeError'')
       else if sum + v < I64_MIN \<or> sum + v > I64_MAX then Inl (HostError ''RangeError'')
       else Inr (sum + v))) (Inr 0) vs"

text \<open>The body of the kernel's loop: add, then trap when the sign of the sum differs from both.\<close>

definition wasm_step :: "64 word \<Rightarrow> 64 word \<Rightarrow> 64 word option" where
  "wasm_step acc v =
     (let s = acc + v
      in if ((acc XOR s) AND (v XOR s)) <s 0 then None else Some s)"

fun wasm_loop :: "64 word \<Rightarrow> 64 word list \<Rightarrow> 64 word option" where
  "wasm_loop acc [] = Some acc"
| "wasm_loop acc (v # vs) =
     (case wasm_step acc v of None \<Rightarrow> None | Some s \<Rightarrow> wasm_loop s vs)"

text \<open>\<open>createFold().fold\<close> on a column already in i64 range: a trap is rethrown as a RangeError.\<close>

definition wasm_fold :: "int list \<Rightarrow> int res" where
  "wasm_fold vs =
     (case wasm_loop 0 (map word_of_int vs) of
        None \<Rightarrow> Inl (HostError ''RangeError'') | Some w \<Rightarrow> Inr (sint w))"

definition FOLD_MIN_LEGS :: nat where "FOLD_MIN_LEGS = 256"

definition foldColumn :: "bool \<Rightarrow> int list \<Rightarrow> int res" where
  "foldColumn has_wasm view =
     (if length view < FOLD_MIN_LEGS then Inr (foldl (+) 0 view)
      else case (if has_wasm then wasm_fold view else foldRef view) of
             Inl _ \<Rightarrow> Inl (fault AMOUNT_OVERFLOW) | Inr s \<Rightarrow> Inr s)"

section \<open>The column is a stack of its values\<close>

definition col_wf :: "I64Column \<Rightarrow> bool" where
  "col_wf c \<longleftrightarrow> 0 < length (buffer c) \<and> live c \<le> length (buffer c)"

lemma col_wf_new: "0 < n \<Longrightarrow> col_wf (new_column n) \<and> col_view (new_column n) = []"
  by (simp add: col_wf_def new_column_def col_view_def)

lemma asIntN64_id: "in_i64 v \<Longrightarrow> asIntN64 v = v"
  by (auto simp: in_i64_def I64_MIN_def I64_MAX_def asIntN64_def signed_take_bit_int_eq_self)

lemma col_push_view:
  assumes "col_wf c"
  shows "col_wf (col_push c v)" "col_view (col_push c v) = col_view c @ [asIntN64 v]"
  using assms
  by (auto simp: col_wf_def col_push_def col_view_def Let_def take_Suc_conv_app_nth take_update_swap
      list_update_append nth_list_update Suc_le_eq)

lemma col_pop_view:
  assumes "col_wf c"
  shows "col_wf (col_pop c)" "col_view (col_pop c) = butlast (col_view c)"
  using assms by (auto simp: col_wf_def col_pop_def col_view_def butlast_take)

lemma col_pop_push: "col_wf c \<Longrightarrow> col_view (col_pop (col_push c v)) = col_view c"
  by (simp add: col_pop_view col_push_view)

section \<open>The kernel computes the reference fold\<close>

lemma sint_bound: "- (2 ^ 63) \<le> sint (w :: 64 word) \<and> sint w < 2 ^ 63"
  using sint_ge [of w] sint_lt [of w] by simp

lemma sint_neg: "sint (w :: 64 word) < 0 \<longleftrightarrow> bit w 63"
  using bit_last_iff [of w] by simp

lemma signed_take_bit_cases: "\<exists>k. signed_take_bit 63 (x :: int) = x + 2 ^ 64 * k"
proof -
  have "signed_take_bit 63 x = (x + 2 ^ 63) mod 2 ^ 64 - 2 ^ 63"
    by (simp add: signed_take_bit_eq_take_bit_shift take_bit_eq_mod)
  also have "\<dots> = x + 2 ^ 64 * (- ((x + 2 ^ 63) div 2 ^ 64))"
    by (simp add: minus_div_mult_eq_mod [symmetric] algebra_simps)
  finally show ?thesis by blast
qed

lemma sint_add_cases:
  "sint (a + b :: 64 word) = sint a + sint b \<or> sint (a + b) = sint a + sint b - 2 ^ 64 \<or>
   sint (a + b) = sint a + sint b + 2 ^ 64"
proof -
  have "sint (a + b) = signed_take_bit 63 (sint a + sint b)"
    using sint_word_ariths(1) [of a b] by simp
  then obtain k where "sint (a + b) = sint a + sint b + 2 ^ 64 * k"
    using signed_take_bit_cases [of "sint a + sint b"] by auto
  moreover have "k = - 1 \<or> k = 0 \<or> k = 1"
    using \<open>sint (a + b) = sint a + sint b + 2 ^ 64 * k\<close> sint_bound [of a] sint_bound [of b] sint_bound [of "a + b"]
    by simp linarith
  ultimately show ?thesis by auto
qed

lemma overflow_test:
  "((a XOR (a + b)) AND (b XOR (a + b))) <s (0 :: 64 word) \<longleftrightarrow> \<not> in_i64 (sint a + sint b)"
proof -
  have "((a XOR (a + b)) AND (b XOR (a + b))) <s 0 \<longleftrightarrow>
      (sint a < 0) \<noteq> (sint (a + b) < 0) \<and> (sint b < 0) \<noteq> (sint (a + b) < 0)"
    by (auto simp: word_sless_alt sint_neg bit_and_iff bit_xor_iff)
  then show ?thesis
    using sint_add_cases [of a b] sint_bound [of a] sint_bound [of b] sint_bound [of "a + b"]
    by (auto simp: in_i64_def I64_MIN_def I64_MAX_def)
qed

lemma wasm_step_spec:
  "wasm_step a b = (if in_i64 (sint a + sint b) then Some (word_of_int (sint a + sint b)) else None)"
proof -
  have "a + b = word_of_int (sint a + sint b)" by simp
  then show ?thesis by (simp add: wasm_step_def Let_def overflow_test)
qed

lemma sint_of_int64: "in_i64 v \<Longrightarrow> sint (word_of_int v :: 64 word) = v"
  by (simp add: signed_of_int signed_take_bit_int_eq_self in_i64_def I64_MIN_def I64_MAX_def)

lemma foldRef_error: "foldl (\<lambda>acc v. rbind acc (f v)) (Inl e) vs = Inl e"
  by (induction vs) auto

lemma wasm_loop_ref:
  assumes "list_all in_i64 vs" "in_i64 a"
  shows "(case wasm_loop (word_of_int a) (map word_of_int vs) of
            None \<Rightarrow> Inl (HostError ''RangeError'') | Some w \<Rightarrow> Inr (sint w)) =
         foldl (\<lambda>acc v. rbind acc (\<lambda>sum.
           if v < I64_MIN \<or> v > I64_MAX then Inl (HostError ''RangeError'')
           else if sum + v < I64_MIN \<or> sum + v > I64_MAX then Inl (HostError ''RangeError'')
           else Inr (sum + v))) (Inr a) vs"
  using assms
proof (induction vs arbitrary: a)
  case Nil
  then show ?case by (simp add: sint_of_int64)
next
  case (Cons v vs)
  then have v: "in_i64 v" by simp
  then show ?case
    using Cons.IH [of "a + v"] Cons.prems
    by (auto simp: wasm_step_spec sint_of_int64 in_i64_def foldRef_error)
qed

lemma wasm_fold_ref: "list_all in_i64 vs \<Longrightarrow> wasm_fold vs = foldRef vs"
  using wasm_loop_ref [of vs 0] by (simp add: wasm_fold_def foldRef_def)

text \<open>What the fold returns: the sum, when every prefix of it fits.\<close>

fun prefixes_fit :: "int \<Rightarrow> int list \<Rightarrow> bool" where
  "prefixes_fit a [] = True"
| "prefixes_fit a (v # vs) = (in_i64 (a + v) \<and> prefixes_fit (a + v) vs)"

lemma foldRef_prefixes:
  assumes "list_all in_i64 vs"
  shows "foldRef vs = (if prefixes_fit 0 vs then Inr (sum_list vs) else Inl (HostError ''RangeError''))"
proof -
  have "foldl (\<lambda>acc v. rbind acc (\<lambda>sum.
           if v < I64_MIN \<or> v > I64_MAX then Inl (HostError ''RangeError'')
           else if sum + v < I64_MIN \<or> sum + v > I64_MAX then Inl (HostError ''RangeError'')
           else Inr (sum + v))) (Inr a) vs =
      (if prefixes_fit a vs then Inr (a + sum_list vs) else Inl (HostError ''RangeError''))" for a
    using assms
    by (induction vs arbitrary: a) (auto simp: in_i64_def foldRef_error algebra_simps)
  from this [of 0] show ?thesis by (simp add: foldRef_def)
qed

lemma foldl_sum: "foldl (+) (a :: int) vs = a + sum_list vs"
  by (induction vs arbitrary: a) simp_all

lemma foldColumn_sum:
  assumes "list_all in_i64 vs" "prefixes_fit 0 vs"
  shows "foldColumn w vs = Inr (sum_list vs)"
  using assms
  by (simp add: foldColumn_def wasm_fold_ref foldRef_prefixes foldl_sum)

section \<open>Properties\<close>

text \<open>
  (C27) The WebAssembly kernel computes the reference fold: on a column of 64-bit values its
  three-instruction overflow test traps exactly when the reference throws, and otherwise the word it
  returns reads as the reference's sum; folding a column whose running totals all fit returns the
  plain sum at every length, with or without WebAssembly.
\<close>

theorem kernel_is_reference:
  assumes "list_all in_i64 vs"
  shows "wasm_fold vs = foldRef vs \<and> (prefixes_fit 0 vs \<longrightarrow> foldColumn has_wasm vs = Inr (sum_list vs))"
  using wasm_fold_ref [OF assms] foldColumn_sum [OF assms] by blast

theorem kernel_is_reference_witness:
  "wasm_fold [I64_MAX, - 1, 1] = foldRef [I64_MAX, - 1, 1] \<and>
   wasm_fold [I64_MAX, 1] = foldRef [I64_MAX, 1] \<and> foldRef [I64_MAX, 1] = Inl (HostError ''RangeError'')"
proof -
  have "list_all in_i64 [I64_MAX, - 1, 1]" "list_all in_i64 [I64_MAX, 1]"
    by (simp_all add: in_i64_def I64_MAX_def I64_MIN_def)
  moreover have "foldRef [I64_MAX, 1] = Inl (HostError ''RangeError'')"
    by (simp add: foldRef_def I64_MAX_def I64_MIN_def)
  ultimately show ?thesis using kernel_is_reference by blast
qed

text \<open>
  (C34) The growable column is a stack of its values: a push appends the value even when it doubles
  the buffer, a pop drops the last one, and a pop after a push leaves the live values as they were.
\<close>

theorem column_is_stack:
  assumes "col_wf c" "in_i64 v"
  shows "col_wf (col_push c v) \<and> col_view (col_push c v) = col_view c @ [v] \<and>
    col_wf (col_pop c) \<and> col_view (col_pop c) = butlast (col_view c) \<and>
    col_view (col_pop (col_push c v)) = col_view c"
  using col_push_view [OF assms(1)] col_pop_view [OF assms(1)] col_pop_push [OF assms(1)] asIntN64_id [OF assms(2)]
  by auto

theorem column_is_stack_witness:
  "col_view (col_push \<lparr>buffer = [4], live = 1\<rparr> (- 9)) = [4, - 9]"
  using column_is_stack [of "\<lparr>buffer = [4], live = 1\<rparr>" "- 9"]
  by (simp add: col_wf_def in_i64_def I64_MIN_def I64_MAX_def col_view_def)

end
