(* ===== verification/Journal.thy ===== *)
theory Journal
  imports Prelude
begin

text \<open>
  The undo journal of the in-memory store (src/adapters/memory.ts): begin, record, rollback, and the
  savepoint pair a batch uses. The locale states what makes a store's undos sound, and what a
  rollback and a rollback to a savepoint then restore.
\<close>

section \<open>The journal\<close>

text \<open>
  A journal is null outside a transaction, else the undos recorded so far, oldest first. An undo is
  data here (the source records closures) and \<open>ap\<close> runs one.
\<close>

definition j_begin :: "'u list option \<Rightarrow> 'u list option res" where
  "j_begin j = (case j of Some _ \<Rightarrow> Inl (HostError ''in-memory transactions do not nest'')
                | None \<Rightarrow> Inr (Some []))"

definition j_commit :: "'u list option \<Rightarrow> 'u list option" where
  "j_commit j = None"

definition j_rollback :: "('u \<Rightarrow> 's \<Rightarrow> 's) \<Rightarrow> 'u list option \<Rightarrow> 's \<Rightarrow> 's" where
  "j_rollback ap j s = (case j of None \<Rightarrow> s | Some us \<Rightarrow> fold ap (rev us) s)"

definition j_recording :: "'u list option \<Rightarrow> bool" where
  "j_recording j \<longleftrightarrow> j \<noteq> None"

definition j_record :: "'u \<Rightarrow> 'u list option \<Rightarrow> 'u list option" where
  "j_record u j = map_option (\<lambda>us. us @ [u]) j"

definition j_mark :: "'u list option \<Rightarrow> nat" where
  "j_mark j = (case j of None \<Rightarrow> 0 | Some us \<Rightarrow> length us)"

definition j_rollbackTo :: "('u \<Rightarrow> 's \<Rightarrow> 's) \<Rightarrow> nat \<Rightarrow> 'u list option \<Rightarrow> 's \<Rightarrow> 's \<times> 'u list option" where
  "j_rollbackTo ap mark j s =
     (case j of None \<Rightarrow> (s, None)
      | Some us \<Rightarrow> (fold ap (rev (drop mark us)) s, Some (take mark us)))"

text \<open>\<open>recordRowUndo\<close> remembers a key and what it held; running it puts that back.\<close>

definition row_undo :: "'k \<Rightarrow> ('k \<times> 'v) list \<Rightarrow> 'k \<times> 'v option" where
  "row_undo k rows = (k, map_of rows k)"

definition run_row_undo :: "'k \<times> 'v option \<Rightarrow> ('k \<times> 'v) list \<Rightarrow> ('k \<times> 'v) list" where
  "run_row_undo u rows = (case snd u of Some v \<Rightarrow> AList.update (fst u) v rows
                          | None \<Rightarrow> AList.delete (fst u) rows)"

section \<open>What a sound undo gives\<close>

text \<open>
  \<open>step s u s'\<close>: a write that takes \<open>s\<close> to \<open>s'\<close> and records the undo \<open>u\<close>; \<open>same\<close> is equality of
  what the store holds (the order of a Map's entries is not observable).
\<close>

locale undo_journal =
  fixes ap :: "'u \<Rightarrow> 's \<Rightarrow> 's" and step :: "'s \<Rightarrow> 'u \<Rightarrow> 's \<Rightarrow> bool" and same :: "'s \<Rightarrow> 's \<Rightarrow> bool"
  assumes same_refl: "same s s"
    and same_trans: "same s t \<Longrightarrow> same t r \<Longrightarrow> same s r"
    and ap_cong: "same s t \<Longrightarrow> same (ap u s) (ap u t)"
    and undo_step: "step s u s' \<Longrightarrow> same (ap u s') s"
begin

fun writes :: "'s \<Rightarrow> 'u list \<Rightarrow> 's \<Rightarrow> bool" where
  "writes s [] s' \<longleftrightarrow> s' = s"
| "writes s (u # us) s' \<longleftrightarrow> (\<exists>m. step s u m \<and> writes m us s')"

lemma writes_append: "writes s (us @ vs) s' \<longleftrightarrow> (\<exists>m. writes s us m \<and> writes m vs s')"
  by (induction us arbitrary: s) auto

lemma undo_all: "writes s us s' \<Longrightarrow> same (fold ap (rev us) s') s"
proof (induction us arbitrary: s)
  case (Cons u us)
  then obtain m where m: "step s u m" "writes m us s'" by auto
  have "same (ap u (fold ap (rev us) s')) (ap u m)"
    by (rule ap_cong [OF Cons.IH [OF m(2)]])
  then show ?case using same_trans undo_step [OF m(1)] by simp
qed (simp add: same_refl)

lemma rollback_restores: "writes s us s' \<Longrightarrow> same (j_rollback ap (Some us) s') s"
  by (simp add: j_rollback_def undo_all)

lemma rollbackTo_restores:
  assumes "writes s us m" "writes m vs s'"
  shows "same (fst (j_rollbackTo ap (j_mark (Some us)) (Some (us @ vs)) s')) m"
    "snd (j_rollbackTo ap (j_mark (Some us)) (Some (us @ vs)) s') = Some us"
  using undo_all [OF assms(2)] by (simp_all add: j_rollbackTo_def j_mark_def)

end

section \<open>Row stores\<close>

text \<open>A write that replaces or deletes a whole row after \<open>recordRowUndo\<close>.\<close>

definition row_write :: "('k \<times> 'v) list \<Rightarrow> 'k \<times> 'v option \<Rightarrow> ('k \<times> 'v) list \<Rightarrow> bool" where
  "row_write rows u rows' \<longleftrightarrow>
     (\<exists>k. u = row_undo k rows \<and> ((\<exists>v. rows' = AList.update k v rows) \<or> rows' = AList.delete k rows))"

definition same_map :: "('k \<times> 'v) list \<Rightarrow> ('k \<times> 'v) list \<Rightarrow> bool" where
  "same_map m n \<longleftrightarrow> map_of m = map_of n"

lemma map_of_run_row_undo: "map_of (run_row_undo u rows) = (map_of rows)(fst u := snd u)"
  by (cases "snd u") (simp_all add: run_row_undo_def fun_eq_iff)

interpretation rows: undo_journal run_row_undo row_write same_map
proof
  show "same_map s s" for s :: "('k \<times> 'v) list" by (simp add: same_map_def)
  show "same_map s t \<Longrightarrow> same_map t r \<Longrightarrow> same_map s r" for s t r :: "('k \<times> 'v) list"
    by (simp add: same_map_def)
  show "same_map s t \<Longrightarrow> same_map (run_row_undo u s) (run_row_undo u t)" for s t :: "('k \<times> 'v) list" and u
    by (simp add: same_map_def map_of_run_row_undo)
  show "row_write s u s' \<Longrightarrow> same_map (run_row_undo u s') s" for s s' :: "('k \<times> 'v) list" and u
    by (auto simp: row_write_def same_map_def map_of_run_row_undo row_undo_def)
qed

end
