(* ===== verification/MemLedger.thy ===== *)
theory MemLedger
  imports Ledger Column Journal
begin

text \<open>
  The in-memory ledger store of src/adapters/memory.ts: the log, the maintained
  balances and chain heads, the lot index and the resident delta columns. A Map is an association
  list; the two-level map of columns is keyed by account and currency together. An async generator
  is the list of what it yields. The digest and the clock reading are parameters.
\<close>

section \<open>State\<close>

record stored = transaction +
  pseq :: nat

record ledger_data =
  plog :: "stored list"
  balances :: "(AccountRef \<times> int) list"
  heads :: "(AccountRef \<times> string) list"
  registered :: "AccountRef list"
  lotIndex :: "(AccountRef \<times> nat list) list"
  columns :: "((AccountRef \<times> currency) \<times> int list) list"

datatype ledger_undo =
    UndoPosting stored "(AccountRef \<times> string option) list" "AccountRef list option" "AccountRef list"
  | UndoPrune "stored list" "(AccountRef \<times> nat list) list" "((AccountRef \<times> currency) \<times> int list) list"

record ledger_state = ledger_data +
  seqno :: nat
  ljournal :: "ledger_undo list option"

definition empty_ledger :: ledger_state where
  "empty_ledger = \<lparr>plog = [], balances = [], heads = [], registered = SYSTEM, lotIndex = [],
     columns = [], seqno = 0, ljournal = None\<rparr>"

definition isKnownAccount :: "AccountRef \<Rightarrow> AccountRef list \<Rightarrow> bool" where
  "isKnownAccount acct reg \<longleftrightarrow> baseOf acct \<in> set reg \<or> walletKindOf acct \<noteq> None"

definition distinctAccounts :: "leg list \<Rightarrow> AccountRef list" where
  "distinctAccounts ls =
     foldl (\<lambda>order l. if account l \<in> set order then order else order @ [account l]) [] ls"

section \<open>Appending a posting\<close>

definition advanceChain :: "digest \<Rightarrow> 'a ledger_data_scheme \<Rightarrow> posting \<Rightarrow> link list res" where
  "advanceChain dig s p =
     rmap (\<lambda>acct.
       (let prevHex = (case map_of (heads s) acct of Some h \<Rightarrow> h | None \<Rightarrow> GENESIS_HEX)
        in rbind (if prevHex = GENESIS_HEX then Inr GENESIS else fromHex prevHex) (\<lambda>prev.
           rbind (chainHash dig prev (txnId p) acct (legs p) (meta p)) (\<lambda>h.
             Inr \<lparr>laccount = acct, prevHash = prevHex, lhash = h\<rparr>)))) (distinctAccounts (legs p))"

text \<open>The range check over the running balances: each leg's delta and the balances it leads to.\<close>

fun next_balances ::
    "(AccountRef \<times> int) list \<Rightarrow> leg list \<Rightarrow> (AccountRef \<times> int) list \<Rightarrow>
     ((AccountRef \<times> int) list \<times> amount list) res" where
  "next_balances bals [] next = Inr (next, [])"
| "next_balances bals (l # ls) next =
     rbind (balanceDelta l) (\<lambda>delta.
       (let prior = (case map_of next (account l) of Some v \<Rightarrow> v | None \<Rightarrow> getz bals (account l))
        in rbind (toAmount (currency (amount l)) (prior + minor delta)) (\<lambda>m.
           rbind (next_balances bals ls (AList.update (account l) (minor m) next)) (\<lambda>(nxt, deltas).
             Inr (nxt, delta # deltas)))))"

definition lottedAccounts :: "leg list \<Rightarrow> AccountRef list" where
  "lottedAccounts ls = distinctAccounts (filter (\<lambda>l. moved l > 0) ls)"

definition appendDelta ::
    "AccountRef \<Rightarrow> amount \<Rightarrow> ((AccountRef \<times> currency) \<times> int list) list \<Rightarrow>
     ((AccountRef \<times> currency) \<times> int list) list" where
  "appendDelta acct delta cols =
     (let col = (case map_of cols (acct, currency delta) of Some c \<Rightarrow> c | None \<Rightarrow> [])
      in AList.update (acct, currency delta) (col @ [minor delta]) cols)"

definition popDelta ::
    "AccountRef \<Rightarrow> currency \<Rightarrow> ((AccountRef \<times> currency) \<times> int list) list \<Rightarrow>
     ((AccountRef \<times> currency) \<times> int list) list" where
  "popDelta acct cur cols =
     (case map_of cols (acct, cur) of
        None \<Rightarrow> cols
      | Some col \<Rightarrow> (if butlast col = [] then AList.delete (acct, cur) cols
                     else AList.update (acct, cur) (butlast col) cols))"

definition push_lot :: "nat \<Rightarrow> AccountRef \<Rightarrow> (AccountRef \<times> nat list) list \<Rightarrow> (AccountRef \<times> nat list) list" where
  "push_lot index acct lots =
     AList.update acct ((case map_of lots acct of Some ps \<Rightarrow> ps | None \<Rightarrow> []) @ [index]) lots"

definition commitPosting :: "ledger_state \<Rightarrow> stored \<Rightarrow> ledger_state res" where
  "commitPosting s st =
     (let priorHeads = map (\<lambda>lk. (laccount lk, map_of (heads s) (laccount lk))) (links st);
          created = (if j_recording (ljournal s)
                     then Some (distinctAccounts (filter (\<lambda>l. map_of (balances s) (account l) = None) (legs st)))
                     else None)
      in rbind (next_balances (balances s) (legs st) []) (\<lambda>(next, deltas).
        (let index = length (plog s);
             lotted = lottedAccounts (legs st)
         in Inr (s\<lparr>plog := plog s @ [st],
             lotIndex := fold (push_lot index) lotted (lotIndex s),
             heads := fold (\<lambda>lk. AList.update (laccount lk) (lhash lk)) (links st) (heads s),
             balances := fold (\<lambda>l. AList.update (account l) (getz next (account l))) (legs st) (balances s),
             columns := fold (\<lambda>(l, d). appendDelta (account l) d) (zip (legs st) deltas) (columns s),
             ljournal := j_record (UndoPosting st priorHeads created lotted) (ljournal s)\<rparr>))))"

definition pop_lot :: "AccountRef \<Rightarrow> (AccountRef \<times> nat list) list \<Rightarrow> (AccountRef \<times> nat list) list" where
  "pop_lot acct lots =
     (case map_of lots acct of
        None \<Rightarrow> lots
      | Some ps \<Rightarrow> (if butlast ps = [] then AList.delete acct lots else AList.update acct (butlast ps) lots))"

definition undo_balance ::
    "AccountRef list option \<Rightarrow> leg \<Rightarrow> (AccountRef \<times> int) list \<Rightarrow> (AccountRef \<times> int) list" where
  "undo_balance created l bals =
     (let next = getz bals (account l) - moved l
      in if next = 0 \<and> (case created of Some c \<Rightarrow> account l \<in> set c | None \<Rightarrow> False)
         then AList.delete (account l) bals
         else AList.update (account l) next bals)"

definition undoPosting ::
    "'a ledger_data_scheme \<Rightarrow> stored \<Rightarrow> (AccountRef \<times> string option) list \<Rightarrow> AccountRef list option \<Rightarrow>
     AccountRef list \<Rightarrow> 'a ledger_data_scheme" where
  "undoPosting s st priorHeads created lotted =
     s\<lparr>plog := butlast (plog s),
       lotIndex := fold pop_lot lotted (lotIndex s),
       heads := fold run_row_undo priorHeads (heads s),
       balances := fold (undo_balance created) (legs st) (balances s),
       columns := fold (\<lambda>l. popDelta (account l) (currency (amount l))) (legs st) (columns s)\<rparr>"

definition applyLedgerUndo :: "ledger_undo \<Rightarrow> 'a ledger_data_scheme \<Rightarrow> 'a ledger_data_scheme" where
  "applyLedgerUndo u s =
     (case u of
        UndoPosting st ph created lotted \<Rightarrow> undoPosting s st ph created lotted
      | UndoPrune lg lots cols \<Rightarrow> s\<lparr>plog := lg, lotIndex := lots, columns := cols\<rparr>)"

definition m_append :: "digest \<Rightarrow> int \<Rightarrow> posting \<Rightarrow> (ledger_state, transaction) act" where
  "m_append dig now p s =
     rbind (advanceChain dig s p) (\<lambda>lks.
       (let s1 = s\<lparr>seqno := seqno s + 1\<rparr>;
            st = \<lparr>txnId = txnId p, legs = legs p, meta = meta p, postedAt = now, links = lks,
                  pseq = seqno s1\<rparr>
        in rbind (commitPosting s1 st) (\<lambda>s2. Inr (transaction.truncate st, s2))))"

definition m_balance :: "AccountRef \<Rightarrow> (ledger_state, amount) act" where
  "m_balance acct = (\<lambda>s. rbind (toAmount (currencyOf acct) (getz (balances s) acct)) (\<lambda>a. Inr (a, s)))"

definition memory_ledger :: "digest \<Rightarrow> int \<Rightarrow> ledger_state ledger" where
  "memory_ledger dig now =
     \<lparr>l_hasAccount = (\<lambda>acct. gets (\<lambda>s. isKnownAccount acct (registered s))),
      l_balance = m_balance,
      l_append = m_append dig now,
      l_appendAll = None,
      l_lock = (\<lambda>_. ret ()),
      l_lockMany = None\<rparr>"

section \<open>Reads\<close>

definition rebuildColumns :: "'a ledger_data_scheme \<Rightarrow> 'a ledger_data_scheme" where
  "rebuildColumns s =
     s\<lparr>columns := fold (\<lambda>row. fold (\<lambda>l. appendDelta (account l) \<lparr>currency = currency (amount l), minor = moved l\<rparr>) (legs row))
        (plog s) []\<rparr>"

definition sortedHeads :: "(AccountRef \<times> string) list \<Rightarrow> (AccountRef \<times> string) list" where
  "sortedHeads hs = sort_key fst hs"

definition headSumsOf :: "'a ledger_data_scheme \<Rightarrow> (AccountRef \<times> string \<times> int) list" where
  "headSumsOf s =
     (let raw = foldl (\<lambda>m row. foldl (\<lambda>m l. bump (account l) (minor (amount l)) m) m (legs row)) [] (plog s)
      in map (\<lambda>(acct, head). (acct, head, getz raw acct)) (sortedHeads (heads s)))"

record archived =
  aposting :: transaction
  aseq :: nat

definition page_of :: "stored list \<Rightarrow> nat option \<Rightarrow> nat \<Rightarrow> stored list \<times> nat option" where
  "page_of lg cursor limit =
     (let eligible = filter (\<lambda>row. case cursor of None \<Rightarrow> True | Some c \<Rightarrow> pseq row > c) lg;
          page = take limit eligible
      in (page, if length page < length eligible then Some (pseq (last page)) else None))"

definition archivePageOf :: "stored list \<Rightarrow> nat option \<Rightarrow> nat \<Rightarrow> archived list \<times> nat option" where
  "archivePageOf lg cursor limit =
     (case page_of lg cursor limit of (page, cur) \<Rightarrow>
        (map (\<lambda>row. \<lparr>aposting = transaction.truncate row, aseq = pseq row\<rparr>) page, cur))"

text \<open>A link as the chain verifier reads it: the posting's content and the pair of hashes.\<close>

record stored_link =
  kaccount :: AccountRef
  ktxnId :: string
  klegs :: "leg list"
  kmeta :: meta
  kprev :: string
  khash :: string

definition link_of :: "stored \<Rightarrow> link \<Rightarrow> stored_link" where
  "link_of row lk = \<lparr>kaccount = laccount lk, ktxnId = txnId row, klegs = legs row, kmeta = meta row,
     kprev = prevHash lk, khash = lhash lk\<rparr>"

definition linksPageOf :: "stored list \<Rightarrow> nat option \<Rightarrow> nat \<Rightarrow> stored_link list \<times> nat option" where
  "linksPageOf lg cursor limit =
     (case page_of lg cursor limit of (page, cur) \<Rightarrow>
        (concat (map (\<lambda>row. map (link_of row) (links row)) page), cur))"

definition pruneFromLog :: "ledger_state \<Rightarrow> string list \<Rightarrow> ledger_state" where
  "pruneFromLog s txnIds =
     (let kept = filter (\<lambda>row. txnId row \<notin> set txnIds) (plog s)
      in if length kept = length (plog s) then s
         else
           let lots = fold (\<lambda>(index, row). fold (push_lot index) (lottedAccounts (legs row)))
                        (zip [0..<length kept] kept) [];
               undo = UndoPrune (plog s) (lotIndex s) (columns s);
               s1 = rebuildColumns (s\<lparr>plog := kept, lotIndex := lots\<rparr>)
           in s1\<lparr>ljournal := j_record undo (ljournal s)\<rparr>)"

record entry =
  entryTxn :: string
  entryAmount :: amount
  entryAt :: int

definition buildStatement :: "stored list \<Rightarrow> AccountRef \<Rightarrow> int \<Rightarrow> int \<Rightarrow> entry list res" where
  "buildStatement lg acct from until =
     rbind (rmap (\<lambda>row. rmap (\<lambda>l. rbind (balanceDelta l) (\<lambda>d.
         Inr \<lparr>entryTxn = txnId row, entryAmount = d, entryAt = postedAt row\<rparr>))
         (filter (\<lambda>l. account l = acct) (legs row)))
       (filter (\<lambda>row. \<not> (postedAt row < from \<or> postedAt row \<ge> until)) lg))
     (\<lambda>rows. Inr (concat rows))"

definition derivedBalancesOf :: "bool \<Rightarrow> 'a ledger_data_scheme \<Rightarrow> AccountRef \<Rightarrow> amount list res" where
  "derivedBalancesOf has_wasm s acct =
     rmap (\<lambda>cur. rbind (foldColumn has_wasm (case map_of (columns s) (acct, cur) of Some col \<Rightarrow> col | None \<Rightarrow> []))
            (toAmount cur))
       (filter (\<lambda>cur. map_of (columns s) (acct, cur) \<noteq> None) [CREDIT, USD])"

definition metaString :: "meta \<Rightarrow> string \<Rightarrow> string \<Rightarrow> string" where
  "metaString m key fallback = (case map_of m key of Some (JStr v) \<Rightarrow> v | _ \<Rightarrow> fallback)"

definition metaNumber :: "meta \<Rightarrow> string \<Rightarrow> int \<Rightarrow> int" where
  "metaNumber m key fallback = (case map_of m key of Some (JNum v) \<Rightarrow> v | _ \<Rightarrow> fallback)"

record lot =
  lotTxn :: string
  lotAmount :: amount
  lotSource :: string
  toppedUpAt :: int
  maturesAt :: int

definition lot_of :: "'a transaction_scheme \<Rightarrow> leg \<Rightarrow> lot" where
  "lot_of row l =
     \<lparr>lotTxn = txnId row, lotAmount = \<lparr>currency = currency (amount l), minor = moved l\<rparr>,
      lotSource = metaString (meta row) ''source'' ''unknown'', toppedUpAt = postedAt row,
      maturesAt = metaNumber (meta row) ''maturesAt'' (postedAt row)\<rparr>"

definition lotsOfPosting :: "'a transaction_scheme \<Rightarrow> AccountRef \<Rightarrow> lot list" where
  "lotsOfPosting row acct =
     map (lot_of row) (filter (\<lambda>l. account l = acct \<and> moved l > 0) (legs row))"

text \<open>
  The paging loop of \<open>timelineOf\<close> over one posting's lots, with its two counters; the outer loop
  stops once enough were yielded.
\<close>

fun yield_lots :: "nat \<Rightarrow> nat option \<Rightarrow> nat \<Rightarrow> nat \<Rightarrow> lot list \<Rightarrow> lot list \<times> nat \<times> nat" where
  "yield_lots off limit skipped yielded [] = ([], skipped, yielded)"
| "yield_lots off limit skipped yielded (x # xs) =
     (if skipped < off then yield_lots off limit (skipped + 1) yielded xs
      else if (case limit of None \<Rightarrow> False | Some n \<Rightarrow> yielded \<ge> n) then ([], skipped, yielded)
      else case yield_lots off limit skipped (yielded + 1) xs of (ys, sk, yd) \<Rightarrow> (x # ys, sk, yd))"

fun timeline_loop :: "AccountRef \<Rightarrow> nat \<Rightarrow> nat option \<Rightarrow> nat \<Rightarrow> nat \<Rightarrow> stored list \<Rightarrow> lot list" where
  "timeline_loop acct off limit skipped yielded [] = []"
| "timeline_loop acct off limit skipped yielded (row # rows) =
     (if (case limit of None \<Rightarrow> False | Some n \<Rightarrow> yielded \<ge> n) then []
      else case yield_lots off limit skipped yielded (lotsOfPosting row acct) of
             (ys, sk, yd) \<Rightarrow> ys @ timeline_loop acct off limit sk yd rows)"

definition timelineOf :: "'a ledger_data_scheme \<Rightarrow> AccountRef \<Rightarrow> bool \<Rightarrow> nat option \<Rightarrow> nat \<Rightarrow> lot list" where
  "timelineOf s acct desc limit off =
     (let positions = (case map_of (lotIndex s) acct of Some ps \<Rightarrow> ps | None \<Rightarrow> []);
          rows = map (\<lambda>i. plog s ! i) positions
      in timeline_loop acct off limit 0 0 (if desc then rev rows else rows))"

fun lineage_from :: "AccountRef \<Rightarrow> string option \<Rightarrow> bool \<Rightarrow> stored list \<Rightarrow> stored_link list" where
  "lineage_from acct since started [] = []"
| "lineage_from acct since started (row # rows) =
     (case find (\<lambda>lk. laccount lk = acct) (links row) of
        None \<Rightarrow> lineage_from acct since started rows
      | Some lk \<Rightarrow>
          (if \<not> started then lineage_from acct since (Some (lhash lk) = since) rows
           else link_of row lk # lineage_from acct since started rows))"

definition lineageOf :: "stored list \<Rightarrow> AccountRef \<Rightarrow> string option \<Rightarrow> stored_link list" where
  "lineageOf lg acct since = lineage_from acct since (since = None) lg"

definition postingOf :: "stored list \<Rightarrow> string \<Rightarrow> posting option" where
  "postingOf lg txn = map_option posting.truncate (find (\<lambda>row. txnId row = txn) lg)"

definition linksOf :: "stored list \<Rightarrow> string \<Rightarrow> link list" where
  "linksOf lg txn = (case find (\<lambda>row. txnId row = txn) lg of None \<Rightarrow> [] | Some row \<Rightarrow> links row)"

definition listPostingsOf :: "stored list \<Rightarrow> posting list" where
  "listPostingsOf lg = map posting.truncate (rev lg)"

definition historySize :: "'a ledger_data_scheme \<Rightarrow> nat" where
  "historySize s = (if plog s = [] then 0 else pseq (last (plog s)))"

definition balanceAccounts :: "'a ledger_data_scheme \<Rightarrow> AccountRef list" where
  "balanceAccounts s = sort (map fst (balances s))"

text \<open>The test-only back doors: editing a stored posting's legs, and planting a balance.\<close>

fun tamper_first :: "string \<Rightarrow> (leg list \<Rightarrow> leg list) \<Rightarrow> stored list \<Rightarrow> stored list" where
  "tamper_first txn mutate [] = []"
| "tamper_first txn mutate (row # rows) =
     (if txnId row = txn then row\<lparr>legs := mutate (legs row)\<rparr> # rows
      else row # tamper_first txn mutate rows)"

definition tamperPosting :: "ledger_state \<Rightarrow> string \<Rightarrow> (leg list \<Rightarrow> leg list) \<Rightarrow> ledger_state" where
  "tamperPosting s txn mutate =
     (case find (\<lambda>row. txnId row = txn) (plog s) of
        None \<Rightarrow> s
      | Some _ \<Rightarrow> rebuildColumns (s\<lparr>plog := tamper_first txn mutate (plog s)\<rparr>))"

definition seedBalance :: "ledger_state \<Rightarrow> AccountRef \<Rightarrow> amount \<Rightarrow> ledger_state" where
  "seedBalance s acct a = s\<lparr>balances := AList.update acct (minor a) (balances s)\<rparr>"

section \<open>What a commit does to the balances\<close>

lemma distinctAccounts_from:
  "distinct order \<Longrightarrow>
   distinct (foldl (\<lambda>order l. if account l \<in> set order then order else order @ [account l]) order ls) \<and>
   set (foldl (\<lambda>order l. if account l \<in> set order then order else order @ [account l]) order ls) =
     set order \<union> account ` set ls"
  by (induction ls arbitrary: order) auto

lemma distinctAccounts_facts [simp]:
  "distinct (distinctAccounts ls)" "set (distinctAccounts ls) = account ` set ls"
  using distinctAccounts_from [of "[]" ls] by (simp_all add: distinctAccounts_def)

definition running :: "(AccountRef \<times> int) list \<Rightarrow> (AccountRef \<times> int) list \<Rightarrow> AccountRef \<Rightarrow> int" where
  "running bals next a = (case map_of next a of Some v \<Rightarrow> v | None \<Rightarrow> getz bals a)"

lemma next_balances_spec:
  assumes "next_balances bals ls m = Inr (nxt, deltas)"
  shows "running bals nxt a = running bals m a + net a ls"
    "fst ` set nxt = fst ` set m \<union> account ` set ls"
    "deltas = map (\<lambda>l. \<lparr>currency = currency (amount l), minor = moved l\<rparr>) ls"
    "\<forall>l \<in> set ls. in_i64 (moved l)"
    "a \<in> account ` set ls \<Longrightarrow> in_i64 (running bals nxt a)"
  using assms
proof (induction ls arbitrary: m nxt deltas)
  case Nil
  {
    case 1 then show ?case by simp
  next
    case 2 then show ?case by simp
  next
    case 3 then show ?case by simp
  next
    case 4 then show ?case by simp
  next
    case 5 then show ?case by simp
  }
next
  case (Cons l ls)
  have step: "\<exists>ds. in_i64 (moved l) \<and> in_i64 (running bals m (account l) + moved l) \<and>
      deltas = \<lparr>currency = currency (amount l), minor = moved l\<rparr> # ds \<and>
      next_balances bals ls (AList.update (account l) (running bals m (account l) + moved l) m) = Inr (nxt, ds)"
    if "next_balances bals (l # ls) m = Inr (nxt, deltas)" for m nxt deltas
    using that by (auto simp: balanceDelta_moved running_def Let_def)
  have upd: "running bals (AList.update (account l) (running bals m (account l) + moved l) m) b =
      running bals m b + (if account l = b then moved l else 0)" for m b
    by (auto simp: running_def)
  {
    case 1 from step [OF 1] obtain ds where ds: "next_balances bals ls
        (AList.update (account l) (running bals m (account l) + moved l) m) = Inr (nxt, ds)" by blast
    show ?case using Cons.IH(1) [OF ds] by (simp add: upd)
  next
    case 2 from step [OF 2] obtain ds where ds: "next_balances bals ls
        (AList.update (account l) (running bals m (account l) + moved l) m) = Inr (nxt, ds)" by blast
    show ?case using Cons.IH(2) [OF ds] by (auto simp: keys_update)
  next
    case 3 from step [OF 3] show ?case using Cons.IH(3) by auto
  next
    case 4 from step [OF 4] show ?case using Cons.IH(4) by auto
  next
    case 5
    from step [OF 5(2)] obtain ds where r: "in_i64 (running bals m (account l) + moved l)" and
      ds: "next_balances bals ls
        (AList.update (account l) (running bals m (account l) + moved l) m) = Inr (nxt, ds)" by blast
    show ?case
    proof (cases "a \<in> account ` set ls")
      case True then show ?thesis using Cons.IH(5) [OF _ ds] by simp
    next
      case False
      then have "net a ls = 0" by (induction ls) auto
      then show ?thesis using Cons.IH(1) [OF ds] upd [of m a] r 5(1) False by auto
    qed
  }
qed

lemma map_of_fold_update:
  "map_of (fold (\<lambda>x. AList.update (f x) (g (f x))) xs m) k =
     (if k \<in> f ` set xs then Some (g k) else map_of m k)"
  by (induction xs arbitrary: m) auto

lemma net_absent: "a \<notin> account ` set ls \<Longrightarrow> net a ls = 0"
  by (induction ls) auto

text \<open>What a successful commit leaves: every field of the next state in terms of the last one.\<close>

lemma commitPosting_Inr:
  assumes "commitPosting s st = Inr s'"
  shows "plog s' = plog s @ [st]" "registered s' = registered s" "seqno s' = seqno s"
    "getz (balances s') a = getz (balances s) a + net a (legs st)"
    "fst ` set (balances s') = fst ` set (balances s) \<union> account ` set (legs st)"
    "a \<in> account ` set (legs st) \<Longrightarrow> in_i64 (getz (balances s') a)"
    "\<forall>l \<in> set (legs st). in_i64 (moved l)"
    "heads s' = fold (\<lambda>lk. AList.update (laccount lk) (lhash lk)) (links st) (heads s)"
    "columns s' = fold (\<lambda>l. appendDelta (account l) \<lparr>currency = currency (amount l), minor = moved l\<rparr>)
       (legs st) (columns s)"
    "lotIndex s' = fold (push_lot (length (plog s))) (lottedAccounts (legs st)) (lotIndex s)"
    "a \<notin> account ` set (legs st) \<Longrightarrow> map_of (balances s') a = map_of (balances s) a"
proof -
  obtain nxt deltas where n: "next_balances (balances s) (legs st) [] = Inr (nxt, deltas)"
    using assms by (auto simp: commitPosting_def Let_def)
  note nb = next_balances_spec [OF n]
  have b: "balances s' = fold (\<lambda>l. AList.update (account l) (getz nxt (account l))) (legs st) (balances s)"
    using assms n by (auto simp: commitPosting_def Let_def)
  have r: "getz nxt a = running (balances s) nxt a" if "a \<in> account ` set (legs st)" for a
  proof -
    have "map_of nxt a \<noteq> None" using nb(2) that by (simp add: map_of_eq_None_iff)
    then show ?thesis by (auto simp: getz_def running_def)
  qed
  have g: "getz (balances s') a =
      (if a \<in> account ` set (legs st) then getz nxt a else getz (balances s) a)" for a
    using map_of_fold_update [of account "getz nxt" "legs st" "balances s" a] by (simp add: b getz_def)
  show "a \<notin> account ` set (legs st) \<Longrightarrow> map_of (balances s') a = map_of (balances s) a"
    using map_of_fold_update [of account "getz nxt" "legs st" "balances s" a] by (simp add: b)
  have start: "running (balances s) [] a = getz (balances s) a" for a by (simp add: running_def)
  show bal: "getz (balances s') a = getz (balances s) a + net a (legs st)" for a
    using g [of a] r [of a] nb(1) [of a] net_absent [of a "legs st"] start by auto
  show "in_i64 (getz (balances s') a)" if "a \<in> account ` set (legs st)"
    using that g [of a] r [OF that] nb(5) [OF that] by simp
  show "\<forall>l \<in> set (legs st). in_i64 (moved l)" by (rule nb(4))
  have "fst ` set (fold (\<lambda>l. AList.update (account l) (getz nxt (account l))) ls m) =
      fst ` set m \<union> account ` set ls" for ls m
    by (induction ls arbitrary: m) (auto simp: keys_update)
  then show "fst ` set (balances s') = fst ` set (balances s) \<union> account ` set (legs st)" by (simp add: b)
  have z: "zip (legs st) deltas = map (\<lambda>l. (l, \<lparr>currency = currency (amount l), minor = moved l\<rparr>)) (legs st)"
    by (simp add: nb(3) zip_map2 zip_same_conv_map)
  have "fold (\<lambda>(l, d). appendDelta (account l) d) (map (\<lambda>l. (l, f l)) ls) m =
      fold (\<lambda>l. appendDelta (account l) (f l)) ls m" for f ls m
    by (induction ls arbitrary: m) auto
  then show "columns s' = fold (\<lambda>l. appendDelta (account l)
      \<lparr>currency = currency (amount l), minor = moved l\<rparr>) (legs st) (columns s)"
    using assms n z by (auto simp: commitPosting_def Let_def)
  show "plog s' = plog s @ [st]" "registered s' = registered s" "seqno s' = seqno s"
    "heads s' = fold (\<lambda>lk. AList.update (laccount lk) (lhash lk)) (links st) (heads s)"
    "lotIndex s' = fold (push_lot (length (plog s))) (lottedAccounts (legs st)) (lotIndex s)"
    using assms n by (auto simp: commitPosting_def Let_def)
qed

lemma m_append_Inr:
  "m_append dig now p s = Inr (t, s') \<longleftrightarrow>
     (\<exists>lks st. advanceChain dig s p = Inr lks \<and>
        st = \<lparr>txnId = txnId p, legs = legs p, meta = meta p, postedAt = now, links = lks, pseq = seqno s + 1\<rparr> \<and>
        commitPosting (s\<lparr>seqno := seqno s + 1\<rparr>) st = Inr s' \<and> t = transaction.truncate st)"
  by (auto simp: m_append_def Let_def)

interpretation mem: ledger_port "memory_ledger dig now" "\<lambda>s a. getz (balances s) a"
  for dig now
proof
  fix a s b s'
  show "l_hasAccount (memory_ledger dig now) a s = Inr (b, s') \<Longrightarrow> s' = s"
    by (simp add: memory_ledger_def)
next
  fix a s v s'
  show "l_balance (memory_ledger dig now) a s = Inr (v, s') \<Longrightarrow>
      s' = s \<and> minor v = getz (balances s) a \<and> currency v = currencyOf a"
    by (auto simp: memory_ledger_def m_balance_def)
next
  fix p s t s'
  assume "l_append (memory_ledger dig now) p s = Inr (t, s')"
  then obtain lks where "commitPosting (s\<lparr>seqno := seqno s + 1\<rparr>)
      \<lparr>txnId = txnId p, legs = legs p, meta = meta p, postedAt = now, links = lks, pseq = seqno s + 1\<rparr> = Inr s'"
    "legs t = legs p" "txnId t = txnId p" "meta t = meta p"
    by (auto simp: memory_ledger_def m_append_Inr transaction.truncate_def)
  then show "(\<forall>a. getz (balances s') a = getz (balances s) a + net a (legs p)) \<and>
      legs t = legs p \<and> txnId t = txnId p \<and> meta t = meta p"
    using commitPosting_Inr(4) by fastforce
qed

section \<open>The invariant of the books\<close>

definition all_legs :: "'a ledger_data_scheme \<Rightarrow> leg list" where
  "all_legs s = concat (map legs (plog s))"

text \<open>
  The books are in order: the maintained balances are the folds of the log, every posting balances
  in the currencies of its accounts, every balance fits the ledger's integers, and no guarded
  account is overdrawn.
\<close>

definition books_ok :: "'a ledger_data_scheme \<Rightarrow> bool" where
  "books_ok s \<longleftrightarrow>
     (\<forall>a. getz (balances s) a = net a (all_legs s)) \<and>
     (\<forall>row \<in> set (plog s). (\<forall>c. cur_sum c (legs row) = 0) \<and>
        (\<forall>l \<in> set (legs row). currency (amount l) = currencyOf (account l) \<and> in_i64 (moved l) \<and> minor (amount l) \<noteq> 0)) \<and>
     (\<forall>a. in_i64 (getz (balances s) a)) \<and>
     (\<forall>a. isUserGuarded a \<longrightarrow> 0 \<le> getz (balances s) a)"

lemma books_ok_empty: "books_ok empty_ledger"
  by (simp add: books_ok_def empty_ledger_def all_legs_def)

lemma postEntry_commit:
  assumes "postEntry (memory_ledger dig now) p s = Inr (t, s')"
  obtains lks st where "advanceChain dig s (dropZeroLegs p) = Inr lks"
    "st = \<lparr>txnId = txnId p, legs = legs (dropZeroLegs p), meta = meta p, postedAt = now, links = lks,
       pseq = seqno s + 1\<rparr>"
    "commitPosting (s\<lparr>seqno := seqno s + 1\<rparr>) st = Inr s'" "t = transaction.truncate st"
proof -
  obtain s1 where c: "post_checks (memory_ledger dig now) (dropZeroLegs p) s = Inr ((), s1)" and
    ap: "l_append (memory_ledger dig now) (dropZeroLegs p) s1 = Inr (t, s')"
    using assms by (auto simp: postEntry_def Let_def)
  have "s1 = s" by (rule mem.post_checks_spec(1) [OF c])
  then show ?thesis
    using ap that by (auto simp: memory_ledger_def m_append_Inr dropZeroLegs_sel(2,3))
qed

lemma postEntry_books:
  assumes "books_ok s" "postEntry (memory_ledger dig now) p s = Inr (t, s')"
  shows "books_ok s'"
proof -
  note pe = mem.postEntry_spec [OF assms(2)]
  obtain s1 st where c: "commitPosting s1 st = Inr s'" and
    s1: "plog s1 = plog s" "balances s1 = balances s" and t: "legs t = legs st"
    by (rule postEntry_commit [OF assms(2)]) (auto simp: transaction.truncate_def)
  note ci = commitPosting_Inr [OF c]
  have b: "\<forall>a. getz (balances s) a = net a (all_legs s)" "\<forall>a. in_i64 (getz (balances s) a)"
    using assms(1) unfolding books_ok_def by blast+
  have "in_i64 (getz (balances s') a)" for a
    using ci(4) [of a] ci(6) [of a] net_absent [of a "legs st"] b(2) s1(2)
    by (cases "a \<in> account ` set (legs st)") auto
  moreover have "getz (balances s') a = net a (all_legs s')" for a
    using ci(1,4) b(1) s1 by (simp add: all_legs_def)
  moreover have "\<forall>row \<in> set (plog s'). (\<forall>c. cur_sum c (legs row) = 0) \<and>
      (\<forall>l \<in> set (legs row). currency (amount l) = currencyOf (account l) \<and> in_i64 (moved l) \<and> minor (amount l) \<noteq> 0)"
    using ci(1,7) assms(1) s1 pe(2,3,4) t by (auto simp: books_ok_def)
  moreover have "isUserGuarded a \<Longrightarrow> 0 \<le> getz (balances s') a" for a
    using pe(5) [of a] assms(1) unfolding books_ok_def by blast
  ultimately show ?thesis unfolding books_ok_def by blast
qed

section \<open>Undoing a commit\<close>

text \<open>What the ledger holds, as maps; no lot list and no column is ever stored empty.\<close>

definition same_data :: "'a ledger_data_scheme \<Rightarrow> 'b ledger_data_scheme \<Rightarrow> bool" where
  "same_data s t \<longleftrightarrow> plog s = plog t \<and> registered s = registered t \<and>
     map_of (balances s) = map_of (balances t) \<and> map_of (heads s) = map_of (heads t) \<and>
     map_of (lotIndex s) = map_of (lotIndex t) \<and> map_of (columns s) = map_of (columns t)"

definition no_empty :: "('k \<times> 'v list) list \<Rightarrow> bool" where
  "no_empty m \<longleftrightarrow> (\<forall>k. map_of m k \<noteq> Some [])"

definition lview :: "('k \<times> 'v list) list \<Rightarrow> 'k \<Rightarrow> 'v list" where
  "lview m k = (case map_of m k of Some c \<Rightarrow> c | None \<Rightarrow> [])"

lemma no_empty_map_of: "no_empty m \<Longrightarrow> map_of m k = (if lview m k = [] then None else Some (lview m k))"
  by (auto simp: no_empty_def lview_def split: option.splits)

lemma no_empty_eq:
  assumes "no_empty m" "no_empty n" "\<And>k. lview m k = lview n k"
  shows "map_of m = map_of n"
  using assms by (intro ext) (simp add: no_empty_map_of)

lemma push_lot_view [simp]: "lview (push_lot i a m) k = lview m k @ (if k = a then [i] else [])"
  and push_lot_no_empty [simp]: "no_empty m \<Longrightarrow> no_empty (push_lot i a m)"
  by (auto simp: push_lot_def lview_def no_empty_def split: option.splits)

lemma pop_lot_view [simp]: "lview (pop_lot a m) k = (if k = a then butlast (lview m k) else lview m k)"
  and pop_lot_no_empty [simp]: "no_empty m \<Longrightarrow> no_empty (pop_lot a m)"
  by (auto simp: pop_lot_def lview_def no_empty_def split: option.splits)

lemma appendDelta_view [simp]:
  "lview (appendDelta a d m) k = lview m k @ (if k = (a, currency d) then [minor d] else [])"
  and appendDelta_no_empty [simp]: "no_empty m \<Longrightarrow> no_empty (appendDelta a d m)"
  by (auto simp: appendDelta_def lview_def no_empty_def Let_def split: option.splits)

lemma popDelta_view [simp]:
  "lview (popDelta a c m) k = (if k = (a, c) then butlast (lview m k) else lview m k)"
  and popDelta_no_empty [simp]: "no_empty m \<Longrightarrow> no_empty (popDelta a c m)"
  by (auto simp: popDelta_def lview_def no_empty_def split: option.splits)

lemma lots_push_pop:
  assumes "no_empty m" "distinct as"
  shows "map_of (fold pop_lot as (fold (push_lot i) as m)) = map_of m"
proof (rule no_empty_eq)
  have pushed: "lview (fold (push_lot i) bs n) k = lview n k @ (if k \<in> set bs then [i] else [])"
    if "distinct bs" for bs n k using that by (induction bs arbitrary: n) auto
  have popped: "lview (fold pop_lot bs n) k = (if k \<in> set bs then butlast (lview n k) else lview n k)"
    if "distinct bs" for bs n k using that by (induction bs arbitrary: n) auto
  show "lview (fold pop_lot as (fold (push_lot i) as m)) k = lview m k" for k
    using assms(2) by (simp add: pushed popped)
  have "no_empty n \<Longrightarrow> no_empty (fold (push_lot i) bs n)" for bs n by (induction bs arbitrary: n) auto
  moreover have "no_empty n \<Longrightarrow> no_empty (fold pop_lot bs n)" for bs n by (induction bs arbitrary: n) auto
  ultimately show "no_empty (fold pop_lot as (fold (push_lot i) as m))" using assms(1) by blast
qed (rule assms(1))

abbreviation delta_of :: "leg \<Rightarrow> amount" where
  "delta_of l \<equiv> \<lparr>currency = currency (amount l), minor = moved l\<rparr>"

lemma columns_push_pop:
  assumes "no_empty m"
  shows "map_of (fold (\<lambda>l. popDelta (account l) (currency (amount l))) ls
           (fold (\<lambda>l. appendDelta (account l) (delta_of l)) ls m)) = map_of m"
proof (rule no_empty_eq)
  let ?ap = "\<lambda>l. appendDelta (account l) (delta_of l)"
  let ?pp = "\<lambda>l. popDelta (account l) (currency (amount l))"
  define own where "own k xs = filter (\<lambda>l. (account l, currency (amount l)) = k) xs" for k and xs :: "leg list"
  have pushed: "lview (fold ?ap xs n) k = lview n k @ map moved (own k xs)" for xs n k
    by (induction xs arbitrary: n) (auto simp: own_def)
  have popped: "lview (fold ?pp xs n) k = take (length (lview n k) - length (own k xs)) (lview n k)" for xs n k
    by (induction xs arbitrary: n) (auto simp: own_def butlast_conv_take min_def)
  show "lview (fold ?pp ls (fold ?ap ls m)) k = lview m k" for k by (simp add: pushed popped)
  have "no_empty n \<Longrightarrow> no_empty (fold ?ap xs n)" for xs n by (induction xs arbitrary: n) auto
  moreover have "no_empty n \<Longrightarrow> no_empty (fold ?pp xs n)" for xs n by (induction xs arbitrary: n) auto
  ultimately show "no_empty (fold ?pp ls (fold ?ap ls m))" using assms by blast
qed (rule assms)

lemma heads_set_undo:
  "map_of (fold run_row_undo (map (\<lambda>lk. (laccount lk, map_of hs (laccount lk))) lks)
     (fold (\<lambda>lk. AList.update (laccount lk) (lhash lk)) lks hs)) = map_of hs"
proof -
  have set_: "map_of (fold (\<lambda>lk. AList.update (laccount lk) (lhash lk)) xs m) k = map_of m k"
    if "k \<notin> laccount ` set xs" for xs m k
    using that by (induction xs arbitrary: m) auto
  have undo: "map_of (fold run_row_undo (map (\<lambda>lk. (laccount lk, map_of hs (laccount lk))) xs) m) k =
      (if k \<in> laccount ` set xs then map_of hs k else map_of m k)" for xs m k
    by (induction xs arbitrary: m) (auto simp: map_of_run_row_undo)
  show ?thesis by (rule ext) (simp add: undo set_)
qed

lemma map_of_undo_balance:
  "map_of (undo_balance c l m) a =
     (if account l = a
      then if getz m a - moved l = 0 \<and> (case c of Some as \<Rightarrow> a \<in> set as | None \<Rightarrow> False) then None
           else Some (getz m a - moved l)
      else map_of m a)"
  by (auto simp: undo_balance_def Let_def)

lemma undo_balance_getz:
  "getz (fold (undo_balance c) ls m) a = getz m a - net a ls"
proof (induction ls arbitrary: m)
  case (Cons l ls)
  have "getz (undo_balance c l m) a = getz m a - (if account l = a then moved l else 0)"
    by (simp add: getz_def [of "undo_balance c l m"] map_of_undo_balance) (simp add: getz_def)
  then show ?case using Cons by simp
qed simp

lemma undo_balance_final:
  assumes "a \<in> account ` set ls"
  shows "map_of (fold (undo_balance (Some c)) ls m) a =
    (if getz m a - net a ls = 0 \<and> a \<in> set c then None else Some (getz m a - net a ls))"
  using assms
proof (induction ls rule: rev_induct)
  case (snoc l ls)
  let ?m = "fold (undo_balance (Some c)) ls m"
  show ?case
  proof (cases "account l = a")
    case True
    then show ?thesis by (simp add: map_of_undo_balance undo_balance_getz)
  next
    case False
    then show ?thesis using snoc by (simp add: map_of_undo_balance)
  qed
qed simp

lemma undo_balance_other: "a \<notin> account ` set ls \<Longrightarrow> map_of (fold (undo_balance c) ls m) a = map_of m a"
  by (induction ls arbitrary: m) (auto simp: map_of_undo_balance)

lemma commit_undo:
  assumes "commitPosting s st = Inr s'" "ljournal s = Some us" "no_empty (lotIndex s)" "no_empty (columns s)"
  obtains u where "ljournal s' = Some (us @ [u])" "same_data (applyLedgerUndo u s') s"
proof -
  define ph where "ph = map (\<lambda>lk. (laccount lk, map_of (heads s) (laccount lk))) (links st)"
  define cr where "cr = distinctAccounts (filter (\<lambda>l. map_of (balances s) (account l) = None) (legs st))"
  define u where "u = UndoPosting st ph (Some cr) (lottedAccounts (legs st))"
  note ci = commitPosting_Inr [OF assms(1)]
  have j: "ljournal s' = Some (us @ [u])"
    using assms(1,2)
    by (auto simp: commitPosting_def Let_def j_record_def j_recording_def u_def ph_def cr_def)
  have b: "map_of (fold (undo_balance (Some cr)) (legs st) (balances s')) a = map_of (balances s) a" for a
  proof (cases "a \<in> account ` set (legs st)")
    case True
    have "getz (balances s') a - net a (legs st) = getz (balances s) a" using ci(4) by simp
    moreover have "a \<in> set cr \<longleftrightarrow> map_of (balances s) a = None" using True by (auto simp: cr_def)
    ultimately show ?thesis
      using undo_balance_final [OF True, of cr "balances s'"] by (auto simp: getz_def split: option.splits)
  next
    case False
    then show ?thesis using undo_balance_other [OF False] ci(11) [OF False] by simp
  qed
  have "distinct (lottedAccounts (legs st))" by (simp add: lottedAccounts_def)
  then have "same_data (applyLedgerUndo u s') s"
    using b lots_push_pop [OF assms(3)] columns_push_pop [OF assms(4)] heads_set_undo [of "heads s" "links st"]
    by (simp add: same_data_def applyLedgerUndo_def u_def undoPosting_def ci ph_def fun_eq_iff)
  with j show ?thesis by (rule that)
qed

lemma fold_map_cong:
  assumes "\<And>x m n. map_of m = map_of n \<Longrightarrow> map_of (f x m) = map_of (f x n)" "map_of m = map_of n"
  shows "map_of (fold f xs m) = map_of (fold f xs n)"
  using assms(2)
proof (induction xs arbitrary: m n)
  case (Cons x xs)
  show ?case using Cons.IH [OF assms(1) [OF Cons.prems, of x]] by simp
qed simp

lemma no_empty_Nil [simp]: "no_empty []"
  by (simp add: no_empty_def)

lemma same_data_undo:
  assumes "same_data s t"
  shows "same_data (applyLedgerUndo u s) (applyLedgerUndo u t)"
proof (cases u)
  case (UndoPosting st ph c lotted)
  have "map_of (fold (undo_balance c) (legs st) (balances s)) = map_of (fold (undo_balance c) (legs st) (balances t))"
    by (rule fold_map_cong) (use assms in \<open>simp_all add: same_data_def fun_eq_iff map_of_undo_balance getz_def\<close>)
  moreover have "map_of (fold pop_lot lotted (lotIndex s)) = map_of (fold pop_lot lotted (lotIndex t))"
    by (rule fold_map_cong) (use assms in \<open>simp_all add: same_data_def pop_lot_def split: option.splits\<close>)
  moreover have "map_of (fold (\<lambda>l. popDelta (account l) (currency (amount l))) (legs st) (columns s)) =
      map_of (fold (\<lambda>l. popDelta (account l) (currency (amount l))) (legs st) (columns t))"
    by (rule fold_map_cong) (use assms in \<open>simp_all add: same_data_def popDelta_def split: option.splits\<close>)
  moreover have "map_of (fold run_row_undo ph (heads s)) = map_of (fold run_row_undo ph (heads t))"
    by (rule fold_map_cong) (use assms in \<open>simp_all add: same_data_def map_of_run_row_undo\<close>)
  ultimately show ?thesis
    using assms by (simp add: UndoPosting applyLedgerUndo_def undoPosting_def same_data_def)
next
  case (UndoPrune lg lots cols)
  then show ?thesis using assms by (simp add: applyLedgerUndo_def same_data_def)
qed

definition ledger_wf :: "'a ledger_data_scheme \<Rightarrow> bool" where
  "ledger_wf s \<longleftrightarrow> no_empty (lotIndex s) \<and> no_empty (columns s)"

definition ledger_write :: "ledger_state \<Rightarrow> ledger_undo \<Rightarrow> ledger_state \<Rightarrow> bool" where
  "ledger_write s u s' \<longleftrightarrow> ledger_wf s \<and>
     (\<exists>us. ljournal s = Some us \<and> ljournal s' = Some (us @ [u])) \<and>
     ((\<exists>dig now p t. m_append dig now p s = Inr (t, s')) \<or> (\<exists>ids. s' = pruneFromLog s ids))"

lemma prune_undo:
  assumes "s' = pruneFromLog s ids" "ljournal s = Some us" "ljournal s' = Some (us @ [u])"
  shows "same_data (applyLedgerUndo u s') s"
proof -
  have "\<not> length (filter (\<lambda>row. txnId row \<notin> set ids) (plog s)) = length (plog s)"
    using assms by (auto simp: pruneFromLog_def Let_def)
  then have "u = UndoPrune (plog s) (lotIndex s) (columns s)" "balances s' = balances s" "heads s' = heads s"
    "registered s' = registered s"
    using assms by (auto simp: pruneFromLog_def Let_def j_record_def rebuildColumns_def)
  then show ?thesis by (simp add: applyLedgerUndo_def same_data_def)
qed

lemma append_undo:
  assumes "m_append dig now p s = Inr (t, s')" "ljournal s = Some us" "ledger_wf s"
  obtains u where "ljournal s' = Some (us @ [u])" "same_data (applyLedgerUndo u s') s"
proof -
  obtain st where c: "commitPosting (s\<lparr>seqno := seqno s + 1\<rparr>) st = Inr s'"
    using assms(1) by (auto simp: m_append_Inr)
  obtain u where u: "ljournal s' = Some (us @ [u])" "same_data (applyLedgerUndo u s') (s\<lparr>seqno := seqno s + 1\<rparr>)"
    by (rule commit_undo [OF c]) (use assms(2,3) in \<open>auto simp: ledger_wf_def\<close>)
  then show ?thesis using that by (simp add: same_data_def)
qed

interpretation ledger_undos: undo_journal applyLedgerUndo ledger_write "same_data :: ledger_state \<Rightarrow> ledger_state \<Rightarrow> bool"
proof
  show "same_data s s" for s :: ledger_state by (simp add: same_data_def)
  show "same_data s t \<Longrightarrow> same_data t r \<Longrightarrow> same_data s r" for s t r :: ledger_state
    by (simp add: same_data_def)
  show "same_data s t \<Longrightarrow> same_data (applyLedgerUndo u s) (applyLedgerUndo u t)" for s t :: ledger_state and u
    by (rule same_data_undo)
  show "ledger_write s u s' \<Longrightarrow> same_data (applyLedgerUndo u s') s" for s s' :: ledger_state and u
    unfolding ledger_write_def by (auto elim: append_undo intro: prune_undo)
qed

section \<open>Transactions on the ledger\<close>

text \<open>The writes of a transaction: appends and prunes, in any number and order.\<close>

inductive txn_writes :: "ledger_state \<Rightarrow> ledger_state \<Rightarrow> bool" where
  tw_start: "txn_writes s s"
| tw_append: "txn_writes s m \<Longrightarrow> m_append dig now p m = Inr (t, s') \<Longrightarrow> txn_writes s s'"
| tw_prune: "txn_writes s m \<Longrightarrow> s' = pruneFromLog m ids \<Longrightarrow> txn_writes s s'"

lemma ledger_wf_append: "m_append dig now p s = Inr (t, s') \<Longrightarrow> ledger_wf s \<Longrightarrow> ledger_wf s'"
proof -
  assume "m_append dig now p s = Inr (t, s')" and w: "ledger_wf s"
  then obtain st where c: "commitPosting (s\<lparr>seqno := seqno s + 1\<rparr>) st = Inr s'"
    by (auto simp: m_append_Inr)
  have "no_empty n \<Longrightarrow> no_empty (fold (push_lot i) bs n)" for bs n i by (induction bs arbitrary: n) auto
  moreover have "no_empty n \<Longrightarrow> no_empty (fold (\<lambda>l. appendDelta (account l) (delta_of l)) xs n)" for xs n
    by (induction xs arbitrary: n) auto
  ultimately show "ledger_wf s'"
    using commitPosting_Inr(9,10) [OF c] w by (simp add: ledger_wf_def)
qed

lemma ledger_wf_prune: "ledger_wf s \<Longrightarrow> ledger_wf (pruneFromLog s ids)"
proof -
  assume w: "ledger_wf s"
  have lots: "no_empty n \<Longrightarrow> no_empty (fold (push_lot i) bs n)" for bs n i by (induction bs arbitrary: n) auto
  then have l: "no_empty n \<Longrightarrow> no_empty (fold (\<lambda>(i, row). fold (push_lot i) (lottedAccounts (legs row))) xs n)"
    for xs :: "(nat \<times> stored) list" and n by (induction xs arbitrary: n) auto
  have cols: "no_empty n \<Longrightarrow> no_empty (fold (\<lambda>l. appendDelta (account l) (delta_of l)) xs n)" for xs n
    by (induction xs arbitrary: n) auto
  then have c: "no_empty n \<Longrightarrow> no_empty (fold (\<lambda>row. fold (\<lambda>l. appendDelta (account l) (delta_of l)) (legs row)) xs n)"
    for xs :: "stored list" and n by (induction xs arbitrary: n) auto
  show "ledger_wf (pruneFromLog s ids)"
    using w l [OF no_empty_Nil] c [OF no_empty_Nil]
    by (simp add: ledger_wf_def pruneFromLog_def rebuildColumns_def Let_def)
qed

lemma prune_journal:
  "pruneFromLog s ids = s \<or>
   ljournal (pruneFromLog s ids) = j_record (UndoPrune (plog s) (lotIndex s) (columns s)) (ljournal s)"
  by (simp add: pruneFromLog_def Let_def)

lemma txn_writes_steps:
  assumes "txn_writes s s'" "ledger_wf s" "ljournal s = Some us"
  shows "ledger_wf s' \<and> (\<exists>vs. ljournal s' = Some (us @ vs) \<and> ledger_undos.writes s vs s')"
  using assms
proof (induction rule: txn_writes.induct)
  case (tw_start s)
  then show ?case by (auto intro!: exI [of _ "[]"])
next
  case (tw_append s m dig now p t s')
  then obtain vs where m: "ledger_wf m" "ljournal m = Some (us @ vs)" "ledger_undos.writes s vs m" by auto
  obtain u where u: "ljournal s' = Some ((us @ vs) @ [u])"
    using append_undo [OF tw_append.hyps(2) m(2,1)] by blast
  have "ledger_write m u s'"
    unfolding ledger_write_def using m(1,2) u tw_append.hyps(2) by blast
  then have "ledger_undos.writes s (vs @ [u]) s'" using m(3) by (auto simp: ledger_undos.writes_append)
  then show ?case using u ledger_wf_append [OF tw_append.hyps(2) m(1)] by auto
next
  case (tw_prune s m s' ids)
  then obtain vs where m: "ledger_wf m" "ljournal m = Some (us @ vs)" "ledger_undos.writes s vs m" by auto
  consider "s' = m" | u where "ljournal s' = Some ((us @ vs) @ [u])"
    using prune_journal [of m ids] m(2) unfolding tw_prune.hyps(2) j_record_def by auto
  then show ?case
  proof cases
    case 1 then show ?thesis using m by auto
  next
    case 2
    have "ledger_write m u s'" unfolding ledger_write_def using m(1,2) 2 tw_prune.hyps(2) by blast
    then have "ledger_undos.writes s (vs @ [u]) s'" using m(3) by (auto simp: ledger_undos.writes_append)
    then show ?thesis using 2 ledger_wf_prune [OF m(1), of ids] tw_prune.hyps(2) by auto
  qed
qed

section \<open>Reachable ledgers\<close>

inductive ledger_reach :: "digest \<Rightarrow> ledger_state \<Rightarrow> bool" for dig where
  lr_empty: "ledger_reach dig empty_ledger"
| lr_begin: "ledger_reach dig s \<Longrightarrow> j_begin (ljournal s) = Inr j \<Longrightarrow> ledger_reach dig (s\<lparr>ljournal := j\<rparr>)"
| lr_commit: "ledger_reach dig s \<Longrightarrow> ledger_reach dig (s\<lparr>ljournal := j_commit (ljournal s)\<rparr>)"
| lr_post: "ledger_reach dig s \<Longrightarrow> postEntry (memory_ledger dig now) p s = Inr (t, s') \<Longrightarrow> ledger_reach dig s'"

lemma books_ok_journal [simp]: "books_ok (s\<lparr>ljournal := j\<rparr>) = books_ok s"
  by (simp add: books_ok_def all_legs_def)

lemma ledger_reach_books: "ledger_reach dig s \<Longrightarrow> books_ok s"
proof (induction rule: ledger_reach.induct)
  case (lr_post s now p t s')
  then show ?case by (rule_tac postEntry_books)
next
  case lr_empty
  then show ?case by (rule books_ok_empty)
next
  case (lr_begin s j)
  then show ?case by simp
next
  case (lr_commit s)
  then show ?case by simp
qed

text \<open>Every chain head is the hex of a digest, so the next link can always be computed.\<close>

definition heads_ok :: "'a ledger_data_scheme \<Rightarrow> bool" where
  "heads_ok s \<longleftrightarrow> (\<forall>a h. map_of (heads s) a = Some h \<longrightarrow> (\<exists>b. fromHex h = Inr b))"

lemma chainHash_total:
  "canonicalMeta (JObj m) = Inr cm \<Longrightarrow> \<exists>b. chainHash dig prev t a ls m = Inr (toHex b)"
  by (simp add: chainHash_def chainPreimage_def del: canonicalMeta.simps)

lemma advanceChain_Inr:
  "advanceChain dig s p = Inr lks \<Longrightarrow>
   list_all2 (\<lambda>a lk. laccount lk = a \<and>
     prevHash lk = (case map_of (heads s) a of Some h \<Rightarrow> h | None \<Rightarrow> GENESIS_HEX) \<and>
     (\<exists>prev. (if prevHash lk = GENESIS_HEX then Inr GENESIS else fromHex (prevHash lk)) = Inr prev \<and>
       chainHash dig prev (txnId p) a (legs p) (meta p) = Inr (lhash lk))) (distinctAccounts (legs p)) lks"
  by (auto simp: advanceChain_def rmap_Inr_iff Let_def elim!: list_all2_mono split: option.splits)

lemma advanceChain_total:
  assumes "heads_ok s" "canonicalMeta (JObj (meta p)) = Inr cm"
  shows "\<exists>lks. advanceChain dig s p = Inr lks"
  unfolding advanceChain_def
proof (rule rmap_total)
  fix a
  have "\<exists>prev. (if (case map_of (heads s) a of Some h \<Rightarrow> h | None \<Rightarrow> GENESIS_HEX) = GENESIS_HEX
      then Inr GENESIS else fromHex (case map_of (heads s) a of Some h \<Rightarrow> h | None \<Rightarrow> GENESIS_HEX)) = Inr prev"
    using assms(1) unfolding heads_ok_def by (cases "map_of (heads s) a") auto
  then obtain prev where "(if (case map_of (heads s) a of Some h \<Rightarrow> h | None \<Rightarrow> GENESIS_HEX) = GENESIS_HEX
      then Inr GENESIS else fromHex (case map_of (heads s) a of Some h \<Rightarrow> h | None \<Rightarrow> GENESIS_HEX)) = Inr prev" by blast
  moreover obtain b where "chainHash dig prev (txnId p) a (legs p) (meta p) = Inr (toHex b)"
    using chainHash_total [OF assms(2)] by blast
  ultimately show "\<exists>y. (let prevHex = (case map_of (heads s) a of Some h \<Rightarrow> h | None \<Rightarrow> GENESIS_HEX)
      in rbind (if prevHex = GENESIS_HEX then Inr GENESIS else fromHex prevHex) (\<lambda>prev.
         rbind (chainHash dig prev (txnId p) a (legs p) (meta p)) (\<lambda>h.
           Inr \<lparr>laccount = a, prevHash = prevHex, lhash = h\<rparr>))) = Inr y"
    by (simp add: Let_def)
qed

lemma books_conserved: "books_ok s \<Longrightarrow> cur_sum c (all_legs s) = 0"
proof -
  assume "books_ok s"
  then have "\<forall>row \<in> set (plog s). cur_sum c (legs row) = 0" by (auto simp: books_ok_def)
  moreover have "\<forall>row \<in> set rows. cur_sum c (legs row) = 0 \<Longrightarrow> cur_sum c (concat (map legs rows)) = 0"
    for rows :: "stored list" by (induction rows) auto
  ultimately show ?thesis by (simp add: all_legs_def)
qed

lemma heads_fold:
  "map_of (fold (\<lambda>lk. AList.update (laccount lk) (lhash lk)) lks hs) a = Some h \<Longrightarrow>
   map_of hs a = Some h \<or> (\<exists>lk \<in> set lks. lhash lk = h)"
  by (induction lks arbitrary: hs) (fastforce split: if_splits)+

lemma links_hashed:
  assumes "advanceChain dig s p = Inr lks" "lk \<in> set lks"
  shows "\<exists>b. lhash lk = toHex b"
proof -
  obtain i where i: "i < length lks" "lk = lks ! i" using assms(2) by (auto simp: in_set_conv_nth)
  with list_all2_nthD2 [OF advanceChain_Inr [OF assms(1)] i(1)]
  obtain a prev where "chainHash dig prev (txnId p) a (legs p) (meta p) = Inr (lhash lk)" by auto
  then obtain x where "toHex (dig x) = lhash lk" by (auto simp: chainHash_def)
  then show ?thesis by metis
qed

lemma postEntry_heads:
  assumes "heads_ok s" "postEntry (memory_ledger dig now) p s = Inr (t, s')"
  shows "heads_ok s'"
proof (rule postEntry_commit [OF assms(2)])
  fix lks st
  assume a: "advanceChain dig s (dropZeroLegs p) = Inr lks" and
    st: "st = \<lparr>txnId = txnId p, legs = legs (dropZeroLegs p), meta = meta p, postedAt = now, links = lks,
       pseq = seqno s + 1\<rparr>" and
    c: "commitPosting (s\<lparr>seqno := seqno s + 1\<rparr>) st = Inr s'"
  have h: "heads s' = fold (\<lambda>lk. AList.update (laccount lk) (lhash lk)) lks (heads s)"
    using commitPosting_Inr(8) [OF c] by (simp add: st)
  show "heads_ok s'"
    unfolding heads_ok_def
  proof (intro allI impI)
    fix b x assume "map_of (heads s') b = Some x"
    then consider "map_of (heads s) b = Some x" | lk where "lk \<in> set lks" "lhash lk = x"
      unfolding h by (auto dest: heads_fold)
    then show "\<exists>bs. fromHex x = Inr bs"
    proof cases
      case 1 then show ?thesis using assms(1) by (auto simp: heads_ok_def)
    next
      case 2 then show ?thesis using links_hashed [OF a 2(1)] by (auto simp: fromHex_iff_toHex)
    qed
  qed
qed

section \<open>Properties\<close>

text \<open>
  (C17) The books stay in order. In every ledger reached by postings that passed the checks, whatever
  they were: each currency's postings sum to zero, every maintained balance is the fold of the
  account's legs over the log and fits 64 bits, and no user wallet or escrow is below zero.
\<close>

theorem books_in_order:
  assumes "ledger_reach dig s"
  shows "cur_sum c (all_legs s) = 0 \<and> getz (balances s) a = net a (all_legs s) \<and>
    in_i64 (getz (balances s) a) \<and> (isUserGuarded a \<longrightarrow> 0 \<le> getz (balances s) a)"
  using books_conserved [OF ledger_reach_books [OF assms], of c] ledger_reach_books [OF assms]
  unfolding books_ok_def by blast


text \<open>A posting for the concrete instances below: a first top-up of five credits.\<close>

definition demo_digest :: digest where
  "demo_digest bytes = [of_nat (length bytes)]"

definition demo_topup :: posting where
  "demo_topup = \<lparr>txnId = ''t1'', legs =
     [debit STORED_VALUE \<lparr>currency = CREDIT, minor = 500\<rparr>,
      \<lparr>account = spendable ''u'', amount = \<lparr>currency = CREDIT, minor = - 500\<rparr>\<rparr>],
     meta = [(''kind'', JStr ''topUp'')]\<rparr>"

lemma demo_append: "\<exists>t s. m_append demo_digest 7 demo_topup (empty_ledger\<lparr>ljournal := j\<rparr>) = Inr (t, s)"
proof -
  have h: "heads_ok (empty_ledger\<lparr>ljournal := j\<rparr>)" by (simp add: heads_ok_def empty_ledger_def)
  have "\<exists>c. canonicalMeta (JObj (meta demo_topup)) = Inr c" by (simp add: demo_topup_def)
  then obtain lks where a: "advanceChain demo_digest (empty_ledger\<lparr>ljournal := j\<rparr>) demo_topup = Inr lks"
    using advanceChain_total [OF h] by blast
  have "case next_balances [] (legs demo_topup) [] of Inl _ \<Rightarrow> False | Inr _ \<Rightarrow> True" by code_simp
  then obtain n where "next_balances [] (legs demo_topup) [] = Inr n" by (auto split: sum.splits)
  then show ?thesis
    using a by (cases n) (simp add: m_append_def Let_def commitPosting_def empty_ledger_def)
qed

lemma demo_post: "\<exists>t s. postEntry (memory_ledger demo_digest 7) demo_topup empty_ledger = Inr (t, s)"
proof -
  have "case post_checks (memory_ledger demo_digest 7) demo_topup empty_ledger of Inl _ \<Rightarrow> False | Inr _ \<Rightarrow> True"
    by code_simp
  then obtain s1 where "post_checks (memory_ledger demo_digest 7) demo_topup empty_ledger = Inr ((), s1)"
    by (auto split: sum.splits)
  moreover from this have "s1 = empty_ledger" by (rule mem.post_checks_spec)
  moreover have "dropZeroLegs demo_topup = demo_topup" by code_simp
  moreover have "empty_ledger\<lparr>ljournal := None\<rparr> = empty_ledger" by (simp add: empty_ledger_def)
  ultimately show ?thesis
    using demo_append [of None] by (simp add: postEntry_def Let_def memory_ledger_def)
qed

theorem books_in_order_witness:
  "\<exists>s :: ledger_state. getz (balances s) (spendable ''u'') = 500 \<and> net (spendable ''u'') (all_legs s) = 500 \<and>
     cur_sum CREDIT (all_legs s) = 0"
proof -
  obtain t s where p: "postEntry (memory_ledger demo_digest 7) demo_topup empty_ledger = Inr (t, s)"
    using demo_post by blast
  then have "ledger_reach demo_digest s" by (blast intro: lr_empty lr_post)
  moreover have "getz (balances empty_ledger) (spendable ''u'') + net (spendable ''u'') (legs demo_topup) = 500"
    by code_simp
  then have "getz (balances s) (spendable ''u'') = 500" using mem.postEntry_spec(1) [OF p] by simp
  ultimately show ?thesis
    using books_in_order [of demo_digest s CREDIT "spendable ''u''"] by (intro exI [of _ s]) simp
qed

text \<open>
  (C18) Rolling back to a savepoint. Whatever appends and prunes a transaction ran after a mark, the
  rollback to it restores what the ledger held there: log, balances, chain heads, lot index and
  columns, with no trace of accounts first used in between, and leaves the journal as it was.
\<close>

theorem rollback_restores_ledger:
  assumes "txn_writes s s'" "ledger_wf s" "ljournal s = Some us"
  shows "same_data (fst (j_rollbackTo applyLedgerUndo (j_mark (ljournal s)) (ljournal s') s')) s \<and>
    snd (j_rollbackTo applyLedgerUndo (j_mark (ljournal s)) (ljournal s') s') = ljournal s"
proof -
  obtain vs where v: "ljournal s' = Some (us @ vs)" "ledger_undos.writes s vs s'"
    using txn_writes_steps [OF assms] by auto
  have eq: "j_rollbackTo applyLedgerUndo (j_mark (ljournal s)) (ljournal s') s' =
      (fold applyLedgerUndo (rev vs) s', Some us)"
    by (simp add: j_rollbackTo_def j_mark_def v(1) assms(3))
  show ?thesis
    unfolding eq fst_conv snd_conv
    by (intro conjI, rule ledger_undos.undo_all [OF v(2)], rule assms(3) [symmetric])
qed

theorem rollback_restores_ledger_witness:
  "\<exists>s' :: ledger_state. plog s' \<noteq> [] \<and>
     same_data (fst (j_rollbackTo applyLedgerUndo 0 (ljournal s') s')) (empty_ledger\<lparr>ljournal := Some []\<rparr>)"
proof -
  let ?s = "empty_ledger\<lparr>ljournal := Some []\<rparr>"
  obtain t s' where a: "m_append demo_digest 7 demo_topup ?s = Inr (t, s')" using demo_append by blast
  have "txn_writes ?s s'" by (rule tw_append [OF tw_start a])
  moreover have "ledger_wf ?s" by (simp add: ledger_wf_def empty_ledger_def)
  ultimately have "same_data (fst (j_rollbackTo applyLedgerUndo (j_mark (ljournal ?s)) (ljournal s') s')) ?s"
    using rollback_restores_ledger [of ?s s' "[]"] by simp
  moreover have "plog s' \<noteq> []" using a by (auto simp: m_append_Inr dest!: commitPosting_Inr(1))
  ultimately show ?thesis by (intro exI [of _ s']) (simp add: j_mark_def)
qed

end
