(* ===== verification/Maturity.thy ===== *)
theory Maturity
  imports MemLedger Config
begin

text \<open>
  src/maturity.ts: how much of a balance is past its settlement wait. The functions read a ledger
  through its balance and its lot timeline only, which are parameters here; the walk over the
  newest lots, page by page, is a partial function because its loop ends only when the balance is
  covered or a page is empty. The generator is the list of the slices it yields.
\<close>

section \<open>Horizons\<close>

definition DEFAULT_SOURCE :: string where "DEFAULT_SOURCE = ''default''"

definition maturityHorizonMs :: "string \<Rightarrow> config \<Rightarrow> int" where
  "maturityHorizonMs source cfg =
     (let horizons = maturityHorizons cfg in
      case map_of horizons source of
        Some exact \<Rightarrow> exact
      | None \<Rightarrow>
          (case map_of horizons DEFAULT_SOURCE of
             Some d \<Rightarrow> d
           | None \<Rightarrow> (case map_of horizons ''card'' of Some d \<Rightarrow> d | None \<Rightarrow> 0)))"

definition lotMaturesAt :: "lot \<Rightarrow> config \<Rightarrow> int" where
  "lotMaturesAt l cfg = toppedUpAt l + maturityHorizonMs (lotSource l) cfg"

definition isMatured :: "lot \<Rightarrow> int \<Rightarrow> config \<Rightarrow> bool" where
  "isMatured l now cfg \<longleftrightarrow> lotMaturesAt l cfg \<le> now"

section \<open>The walk over the newest lots\<close>

definition TAIL_PAGE :: nat where "TAIL_PAGE = 64"

record tail_slice =
  take_minor :: int
  matured :: bool
  slice_maturesAt :: int
  slice_source :: string

definition slice_of :: "int \<Rightarrow> config \<Rightarrow> int \<Rightarrow> lot \<Rightarrow> tail_slice" where
  "slice_of now cfg remaining l =
     (let m = lotMaturesAt l cfg
      in \<lparr>take_minor = (if minor (lotAmount l) < remaining then minor (lotAmount l) else remaining),
          matured = (m \<le> now), slice_maturesAt = m, slice_source = lotSource l\<rparr>)"

text \<open>One page: the slices, and what is left to cover (0 where the generator returns).\<close>

fun page_slices :: "int \<Rightarrow> config \<Rightarrow> int \<Rightarrow> lot list \<Rightarrow> tail_slice list \<times> int" where
  "page_slices now cfg remaining [] = ([], remaining)"
| "page_slices now cfg remaining (l # ls) =
     (let s = slice_of now cfg remaining l; rest = remaining - take_minor s
      in if rest = 0 then ([s], 0)
         else case page_slices now cfg rest ls of (ss, r) \<Rightarrow> (s # ss, r))"

text \<open>A timeline takes the account, whether the newest come first, and the limit and offset of a page.\<close>

type_synonym timeline = "AccountRef \<Rightarrow> bool \<Rightarrow> nat option \<Rightarrow> nat \<Rightarrow> lot list"

partial_function (option) tailSlices ::
    "timeline \<Rightarrow> AccountRef \<Rightarrow> int \<Rightarrow> config \<Rightarrow> int \<Rightarrow> nat \<Rightarrow> tail_slice list option" where
  "tailSlices timeline acct now cfg remaining off =
     (if \<not> 0 < remaining then Some []
      else let page = timeline acct True (Some TAIL_PAGE) off
           in case page_slices now cfg remaining page of
                (ss, r) \<Rightarrow>
                  if r = 0 \<or> page = [] then Some ss
                  else Option.bind (tailSlices timeline acct now cfg r (off + TAIL_PAGE)) (\<lambda>rest. Some (ss @ rest)))"

section \<open>The reads\<close>

text \<open>
  \<open>bal\<close> is the live balance read from the ledger, or the one the caller passed. A sort by maturity
  time is stable, as JavaScript's is.
\<close>

fun first_cover :: "int \<Rightarrow> int \<Rightarrow> tail_slice list \<Rightarrow> tail_slice option" where
  "first_cover need covered [] = None"
| "first_cover need covered (s # ss) =
     (if covered + take_minor s \<ge> need then Some s else first_cover need (covered + take_minor s) ss)"

declare tailSlices.simps [code]

definition maturedAvailableAt ::
    "timeline \<Rightarrow> int \<Rightarrow> AccountRef \<Rightarrow> int \<Rightarrow> config \<Rightarrow> amount \<Rightarrow> int option option" where
  "maturedAvailableAt timeline bal acct now cfg need =
     (if minor need \<le> 0 then Some (Some now)
      else if bal < minor need then Some None
      else Option.bind (tailSlices timeline acct now cfg bal 0) (\<lambda>slices.
        Some (map_option slice_maturesAt (first_cover (minor need) 0 (sort_key slice_maturesAt slices)))))"

record blocker =
  blockSource :: string
  availableAt :: int

definition maturityBlocker ::
    "timeline \<Rightarrow> int \<Rightarrow> AccountRef \<Rightarrow> int \<Rightarrow> config \<Rightarrow> amount \<Rightarrow> blocker option" where
  "maturityBlocker timeline bal acct now cfg need =
     (let fallback = \<lparr>blockSource = DEFAULT_SOURCE, availableAt = now + maturityHorizonMs DEFAULT_SOURCE cfg\<rparr>
      in if minor need \<le> 0 then Some \<lparr>blockSource = DEFAULT_SOURCE, availableAt = now\<rparr>
         else if bal < minor need then Some fallback
         else Option.bind (tailSlices timeline acct now cfg bal 0) (\<lambda>slices.
           Some (case first_cover (minor need) 0 (sort_key slice_maturesAt slices) of
                   Some s \<Rightarrow> \<lparr>blockSource = slice_source s, availableAt = slice_maturesAt s\<rparr>
                 | None \<Rightarrow> fallback)))"

definition sum_slices :: "tail_slice list \<Rightarrow> int" where
  "sum_slices ss = foldl (\<lambda>m s. if matured s then m + take_minor s else m) 0 ss"

definition maturedBalance ::
    "timeline \<Rightarrow> int \<Rightarrow> AccountRef \<Rightarrow> int \<Rightarrow> config \<Rightarrow> amount res option" where
  "maturedBalance timeline bal acct now cfg =
     (let unit = currencyOf acct
      in if bal \<le> 0 then Some (Inr (zero_amount unit))
         else Option.bind (tailSlices timeline acct now cfg bal 0) (\<lambda>slices.
           Some (toAmount unit (sum_slices slices))))"

fun reaches :: "int \<Rightarrow> int \<Rightarrow> tail_slice list \<Rightarrow> bool" where
  "reaches need got [] = False"
| "reaches need got (s # ss) =
     (if matured s then (if got + take_minor s \<ge> need then True else reaches need (got + take_minor s) ss)
      else reaches need got ss)"

definition maturedAtLeast ::
    "timeline \<Rightarrow> int \<Rightarrow> AccountRef \<Rightarrow> int \<Rightarrow> config \<Rightarrow> amount \<Rightarrow> bool option" where
  "maturedAtLeast timeline bal acct now cfg need =
     (if minor need \<le> 0 then Some True
      else if bal \<le> 0 then Some False
      else Option.bind (tailSlices timeline acct now cfg bal 0) (\<lambda>slices.
        Some (reaches (minor need) 0 slices)))"

section \<open>The full scan kept as the oracle\<close>

record settled =
  sminor :: int
  smaturesAt :: int

definition collectLots :: "timeline \<Rightarrow> AccountRef \<Rightarrow> config \<Rightarrow> settled list" where
  "collectLots timeline acct cfg =
     map (\<lambda>l. \<lparr>sminor = minor (lotAmount l), smaturesAt = lotMaturesAt l cfg\<rparr>) (timeline acct False None 0)"

fun drain_lots :: "int \<Rightarrow> settled list \<Rightarrow> settled list" where
  "drain_lots toDrain [] = []"
| "drain_lots toDrain (l # ls) =
     (if toDrain \<le> 0 then l # drain_lots toDrain ls
      else if toDrain \<ge> sminor l then drain_lots (toDrain - sminor l) ls
      else l\<lparr>sminor := sminor l - toDrain\<rparr> # drain_lots 0 ls)"

definition fifoTail :: "settled list \<Rightarrow> int \<Rightarrow> settled list" where
  "fifoTail lots balanceMinor =
     (let total = foldl (\<lambda>sum l. sum + sminor l) 0 lots; toDrain = total - balanceMinor
      in if toDrain \<le> 0 then lots else drain_lots toDrain lots)"

fun sumMatured :: "settled list \<Rightarrow> int \<Rightarrow> currency \<Rightarrow> amount \<Rightarrow> amount res" where
  "sumMatured [] now unit acc = Inr acc"
| "sumMatured (l # ls) now unit acc =
     (if smaturesAt l \<le> now
      then rbind (toAmount unit (sminor l)) (\<lambda>a. rbind (add acc a) (sumMatured ls now unit))
      else sumMatured ls now unit acc)"

definition maturedBalanceFullScan ::
    "timeline \<Rightarrow> int \<Rightarrow> AccountRef \<Rightarrow> int \<Rightarrow> config \<Rightarrow> amount res" where
  "maturedBalanceFullScan timeline bal acct now cfg =
     (let unit = currencyOf acct
      in if bal \<le> 0 then Inr (zero_amount unit)
         else sumMatured (fifoTail (collectLots timeline acct cfg) bal) now unit (zero_amount unit))"

definition immatureBalance ::
    "timeline \<Rightarrow> int \<Rightarrow> AccountRef \<Rightarrow> int \<Rightarrow> config \<Rightarrow> amount res option" where
  "immatureBalance timeline bal acct now cfg =
     map_option (\<lambda>m. rbind m (\<lambda>a. toAmount (currencyOf acct) (bal - minor a)))
       (maturedBalance timeline bal acct now cfg)"

section \<open>The memory store's timeline is paged\<close>

definition lot_rows :: "'a ledger_data_scheme \<Rightarrow> AccountRef \<Rightarrow> stored list" where
  "lot_rows s acct = map (\<lambda>i. plog s ! i) (case map_of (lotIndex s) acct of Some ps \<Rightarrow> ps | None \<Rightarrow> [])"

definition lot_blocks :: "'a ledger_data_scheme \<Rightarrow> AccountRef \<Rightarrow> lot list list" where
  "lot_blocks s acct = map (\<lambda>row. lotsOfPosting row acct) (lot_rows s acct)"

lemma yield_lots_page:
  "sk \<le> off \<Longrightarrow> yield_lots off (Some n) sk yd xs =
     (take (n - yd) (drop (off - sk) xs), min off (sk + length xs),
      yd + length (take (n - yd) (drop (off - sk) xs)))"
proof (induction xs arbitrary: sk yd)
  case (Cons x xs)
  show ?case
  proof (cases "sk < off")
    case True
    then have "off - sk = Suc (off - Suc sk)" by simp
    with True Cons.IH [of "Suc sk" yd] show ?thesis by simp
  next
    case False
    then have "sk = off" using Cons.prems by simp
    then show ?thesis using Cons.IH [of off "Suc yd"]
    proof (cases "yd < n")
      case True
      then obtain k where "n - yd = Suc k" "n - Suc yd = k" by (metis Suc_diff_Suc)
      with True Cons.IH [of off "Suc yd"] \<open>sk = off\<close> show ?thesis by simp
    qed simp
  qed
qed simp

lemma timeline_loop_page:
  "sk \<le> off \<Longrightarrow> timeline_loop acct off (Some n) sk yd rows =
     take (n - yd) (drop (off - sk) (concat (map (\<lambda>row. lotsOfPosting row acct) rows)))"
proof (induction rows arbitrary: sk yd)
  case (Cons row rows)
  let ?xs = "lotsOfPosting row acct"
  have "off - min off (sk + length ?xs) = off - sk - length ?xs" using Cons.prems by simp
  then show ?case using Cons.IH [of "min off (sk + length ?xs)" "yd + length (take (n - yd) (drop (off - sk) ?xs))"]
    by (simp add: yield_lots_page [OF Cons.prems] min_def split: if_splits)
qed simp

lemma timeline_loop_all:
  "timeline_loop acct 0 None 0 yd rows = concat (map (\<lambda>row. lotsOfPosting row acct) rows)"
proof -
  have y: "yield_lots 0 None 0 yd xs = (xs, 0, yd + length xs)" for xs yd
    by (induction xs arbitrary: yd) auto
  show ?thesis by (induction rows arbitrary: yd) (auto simp: y)
qed

section \<open>The contract of a timeline\<close>

text \<open>
  What the reads rely on: the lots come in blocks, one per posting, with one time and source each;
  oldest first is the blocks in order, a page of newest first is a slice of the blocks reversed;
  every lot is positive.
\<close>

locale lot_timeline =
  fixes timeline :: timeline and blocks :: "AccountRef \<Rightarrow> lot list list"
  assumes oldest_first: "timeline a False None 0 = concat (blocks a)"
    and page: "timeline a True (Some n) off = take n (drop off (concat (rev (blocks a))))"
    and one_posting: "b \<in> set (blocks a) \<Longrightarrow> l \<in> set b \<Longrightarrow> m \<in> set b \<Longrightarrow>
      toppedUpAt l = toppedUpAt m \<and> lotSource l = lotSource m"
    and positive: "b \<in> set (blocks a) \<Longrightarrow> l \<in> set b \<Longrightarrow> 0 < minor (lotAmount l)"

interpretation mem_lots: lot_timeline "timelineOf s" "lot_blocks s"
proof
  fix a n off
  show "timelineOf s a False None 0 = concat (lot_blocks s a)"
    by (simp add: timelineOf_def lot_blocks_def lot_rows_def timeline_loop_all)
  show "timelineOf s a True (Some n) off = take n (drop off (concat (rev (lot_blocks s a))))"
    by (simp add: timelineOf_def lot_blocks_def lot_rows_def timeline_loop_page rev_map)
qed (auto simp: lot_blocks_def lotsOfPosting_def lot_of_def)

section \<open>The walk\<close>

abbreviation lots_pos :: "lot list \<Rightarrow> bool" where
  "lots_pos ls \<equiv> \<forall>l \<in> set ls. 0 < minor (lotAmount l)"

lemma slice_of_sel [simp]:
  "take_minor (slice_of now cfg rem l) = min (minor (lotAmount l)) rem"
  "slice_maturesAt (slice_of now cfg rem l) = lotMaturesAt l cfg"
  "matured (slice_of now cfg rem l) \<longleftrightarrow> lotMaturesAt l cfg \<le> now"
  by (auto simp: slice_of_def Let_def)

lemma page_slices_Cons:
  "page_slices now cfg rem (l # ls) =
     (if rem \<le> minor (lotAmount l) then ([slice_of now cfg rem l], 0)
      else (slice_of now cfg rem l # fst (page_slices now cfg (rem - minor (lotAmount l)) ls),
            snd (page_slices now cfg (rem - minor (lotAmount l)) ls)))"
  by (auto simp: Let_def min_def split: prod.splits)

declare page_slices.simps(2) [simp del]

lemma page_slices_append:
  assumes "lots_pos xs" "0 < rem"
  shows "0 \<le> snd (page_slices now cfg rem xs)" and
    "page_slices now cfg rem (xs @ ys) =
       (if snd (page_slices now cfg rem xs) = 0 then (fst (page_slices now cfg rem xs), 0)
        else (fst (page_slices now cfg rem xs) @ fst (page_slices now cfg (snd (page_slices now cfg rem xs)) ys),
              snd (page_slices now cfg (snd (page_slices now cfg rem xs)) ys)))"
  using assms
proof (induction xs arbitrary: rem)
  case (Cons x xs)
  { case 1 then show ?case using Cons by (auto simp: page_slices_Cons) }
  { case 2 then show ?case using Cons by (auto simp: page_slices_Cons) }
qed simp_all

context lot_timeline begin

lemma lots_positive: "lots_pos (concat (rev (blocks a)))"
  using positive by auto

lemma drop_positive: "lots_pos (drop n (concat (rev (blocks a))))"
  using lots_positive by (meson in_set_dropD)

text \<open>The paged walk ends, and yields what one page holding the whole history would.\<close>

lemma walk_ends:
  "0 < rem \<Longrightarrow>
     tailSlices timeline a now cfg rem off =
       Some (fst (page_slices now cfg rem (drop off (concat (rev (blocks a))))))"
proof (induction "length (concat (rev (blocks a))) - off" arbitrary: off rem rule: less_induct)
  case less
  let ?all = "drop off (concat (rev (blocks a)))"
  let ?page = "take TAIL_PAGE ?all" and ?rest = "drop TAIL_PAGE ?all"
  have pg: "timeline a True (Some TAIL_PAGE) off = ?page" by (rule page)
  have pos: "lots_pos ?page" using drop_positive [of off a] by (meson in_set_takeD)
  note ge = page_slices_append(1) [OF pos less.prems]
  note split = page_slices_append(2) [OF pos less.prems, where ys = ?rest, simplified append_take_drop_id]
  obtain ss r where p: "page_slices now cfg rem ?page = (ss, r)" by fastforce
  have unf: "tailSlices timeline a now cfg rem off =
      (if r = 0 \<or> ?page = [] then Some ss
       else Option.bind (tailSlices timeline a now cfg r (off + TAIL_PAGE)) (\<lambda>rest. Some (ss @ rest)))"
    using less.prems by (subst tailSlices.simps) (simp only: pg Let_def p prod.case simp_thms if_False not_True_eq_False)
  note ge = ge [of now cfg, unfolded p snd_conv] and split = split [of now cfg, unfolded p snd_conv fst_conv]
  show ?case
  proof (cases "r = 0 \<or> ?page = []")
    case True
    have "?all = []" if "?page = []" using that by (simp add: TAIL_PAGE_def)
    then have "ss = fst (page_slices now cfg rem ?all)" using True split p by (cases "?page = []") auto
    then show ?thesis using True unf by simp
  next
    case False
    have r: "0 < r" using ge False by simp
    have "length (concat (rev (blocks a))) - (off + TAIL_PAGE) < length (concat (rev (blocks a))) - off"
      using False by (auto simp: TAIL_PAGE_def)
    from less.hyps [OF this r] have
      "tailSlices timeline a now cfg r (off + TAIL_PAGE) = Some (fst (page_slices now cfg r ?rest))"
      by (simp add: add.commute)
    then show ?thesis using False unf split by simp
  qed
qed

end
section \<open>Matured amounts\<close>

text \<open>What slices, lots and settled rows have in common: an amount and the time it matures.\<close>

definition msum :: "int \<Rightarrow> ('a \<Rightarrow> int) \<Rightarrow> ('a \<Rightarrow> int) \<Rightarrow> 'a list \<Rightarrow> int" where
  "msum now at amt xs = (\<Sum>x\<leftarrow>xs. if at x \<le> now then amt x else 0)"

abbreviation slice_sum :: "int \<Rightarrow> tail_slice list \<Rightarrow> int" where
  "slice_sum now \<equiv> msum now slice_maturesAt take_minor"

abbreviation settled_sum :: "int \<Rightarrow> settled list \<Rightarrow> int" where
  "settled_sum now \<equiv> msum now smaturesAt sminor"

lemma msum_simps [simp]:
  "msum now at amt [] = 0"
  "msum now at amt (x # xs) = (if at x \<le> now then amt x else 0) + msum now at amt xs"
  "msum now at amt (xs @ ys) = msum now at amt xs + msum now at amt ys"
  by (simp_all add: msum_def)

lemma msum_nonneg: "(\<And>x. x \<in> set xs \<Longrightarrow> 0 \<le> amt x) \<Longrightarrow> 0 \<le> msum now at amt xs"
  by (induction xs) auto

lemma msum_le: "(\<And>x. x \<in> set xs \<Longrightarrow> 0 \<le> amt x) \<Longrightarrow> msum now at amt xs \<le> (\<Sum>x\<leftarrow>xs. amt x)"
proof (induction xs)
  case (Cons x xs)
  have x: "0 \<le> amt x" using Cons.prems by simp
  have "msum now at amt xs \<le> (\<Sum>x\<leftarrow>xs. amt x)" using Cons by simp
  with x show ?case by simp
qed simp

lemma msum_mset: "mset xs = mset ys \<Longrightarrow> msum now at amt xs = msum now at amt ys"
proof -
  assume "mset xs = mset ys"
  then have "mset (map f xs) = mset (map f ys)" for f :: "'a \<Rightarrow> int" by simp
  then have "sum_list (map f xs) = sum_list (map f ys)" for f :: "'a \<Rightarrow> int" by (metis sum_mset_sum_list)
  then show ?thesis by (simp add: msum_def)
qed

abbreviation lot_sum :: "lot list \<Rightarrow> int" where
  "lot_sum ls \<equiv> (\<Sum>l\<leftarrow>ls. minor (lotAmount l))"

lemma lot_sum_nonneg: "lots_pos ls \<Longrightarrow> 0 \<le> lot_sum ls"
  by (induction ls) auto

text \<open>The matured part of \<open>rem\<close> over blocks listed newest first: each block gives what it covers.\<close>

fun cover :: "int \<Rightarrow> config \<Rightarrow> int \<Rightarrow> lot list list \<Rightarrow> int" where
  "cover now cfg rem [] = 0"
| "cover now cfg rem (b # bs) =
     (let t = min (lot_sum b) rem
      in (if b \<noteq> [] \<and> lotMaturesAt (hd b) cfg \<le> now then t else 0) + cover now cfg (rem - t) bs)"

lemma cover_zero: "\<forall>b \<in> set bs. lots_pos b \<Longrightarrow> cover now cfg 0 bs = 0"
  by (induction bs) (auto simp: Let_def min_def dest: lot_sum_nonneg)

lemma slices_block:
  assumes "lots_pos b" "0 < rem" "\<forall>l \<in> set b. lotMaturesAt l cfg = t"
  shows "slice_sum t' (fst (page_slices now cfg rem b)) = (if t \<le> t' then min (lot_sum b) rem else 0) \<and>
    snd (page_slices now cfg rem b) = rem - min (lot_sum b) rem"
  using assms
proof (induction b arbitrary: rem)
  case (Cons l b)
  have nn: "0 \<le> lot_sum b" using Cons.prems by (intro lot_sum_nonneg) auto
  show ?case
  proof (cases "rem \<le> minor (lotAmount l)")
    case False
    then show ?thesis using Cons.IH [of "rem - minor (lotAmount l)"] Cons.prems
      by (simp add: page_slices_Cons min_def)
  qed (use Cons.prems nn in \<open>simp add: page_slices_Cons min_def\<close>)
qed simp

lemma slices_cover:
  assumes "\<forall>b \<in> set bs. lots_pos b" "0 < rem"
    "\<forall>b \<in> set bs. \<forall>l \<in> set b. lotMaturesAt l cfg = lotMaturesAt (hd b) cfg"
  shows "slice_sum t (fst (page_slices now cfg rem (concat bs))) = cover t cfg rem bs"
  using assms
proof (induction bs arbitrary: rem)
  case (Cons b bs)
  have b: "lots_pos b" "\<forall>l \<in> set b. lotMaturesAt l cfg = lotMaturesAt (hd b) cfg" using Cons.prems by auto
  have bs: "\<forall>b \<in> set bs. lots_pos b" "\<forall>b \<in> set bs. \<forall>l \<in> set b. lotMaturesAt l cfg = lotMaturesAt (hd b) cfg"
    using Cons.prems by auto
  have nn: "0 \<le> lot_sum b" using b(1) by (rule lot_sum_nonneg)
  from slices_block [OF b(1) Cons.prems(2) b(2), of t now]
  have s: "slice_sum t (fst (page_slices now cfg rem b)) =
      (if lotMaturesAt (hd b) cfg \<le> t then min (lot_sum b) rem else 0)"
    and r: "snd (page_slices now cfg rem b) = rem - min (lot_sum b) rem" by simp_all
  have e: "(if b \<noteq> [] \<and> lotMaturesAt (hd b) cfg \<le> t then min (lot_sum b) rem else 0) =
      (if lotMaturesAt (hd b) cfg \<le> t then min (lot_sum b) rem else 0)"
    using Cons.prems(2) by (cases b) simp_all
  note app = page_slices_append(2) [OF b(1) Cons.prems(2), of now cfg "concat bs", unfolded r]
  show ?case
  proof (cases "rem \<le> lot_sum b")
    case True
    then have m: "min (lot_sum b) rem = rem" by simp
    have "b \<noteq> []" using True Cons.prems(2) by auto
    then show ?thesis unfolding cover.simps Let_def e m concat.simps using app s m by (simp add: cover_zero [OF bs(1)])
  next
    case False
    then have m: "min (lot_sum b) rem = lot_sum b" and gt: "0 < rem - lot_sum b" by simp_all
    from Cons.IH [OF bs(1) gt bs(2)] app s gt m show ?thesis
      unfolding cover.simps Let_def e m concat.simps by simp
  qed
qed simp

section \<open>The full scan\<close>

abbreviation "settled_total ls \<equiv> (\<Sum>l\<leftarrow>ls. sminor l)"

lemma foldl_settled: "foldl (\<lambda>sum l. sum + sminor l) z ls = z + settled_total ls"
  by (induction ls arbitrary: z) auto

lemma drain_none: "t \<le> 0 \<Longrightarrow> drain_lots t ls = ls"
  by (induction ls) auto

lemma settled_total_nonneg: "\<forall>l \<in> set ls. 0 < sminor l \<Longrightarrow> 0 \<le> settled_total ls"
  by (induction ls) auto

lemma drain_append:
  "\<forall>l \<in> set xs. 0 < sminor l \<Longrightarrow> 0 \<le> t \<Longrightarrow>
     drain_lots t (xs @ ys) = drain_lots t xs @ drain_lots (max 0 (t - settled_total xs)) ys"
proof (induction xs arbitrary: t)
  case (Cons x xs)
  have "0 \<le> settled_total xs" using Cons.prems by (intro settled_total_nonneg) auto
  then show ?case using Cons by (auto simp: drain_none max_def diff_diff_eq)
qed simp

lemma drain_total:
  "\<forall>l \<in> set xs. 0 < sminor l \<Longrightarrow> 0 \<le> t \<Longrightarrow>
     settled_total (drain_lots t xs) = max 0 (settled_total xs - t) \<and> (\<forall>l \<in> set (drain_lots t xs). 0 < sminor l)"
proof (induction xs arbitrary: t)
  case (Cons x xs)
  have "0 \<le> settled_total xs" using Cons.prems by (intro settled_total_nonneg) auto
  then show ?case using Cons.IH [of "t - sminor x"] Cons.prems by (auto simp: drain_none max_def)
qed simp

lemma drain_times: "set (map smaturesAt (drain_lots t xs)) \<subseteq> set (map smaturesAt xs)"
  proof (induction t xs rule: drain_lots.induct)
  case (2 t l ls)
  have "set (map smaturesAt (drain_lots 0 ls)) \<subseteq> set (map smaturesAt ls)" by (simp add: drain_none)
  with 2 show ?case by auto
qed simp

lemma msum_same_time:
  "\<forall>x \<in> set xs. at x = t \<Longrightarrow> msum now at amt xs = (if t \<le> now then (\<Sum>x\<leftarrow>xs. amt x) else 0)"
  by (induction xs) auto

definition settle :: "config \<Rightarrow> lot \<Rightarrow> settled" where
  "settle cfg l = \<lparr>sminor = minor (lotAmount l), smaturesAt = lotMaturesAt l cfg\<rparr>"

lemma settle_sel [simp]: "sminor (settle cfg l) = minor (lotAmount l)" "smaturesAt (settle cfg l) = lotMaturesAt l cfg"
  by (simp_all add: settle_def)

lemma settle_comp [simp]: "sminor \<circ> settle cfg = (\<lambda>l. minor (lotAmount l))"
  by (simp add: fun_eq_iff)

lemma fifo_cover:
  assumes "\<forall>b \<in> set bs. lots_pos b" "0 \<le> bal"
    "\<forall>b \<in> set bs. \<forall>l \<in> set b. lotMaturesAt l cfg = lotMaturesAt (hd b) cfg"
  shows "settled_sum now (fifoTail (map (settle cfg) (concat bs)) bal) = cover now cfg bal (rev bs)"
  using assms
proof (induction bs arbitrary: bal rule: rev_induct)
  case Nil
  then show ?case by (simp add: fifoTail_def)
next
  case (snoc b bs)
  let ?s = "map (settle cfg)" and ?T = "lot_sum (concat bs)"
  have pos: "\<forall>l \<in> set (?s (concat bs)). 0 < sminor l" "\<forall>l \<in> set (?s b). 0 < sminor l"
    using snoc.prems by auto
  have nn: "0 \<le> ?T" "0 \<le> lot_sum b" using snoc.prems(1) by (intro lot_sum_nonneg; auto)+
  have same: "\<forall>l \<in> set b. lotMaturesAt l cfg = lotMaturesAt (hd b) cfg" using snoc.prems by auto
  have IH: "settled_sum now (fifoTail (?s (concat bs)) (bal - min (lot_sum b) bal)) =
      cover now cfg (bal - min (lot_sum b) bal) (rev bs)"
    using snoc.IH [of "bal - min (lot_sum b) bal"] snoc.prems by auto
  have drained: "settled_sum now (drain_lots u (?s b)) =
      (if b \<noteq> [] \<and> lotMaturesAt (hd b) cfg \<le> now then max 0 (lot_sum b - u) else 0)" if "0 \<le> u" for u
  proof -
    have "\<forall>x \<in> set (drain_lots u (?s b)). smaturesAt x = lotMaturesAt (hd b) cfg"
      using drain_times [of u "?s b"] same by fastforce
    from msum_same_time [OF this] have "settled_sum now (drain_lots u (?s b)) =
        (if lotMaturesAt (hd b) cfg \<le> now then max 0 (lot_sum b - u) else 0)"
      using drain_total [OF pos(2) that] by simp
    then show ?thesis using that by (cases "b = []") simp_all
  qed
  show ?case
  proof (cases "?T + lot_sum b \<le> bal")
    case True
    have "fifoTail (?s (concat (bs @ [b]))) bal = ?s (concat bs) @ ?s b"
      using True by (simp add: fifoTail_def foldl_settled Let_def)
    moreover have "fifoTail (?s (concat bs)) (bal - min (lot_sum b) bal) = ?s (concat bs)"
      using True nn by (simp add: fifoTail_def foldl_settled Let_def)
    ultimately show ?thesis using IH True nn drained [of 0] by (simp add: drain_none Let_def)
  next
    case False
    have whole: "fifoTail (?s (concat (bs @ [b]))) bal =
        drain_lots (?T + lot_sum b - bal) (?s (concat bs)) @ drain_lots (max 0 (lot_sum b - bal)) (?s b)"
      using False by (simp add: fifoTail_def foldl_settled Let_def drain_append [OF pos(1)] o_def add.commute)
    have part: "settled_sum now (fifoTail (?s (concat bs)) (bal - min (lot_sum b) bal)) =
        settled_sum now (drain_lots (?T + lot_sum b - bal) (?s (concat bs)))"
    proof (cases "lot_sum b \<le> bal")
      case True
      then show ?thesis using False by (simp add: fifoTail_def foldl_settled Let_def drain_none algebra_simps)
    next
      case over: False
      have empty: "drain_lots v (?s (concat bs)) = []" if "?T \<le> v" for v
        using drain_total [OF pos(1), of v] that nn settled_total_nonneg
        by (cases "drain_lots v (?s (concat bs))") (fastforce simp: o_def dest: settled_total_nonneg)+
      show ?thesis
      proof (cases "?T \<le> 0")
        case True
        then have "?s (concat bs) = []" using empty [of 0] drain_none [of 0 "?s (concat bs)"] by (metis order_refl)
        then show ?thesis by (simp only: fifoTail_def Let_def foldl.simps drain_lots.simps if_cancel)
      qed (use over nn empty in \<open>simp add: fifoTail_def foldl_settled Let_def\<close>)
    qed
    have m: "max 0 (lot_sum b - max 0 (lot_sum b - bal)) = min (lot_sum b) bal"
      using nn snoc.prems(2) by auto
    show ?thesis using whole part IH drained [of "max 0 (lot_sum b - bal)"] m by (simp add: Let_def)
  qed
qed

lemma fifoTail_positive:
  "\<forall>l \<in> set ls. 0 < sminor l \<Longrightarrow> \<forall>l \<in> set (fifoTail ls bal). 0 < sminor l"
proof -
  assume pos: "\<forall>l \<in> set ls. 0 < sminor l"
  have "\<forall>l \<in> set (drain_lots t ls). 0 < sminor l" if "0 \<le> t" for t
    using drain_total [OF pos that] by (rule conjunct2)
  from this [of "foldl (\<lambda>sum l. sum + sminor l) 0 ls - bal"] show ?thesis using pos by (auto simp: fifoTail_def Let_def)
qed

lemma sumMatured_Inr:
  assumes "\<forall>l \<in> set ls. 0 < sminor l" "0 \<le> m" "m + settled_sum now ls \<le> I64_MAX"
  shows "sumMatured ls now unit \<lparr>currency = unit, minor = m\<rparr> =
    Inr \<lparr>currency = unit, minor = m + settled_sum now ls\<rparr>"
  using assms
proof (induction ls arbitrary: m)
  case (Cons l ls)
  have nn: "0 \<le> settled_sum now ls" using Cons.prems(1) by (intro msum_nonneg) auto
  show ?case
  proof (cases "smaturesAt l \<le> now")
    case True
    then show ?thesis using Cons.IH [of "m + sminor l"] Cons.prems nn
      by (auto simp: toAmount_def I64_MIN_def add_def assertSameCurrency_def add.assoc)
  qed (use Cons in simp)
qed simp

lemma cover_bounds: "\<forall>b \<in> set bs. lots_pos b \<Longrightarrow> 0 \<le> rem \<Longrightarrow> 0 \<le> cover now cfg rem bs \<and> cover now cfg rem bs \<le> rem"
proof (induction bs arbitrary: rem)
  case (Cons b bs)
  have "0 \<le> lot_sum b" using Cons.prems(1) by (intro lot_sum_nonneg) auto
  then show ?case using Cons.IH [of "rem - min (lot_sum b) rem"] Cons.prems
    by (auto simp: Let_def)
qed simp

lemma slices_flags:
  "s \<in> set (fst (page_slices now cfg rem ls)) \<Longrightarrow> lots_pos ls \<Longrightarrow> 0 < rem \<Longrightarrow>
     (matured s \<longleftrightarrow> slice_maturesAt s \<le> now) \<and> 0 \<le> take_minor s"
  by (induction ls arbitrary: rem) (auto simp: page_slices_Cons split: if_splits)

lemma sum_slices_msum:
  "\<forall>s \<in> set ss. matured s \<longleftrightarrow> slice_maturesAt s \<le> now \<Longrightarrow> sum_slices ss = slice_sum now ss"
proof -
  have "\<forall>s \<in> set ss. matured s \<longleftrightarrow> slice_maturesAt s \<le> now \<Longrightarrow>
      foldl (\<lambda>m s. if matured s then m + take_minor s else m) z ss = z + slice_sum now ss" for z
    by (induction ss arbitrary: z) auto
  then show "\<forall>s \<in> set ss. matured s \<longleftrightarrow> slice_maturesAt s \<le> now \<Longrightarrow> sum_slices ss = slice_sum now ss"
    by (simp add: sum_slices_def)
qed

lemma reaches_iff:
  assumes "\<forall>s \<in> set ss. (matured s \<longleftrightarrow> slice_maturesAt s \<le> now) \<and> 0 \<le> take_minor s" "got < need"
  shows "reaches need got ss \<longleftrightarrow> need \<le> got + slice_sum now ss"
  using assms
proof (induction ss arbitrary: got)
  case (Cons s ss)
  have "0 \<le> slice_sum now ss" using Cons.prems(1) by (intro msum_nonneg) auto
  then show ?case using Cons.IH [of got] Cons.IH [of "got + take_minor s"] Cons.prems by auto
qed simp

text \<open>In slices sorted by maturity, the first that covers the need is where the matured sum reaches it.\<close>

lemma msum_later:
  "\<forall>x \<in> set xs. t < at x \<Longrightarrow> msum t at amt xs = 0"
  by (induction xs) auto

lemma first_cover_None:
  "\<forall>s \<in> set ss. 0 \<le> take_minor s \<Longrightarrow> first_cover need got ss = None \<Longrightarrow> got < need \<Longrightarrow>
     got + slice_sum t ss < need"
proof (induction ss arbitrary: got)
  case (Cons s ss)
  then have lt: "got + take_minor s < need" and rec: "first_cover need (got + take_minor s) ss = None"
    by (auto split: if_splits)
  have "got + take_minor s + slice_sum t ss < need" using Cons.IH [OF _ rec lt] Cons.prems(1) by simp
  moreover have "0 \<le> take_minor s" using Cons.prems(1) by simp
  ultimately show ?case by simp
qed simp

lemma first_cover_in: "first_cover need got ss = Some s \<Longrightarrow> s \<in> set ss"
  by (induction ss arbitrary: got) (auto split: if_splits)

lemma first_cover_Some:
  assumes "sorted (map slice_maturesAt ss)" "\<forall>s \<in> set ss. 0 \<le> take_minor s"
    "first_cover need got ss = Some s" "got < need"
  shows "need \<le> got + slice_sum (slice_maturesAt s) ss \<and>
    (\<forall>t < slice_maturesAt s. got + slice_sum t ss < need)"
  using assms
proof (induction ss arbitrary: got)
  case (Cons x ss)
  show ?case
  proof (cases "need \<le> got + take_minor x")
    case True
    then have s: "s = x" using Cons.prems by simp
    have "0 \<le> slice_sum (slice_maturesAt x) ss" using Cons.prems(2) by (intro msum_nonneg) auto
    moreover have "slice_sum t (x # ss) = 0" if "t < slice_maturesAt x" for t
      using Cons.prems(1) that by (intro msum_later) fastforce
    ultimately show ?thesis using True s Cons.prems(4) by simp
  next
    case False
    then have rec: "first_cover need (got + take_minor x) ss = Some s" using Cons.prems by simp
    then have "s \<in> set ss" by (rule first_cover_in)
    then have le: "slice_maturesAt x \<le> slice_maturesAt s" using Cons.prems(1) by auto
    have IH: "need \<le> got + take_minor x + slice_sum (slice_maturesAt s) ss \<and>
        (\<forall>t < slice_maturesAt s. got + take_minor x + slice_sum t ss < need)"
      using Cons.IH [of "got + take_minor x"] Cons.prems rec False by auto
    have x: "0 \<le> take_minor x" using Cons.prems by simp
    have "got + slice_sum t (x # ss) < need" if "t < slice_maturesAt s" for t
      using IH [THEN conjunct2, rule_format, OF that] x by auto
    with IH le show ?thesis by auto
  qed
qed simp

lemma msum_mono:
  "\<forall>s \<in> set ss. (matured s \<longleftrightarrow> slice_maturesAt s \<le> now) \<and> 0 \<le> take_minor s \<Longrightarrow> t \<le> u \<Longrightarrow>
     slice_sum t ss \<le> slice_sum u ss"
  by (induction ss) auto

lemma page_takes:
  "lots_pos ls \<Longrightarrow> 0 < rem \<Longrightarrow>
     (\<Sum>s\<leftarrow>fst (page_slices now cfg rem ls). take_minor s) = min rem (lot_sum ls)"
proof (induction ls arbitrary: rem)
  case (Cons l ls)
  then have "0 \<le> lot_sum ls" by (intro lot_sum_nonneg) auto
  then show ?case using Cons.IH [of "rem - minor (lotAmount l)"] Cons.prems by (auto simp: page_slices_Cons)
qed simp

lemma mset_concat_rev: "mset (concat (rev bs)) = mset (concat bs)"
  by (induction bs) simp_all

lemma blocker_agrees:
  assumes "0 < minor need" "minor need \<le> bal" "maturedAvailableAt tm bal a now cfg need = Some r"
  shows "\<exists>b. maturityBlocker tm bal a now cfg need = Some b \<and>
    availableAt b = (case r of None \<Rightarrow> now + maturityHorizonMs ''default'' cfg | Some u \<Rightarrow> u)"
proof -
  obtain ss where "tailSlices tm a now cfg bal 0 = Some ss"
    "r = map_option slice_maturesAt (first_cover (minor need) 0 (sort_key slice_maturesAt ss))"
    using assms by (auto simp: maturedAvailableAt_def bind_eq_Some_conv)
  then show ?thesis using assms
    by (cases "first_cover (minor need) 0 (sort_key slice_maturesAt ss)")
      (simp_all add: maturityBlocker_def DEFAULT_SOURCE_def)
qed

context lot_timeline begin

definition matured_part :: "int \<Rightarrow> config \<Rightarrow> AccountRef \<Rightarrow> int \<Rightarrow> int" where
  "matured_part t cfg a bal = cover t cfg bal (rev (blocks a))"

lemma block_facts:
  "\<forall>b \<in> set (blocks a). lots_pos b"
  "\<forall>b \<in> set (blocks a). \<forall>l \<in> set b. lotMaturesAt l cfg = lotMaturesAt (hd b) cfg"
proof -
  show "\<forall>b \<in> set (blocks a). lots_pos b" using positive by blast
  have "lotMaturesAt l cfg = lotMaturesAt (hd b) cfg" if "b \<in> set (blocks a)" "l \<in> set b" for b l
    using one_posting [OF that, of "hd b"] that(2) by (cases b) (auto simp: lotMaturesAt_def)
  then show "\<forall>b \<in> set (blocks a). \<forall>l \<in> set b. lotMaturesAt l cfg = lotMaturesAt (hd b) cfg" by blast
qed

lemma walk_sum:
  assumes "0 < bal"
  shows "\<exists>ss. tailSlices timeline a now cfg bal 0 = Some ss \<and> (\<forall>t. slice_sum t ss = matured_part t cfg a bal) \<and>
    (\<forall>s \<in> set ss. (matured s \<longleftrightarrow> slice_maturesAt s \<le> now) \<and> 0 \<le> take_minor s)"
  using walk_ends [OF assms, of a now cfg 0] slices_cover [of "rev (blocks a)" bal cfg] block_facts(1) [of a] block_facts(2) [of a cfg] assms
    slices_flags [of _ now cfg bal "concat (rev (blocks a))"] lots_positive [of a]
  by (simp add: matured_part_def)

lemma part_bounds: "0 \<le> bal \<Longrightarrow> 0 \<le> matured_part t cfg a bal \<and> matured_part t cfg a bal \<le> bal"
  unfolding matured_part_def using cover_bounds [of "rev (blocks a)"] block_facts(1) [of a] by simp

lemma maturedBalance_is:
  assumes "0 < bal"
  shows "maturedBalance timeline bal a now cfg = Some (toAmount (currencyOf a) (matured_part now cfg a bal))"
proof -
  obtain ss where ss: "tailSlices timeline a now cfg bal 0 = Some ss" "\<forall>t. slice_sum t ss = matured_part t cfg a bal"
    "\<forall>s \<in> set ss. (matured s \<longleftrightarrow> slice_maturesAt s \<le> now) \<and> 0 \<le> take_minor s"
    using walk_sum [OF assms] by metis
  then show ?thesis using assms sum_slices_msum [of ss now] by (simp add: maturedBalance_def)
qed

lemma fullScan_is:
  assumes "0 < bal" "bal \<le> I64_MAX"
  shows "maturedBalanceFullScan timeline bal a now cfg =
    Inr \<lparr>currency = currencyOf a, minor = matured_part now cfg a bal\<rparr>"
proof -
  have c: "collectLots timeline a cfg = map (settle cfg) (concat (blocks a))"
    by (simp add: collectLots_def oldest_first settle_def [abs_def])
  have m: "settled_sum now (fifoTail (collectLots timeline a cfg) bal) = matured_part now cfg a bal"
    unfolding c matured_part_def using assms block_facts(1) [of a] block_facts(2) [of a cfg] by (intro fifo_cover) auto
  have "\<forall>l \<in> set (fifoTail (collectLots timeline a cfg) bal). 0 < sminor l"
    unfolding c by (intro fifoTail_positive) (use positive in auto)
  from sumMatured_Inr [OF this, of 0 now "currencyOf a"] show ?thesis
    using assms part_bounds [of bal now cfg a] m by (simp add: maturedBalanceFullScan_def zero_amount_def)
qed

lemma maturedAtLeast_is:
  "maturedAtLeast timeline bal a now cfg need =
     Some (minor need \<le> 0 \<or> 0 < bal \<and> minor need \<le> matured_part now cfg a bal)"
proof (cases "minor need \<le> 0 \<or> bal \<le> 0")
  case False
  then obtain ss where ss: "tailSlices timeline a now cfg bal 0 = Some ss" "\<forall>t. slice_sum t ss = matured_part t cfg a bal"
    "\<forall>s \<in> set ss. (matured s \<longleftrightarrow> slice_maturesAt s \<le> now) \<and> 0 \<le> take_minor s"
    using walk_sum [of bal a now cfg] by force
  then show ?thesis using False reaches_iff [OF ss(3), of 0 "minor need"] by (simp add: maturedAtLeast_def)
qed (auto simp: maturedAtLeast_def)

lemma availableAt_is:
  assumes "0 < minor need" "minor need \<le> bal"
  shows "\<exists>r. maturedAvailableAt timeline bal a now cfg need = Some r \<and>
    (case r of
       None \<Rightarrow> \<forall>t. matured_part t cfg a bal < minor need
     | Some u \<Rightarrow> minor need \<le> matured_part u cfg a bal \<and> (\<forall>t < u. matured_part t cfg a bal < minor need))"
proof -
  obtain ss where ss: "tailSlices timeline a now cfg bal 0 = Some ss" "\<forall>t. slice_sum t ss = matured_part t cfg a bal"
    "\<forall>s \<in> set ss. (matured s \<longleftrightarrow> slice_maturesAt s \<le> now) \<and> 0 \<le> take_minor s"
    using walk_sum [of bal a now cfg] assms by force
  let ?q = "sort_key slice_maturesAt ss"
  have q: "slice_sum t ?q = matured_part t cfg a bal" for t
    using ss(2) msum_mset [of ?q ss t slice_maturesAt take_minor] by simp
  have e: "maturedAvailableAt timeline bal a now cfg need =
      Some (map_option slice_maturesAt (first_cover (minor need) 0 ?q))"
    using assms ss(1) by (simp add: maturedAvailableAt_def)
  show ?thesis
  proof (cases "first_cover (minor need) 0 ?q")
    case None
    then show ?thesis using e q first_cover_None [of ?q "minor need" 0] assms ss(3) by auto
  next
    case (Some s)
    from first_cover_Some [OF _ _ Some] show ?thesis using e q Some assms ss(3) by auto
  qed
qed

text \<open>Later reads see at least as much matured.\<close>

lemma part_mono: "0 < bal \<Longrightarrow> t \<le> u \<Longrightarrow> matured_part t cfg a bal \<le> matured_part u cfg a bal"
  using walk_sum [of bal a 0 cfg] msum_mono by metis

lemma atLeast_from:
  assumes "0 < minor need" "minor need \<le> bal"
  shows "\<exists>r. maturedAvailableAt timeline bal a now cfg need = Some r \<and>
    (\<forall>t. maturedAtLeast timeline bal a t cfg need =
      Some (case r of None \<Rightarrow> False | Some u \<Rightarrow> u \<le> t))"
proof -
  obtain r where r: "maturedAvailableAt timeline bal a now cfg need = Some r"
    "case r of None \<Rightarrow> \<forall>t. matured_part t cfg a bal < minor need
     | Some u \<Rightarrow> minor need \<le> matured_part u cfg a bal \<and> (\<forall>t < u. matured_part t cfg a bal < minor need)"
    using availableAt_is [OF assms] by blast
  have "minor need \<le> matured_part t cfg a bal \<longleftrightarrow> u \<le> t" if "r = Some u" for t u
    using r(2) that assms part_mono [of bal u t cfg a] by (cases "u \<le> t") (auto simp: not_le)
  then have "maturedAtLeast timeline bal a t cfg need = Some (case r of None \<Rightarrow> False | Some u \<Rightarrow> u \<le> t)" for t
    using r(2) assms by (cases r) (auto simp: maturedAtLeast_is not_le)
  with r(1) show ?thesis by blast
qed

lemma walk_takes:
  "\<exists>ss. tailSlices timeline a now cfg rem 0 = Some ss \<and>
     (\<Sum>s\<leftarrow>ss. take_minor s) = max 0 (min rem (lot_sum (concat (blocks a))))"
proof (cases "0 < rem")
  case True
  have "mset (map (\<lambda>l. minor (lotAmount l)) (concat (rev (blocks a)))) =
      mset (map (\<lambda>l. minor (lotAmount l)) (concat (blocks a)))"
    by (simp only: mset_map mset_concat_rev)
  then have "lot_sum (concat (rev (blocks a))) = lot_sum (concat (blocks a))"
    by (metis sum_mset_sum_list)
  moreover have "0 \<le> lot_sum (concat (blocks a))" using positive by (intro lot_sum_nonneg) auto
  ultimately show ?thesis
    using True walk_ends [OF True, of a now cfg 0] page_takes [OF lots_positive True, of now cfg a] by simp
next
  case False
  then show ?thesis by (subst tailSlices.simps) simp
qed

end

section \<open>Properties\<close>

text \<open>
  (C39) The page-by-page walk of the timeline always ends, on every state of the in-memory ledger and
  for every balance, and what its slices take adds up to the balance, or to all lots where the balance
  outran them.
\<close>
theorem walk_terminates:
  "\<exists>ss. tailSlices (timelineOf s) a now cfg bal 0 = Some ss \<and>
     (\<Sum>x\<leftarrow>ss. take_minor x) = max 0 (min bal (\<Sum>l\<leftarrow>timelineOf s a False None 0. minor (lotAmount l)))"
  unfolding mem_lots.oldest_first by (rule mem_lots.walk_takes)

text \<open>
  (C25) The bounded read is the full scan: the matured balance computed from the newest lots, a page at
  a time, equals the one the history-long oracle computes by draining the oldest lots first, on every
  ledger state, time, policy and balance of 64 bits.
\<close>
theorem paged_equals_scan:
  assumes "bal \<le> I64_MAX"
  shows "maturedBalance (timelineOf s) bal a now cfg = Some (maturedBalanceFullScan (timelineOf s) bal a now cfg)"
proof (cases "0 < bal")
  case True
  then show ?thesis
    using assms mem_lots.part_bounds [of bal s now cfg a]
    by (simp add: mem_lots.maturedBalance_is mem_lots.fullScan_is toAmount_Inr in_i64_def I64_MIN_def)
qed (simp add: maturedBalance_def maturedBalanceFullScan_def)

definition demo_lots :: ledger_state where
  "demo_lots = empty_ledger\<lparr>plog := map (\<lambda>(t, m). \<lparr>txnId = ''t'', legs = [\<lparr>account = spendable ''u'',
        amount = \<lparr>currency = CREDIT, minor = - m\<rparr>\<rparr>], meta = [(''source'', JStr ''card'')], postedAt = t, links = [],
        pseq = 1\<rparr>) [(0, 300), (50, 200)],
     lotIndex := [(spendable ''u'', [0, 1])]\<rparr>"

definition demo_config :: config where
  "demo_config = projr (defaultConfig (no_overrides\<lparr>o_maturityHorizons := Some [(''card'', 100)]\<rparr>))"

theorem paged_equals_scan_witness:
  "maturedBalance (timelineOf demo_lots) 450 (spendable ''u'') 120 demo_config =
     Some (Inr \<lparr>currency = CREDIT, minor = 250\<rparr>)"
  unfolding paged_equals_scan [of 450 demo_lots "spendable ''u''" 120 demo_config, simplified I64_MAX_def, simplified]
  by code_simp

text \<open>
  (C40) The reported time is the exact moment the amount matures: for an amount the balance covers, the
  short-circuiting check succeeds at a time exactly when that time has reached what
  \<open>maturedAvailableAt\<close> answers, at every time; when it answers null the check never succeeds. The
  blocker reported with a rejection carries the same time.
\<close>
theorem available_at_is_least:
  assumes "0 < minor need" "minor need \<le> bal"
  shows "\<exists>r b. maturedAvailableAt (timelineOf s) bal a now cfg need = Some r \<and>
    maturityBlocker (timelineOf s) bal a now cfg need = Some b \<and>
    (\<forall>t. maturedAtLeast (timelineOf s) bal a t cfg need = Some (case r of None \<Rightarrow> False | Some u \<Rightarrow> u \<le> t)) \<and>
    availableAt b = (case r of None \<Rightarrow> now + maturityHorizonMs ''default'' cfg | Some u \<Rightarrow> u)"
proof -
  obtain r where r: "maturedAvailableAt (timelineOf s) bal a now cfg need = Some r"
    "\<forall>t. maturedAtLeast (timelineOf s) bal a t cfg need = Some (case r of None \<Rightarrow> False | Some u \<Rightarrow> u \<le> t)"
    using mem_lots.atLeast_from [OF assms, of s a now cfg] by blast
  then have "\<exists>b. maturityBlocker (timelineOf s) bal a now cfg need = Some b \<and>
      availableAt b = (case r of None \<Rightarrow> now + maturityHorizonMs ''default'' cfg | Some u \<Rightarrow> u)"
    using assms blocker_agrees by blast
  with r show ?thesis by blast
qed

theorem available_at_is_least_witness:
  "\<exists>r. maturedAvailableAt (timelineOf demo_lots) 450 (spendable ''u'') 0 demo_config \<lparr>currency = CREDIT, minor = 300\<rparr> = Some r \<and>
    (\<forall>t. maturedAtLeast (timelineOf demo_lots) 450 (spendable ''u'') t demo_config \<lparr>currency = CREDIT, minor = 300\<rparr> =
      Some (case r of None \<Rightarrow> False | Some u \<Rightarrow> u \<le> t))"
  using available_at_is_least [of "\<lparr>currency = CREDIT, minor = 300\<rparr>" 450 demo_lots "spendable ''u''" 0 demo_config]
  by auto

end
