(* ===== verification/Stores.thy ===== *)
theory Stores
  imports MemLedger Trust
begin

text \<open>
  The row stores of src/adapters/memory.ts, with the row types of src/ports.ts: idempotency keys,
  sales, outbox, inbox, payout sagas, entitlements, subscriptions, promo grants, accruals, movements,
  reservations, checkpoints and webhook replays. A Map of rows is an association list in insertion
  order, rows are values (the stores copy what they hand out), an operation is a function on the
  store's state. What each store journals for a rollback is the subject of the theory Journal.
\<close>

section \<open>Row types (src/ports.ts)\<close>

datatype accrual_status = AccPending | AccDrained | AccRefunded

record accrual_row =
  accOrder :: string
  accSeller :: string
  accSeq :: nat
  accAmount :: amount
  accShard :: AccountRef
  accStatus :: accrual_status
  accTxn :: string
  accSettledTxn :: "string option"
  accRecordedAt :: int

type_synonym accrual_key = "string \<times> string \<times> nat"

record event =
  eventId :: string
  eventType :: string
  eventVersion :: nat
  occurredAt :: int
  eventSubject :: string
  eventData :: json
  clientAudience :: bool

datatype outbox_status = OutPending | OutRelayed | OutDead

record outbox_message =
  outId :: string
  outEvent :: event
  outStatus :: outbox_status
  outAttempts :: nat
  outReason :: "string option"
  outCorrelation :: "string option"

datatype inbox_status = InPending | InApplied | InDead

record inbox_message =
  inId :: string
  inKey :: string
  inOperation :: operation
  inStatus :: inbox_status
  inAttempts :: nat
  inReceivedAt :: int
  inReason :: "string option"

record sale =
  saleOrder :: string
  saleBuyer :: string
  saleSku :: string
  saleRecipient :: "string option"
  salePrice :: amount
  saleFee :: amount
  saleLegs :: "leg list"
  saleTxn :: string
  salePostedAt :: int

datatype saga_state = REQUESTED | RESERVED | SUBMITTED | SETTLED | FAILED

record saga =
  sagaId :: string
  sagaUser :: string
  sagaReserve :: amount
  sagaRateId :: string
  sagaTxn :: string
  sagaState :: saga_state
  sagaProviderRef :: "string option"
  sagaReason :: "string option"
  sagaAttempts :: nat
  sagaDueAt :: int
  sagaUpdatedAt :: int
  sagaPayoutUsd :: "amount option"

datatype subscription_state = ACTIVE | LAPSED | CANCELED

record subscription =
  subId :: string
  subUser :: string
  subSeller :: string
  subSku :: string
  subPrice :: amount
  subTxn :: string
  subPeriodMs :: int
  subState :: subscription_state
  subPeriod :: nat
  subAttempts :: nat
  subNextDueAt :: int
  subUpdatedAt :: int

record promo_grant =
  grantId :: string
  grantUser :: string
  grantAmount :: amount
  grantExpiresAt :: int
  grantReversed :: bool

record movement =
  mvSession :: string
  mvSeq :: nat
  mvKey :: string
  mvLegs :: "leg list"
  mvPrevHash :: string
  mvHash :: string
  mvRecordedAt :: int

record checkpoint =
  cpId :: string
  cpRoot :: string
  cpSignature :: string
  cpCount :: nat
  cpAt :: int
  cpVersion :: nat
  cpSum :: "string option"
  cpKid :: "string option"

record archive_state =
  arThroughSeq :: nat
  arCursor :: "nat option"
  arRoot :: string
  arSignature :: string
  arCheckpointId :: string
  arAt :: int

record reproof_state =
  rpCursor :: "nat option"
  rpRotatedAt :: "int option"

section \<open>Idempotency store\<close>

record idem_store =
  idemCommitted :: "(string \<times> transaction) list"
  idemPending :: "string list"
  idemAt :: "(string \<times> int) list"

definition empty_idem :: idem_store where
  "empty_idem = \<lparr>idemCommitted = [], idemPending = [], idemAt = []\<rparr>"

definition at_once :: "string \<Rightarrow> int \<Rightarrow> (string \<times> int) list \<Rightarrow> (string \<times> int) list" where
  "at_once key now m = (if map_of m key \<noteq> None then m else AList.update key now m)"

text \<open>\<open>None\<close> is a claim granted, \<open>Some t\<close> the transaction a committed key replays.\<close>

definition idem_claim :: "int \<Rightarrow> string \<Rightarrow> idem_store \<Rightarrow> transaction option \<times> idem_store" where
  "idem_claim now key s =
     (case map_of (idemCommitted s) key of
        Some prior \<Rightarrow> (Some prior, s)
      | None \<Rightarrow> (None, s\<lparr>idemPending := List.insert key (idemPending s), idemAt := at_once key now (idemAt s)\<rparr>))"

definition idem_record :: "int \<Rightarrow> string \<Rightarrow> transaction \<Rightarrow> idem_store \<Rightarrow> idem_store" where
  "idem_record now key t s =
     s\<lparr>idemCommitted := AList.update key t (idemCommitted s), idemPending := removeAll key (idemPending s),
       idemAt := at_once key now (idemAt s)\<rparr>"

definition idem_deleteOlderThan :: "int \<Rightarrow> nat \<Rightarrow> idem_store \<Rightarrow> nat \<times> idem_store" where
  "idem_deleteOlderThan cutoff limit s =
     (let due = take limit (sort_key snd (filter (\<lambda>(k, bornAt). bornAt < cutoff) (idemAt s)))
      in (length due, fold (\<lambda>(k, _) st. st\<lparr>idemAt := AList.delete k (idemAt st),
            idemCommitted := AList.delete k (idemCommitted st), idemPending := removeAll k (idemPending st)\<rparr>) due s))"

section \<open>Sale store\<close>

type_synonym sale_store = "(string \<times> sale) list"

definition sale_put :: "sale \<Rightarrow> sale_store \<Rightarrow> sale_store" where
  "sale_put x s = AList.update (saleOrder x) x s"

definition sale_get :: "string \<Rightarrow> sale_store \<Rightarrow> sale option" where
  "sale_get orderId s = map_of s orderId"

section \<open>Outbox store\<close>

record outbox_store =
  outRows :: "(string \<times> outbox_message) list"
  outOrder :: "string list"
  outEnqueuedAt :: "(string \<times> int) list"

definition empty_outbox :: outbox_store where
  "empty_outbox = \<lparr>outRows = [], outOrder = [], outEnqueuedAt = []\<rparr>"

definition outbox_enqueue :: "int \<Rightarrow> outbox_message \<Rightarrow> outbox_store \<Rightarrow> outbox_store" where
  "outbox_enqueue now m s =
     s\<lparr>outRows := AList.update (outId m) m (outRows s), outOrder := outOrder s @ [outId m],
       outEnqueuedAt := AList.update (outId m) now (outEnqueuedAt s)\<rparr>"

definition is_pending_out :: "outbox_store \<Rightarrow> string \<Rightarrow> bool" where
  "is_pending_out s i = (case map_of (outRows s) i of Some m \<Rightarrow> outStatus m = OutPending | None \<Rightarrow> False)"

definition outbox_claimBatch :: "nat \<Rightarrow> outbox_store \<Rightarrow> outbox_message list" where
  "outbox_claimBatch limit s =
     take limit (map (\<lambda>i. the (map_of (outRows s) i)) (filter (is_pending_out s) (outOrder s)))"

definition outbox_change :: "string \<Rightarrow> (outbox_message \<Rightarrow> outbox_message) \<Rightarrow> outbox_store \<Rightarrow> outbox_store" where
  "outbox_change i f s =
     (case map_of (outRows s) i of
        Some m \<Rightarrow> (if outStatus m = OutPending then s\<lparr>outRows := AList.update i (f m) (outRows s)\<rparr> else s)
      | None \<Rightarrow> s)"

definition outbox_markRelayed :: "string list \<Rightarrow> outbox_store \<Rightarrow> outbox_store" where
  "outbox_markRelayed ids s = fold (\<lambda>i. outbox_change i (\<lambda>m. m\<lparr>outStatus := OutRelayed\<rparr>)) ids s"

definition outbox_recordFailure :: "string \<Rightarrow> outbox_store \<Rightarrow> outbox_store" where
  "outbox_recordFailure i s = outbox_change i (\<lambda>m. m\<lparr>outAttempts := outAttempts m + 1\<rparr>) s"

definition outbox_deadLetter :: "string \<Rightarrow> string \<Rightarrow> outbox_store \<Rightarrow> outbox_store" where
  "outbox_deadLetter i reason s = outbox_change i (\<lambda>m. m\<lparr>outStatus := OutDead, outReason := Some reason\<rparr>) s"

definition min_opt :: "int list \<Rightarrow> int option" where
  "min_opt xs = (if xs = [] then None else Some (Min (set xs)))"

definition outboxStatsOf :: "int \<Rightarrow> outbox_store \<Rightarrow> nat \<times> int option" where
  "outboxStatsOf now s =
     (let pending = filter (\<lambda>(i, m). outStatus m = OutPending) (outRows s)
      in (length pending,
          map_option (\<lambda>t. now - t) (min_opt (List.map_filter (\<lambda>(i, m). map_of (outEnqueuedAt s) i) pending))))"

section \<open>Inbox store\<close>

record inbox_store =
  inRows :: "(string \<times> inbox_message) list"
  inOrder :: "string list"
  inByKey :: "(string \<times> string) list"

definition empty_inbox :: inbox_store where
  "empty_inbox = \<lparr>inRows = [], inOrder = [], inByKey = []\<rparr>"

definition inbox_enqueueInbound :: "inbox_message \<Rightarrow> inbox_store \<Rightarrow> inbox_message \<times> inbox_store" where
  "inbox_enqueueInbound e s =
     (case map_of (inByKey s) (inKey e) of
        Some existingId \<Rightarrow> (the (map_of (inRows s) existingId), s)
      | None \<Rightarrow> (e, s\<lparr>inRows := AList.update (inId e) e (inRows s), inOrder := inOrder s @ [inId e],
                     inByKey := AList.update (inKey e) (inId e) (inByKey s)\<rparr>))"

definition inbox_claimInbound :: "nat \<Rightarrow> inbox_store \<Rightarrow> inbox_message list" where
  "inbox_claimInbound limit s =
     take limit (sort_key inReceivedAt (filter (\<lambda>m. inStatus m = InPending)
       (List.map_filter (map_of (inRows s)) (inOrder s))))"

definition inbox_change :: "string \<Rightarrow> (inbox_message \<Rightarrow> inbox_message) \<Rightarrow> inbox_store \<Rightarrow> inbox_store" where
  "inbox_change i f s =
     (case map_of (inRows s) i of
        Some m \<Rightarrow> (if inStatus m = InPending then s\<lparr>inRows := AList.update i (f m) (inRows s)\<rparr> else s)
      | None \<Rightarrow> s)"

definition inbox_markApplied :: "string \<Rightarrow> inbox_store \<Rightarrow> inbox_store" where
  "inbox_markApplied i s = inbox_change i (\<lambda>m. m\<lparr>inStatus := InApplied\<rparr>) s"

definition inbox_bumpAttempt :: "string \<Rightarrow> inbox_store \<Rightarrow> inbox_store" where
  "inbox_bumpAttempt i s = inbox_change i (\<lambda>m. m\<lparr>inAttempts := inAttempts m + 1\<rparr>) s"

definition inbox_deadLetter :: "string \<Rightarrow> string \<Rightarrow> inbox_store \<Rightarrow> inbox_store" where
  "inbox_deadLetter i reason s = inbox_change i (\<lambda>m. m\<lparr>inStatus := InDead, inReason := Some reason\<rparr>) s"

definition revived :: "inbox_message \<Rightarrow> inbox_message" where
  "revived m = m\<lparr>inStatus := InPending, inAttempts := 0, inReason := None\<rparr>"

definition reviveDeadRows :: "nat \<Rightarrow> inbox_store \<Rightarrow> inbox_message list \<times> inbox_store" where
  "reviveDeadRows limit s =
     (let dead = take limit (sort_key inReceivedAt (filter (\<lambda>m. inStatus m = InDead) (map snd (inRows s))))
      in (map revived dead, s\<lparr>inRows := fold (\<lambda>m. AList.update (inId m) (revived m)) dead (inRows s)\<rparr>))"

section \<open>Saga store\<close>

record saga_store =
  sagaRows :: "(string \<times> saga) list"
  lastByUser :: "(string \<times> int) list"

definition empty_sagas :: saga_store where
  "empty_sagas = \<lparr>sagaRows = [], lastByUser = []\<rparr>"

definition bumpLast :: "string \<Rightarrow> int \<Rightarrow> saga_store \<Rightarrow> saga_store" where
  "bumpLast userId updatedAt s =
     (case map_of (lastByUser s) userId of
        Some prior \<Rightarrow> (if prior \<ge> updatedAt then s else s\<lparr>lastByUser := AList.update userId updatedAt (lastByUser s)\<rparr>)
      | None \<Rightarrow> s\<lparr>lastByUser := AList.update userId updatedAt (lastByUser s)\<rparr>)"

definition saga_open :: "saga \<Rightarrow> saga_store \<Rightarrow> saga_store" where
  "saga_open x s = bumpLast (sagaUser x) (sagaUpdatedAt x) (s\<lparr>sagaRows := AList.update (sagaId x) x (sagaRows s)\<rparr>)"

definition saga_load :: "string \<Rightarrow> saga_store \<Rightarrow> saga option" where
  "saga_load i s = map_of (sagaRows s) i"

definition findSagaByRef :: "string \<Rightarrow> saga_store \<Rightarrow> saga option" where
  "findSagaByRef ref s =
     foldl (\<lambda>best x. if sagaProviderRef x \<noteq> Some ref then best
                     else case best of None \<Rightarrow> Some x
                          | Some b \<Rightarrow> if sagaUpdatedAt x > sagaUpdatedAt b then Some x else best)
       None (map snd (sagaRows s))"

text \<open>Newest first, ties by falling id: sort by id, stably by time, and reverse.\<close>

definition listSagasOf :: "saga_state list option \<Rightarrow> saga_store \<Rightarrow> saga list" where
  "listSagasOf states s =
     rev (sort_key sagaUpdatedAt (sort_key sagaId
       (filter (\<lambda>x. case states of None \<Rightarrow> True | Some w \<Rightarrow> sagaState x \<in> set w) (map snd (sagaRows s)))))"

definition saga_claimDue :: "int \<Rightarrow> nat \<Rightarrow> saga_store \<Rightarrow> saga list" where
  "saga_claimDue now limit s =
     take limit (filter (\<lambda>x. sagaDueAt x \<le> now \<and> (sagaState x = RESERVED \<or> sagaState x = SUBMITTED))
       (map snd (sagaRows s)))"

text \<open>\<open>patch\<close> is the spread of the partial saga; \<open>updatedAt\<close> is the patch's own, when it has one.\<close>

definition saga_advance ::
    "string \<Rightarrow> saga_state \<Rightarrow> saga_state \<Rightarrow> (saga \<Rightarrow> saga) \<Rightarrow> int option \<Rightarrow> saga_store \<Rightarrow> bool \<times> saga_store" where
  "saga_advance i from_state to_state patch updatedAt s =
     (case map_of (sagaRows s) i of
        None \<Rightarrow> (False, s)
      | Some x \<Rightarrow>
          (if sagaState x \<noteq> from_state then (False, s)
           else (True, bumpLast (sagaUser x) (case updatedAt of Some u \<Rightarrow> u | None \<Rightarrow> sagaUpdatedAt x)
             (s\<lparr>sagaRows := AList.update i ((patch x)\<lparr>sagaState := to_state\<rparr>) (sagaRows s)\<rparr>))))"

definition lastPayoutAt :: "string \<Rightarrow> saga_store \<Rightarrow> int option" where
  "lastPayoutAt userId s = map_of (lastByUser s) userId"

definition saga_deadLetter :: "string \<Rightarrow> string \<Rightarrow> saga_store \<Rightarrow> saga_store" where
  "saga_deadLetter i reason s =
     (case map_of (sagaRows s) i of
        None \<Rightarrow> s
      | Some x \<Rightarrow> s\<lparr>sagaRows := AList.update i (x\<lparr>sagaState := FAILED, sagaReason := Some reason\<rparr>) (sagaRows s)\<rparr>)"

section \<open>Entitlement store\<close>

text \<open>The expiry an attribute bag carries: absent and null both never expire.\<close>

record ent_row =
  entAttrs :: ent_attrs
  entRevoked :: bool

type_synonym ent_store = "(string \<times> ent_row) list"

definition ent_key :: "string \<Rightarrow> string \<Rightarrow> string" where
  "ent_key userId sku = userId @ ''::'' @ sku"

definition ent_grant :: "string \<Rightarrow> string \<Rightarrow> ent_attrs \<Rightarrow> ent_store \<Rightarrow> ent_store" where
  "ent_grant userId sku attrs s = AList.update (ent_key userId sku) \<lparr>entAttrs = attrs, entRevoked = False\<rparr> s"

definition ent_revoke :: "string \<Rightarrow> string \<Rightarrow> ent_store \<Rightarrow> ent_store" where
  "ent_revoke userId sku s =
     (case map_of s (ent_key userId sku) of
        None \<Rightarrow> s
      | Some row \<Rightarrow> (if entRevoked row then s else AList.update (ent_key userId sku) (row\<lparr>entRevoked := True\<rparr>) s))"

definition num_ge_now :: "int \<Rightarrow> jsnum \<Rightarrow> bool" where
  "num_ge_now now x = (case x of NInt i \<Rightarrow> now \<le> i | NFrac i \<Rightarrow> now \<le> i | NPosInf \<Rightarrow> True | _ \<Rightarrow> False)"

definition ent_owns :: "int \<Rightarrow> string \<Rightarrow> string \<Rightarrow> ent_store \<Rightarrow> bool" where
  "ent_owns now userId sku s =
     (case map_of s (ent_key userId sku) of
        None \<Rightarrow> False
      | Some row \<Rightarrow>
          \<not> entRevoked row \<and> (case eexpiresAt (entAttrs row) of None \<Rightarrow> True | Some e \<Rightarrow> num_ge_now now e))"

definition ent_list :: "string \<Rightarrow> ent_store \<Rightarrow> (string \<times> jsnum option) list" where
  "ent_list userId s =
     sort_key fst (map (\<lambda>(k, row). (drop (length userId + 2) k, eexpiresAt (entAttrs row)))
       (filter (\<lambda>(k, row). starts_with (userId @ ''::'') k \<and> \<not> entRevoked row) s))"

section \<open>Subscription store\<close>

type_synonym sub_store = "(string \<times> subscription) list"

definition sub_open :: "subscription \<Rightarrow> sub_store \<Rightarrow> sub_store" where
  "sub_open x s = AList.update (subId x) x s"

definition sub_load :: "string \<Rightarrow> sub_store \<Rightarrow> subscription option" where
  "sub_load i s = map_of s i"

definition sub_activeFor :: "string \<Rightarrow> string \<Rightarrow> string \<Rightarrow> sub_store \<Rightarrow> subscription option" where
  "sub_activeFor userId sku seller s =
     find (\<lambda>x. subUser x = userId \<and> subSku x = sku \<and> subSeller x = seller \<and> subState x = ACTIVE) (map snd s)"

definition sub_set_state :: "subscription_state \<Rightarrow> string \<Rightarrow> sub_store \<Rightarrow> sub_store" where
  "sub_set_state st i s = (case map_of s i of None \<Rightarrow> s | Some x \<Rightarrow> AList.update i (x\<lparr>subState := st\<rparr>) s)"

definition sub_cancel :: "string \<Rightarrow> sub_store \<Rightarrow> sub_store" where
  "sub_cancel = sub_set_state CANCELED"

definition sub_claimDue :: "int \<Rightarrow> nat \<Rightarrow> sub_store \<Rightarrow> subscription list" where
  "sub_claimDue now limit s = take limit (filter (\<lambda>x. subState x = ACTIVE \<and> subNextDueAt x \<le> now) (map snd s))"

definition sub_markBilled :: "string \<Rightarrow> int \<Rightarrow> int \<Rightarrow> sub_store \<Rightarrow> bool \<times> sub_store" where
  "sub_markBilled i nextDueAt expectedDueAt s =
     (case map_of s i of
        None \<Rightarrow> (False, s)
      | Some x \<Rightarrow>
          (if subNextDueAt x \<noteq> expectedDueAt then (False, s)
           else (True, AList.update i (x\<lparr>subNextDueAt := nextDueAt, subPeriod := subPeriod x + 1, subAttempts := 0\<rparr>) s)))"

definition sub_markLapsed :: "string \<Rightarrow> sub_store \<Rightarrow> sub_store" where
  "sub_markLapsed = sub_set_state LAPSED"

section \<open>Promo store\<close>

type_synonym promo_store = "(string \<times> promo_grant) list"

definition promo_open :: "promo_grant \<Rightarrow> promo_store \<Rightarrow> promo_store" where
  "promo_open g s = (if map_of s (grantId g) \<noteq> None then s else AList.update (grantId g) g s)"

definition promo_claimDue :: "int \<Rightarrow> nat \<Rightarrow> promo_store \<Rightarrow> promo_grant list" where
  "promo_claimDue now limit s =
     take limit (sort_key grantExpiresAt (filter (\<lambda>g. \<not> grantReversed g \<and> grantExpiresAt g \<le> now) (map snd s)))"

definition promo_markReversed :: "string \<Rightarrow> promo_store \<Rightarrow> promo_store" where
  "promo_markReversed i s =
     (case map_of s i of
        None \<Rightarrow> s
      | Some g \<Rightarrow> (if grantReversed g then s else AList.update i (g\<lparr>grantReversed := True\<rparr>) s))"

section \<open>Accrual store\<close>

record accrual_store =
  accRows :: "(string \<times> accrual_row) list"
  accOrderIx :: "string list"

definition empty_accruals :: accrual_store where
  "empty_accruals = \<lparr>accRows = [], accOrderIx = []\<rparr>"

definition acc_key :: "accrual_key \<Rightarrow> string" where
  "acc_key k = (case k of (orderId, seller, sq) \<Rightarrow> orderId @ ''::'' @ seller @ ''::'' @ nat_text sq)"

definition key_of_row :: "accrual_row \<Rightarrow> accrual_key" where
  "key_of_row r = (accOrder r, accSeller r, accSeq r)"

fun acc_put :: "accrual_row list \<Rightarrow> accrual_store \<Rightarrow> accrual_store res" where
  "acc_put [] s = Inr s"
| "acc_put (r # rs) s =
     (let i = acc_key (key_of_row r)
      in if map_of (accRows s) i \<noteq> None then Inl (HostError ''duplicate accrual row'')
         else acc_put rs (s\<lparr>accRows := AList.update i r (accRows s), accOrderIx := accOrderIx s @ [i]\<rparr>))"

definition selectAccruals :: "(accrual_row \<Rightarrow> bool) \<Rightarrow> accrual_store \<Rightarrow> accrual_row list" where
  "selectAccruals want s = filter want (List.map_filter (map_of (accRows s)) (accOrderIx s))"

definition acc_claimByOrder :: "string \<Rightarrow> accrual_store \<Rightarrow> accrual_row list" where
  "acc_claimByOrder orderId s = selectAccruals (\<lambda>r. accOrder r = orderId) s"

definition acc_pendingSellers :: "nat \<Rightarrow> accrual_store \<Rightarrow> string list" where
  "acc_pendingSellers limit s =
     take (max 1 limit) (rev (remdups (rev (map accSeller (selectAccruals (\<lambda>r. accStatus r = AccPending) s)))))"

definition claimSellerPending :: "string \<Rightarrow> nat \<Rightarrow> accrual_store \<Rightarrow> accrual_row list" where
  "claimSellerPending seller limit s =
     (let pending = selectAccruals (\<lambda>r. accSeller r = seller \<and> accStatus r = AccPending) s
      in take limit (filter (\<lambda>r. minor (accAmount r) > 0) pending @ filter (\<lambda>r. minor (accAmount r) < 0) pending))"

definition acc_mark :: "accrual_key list \<Rightarrow> accrual_status \<Rightarrow> string \<Rightarrow> accrual_store \<Rightarrow> accrual_store" where
  "acc_mark keys st txn s =
     fold (\<lambda>k s. case map_of (accRows s) (acc_key k) of
        None \<Rightarrow> s
      | Some r \<Rightarrow> (if accStatus r \<noteq> AccPending then s
                   else s\<lparr>accRows := AList.update (acc_key k) (r\<lparr>accStatus := st, accSettledTxn := Some txn\<rparr>) (accRows s)\<rparr>))
       keys s"

definition accrualStatsOf :: "int \<Rightarrow> accrual_store \<Rightarrow> int \<times> int option" where
  "accrualStatsOf now s =
     (let pending = filter (\<lambda>r. accStatus r = AccPending) (map snd (accRows s))
      in (\<Sum>r\<leftarrow>pending. if minor (accAmount r) > 0 then minor (accAmount r) else 0,
          map_option (\<lambda>t. now - t) (min_opt (map accRecordedAt pending))))"

definition acc_netPending :: "string \<Rightarrow> accrual_store \<Rightarrow> int" where
  "acc_netPending seller s =
     (\<Sum>r\<leftarrow>filter (\<lambda>r. accSeller r = seller \<and> accStatus r = AccPending) (map snd (accRows s)). minor (accAmount r))"

section \<open>Movement journal\<close>

record movement_store =
  mvLog :: "movement list"
  mvKeys :: "string list"
  mvPositions :: "string list"

definition empty_movements :: movement_store where
  "empty_movements = \<lparr>mvLog = [], mvKeys = [], mvPositions = []\<rparr>"

definition mv_position :: "movement \<Rightarrow> string" where
  "mv_position m = mvSession m @ ''::'' @ nat_text (mvSeq m)"

definition mv_append :: "movement list \<Rightarrow> movement_store \<Rightarrow> movement_store res" where
  "mv_append ms s =
     rbind (reach (\<lambda>m. rbind (ensure (mvKey m \<notin> set (mvKeys s)) (HostError ''duplicate movement idempotency key'')) (\<lambda>_.
              ensure (mv_position m \<notin> set (mvPositions s)) (HostError ''duplicate movement position''))) ms) (\<lambda>_.
     Inr \<lparr>mvLog = mvLog s @ ms, mvKeys = fold (\<lambda>m. List.insert (mvKey m)) ms (mvKeys s),
          mvPositions = fold (\<lambda>m. List.insert (mv_position m)) ms (mvPositions s)\<rparr>)"

text \<open>The batch is checked against what is stored, not against itself.\<close>

lemma batch_duplicate_appended:
  "\<exists>s. mv_append [m, m] empty_movements = Inr s \<and> mvLog s = [m, m]"
  by (simp add: mv_append_def empty_movements_def)

definition mv_bySession :: "string \<Rightarrow> movement_store \<Rightarrow> movement list" where
  "mv_bySession sid s = sort_key mvSeq (filter (\<lambda>m. mvSession m = sid) (mvLog s))"

definition mv_sessionIds :: "movement_store \<Rightarrow> string list" where
  "mv_sessionIds s = sort (remdups (map mvSession (mvLog s)))"

definition mv_pruneSession :: "string \<Rightarrow> movement_store \<Rightarrow> nat \<times> movement_store" where
  "mv_pruneSession sid s =
     (let own = filter (\<lambda>m. mvSession m = sid) (mvLog s)
      in (length own,
          \<lparr>mvLog = filter (\<lambda>m. mvSession m \<noteq> sid) (mvLog s),
           mvKeys = filter (\<lambda>k. k \<notin> mvKey ` set own) (mvKeys s),
           mvPositions = filter (\<lambda>p. p \<notin> mv_position ` set own) (mvPositions s)\<rparr>))"

section \<open>Reservations, checkpoints, replays\<close>

definition reservation_add :: "AccountRef \<Rightarrow> int \<Rightarrow> (AccountRef \<times> int) list \<Rightarrow> int \<times> (AccountRef \<times> int) list" where
  "reservation_add acct d s = (let total = getz s acct + d in (total, AList.update acct total s))"

definition reservation_pending :: "AccountRef \<Rightarrow> (AccountRef \<times> int) list \<Rightarrow> int" where
  "reservation_pending acct s = getz s acct"

definition reservation_entries :: "(AccountRef \<times> int) list \<Rightarrow> (AccountRef \<times> int) list" where
  "reservation_entries s = sort_key fst s"

type_synonym seal_head = "AccountRef \<times> string \<times> int"

record checkpoint_store =
  cpRows :: "checkpoint list"
  cpHeads :: "(AccountRef \<times> (string \<times> int)) list"
  cpArchiveHeads :: "(AccountRef \<times> (string \<times> int)) list"
  cpReproof :: "reproof_state option"
  cpArchive :: "archive_state option"

definition empty_checkpoints :: checkpoint_store where
  "empty_checkpoints = \<lparr>cpRows = [], cpHeads = [], cpArchiveHeads = [], cpReproof = None, cpArchive = None\<rparr>"

definition cp_put :: "checkpoint \<Rightarrow> checkpoint_store \<Rightarrow> checkpoint_store" where
  "cp_put c s = s\<lparr>cpRows := cpRows s @ [c]\<rparr>"

definition cp_latest :: "checkpoint_store \<Rightarrow> checkpoint option" where
  "cp_latest s = (if cpRows s = [] then None else Some (last (cpRows s)))"

definition cp_putSealHeads :: "seal_head list \<Rightarrow> bool \<Rightarrow> checkpoint_store \<Rightarrow> checkpoint_store" where
  "cp_putSealHeads leaves replaceAll s =
     s\<lparr>cpHeads := fold (\<lambda>(a, h, v). AList.update a (h, v)) leaves (if replaceAll then [] else cpHeads s)\<rparr>"

definition cp_sealHeads :: "checkpoint_store \<Rightarrow> seal_head list" where
  "cp_sealHeads s = map (\<lambda>(a, h, v). (a, h, v)) (cpHeads s)"

definition cp_putReproof :: "reproof_state \<Rightarrow> checkpoint_store \<Rightarrow> checkpoint_store" where
  "cp_putReproof r s = s\<lparr>cpReproof := Some r\<rparr>"

definition cp_archiveHeads :: "checkpoint_store \<Rightarrow> seal_head list" where
  "cp_archiveHeads s = map (\<lambda>(a, h, v). (a, h, v)) (cpArchiveHeads s)"

definition cp_putArchiveBoundary :: "archive_state \<Rightarrow> seal_head list \<Rightarrow> checkpoint_store \<Rightarrow> checkpoint_store" where
  "cp_putArchiveBoundary st rows s =
     s\<lparr>cpArchive := Some st, cpArchiveHeads := fold (\<lambda>(a, h, v). AList.update a (h, v)) rows (cpArchiveHeads s)\<rparr>"

definition replay_claim :: "string \<Rightarrow> string list \<Rightarrow> bool \<times> string list" where
  "replay_claim ev seen = (if ev \<in> set seen then (False, seen) else (True, ev # seen))"

end
