(* ===== verification/Chain.thy ===== *)
theory Chain
  imports Stores
begin

text \<open>
  src/chain.ts: the per-account hash chains and the signed Merkle checkpoint over their heads. A
  ledger is read through its heads, lineages, postings and links, which are the fields of
  \<open>chain_reads\<close>; the digest and the signer are parameters. The checkpoint store is the one of the
  theory Stores, which has every optional method. A \<open>res\<close> carries what a hash over unhashable
  metadata or a malformed stored hash throws.
\<close>

section \<open>What is read and reported\<close>

record chain_reads =
  cr_heads :: "(AccountRef \<times> string) list"
  cr_headSums :: "seal_head list"
  cr_lineage :: "AccountRef \<Rightarrow> string option \<Rightarrow> stored_link list"
  cr_posting :: "string \<Rightarrow> posting option"
  cr_links :: "string \<Rightarrow> link list"

text \<open>The reads of the in-memory ledger.\<close>

definition mem_reads :: "'a ledger_data_scheme \<Rightarrow> chain_reads" where
  "mem_reads s = \<lparr>cr_heads = sortedHeads (heads s), cr_headSums = headSumsOf s,
     cr_lineage = lineageOf (plog s), cr_posting = postingOf (plog s), cr_links = linksOf (plog s)\<rparr>"

datatype break_reason = BrokenLink | TamperedHash

record chain_break =
  brAccount :: AccountRef
  brTxn :: string
  brReason :: break_reason
  brExpected :: string
  brActual :: string

record chain_report =
  intact :: bool
  firstBreak :: "chain_break option"
  chainCount :: nat

section \<open>Advancing and proving chains\<close>

definition advanceHeads :: "digest \<Rightarrow> posting \<Rightarrow> (AccountRef \<Rightarrow> string option) \<Rightarrow> link list res" where
  "advanceHeads dig p prevHeadOf =
     rmap (\<lambda>acct.
       (let prevHex = (case prevHeadOf acct of Some h \<Rightarrow> h | None \<Rightarrow> GENESIS_HEX)
        in rbind (if prevHex = GENESIS_HEX then Inr GENESIS else fromHex prevHex) (\<lambda>prev.
           rbind (chainHash dig prev (txnId p) acct (legs p) (meta p)) (\<lambda>h.
             Inr \<lparr>laccount = acct, prevHash = prevHex, lhash = h\<rparr>)))) (distinctAccounts (legs p))"

definition recomputeLink :: "digest \<Rightarrow> AccountRef \<Rightarrow> stored_link \<Rightarrow> string res" where
  "recomputeLink dig acct lk =
     rbind (fromHex (kprev lk)) (\<lambda>prev. chainHash dig prev (ktxnId lk) acct (klegs lk) (kmeta lk))"

definition broken_link :: "AccountRef \<Rightarrow> string \<Rightarrow> string \<Rightarrow> string \<Rightarrow> chain_break" where
  "broken_link acct txn expected actual =
     \<lparr>brAccount = acct, brTxn = txn, brReason = BrokenLink, brExpected = expected, brActual = actual\<rparr>"

definition tampered_hash :: "AccountRef \<Rightarrow> string \<Rightarrow> string \<Rightarrow> string \<Rightarrow> chain_break" where
  "tampered_hash acct txn expected actual =
     \<lparr>brAccount = acct, brTxn = txn, brReason = TamperedHash, brExpected = expected, brActual = actual\<rparr>"

text \<open>The walk over one account's lineage, with the head reached, whether the anchor was seen and
  whether this is the first link.\<close>

fun recompute_walk ::
    "digest \<Rightarrow> AccountRef \<Rightarrow> string option \<Rightarrow> string \<Rightarrow> bool \<Rightarrow> bool \<Rightarrow> stored_link list \<Rightarrow> chain_break option res" where
  "recompute_walk dig acct anchor prev seen isFirst [] =
     Inr (if \<not> seen \<and> \<not> isFirst
          then Some (broken_link acct [] (case anchor of Some a \<Rightarrow> a | None \<Rightarrow> []) prev) else None)"
| "recompute_walk dig acct anchor prev seen isFirst (lk # lks) =
     (let anchored = isFirst \<and> anchor = Some (kprev lk);
          prev1 = (if anchored then kprev lk else prev);
          seen1 = (seen \<or> anchored)
      in if kprev lk \<noteq> prev1 \<and> (\<not> isFirst \<or> anchor = None)
         then Inr (Some (broken_link acct (ktxnId lk) prev1 (kprev lk)))
         else rbind (recomputeLink dig acct lk) (\<lambda>recomputed.
           if recomputed \<noteq> khash lk then Inr (Some (tampered_hash acct (ktxnId lk) recomputed (khash lk)))
           else recompute_walk dig acct anchor (khash lk) (seen1 \<or> Some (khash lk) = anchor) False lks))"

record boundary =
  anchors :: "(AccountRef \<times> string) list"
  rawSums :: "(AccountRef \<times> int) list"
  bstate :: archive_state

definition recomputeAccount :: "digest \<Rightarrow> chain_reads \<Rightarrow> boundary option \<Rightarrow> AccountRef \<Rightarrow> chain_break option res" where
  "recomputeAccount dig r bnd acct =
     (let anchor = (case bnd of None \<Rightarrow> None | Some b \<Rightarrow> map_of (anchors b) acct)
      in recompute_walk dig acct anchor GENESIS_HEX (anchor = None) True (cr_lineage r acct None))"

fun first_break :: "(AccountRef \<Rightarrow> chain_break option res) \<Rightarrow> AccountRef list \<Rightarrow> chain_break option res" where
  "first_break f [] = Inr None"
| "first_break f (a # as) = rbind (f a) (\<lambda>b. case b of Some br \<Rightarrow> Inr (Some br) | None \<Rightarrow> first_break f as)"

definition proveChain :: "digest \<Rightarrow> chain_reads \<Rightarrow> boundary option \<Rightarrow> chain_report res" where
  "proveChain dig r bnd =
     (let hs = sort_key fst (cr_heads r)
      in rbind (first_break (recomputeAccount dig r bnd) (map fst hs)) (\<lambda>b.
         Inr \<lparr>intact = (b = None), firstBreak = b, chainCount = length hs\<rparr>))"

section \<open>The verified read\<close>

text \<open>\<open>new Map\<close> over the links: a later link of the same account wins.\<close>

definition link_map :: "link list \<Rightarrow> (AccountRef \<times> link) list" where
  "link_map lks = fold (\<lambda>lk. AList.update (laccount lk) lk) lks []"

definition assertZeroSum :: "posting \<Rightarrow> unit res" where
  "assertZeroSum p =
     reach (\<lambda>(c, total). ensure (total = 0) (fault CHAIN_BROKEN)) (currency_sums (legs p))"

definition check_link :: "digest \<Rightarrow> posting \<Rightarrow> string \<Rightarrow> (AccountRef \<times> link) list \<Rightarrow> AccountRef \<Rightarrow> unit res" where
  "check_link dig p txn lks acct =
     (case map_of lks acct of
        None \<Rightarrow> Inl (fault CHAIN_BROKEN)
      | Some lk \<Rightarrow>
          rbind (fromHex (prevHash lk)) (\<lambda>prev.
          rbind (chainHash dig prev txn acct (legs p) (meta p)) (\<lambda>h.
            ensure (h = lhash lk) (fault CHAIN_BROKEN))))"

definition verifiedPosting :: "digest \<Rightarrow> chain_reads \<Rightarrow> string \<Rightarrow> posting option res" where
  "verifiedPosting dig r txn =
     (case cr_posting r txn of
        None \<Rightarrow> Inr None
      | Some p \<Rightarrow>
          rbind (reach (check_link dig p txn (link_map (cr_links r txn))) (distinctAccounts (legs p))) (\<lambda>_.
          rbind (assertZeroSum p) (\<lambda>_. Inr (Some p))))"

fun reproveLinks :: "digest \<Rightarrow> stored_link list \<Rightarrow> chain_break option res" where
  "reproveLinks dig [] = Inr None"
| "reproveLinks dig (lk # lks) =
     rbind (recomputeLink dig (kaccount lk) lk) (\<lambda>recomputed.
       if recomputed \<noteq> khash lk then Inr (Some (tampered_hash (kaccount lk) (ktxnId lk) recomputed (khash lk)))
       else reproveLinks dig lks)"

section \<open>Merkle roots\<close>

definition leafPreimage :: "AccountRef \<Rightarrow> string \<Rightarrow> byte list" where
  "leafPreimage acct head_hex = 0 # utf8 (acct @ '':'' @ head_hex)"

definition nodePreimage :: "byte list \<Rightarrow> byte list \<Rightarrow> byte list" where
  "nodePreimage l r = 1 # l @ r"

fun combineLevel :: "('a \<Rightarrow> 'a \<Rightarrow> 'a res) \<Rightarrow> 'a list \<Rightarrow> 'a list res" where
  "combineLevel f (l # r # rest) = rbind (f l r) (\<lambda>n. rbind (combineLevel f rest) (\<lambda>ns. Inr (n # ns)))"
| "combineLevel f level = Inr level"

lemma combineLevel_length: "combineLevel f level = Inr up \<Longrightarrow> length up = (length level + 1) div 2"
  by (induction f level arbitrary: up rule: combineLevel.induct) auto

text \<open>The while loop over the levels; it ends because a level of more than one node shrinks.\<close>

function reduce_levels :: "('a \<Rightarrow> 'a \<Rightarrow> 'a res) \<Rightarrow> 'a list \<Rightarrow> 'a list res" where
  "reduce_levels f level =
     (if length level > 1
      then (case combineLevel f level of Inl e \<Rightarrow> Inl e | Inr up \<Rightarrow> reduce_levels f up)
      else Inr level)"
  by pat_completeness auto

termination reduce_levels
  by (relation "measure (\<lambda>(f, level). length level)") (auto dest!: combineLevel_length)

declare reduce_levels.simps [simp del]

definition merkleRoot :: "digest \<Rightarrow> (AccountRef \<times> string) list \<Rightarrow> byte list res" where
  "merkleRoot dig hs =
     (let level = map (\<lambda>(a, h). dig (leafPreimage a h)) (sort_key fst hs)
      in rbind (reduce_levels (\<lambda>l r. Inr (dig (nodePreimage l r))) level) (\<lambda>top.
         Inr (case top of [] \<Rightarrow> replicate 32 0 | x # _ \<Rightarrow> x)))"

definition sumLeafPreimage :: "AccountRef \<Rightarrow> string \<Rightarrow> int \<Rightarrow> byte list res" where
  "sumLeafPreimage acct head_hex v =
     rbind (toInt64BE v) (\<lambda>b. Inr (2 # utf8 (acct @ '':'' @ head_hex @ '':'') @ b))"

definition sumNodePreimage :: "byte list \<times> int \<Rightarrow> byte list \<times> int \<Rightarrow> byte list res" where
  "sumNodePreimage l r = rbind (toInt64BE (snd l + snd r)) (\<lambda>b. Inr (3 # fst l @ fst r @ b))"

definition sum_leaf :: "digest \<Rightarrow> seal_head \<Rightarrow> (byte list \<times> int) res" where
  "sum_leaf dig leaf = (case leaf of (a, h, v) \<Rightarrow> rbind (sumLeafPreimage a h v) (\<lambda>p. Inr (dig p, v)))"

definition sum_node :: "digest \<Rightarrow> byte list \<times> int \<Rightarrow> byte list \<times> int \<Rightarrow> (byte list \<times> int) res" where
  "sum_node dig l r = rbind (sumNodePreimage l r) (\<lambda>p. Inr (dig p, snd l + snd r))"

definition merkleSumRoot :: "digest \<Rightarrow> seal_head list \<Rightarrow> (byte list \<times> int) res" where
  "merkleSumRoot dig leaves =
     rbind (rmap (sum_leaf dig) (sort_key fst leaves)) (\<lambda>level.
     rbind (reduce_levels (sum_node dig) level) (\<lambda>top.
       Inr (case top of [] \<Rightarrow> (replicate 32 0, 0) | x # _ \<Rightarrow> x)))"

definition sumRootPayload :: "byte list \<times> int \<Rightarrow> byte list res" where
  "sumRootPayload root = rbind (toInt64BE (snd root)) (\<lambda>b. Inr (fst root @ b))"

section \<open>The archival boundary\<close>

record signer =
  sg_sign :: "byte list \<Rightarrow> byte list"
  sg_verify :: "byte list \<Rightarrow> byte list \<Rightarrow> bool"
  sg_kid :: "string option"

definition ARCHIVE_DOMAIN :: "byte list" where
  "ARCHIVE_DOMAIN = utf8 ''economy-lab:archive-heads:v1''"

definition archivePayload :: "byte list \<times> int \<Rightarrow> byte list res" where
  "archivePayload root = rbind (sumRootPayload root) (\<lambda>b. Inr (ARCHIVE_DOMAIN @ b))"

definition verifyArchiveHeads :: "digest \<Rightarrow> signer \<Rightarrow> seal_head list \<Rightarrow> archive_state \<Rightarrow> bool res" where
  "verifyArchiveHeads dig sg rows st =
     rbind (merkleSumRoot dig rows) (\<lambda>root.
       if toHex (fst root) \<noteq> arRoot st then Inr False
       else rbind (archivePayload root) (\<lambda>payl. rbind (fromHex (arSignature st)) (\<lambda>sig.
         Inr (sg_verify sg payl sig))))"

definition loadArchiveBoundary :: "digest \<Rightarrow> signer \<Rightarrow> checkpoint_store \<Rightarrow> boundary option res" where
  "loadArchiveBoundary dig sg cps =
     (case cpArchive cps of
        None \<Rightarrow> Inr None
      | Some st \<Rightarrow>
          (let rows = cp_archiveHeads cps
           in rbind (verifyArchiveHeads dig sg rows st) (\<lambda>ok.
              if \<not> ok then Inl (fault_retryable CHAIN_BROKEN False)
              else Inr (Some \<lparr>anchors = fold (\<lambda>(a, h, v). AList.update a h) rows [],
                     rawSums = fold (\<lambda>(a, h, v). AList.update a v) rows [], bstate = st\<rparr>))))"

definition mergeArchiveSums :: "seal_head list \<Rightarrow> boundary option \<Rightarrow> seal_head list" where
  "mergeArchiveSums live_heads bnd =
     (case bnd of
        None \<Rightarrow> live_heads
      | Some b \<Rightarrow>
          map (\<lambda>(a, h, v). (a, h, v + getz (rawSums b) a)) live_heads @
          map (\<lambda>(a, v). (a, the (map_of (anchors b) a), v))
            (filter (\<lambda>(a, v). a \<notin> fst ` set live_heads) (rawSums b)))"

section \<open>Checkpoints\<close>

datatype seal_plan = SealFull | SealIncremental "seal_head list" "(AccountRef \<times> string) list"

definition planSeal :: "digest \<Rightarrow> signer \<Rightarrow> checkpoint_store \<Rightarrow> seal_head list \<Rightarrow> seal_plan res" where
  "planSeal dig sg cps liveLeaves =
     (let snapshot = cp_sealHeads cps in
      case cp_latest cps of
        None \<Rightarrow> Inr SealFull
      | Some latest \<Rightarrow>
          (if snapshot = [] \<or> cpVersion latest \<noteq> 2 \<or> cpSum latest = None then Inr SealFull
           else rbind (merkleSumRoot dig snapshot) (\<lambda>root.
             if toHex (fst root) \<noteq> cpRoot latest \<or> Some (int_text (snd root)) \<noteq> cpSum latest then Inr SealFull
             else rbind (sumRootPayload root) (\<lambda>payl. rbind (fromHex (cpSignature latest)) (\<lambda>sig.
               if \<not> sg_verify sg payl sig then Inr SealFull
               else
                 let since = fold (\<lambda>(a, h, v). AList.update a h) snapshot [] in
                 rbind (reach (\<lambda>a. ensure (a \<in> fst ` set liveLeaves) (fault_retryable CHAIN_BROKEN False)) (map fst since)) (\<lambda>_.
                 Inr (SealIncremental (filter (\<lambda>(a, h, v). map_of since a \<noteq> Some h) liveLeaves) since)))))))"

fun tail_walk ::
    "digest \<Rightarrow> AccountRef \<Rightarrow> string \<Rightarrow> string \<Rightarrow> bool \<Rightarrow> stored_link list \<Rightarrow> chain_break option res" where
  "tail_walk dig acct liveHead prev reached [] =
     Inr (if reached then None else Some (broken_link acct [] liveHead prev))"
| "tail_walk dig acct liveHead prev reached (lk # lks) =
     (if kprev lk \<noteq> prev then Inr (Some (broken_link acct (ktxnId lk) prev (kprev lk)))
      else rbind (recomputeLink dig acct lk) (\<lambda>recomputed.
        if recomputed \<noteq> khash lk then Inr (Some (tampered_hash acct (ktxnId lk) recomputed (khash lk)))
        else tail_walk dig acct liveHead (khash lk) (reached \<or> khash lk = liveHead) lks))"

fun proveDirtyTails :: "digest \<Rightarrow> chain_reads \<Rightarrow> (AccountRef \<times> string) list \<Rightarrow> seal_head list \<Rightarrow> chain_break option res" where
  "proveDirtyTails dig r since [] = Inr None"
| "proveDirtyTails dig r since ((a, liveHead, v) # dirty) =
     (let sinceHash = map_of since a
      in rbind (tail_walk dig a liveHead (case sinceHash of Some h \<Rightarrow> h | None \<Rightarrow> GENESIS_HEX) False
                 (cr_lineage r a sinceHash)) (\<lambda>b.
         case b of Some br \<Rightarrow> Inr (Some br) | None \<Rightarrow> proveDirtyTails dig r since dirty))"

definition recordCheckpoint ::
    "digest \<Rightarrow> signer \<Rightarrow> int \<Rightarrow> string \<Rightarrow> chain_reads \<Rightarrow> (checkpoint_store, checkpoint) act" where
  "recordCheckpoint dig sg now newId r cps =
     rbind (loadArchiveBoundary dig sg cps) (\<lambda>bnd.
     let leaves = mergeArchiveSums (cr_headSums r) bnd in
     rbind (planSeal dig sg cps leaves) (\<lambda>plan.
     rbind (case plan of
              SealIncremental dirty since \<Rightarrow> proveDirtyTails dig r since dirty
            | SealFull \<Rightarrow> rbind (proveChain dig r bnd) (\<lambda>rep. Inr (firstBreak rep))) (\<lambda>broken.
     if broken \<noteq> None then Inl (fault_retryable CHAIN_BROKEN False)
     else rbind (merkleSumRoot dig leaves) (\<lambda>root.
       if snd root \<noteq> 0 then Inl (fault_retryable LEDGER_UNBALANCED False)
       else rbind (sumRootPayload root) (\<lambda>payl.
         let cp = \<lparr>cpId = newId, cpRoot = toHex (fst root), cpSignature = toHex (sg_sign sg payl),
                   cpCount = length leaves, cpAt = now, cpVersion = 2, cpSum = Some (int_text (snd root)),
                   cpKid = sg_kid sg\<rparr>;
             cps1 = cp_put cp cps
         in Inr (cp, case plan of
              SealIncremental dirty since \<Rightarrow> cp_putSealHeads dirty False cps1
            | SealFull \<Rightarrow> cp_putSealHeads leaves True cps1))))))"

definition parse_sum :: "string \<Rightarrow> int" where
  "parse_sum s = (if starts_with ''-'' s then - int (digits_val (tl s)) else int (digits_val s))"

definition verifyCheckpoint :: "digest \<Rightarrow> signer \<Rightarrow> chain_reads \<Rightarrow> checkpoint \<Rightarrow> bool res" where
  "verifyCheckpoint dig sg r cp =
     (if cpVersion cp = 2
      then
        (let leaves = cr_headSums r
         in if length leaves < cpCount cp then Inr False
            else rbind (merkleSumRoot dig leaves) (\<lambda>root.
              if toHex (fst root) \<noteq> cpRoot cp then Inr False
              else if (case cpSum cp of None \<Rightarrow> True | Some t \<Rightarrow> parse_sum t \<noteq> snd root) then Inr False
              else rbind (sumRootPayload root) (\<lambda>payl. rbind (fromHex (cpSignature cp)) (\<lambda>sig.
                Inr (sg_verify sg payl sig)))))
      else
        (let hs = cr_heads r
         in if length hs < cpCount cp then Inr False
            else rbind (merkleRoot dig hs) (\<lambda>root.
              if toHex root \<noteq> cpRoot cp then Inr False
              else rbind (fromHex (cpRoot cp)) (\<lambda>payl. rbind (fromHex (cpSignature cp)) (\<lambda>sig.
                Inr (sg_verify sg payl sig))))))"

section \<open>The links of a reachable ledger\<close>

text \<open>A stored posting whose every account has a link that hashes to what it records.\<close>

definition row_linked :: "digest \<Rightarrow> stored \<Rightarrow> bool" where
  "row_linked dig row \<longleftrightarrow> laccount ` set (links row) = account ` set (legs row) \<and> (\<forall>a \<in> account ` set (legs row). \<exists>lk prev. map_of (link_map (links row)) a = Some lk \<and>
     fromHex (prevHash lk) = Inr prev \<and> chainHash dig prev (txnId row) a (legs row) (meta row) = Inr (lhash lk))"

lemma map_of_link_map:
  assumes "distinct (map laccount lks)" "lk \<in> set lks"
  shows "map_of (link_map lks) (laccount lk) = Some lk"
proof -
  have other: "b \<notin> laccount ` set xs \<Longrightarrow> map_of (fold (\<lambda>k. AList.update (laccount k) k) xs m) b = map_of m b" for xs m b
    by (induction xs arbitrary: m) auto
  have "map_of (fold (\<lambda>k. AList.update (laccount k) k) lks m) (laccount lk) = Some lk" for m
    using assms by (induction lks arbitrary: m) (auto simp: other)
  then show ?thesis by (simp add: link_map_def)
qed

lemma link_map_Some: "map_of (link_map lks) a = Some lk \<Longrightarrow> lk \<in> set lks \<and> laccount lk = a"
proof -
  have "map_of (fold (\<lambda>k. AList.update (laccount k) k) lks m) a = Some lk \<Longrightarrow>
      lk \<in> set lks \<and> laccount lk = a \<or> map_of m a = Some lk" for m
    by (induction lks arbitrary: m) (fastforce split: if_splits)+
  from this [of "[]"] show "map_of (link_map lks) a = Some lk \<Longrightarrow> lk \<in> set lks \<and> laccount lk = a"
    by (simp add: link_map_def)
qed

lemma fromHex_genesis [simp]: "fromHex GENESIS_HEX = Inr GENESIS"
proof -
  have z: "hex_char 0 = CHR ''0''" by code_simp
  have "toHex (replicate n 0) = replicate (2 * n) CHR ''0''" for n
    by (induction n) (simp_all add: toHex_def HEX_digits z)
  from this [of 32] show ?thesis by (simp add: fromHex_iff_toHex GENESIS_def GENESIS_HEX_def)
qed

lemma advanced_row_linked:
  assumes "advanceChain dig s p = Inr lks" "txnId row = txnId p" "legs row = legs p" "meta row = meta p" "links row = lks"
  shows "row_linked dig row"
  unfolding row_linked_def
proof (intro conjI ballI)
  note adv = advanceChain_Inr [OF assms(1)]
  have accts: "map laccount lks = distinctAccounts (legs p)"
    using list_all2_mono [OF adv, of "\<lambda>a lk. laccount lk = a"]
    by (auto simp: list_eq_iff_nth_eq list_all2_conv_all_nth)
  then show "laccount ` set (links row) = account ` set (legs row)"
    by (metis assms(3,5) distinctAccounts_facts(2) set_map)
  fix a assume a: "a \<in> account ` set (legs row)"
  from accts have d: "distinct (map laccount lks)" by simp
  from a have "a \<in> set (distinctAccounts (legs p))" by (simp add: assms(3))
  then obtain i where i: "i < length (distinctAccounts (legs p))" "a = distinctAccounts (legs p) ! i"
    by (metis in_set_conv_nth)
  let ?lk = "lks ! i"
  from list_all2_nthD [OF adv i(1)] obtain prev where lk: "laccount ?lk = a"
    "(if prevHash ?lk = GENESIS_HEX then Inr GENESIS else fromHex (prevHash ?lk)) = Inr prev"
    "chainHash dig prev (txnId p) a (legs p) (meta p) = Inr (lhash ?lk)" by (auto simp: i(2))
  have "?lk \<in> set lks" using i(1) list_all2_lengthD [OF adv] by simp
  then have "map_of (link_map lks) a = Some ?lk" using map_of_link_map [OF d] lk(1) by metis
  moreover have "fromHex (prevHash ?lk) = Inr prev" using lk(2) by (auto split: if_splits)
  ultimately show "\<exists>lk prev. map_of (link_map (links row)) a = Some lk \<and> fromHex (prevHash lk) = Inr prev \<and>
      chainHash dig prev (txnId row) a (legs row) (meta row) = Inr (lhash lk)"
    using lk(3) by (auto simp: assms)
qed

lemma ledger_reach_linked: "ledger_reach dig s \<Longrightarrow> \<forall>row \<in> set (plog s). row_linked dig row"
proof (induction rule: ledger_reach.induct)
  case (lr_post s now p t s')
  obtain lks st where a: "advanceChain dig s (dropZeroLegs p) = Inr lks" and
    st: "st = \<lparr>txnId = txnId p, legs = legs (dropZeroLegs p), meta = meta p, postedAt = now, links = lks,
       pseq = seqno s + 1\<rparr>" and
    c: "commitPosting (s\<lparr>seqno := seqno s + 1\<rparr>) st = Inr s'"
    by (rule postEntry_commit [OF lr_post.hyps(2)])
  have "row_linked dig st"
    by (rule advanced_row_linked [OF a]) (simp_all add: st dropZeroLegs_sel)
  then show ?case using commitPosting_Inr(1) [OF c] lr_post.IH by simp
qed (simp_all add: empty_ledger_def)

lemma assertZeroSum_Inr: "assertZeroSum p = Inr () \<longleftrightarrow> (\<forall>c. cur_sum c (legs p) = 0)"
proof -
  have "assertZeroSum p = Inr () \<longleftrightarrow> (\<forall>(c, t) \<in> set (currency_sums (legs p)). t = 0)"
    by (auto simp: assertZeroSum_def)
  also have "\<dots> \<longleftrightarrow> (\<forall>c. cur_sum c (legs p) = 0)"
    using getz_mem [OF currency_sums_facts(2), of _ _ "legs p"] getz_not_key [of _ "currency_sums (legs p)"]
    by (fastforce simp: currency_sums_facts(1))
  finally show ?thesis .
qed

lemma find_in: "find P xs = Some x \<Longrightarrow> x \<in> set xs \<and> P x"
  by (auto simp: find_Some_iff)

lemma verifiedPosting_reach:
  assumes "ledger_reach dig s"
  shows "verifiedPosting dig (mem_reads s) txn = Inr (postingOf (plog s) txn)"
proof (cases "find (\<lambda>row. txnId row = txn) (plog s)")
  case None
  then show ?thesis by (simp add: verifiedPosting_def mem_reads_def postingOf_def)
next
  case (Some row)
  then have row: "row \<in> set (plog s)" "txnId row = txn" using find_in [OF Some] by auto
  have l: "row_linked dig row" using ledger_reach_linked [OF assms] row(1) by blast
  have "\<forall>c. cur_sum c (legs row) = 0" using ledger_reach_books [OF assms] row(1) by (auto simp: books_ok_def)
  then have z: "assertZeroSum (posting.truncate row) = Inr ()"
    by (simp add: assertZeroSum_Inr posting.defs)
  have "check_link dig (posting.truncate row) txn (link_map (links row)) a = Inr ()"
    if a: "a \<in> account ` set (legs row)" for a
  proof -
    obtain lk prev where "map_of (link_map (links row)) a = Some lk" "fromHex (prevHash lk) = Inr prev"
      "chainHash dig prev (txnId row) a (legs row) (meta row) = Inr (lhash lk)"
      using l a unfolding row_linked_def by blast
    then show ?thesis by (simp add: check_link_def posting.defs row(2))
  qed
  then have "reach (check_link dig (posting.truncate row) txn (link_map (links row)))
      (distinctAccounts (legs (posting.truncate row))) = Inr ()"
    by (simp add: posting.defs)
  with z show ?thesis
    by (simp add: verifiedPosting_def mem_reads_def postingOf_def linksOf_def Some)
qed

section \<open>What a head commits to\<close>

text \<open>The bytes a stored link hashes, and two links of an account that agree on all they commit to.\<close>

definition link_message :: "AccountRef \<Rightarrow> stored_link \<Rightarrow> byte list res" where
  "link_message a lk =
     rbind (fromHex (kprev lk)) (\<lambda>prev. chainPreimage prev (ktxnId lk) a (klegs lk) (kmeta lk))"

definition same_link :: "AccountRef \<Rightarrow> stored_link \<Rightarrow> stored_link \<Rightarrow> bool" where
  "same_link a l k \<longleftrightarrow> ktxnId l = ktxnId k \<and> own_bag a (klegs l) = own_bag a (klegs k) \<and>
     canonicalMeta (JObj (kmeta l)) = canonicalMeta (JObj (kmeta k)) \<and> kprev l = kprev k \<and> khash l = khash k"

text \<open>
  A digest failure among given messages: two different ones with one digest, or one whose digest is
  the genesis hash.
\<close>

definition digest_failure :: "digest \<Rightarrow> byte list list \<Rightarrow> bool" where
  "digest_failure dig ms \<longleftrightarrow>
     (\<exists>x \<in> set ms. dig x = GENESIS \<or> (\<exists>y \<in> set ms. x \<noteq> y \<and> dig x = dig y))"

lemma digest_failure_mono: "digest_failure dig ms \<Longrightarrow> set ms \<subseteq> set ns \<Longrightarrow> digest_failure dig ns"
  unfolding digest_failure_def by blast

definition bounded_link :: "AccountRef \<Rightarrow> stored_link \<Rightarrow> bool" where
  "bounded_link a lk \<longleftrightarrow> (\<forall>l \<in> set (klegs lk). in_i64 (minor (amount l))) \<and>
     (case link_message a lk of Inr m \<Rightarrow> length m < 2 ^ 32 | Inl _ \<Rightarrow> True)"

definition link_messages :: "AccountRef \<Rightarrow> stored_link list \<Rightarrow> byte list list" where
  "link_messages a lks = List.map_filter (\<lambda>lk. case link_message a lk of Inr m \<Rightarrow> Some m | Inl _ \<Rightarrow> None) lks"

lemma link_messages_set: "m \<in> set (link_messages a lks) \<longleftrightarrow> (\<exists>lk \<in> set lks. link_message a lk = Inr m)"
  by (force simp: link_messages_def List.map_filter_def split: sum.splits)

lemma link_messages_mono: "set xs \<subseteq> set ys \<Longrightarrow> set (link_messages a xs) \<subseteq> set (link_messages a ys)"
  unfolding subset_iff link_messages_set by blast

text \<open>\<open>replays dig a prev lks\<close>: the links continue from \<open>prev\<close> and each hashes to what it records.\<close>

fun replays :: "digest \<Rightarrow> AccountRef \<Rightarrow> string \<Rightarrow> stored_link list \<Rightarrow> bool" where
  "replays dig a prev [] = True"
| "replays dig a prev (lk # lks) = (kprev lk = prev \<and> recomputeLink dig a lk = Inr (khash lk) \<and> replays dig a (khash lk) lks)"

definition end_of :: "string \<Rightarrow> stored_link list \<Rightarrow> string" where
  "end_of prev lks = (if lks = [] then prev else khash (last lks))"

lemma recompute_walk_replays:
  "recompute_walk dig a None prev True f lks = Inr None \<longleftrightarrow> replays dig a prev lks"
  by (induction lks arbitrary: prev f) auto

lemma replays_snoc:
  "replays dig a prev (lks @ [lk]) \<longleftrightarrow>
     replays dig a prev lks \<and> kprev lk = end_of prev lks \<and> recomputeLink dig a lk = Inr (khash lk)"
  by (induction lks arbitrary: prev) (auto simp: end_of_def)

lemma recomputeLink_Inr:
  "recomputeLink dig a lk = Inr h \<longleftrightarrow> (\<exists>m. link_message a lk = Inr m \<and> h = toHex (dig m))"
  by (auto simp: recomputeLink_def link_message_def chainHash_def)

lemma toHex_genesis: "toHex GENESIS = GENESIS_HEX"
  using fromHex_genesis fromHex_iff_toHex by blast

lemma last_links_agree:
  assumes "recomputeLink dig a l = Inr h" "recomputeLink dig a k = Inr h" "khash l = h" "khash k = h"
    and "bounded_link a l" "bounded_link a k" "\<not> digest_failure dig (link_messages a [l, k])"
  shows "same_link a l k"
proof -
  obtain m n where m: "link_message a l = Inr m" "link_message a k = Inr n" "toHex (dig m) = toHex (dig n)"
    using assms(1,2) by (auto simp: recomputeLink_Inr)
  then have "m \<in> set (link_messages a [l, k])" "n \<in> set (link_messages a [l, k])"
    by (auto simp: link_messages_set)
  then have eq: "m = n" using assms(7) m(3) by (auto simp: digest_failure_def)
  obtain p q where p: "fromHex (kprev l) = Inr p" "chainPreimage p (ktxnId l) a (klegs l) (kmeta l) = Inr m"
    and q: "fromHex (kprev k) = Inr q" "chainPreimage q (ktxnId k) a (klegs k) (kmeta k) = Inr m"
    using m(1,2) by (auto simp: link_message_def eq)
  have b: "\<forall>x \<in> set (klegs l) \<union> set (klegs k). in_i64 (minor (amount x))" "length m < 2 ^ 32"
    using assms(5,6) m(1) by (auto simp: bounded_link_def)
  from chainPreimage_commits [OF p(2) q(2) b] p(1) q(1) show ?thesis
    by (simp add: same_link_def assms(3,4) fromHex_iff_toHex)
qed

lemma replays_commit:
  assumes "replays dig a GENESIS_HEX lks" "replays dig a GENESIS_HEX ks"
    and "end_of GENESIS_HEX lks = end_of GENESIS_HEX ks"
    and "\<forall>lk \<in> set lks \<union> set ks. bounded_link a lk" "\<not> digest_failure dig (link_messages a (lks @ ks))"
  shows "list_all2 (same_link a) lks ks"
  using assms
proof (induction lks arbitrary: ks rule: rev_induct)
  case Nil
  show ?case
  proof (cases ks rule: rev_cases)
    case (snoc js k)
    then have "recomputeLink dig a k = Inr GENESIS_HEX"
      using Nil.prems(2,3) by (simp add: replays_snoc end_of_def)
    then obtain m where m: "link_message a k = Inr m" "toHex (dig m) = GENESIS_HEX" by (auto simp: recomputeLink_Inr)
    then have "dig m = GENESIS" by (simp flip: toHex_genesis)
    moreover have "m \<in> set (link_messages a ([] @ ks))" using m(1) by (auto simp: link_messages_set snoc)
    ultimately show ?thesis using Nil.prems(5) by (auto simp: digest_failure_def)
  qed simp
next
  case (snoc l ls)
  have l: "recomputeLink dig a l = Inr (khash l)" "kprev l = end_of GENESIS_HEX ls" "replays dig a GENESIS_HEX ls"
    using snoc.prems(1) by (simp_all add: replays_snoc)
  show ?case
  proof (cases ks rule: rev_cases)
    case Nil
    then have "recomputeLink dig a l = Inr GENESIS_HEX" using l(1) snoc.prems(3) by (simp add: end_of_def)
    then obtain m where m: "link_message a l = Inr m" "toHex (dig m) = GENESIS_HEX" by (auto simp: recomputeLink_Inr)
    then have "dig m = GENESIS" by (simp flip: toHex_genesis)
    moreover have "m \<in> set (link_messages a ((ls @ [l]) @ ks))" using m(1) by (auto simp: link_messages_set)
    ultimately show ?thesis using snoc.prems(5) by (auto simp: digest_failure_def)
  next
    case (snoc js k)
    note ks = this
    have k: "recomputeLink dig a k = Inr (khash k)" "kprev k = end_of GENESIS_HEX js" "replays dig a GENESIS_HEX js"
      using snoc.prems(2) by (simp_all add: replays_snoc ks)
    have h: "khash l = khash k" using snoc.prems(3) by (simp add: end_of_def ks)
    have nf: "\<not> digest_failure dig (link_messages a xs)" if "set xs \<subseteq> set ((ls @ [l]) @ ks)" for xs
      using snoc.prems(5) digest_failure_mono [OF _ link_messages_mono [OF that, of a], of dig] by blast
    have same: "same_link a l k"
      by (rule last_links_agree [OF l(1)]) (use k(1) h snoc.prems(4) nf [of "[l, k]"] ks in auto)
    then have "end_of GENESIS_HEX ls = end_of GENESIS_HEX js" using l(2) k(2) by (simp add: same_link_def)
    then have "list_all2 (same_link a) ls js"
      by (rule snoc.IH [OF l(3) k(3)]) (use snoc.prems(4) nf [of "ls @ js"] ks in auto)
    with same show ?thesis by (simp add: ks list_all2_appendI)
  qed
qed

section \<open>Sealing and re-verifying\<close>

lemma parse_sum_0 [simp]: "parse_sum (int_text 0) = 0"
  by code_simp

lemma merkleSumRoot_empty [simp]: "merkleSumRoot dig [] = Inr (replicate 32 0, 0)"
  by (simp add: merkleSumRoot_def reduce_levels.simps)

lemma sealed_root:
  assumes "recordCheckpoint dig sg now i r cps = Inr (cp, cps')" "cpArchive cps = None"
  obtains h p where "merkleSumRoot dig (cr_headSums r) = Inr (h, 0)" "sumRootPayload (h, 0) = Inr p"
    "cp = \<lparr>cpId = i, cpRoot = toHex h, cpSignature = toHex (sg_sign sg p), cpCount = length (cr_headSums r),
       cpAt = now, cpVersion = 2, cpSum = Some (int_text 0), cpKid = sg_kid sg\<rparr>"
  using assms
  by (auto simp: recordCheckpoint_def loadArchiveBoundary_def mergeArchiveSums_def Let_def split: if_splits prod.splits)

text \<open>A sealed checkpoint verifies for whoever accepts the signatures of its sealer.\<close>

lemma sealed_verifies:
  assumes "recordCheckpoint dig sg now i r cps = Inr (cp, cps')" "cpArchive cps = None" "\<forall>p. sg_verify sg' p (sg_sign sg p)"
  shows "verifyCheckpoint dig sg' r cp = Inr True \<and> cp_latest cps' = Some cp"
proof -
  obtain h p where m: "merkleSumRoot dig (cr_headSums r) = Inr (h, 0)" "sumRootPayload (h, 0) = Inr p"
    and cp: "cp = \<lparr>cpId = i, cpRoot = toHex h, cpSignature = toHex (sg_sign sg p), cpCount = length (cr_headSums r),
       cpAt = now, cpVersion = 2, cpSum = Some (int_text 0), cpKid = sg_kid sg\<rparr>"
    by (rule sealed_root [OF assms(1,2)])
  have "fromHex (toHex (sg_sign sg p)) = Inr (sg_sign sg p)" by (simp add: fromHex_iff_toHex)
  then have "verifyCheckpoint dig sg' r cp = Inr True"
    using m assms(3) by (simp add: verifyCheckpoint_def cp Let_def)
  moreover have "cp_latest cps' = Some cp"
    using assms(1) by (auto simp: recordCheckpoint_def Let_def cp_latest_def cp_put_def cp_putSealHeads_def
        split: if_splits seal_plan.splits)
  ultimately show ?thesis by blast
qed

section \<open>The tree of a sum root\<close>

text \<open>The tree a Merkle root folds, and the messages its nodes hash.\<close>

datatype mtree = MLeaf seal_head | MNode mtree mtree

fun leaves_of :: "mtree \<Rightarrow> seal_head list" where
  "leaves_of (MLeaf x) = [x]"
| "leaves_of (MNode l r) = leaves_of l @ leaves_of r"

fun tree_node :: "digest \<Rightarrow> mtree \<Rightarrow> (byte list \<times> int) res" where
  "tree_node dig (MLeaf x) = sum_leaf dig x"
| "tree_node dig (MNode l r) = rbind (tree_node dig l) (\<lambda>a. rbind (tree_node dig r) (\<lambda>b. sum_node dig a b))"

definition node_message :: "digest \<Rightarrow> mtree \<Rightarrow> byte list res" where
  "node_message dig t = (case t of
     MLeaf (a, h, v) \<Rightarrow> sumLeafPreimage a h v
   | MNode l r \<Rightarrow> rbind (tree_node dig l) (\<lambda>a. rbind (tree_node dig r) (\<lambda>b. sumNodePreimage a b)))"

fun subtrees :: "mtree \<Rightarrow> mtree list" where
  "subtrees (MLeaf x) = [MLeaf x]"
| "subtrees (MNode l r) = MNode l r # subtrees l @ subtrees r"

definition tree_messages :: "digest \<Rightarrow> mtree \<Rightarrow> byte list list" where
  "tree_messages dig t = List.map_filter (\<lambda>u. case node_message dig u of Inr m \<Rightarrow> Some m | Inl _ \<Rightarrow> None) (subtrees t)"

definition sum_tree :: "seal_head list \<Rightarrow> mtree list res" where
  "sum_tree leaves = reduce_levels (\<lambda>l r. Inr (MNode l r)) (map MLeaf (sort_key fst leaves))"

definition two_messages :: "digest \<Rightarrow> byte list list \<Rightarrow> bool" where
  "two_messages dig ms \<longleftrightarrow> (\<exists>x \<in> set ms. \<exists>y \<in> set ms. x \<noteq> y \<and> dig x = dig y)"

lemma tree_messages_set: "m \<in> set (tree_messages dig t) \<longleftrightarrow> (\<exists>u \<in> set (subtrees t). node_message dig u = Inr m)"
  by (force simp: tree_messages_def List.map_filter_def split: sum.splits)

lemma combineLevel_tree:
  assumes "combineLevel (sum_node dig) level = Inr up" "list_all2 (\<lambda>t n. tree_node dig t = Inr n) ts level"
  obtains us where "combineLevel (\<lambda>l r. Inr (MNode l r)) ts = Inr us" "list_all2 (\<lambda>t n. tree_node dig t = Inr n) us up"
    "concat (map leaves_of us) = concat (map leaves_of ts)"
proof -
  have "\<exists>us. combineLevel (\<lambda>l r. Inr (MNode l r)) ts = Inr us \<and> list_all2 (\<lambda>t n. tree_node dig t = Inr n) us up \<and>
      concat (map leaves_of us) = concat (map leaves_of ts)"
    using assms
  proof (induction "sum_node dig" level arbitrary: up ts rule: combineLevel.induct)
    case (1 l r rest)
    then obtain a b ts' where ts: "ts = a # b # ts'" "tree_node dig a = Inr l" "tree_node dig b = Inr r"
      "list_all2 (\<lambda>t n. tree_node dig t = Inr n) ts' rest"
      by (auto simp: list_all2_Cons2)
    from 1(2) obtain n ns where n: "sum_node dig l r = Inr n" "combineLevel (sum_node dig) rest = Inr ns" "up = n # ns"
      by auto
    from "1.hyps" [OF n(2) ts(4)] obtain us where
      "combineLevel (\<lambda>l r. Inr (MNode l r)) ts' = Inr us" "list_all2 (\<lambda>t n. tree_node dig t = Inr n) us ns"
      "concat (map leaves_of us) = concat (map leaves_of ts')" by blast
    then show ?case using ts n by auto
  qed (auto simp: list_all2_Cons2)
  then show ?thesis using that by blast
qed

lemma reduce_levels_tree:
  "reduce_levels (sum_node dig) level = Inr tops \<Longrightarrow> list_all2 (\<lambda>t n. tree_node dig t = Inr n) ts level \<Longrightarrow>
   \<exists>us. reduce_levels (\<lambda>l r. Inr (MNode l r)) ts = Inr us \<and> list_all2 (\<lambda>t n. tree_node dig t = Inr n) us tops \<and>
     concat (map leaves_of us) = concat (map leaves_of ts) \<and> length us \<le> 1"
proof (induction "sum_node dig" level arbitrary: ts rule: reduce_levels.induct)
  case (1 level)
  have len: "length ts = length level" using "1.prems"(2) by (rule list_all2_lengthD)
  show ?case
  proof (cases "length level > 1")
    case True
    then obtain up where up: "combineLevel (sum_node dig) level = Inr up" "reduce_levels (sum_node dig) up = Inr tops"
      using "1.prems"(1) by (subst (asm) reduce_levels.simps) (auto split: sum.splits)
    obtain us where us: "combineLevel (\<lambda>l r. Inr (MNode l r)) ts = Inr us" "list_all2 (\<lambda>t n. tree_node dig t = Inr n) us up"
      "concat (map leaves_of us) = concat (map leaves_of ts)"
      by (rule combineLevel_tree [OF up(1) "1.prems"(2)])
    from "1.hyps" [OF True up(1,2) us(2)] us(1,3) True len show ?thesis
      by (subst reduce_levels.simps) auto
  next
    case False
    then show ?thesis using "1.prems" len by (auto simp: reduce_levels.simps)
  qed
qed


lemma merkleSumRoot_tree:
  assumes "merkleSumRoot dig leaves = Inr root" "leaves \<noteq> []"
  obtains t where "sum_tree leaves = Inr [t]" "tree_node dig t = Inr root" "leaves_of t = sort_key fst leaves"
proof -
  obtain level tops where l: "rmap (sum_leaf dig) (sort_key fst leaves) = Inr level"
    "reduce_levels (sum_node dig) level = Inr tops"
    "root = (case tops of [] \<Rightarrow> (replicate 32 0, 0) | x # _ \<Rightarrow> x)"
    using assms(1) by (auto simp: merkleSumRoot_def)
  have "list_all2 (\<lambda>t n. tree_node dig t = Inr n) (map MLeaf (sort_key fst leaves)) level"
    using l(1) by (simp add: rmap_Inr_iff list_all2_map1)
  from reduce_levels_tree [OF l(2) this] obtain us where us: "sum_tree leaves = Inr us"
    "list_all2 (\<lambda>t n. tree_node dig t = Inr n) us tops" "concat (map leaves_of us) = sort_key fst leaves"
    "length us \<le> 1"
    by (auto simp: sum_tree_def comp_def)
  moreover from us(3) assms(2) have "us \<noteq> []" using length_sort [of fst leaves] by (metis concat.simps(1) length_0_conv list.map_disc_iff)
  ultimately obtain t where "us = [t]" by (cases us) auto
  with us l(3) show ?thesis by (intro that) (auto simp: list_all2_Cons1)
qed

lemma tree_node_message:
  "tree_node dig t = Inr (h, v) \<Longrightarrow> \<exists>m. node_message dig t = Inr m \<and> h = dig m"
  by (cases t) (auto simp: node_message_def sum_leaf_def sum_node_def)

lemma subtrees_self [simp]: "t \<in> set (subtrees t)"
  by (cases t) auto

lemma two_messages_mono: "two_messages dig ms \<Longrightarrow> set ms \<subseteq> set ns \<Longrightarrow> two_messages dig ns"
  unfolding two_messages_def by blast

lemma tree_messages_mono: "set (subtrees t) \<subseteq> set (subtrees u) \<Longrightarrow> set (tree_messages dig t) \<subseteq> set (tree_messages dig u)"
  unfolding subset_iff tree_messages_set by blast

lemma sumLeafPreimage_inj:
  assumes "sumLeafPreimage a h v = Inr m" "sumLeafPreimage b k w = Inr m" "CHR '':'' \<notin> set h" "CHR '':'' \<notin> set k"
  shows "a = b \<and> h = k \<and> v = w"
proof -
  obtain x y where x: "toInt64BE v = Inr x" "toInt64BE w = Inr y"
    "2 # utf8 (a @ '':'' @ h @ '':'') @ x = 2 # utf8 (b @ '':'' @ k @ '':'') @ y"
    using assms(1,2) by (auto simp: sumLeafPreimage_def)
  then have e: "utf8 (a @ '':'' @ h @ '':'') = utf8 (b @ '':'' @ k @ '':'')" "x = y"
    using length_toInt64BE [OF x(1)] length_toInt64BE [OF x(2)] by auto
  then have "a @ CHR '':'' # h = b @ CHR '':'' # k" using utf8_inj [OF e(1)] by simp
  then have "split_last CHR '':'' (a @ CHR '':'' # h) = split_last CHR '':'' (b @ CHR '':'' # k)" by simp
  then show ?thesis
    using x(1,2) e(2) toInt64BE_inj by (auto simp: split_last_append assms(3,4))
qed

lemma sumNodePreimage_inj:
  assumes "sumNodePreimage l r = Inr m" "sumNodePreimage l' r' = Inr m" "length (fst l) = n" "length (fst l') = n"
    "length (fst r) = k" "length (fst r') = k"
  shows "fst l = fst l' \<and> fst r = fst r'"
  using assms by (auto simp: sumNodePreimage_def)

lemma trees_agree:
  assumes "tree_node dig t = Inr (h, v)" "tree_node dig u = Inr (h, w)" "\<forall>x. length (dig x) = 32"
    and "\<forall>x \<in> set (leaves_of t) \<union> set (leaves_of u). CHR '':'' \<notin> set (fst (snd x))"
    and "\<not> two_messages dig (tree_messages dig t @ tree_messages dig u)"
  shows "t = u"
  using assms
proof (induction t arbitrary: u h v w)
  case (MLeaf x)
  obtain m n where m: "node_message dig (MLeaf x) = Inr m" "node_message dig u = Inr n" "dig m = dig n"
    using tree_node_message [OF MLeaf.prems(1)] tree_node_message [OF MLeaf.prems(2)] by auto
  then have "m \<in> set (tree_messages dig (MLeaf x))" "n \<in> set (tree_messages dig u)"
    unfolding tree_messages_set by (meson subtrees_self)+
  then have eq: "m = n" using MLeaf.prems(5) m(3) by (auto simp: two_messages_def)
  obtain a k s where x: "x = (a, k, s)" by (cases x)
  show ?case
  proof (cases u)
    case (MLeaf y)
    obtain b j r where y: "y = (b, j, r)" by (cases y)
    show ?thesis
      using m(1,2) sumLeafPreimage_inj [of a k s m b j r] MLeaf.prems(4) by (auto simp: MLeaf x y eq node_message_def)
  next
    case (MNode l r)
    then show ?thesis using m(1,2) by (auto simp: x eq node_message_def sumLeafPreimage_def sumNodePreimage_def)
  qed
next
  case (MNode l r)
  obtain m n where m: "node_message dig (MNode l r) = Inr m" "node_message dig u = Inr n" "dig m = dig n"
    using tree_node_message [OF MNode.prems(1)] tree_node_message [OF MNode.prems(2)] by auto
  then have "m \<in> set (tree_messages dig (MNode l r))" "n \<in> set (tree_messages dig u)"
    unfolding tree_messages_set by (meson subtrees_self)+
  then have eq: "m = n" using MNode.prems(5) m(3) by (auto simp: two_messages_def)
  show ?case
  proof (cases u)
    case (MLeaf y)
    then show ?thesis
      using m(1,2) by (cases y) (auto simp: eq node_message_def sumLeafPreimage_def sumNodePreimage_def)
  next
    case (MNode l' r')
    note u = this
    obtain a b c d where n: "tree_node dig l = Inr a" "tree_node dig r = Inr b" "sumNodePreimage a b = Inr m"
      "tree_node dig l' = Inr c" "tree_node dig r' = Inr d" "sumNodePreimage c d = Inr m"
      using m(1,2) by (auto simp: u eq node_message_def)
    have len: "length (fst p) = 32" if "tree_node dig t = Inr p" for t p
      using tree_node_message [of dig t "fst p" "snd p"] that MNode.prems(3) by auto
    have f: "fst a = fst c" "fst b = fst d"
      using sumNodePreimage_inj [OF n(3,6) len [OF n(1)] len [OF n(4)] len [OF n(2)] len [OF n(5)]] by auto
    have nt: "\<not> two_messages dig (tree_messages dig p @ tree_messages dig q)"
      if "set (subtrees p) \<subseteq> set (subtrees (MNode l r))" "set (subtrees q) \<subseteq> set (subtrees u)" for p q
      using MNode.prems(5) two_messages_mono [of dig "tree_messages dig p @ tree_messages dig q"
          "tree_messages dig (MNode l r) @ tree_messages dig u"]
        tree_messages_mono [OF that(1), of dig] tree_messages_mono [OF that(2), of dig]
      by (simp only: set_append) blast
    have plain: "\<forall>x \<in> set (leaves_of l) \<union> set (leaves_of l'). CHR '':'' \<notin> set (fst (snd x))"
      "\<forall>x \<in> set (leaves_of r) \<union> set (leaves_of r'). CHR '':'' \<notin> set (fst (snd x))"
      using MNode.prems(4) by (auto simp: u)
    have nodes: "tree_node dig l = Inr (fst a, snd a)" "tree_node dig l' = Inr (fst a, snd c)"
      "tree_node dig r = Inr (fst b, snd b)" "tree_node dig r' = Inr (fst b, snd d)"
      using n(1,2,4,5) f by (metis prod.collapse)+
    have "l = l'"
      by (rule MNode.IH(1) [OF nodes(1,2) MNode.prems(3) plain(1) nt]) (auto simp: u)
    moreover have "r = r'"
      by (rule MNode.IH(2) [OF nodes(3,4) MNode.prems(3) plain(2) nt]) (auto simp: u)
    ultimately show ?thesis by (simp add: u)
  qed
qed


section \<open>Every reachable ledger re-derives\<close>

lemma lineage_snoc:
  "lineageOf (lg @ [row]) a None = lineageOf lg a None @
     (case find (\<lambda>lk. laccount lk = a) (links row) of None \<Rightarrow> [] | Some lk \<Rightarrow> [link_of row lk])"
proof -
  have "lineage_from a None True (lg @ [row]) = lineage_from a None True lg @
     (case find (\<lambda>lk. laccount lk = a) (links row) of None \<Rightarrow> [] | Some lk \<Rightarrow> [link_of row lk])"
    by (induction lg) (auto split: option.splits)
  then show ?thesis by (simp add: lineageOf_def)
qed

text \<open>The account's lineage continues from genesis to the head the ledger maintains.\<close>

definition chain_ok :: "digest \<Rightarrow> ledger_state \<Rightarrow> AccountRef \<Rightarrow> bool" where
  "chain_ok dig s a \<longleftrightarrow> replays dig a GENESIS_HEX (lineageOf (plog s) a None) \<and>
     end_of GENESIS_HEX (lineageOf (plog s) a None) = (case map_of (heads s) a of Some h \<Rightarrow> h | None \<Rightarrow> GENESIS_HEX)"

lemma heads_of_links:
  assumes "distinct (map laccount lks)"
  shows "map_of (fold (\<lambda>lk. AList.update (laccount lk) (lhash lk)) lks hs) a =
    (case find (\<lambda>lk. laccount lk = a) lks of None \<Rightarrow> map_of hs a | Some lk \<Rightarrow> Some (lhash lk))"
proof -
  have other: "b \<notin> laccount ` set xs \<Longrightarrow> map_of (fold (\<lambda>lk. AList.update (laccount lk) (lhash lk)) xs m) b = map_of m b" for xs m b
    by (induction xs arbitrary: m) auto
  show ?thesis using assms
  proof (induction lks arbitrary: hs)
    case (Cons k lks)
    show ?case
    proof (cases "laccount k = a")
      case True
      then show ?thesis using Cons.prems by (simp add: other)
    next
      case False
      then show ?thesis using Cons.IH [of "AList.update (laccount k) (lhash k) hs"] Cons.prems
        by (simp split: option.splits)
    qed
  qed simp
qed

text \<open>One posting extends the chain of every account it touches, over any log.\<close>

lemma chain_step:
  assumes "advanceChain dig s p = Inr lks" "txnId st = txnId p" "legs st = legs p" "meta st = meta p" "links st = lks"
    and "replays dig a GENESIS_HEX (lineageOf lg a None)"
    and "end_of GENESIS_HEX (lineageOf lg a None) = (case map_of (heads s) a of Some h \<Rightarrow> h | None \<Rightarrow> GENESIS_HEX)"
  shows "replays dig a GENESIS_HEX (lineageOf (lg @ [st]) a None)"
    "end_of GENESIS_HEX (lineageOf (lg @ [st]) a None) =
       (case map_of (fold (\<lambda>lk. AList.update (laccount lk) (lhash lk)) lks (heads s)) a of Some h \<Rightarrow> h | None \<Rightarrow> GENESIS_HEX)"
    "distinct (map laccount lks)"
proof -
  note all = advanceChain_Inr [OF assms(1)]
  have "map laccount lks = distinctAccounts (legs p)"
    using list_all2_mono [OF all, of "\<lambda>a lk. laccount lk = a"]
    by (auto simp: list_eq_iff_nth_eq list_all2_conv_all_nth)
  then show d: "distinct (map laccount lks)" by simp
  have "replays dig a GENESIS_HEX (lineageOf (lg @ [st]) a None) \<and>
    end_of GENESIS_HEX (lineageOf (lg @ [st]) a None) =
       (case map_of (fold (\<lambda>lk. AList.update (laccount lk) (lhash lk)) lks (heads s)) a of Some h \<Rightarrow> h | None \<Rightarrow> GENESIS_HEX)"
  proof (cases "find (\<lambda>lk. laccount lk = a) lks")
    case None
    then show ?thesis using assms by (simp add: lineage_snoc heads_of_links [OF d])
  next
    case (Some lk)
    then have lk: "lk \<in> set lks" "laccount lk = a" using find_in [OF Some] by auto
    then obtain i where "i < length lks" "lk = lks ! i" by (auto simp: in_set_conv_nth)
    then obtain prev where h: "prevHash lk = (case map_of (heads s) a of Some h \<Rightarrow> h | None \<Rightarrow> GENESIS_HEX)"
      "(if prevHash lk = GENESIS_HEX then Inr GENESIS else fromHex (prevHash lk)) = Inr prev"
      "chainHash dig prev (txnId p) a (legs p) (meta p) = Inr (lhash lk)"
      using list_all2_nthD2 [OF all, of i] lk(2) by auto
    then have "fromHex (prevHash lk) = Inr prev" by (auto split: if_splits)
    then have r: "recomputeLink dig a (link_of st lk) = Inr (lhash lk)"
      using h(3) assms(2-4) by (simp add: recomputeLink_def link_of_def)
    have l: "lineageOf (lg @ [st]) a None = lineageOf lg a None @ [link_of st lk]"
      using assms(5) by (simp add: lineage_snoc Some)
    show ?thesis
      using assms(6,7) r h(1) by (simp add: l replays_snoc end_of_def link_of_def heads_of_links [OF d] Some)
  qed
  then show "replays dig a GENESIS_HEX (lineageOf (lg @ [st]) a None)"
    "end_of GENESIS_HEX (lineageOf (lg @ [st]) a None) =
       (case map_of (fold (\<lambda>lk. AList.update (laccount lk) (lhash lk)) lks (heads s)) a of Some h \<Rightarrow> h | None \<Rightarrow> GENESIS_HEX)"
    by blast+
qed

lemma ledger_reach_chains: "ledger_reach dig s \<Longrightarrow> chain_ok dig s a"
proof (induction rule: ledger_reach.induct)
  case lr_empty
  then show ?case by (simp add: chain_ok_def empty_ledger_def lineageOf_def end_of_def)
next
  case (lr_post s now p t s')
  obtain lks st where adv: "advanceChain dig s (dropZeroLegs p) = Inr lks" and
    st: "st = \<lparr>txnId = txnId p, legs = legs (dropZeroLegs p), meta = meta p, postedAt = now, links = lks,
       pseq = seqno s + 1\<rparr>" and
    c: "commitPosting (s\<lparr>seqno := seqno s + 1\<rparr>) st = Inr s'"
    by (rule postEntry_commit [OF lr_post.hyps(2)])
  have "plog s' = plog s @ [st]" "heads s' = fold (\<lambda>lk. AList.update (laccount lk) (lhash lk)) lks (heads s)"
    using commitPosting_Inr(1,8) [OF c] by (simp_all add: st)
  with chain_step [OF adv, of st a "plog s"] lr_post.IH show ?case
    by (simp add: chain_ok_def st dropZeroLegs_sel)
qed (simp_all add: chain_ok_def)

lemma recomputeAccount_reach:
  "ledger_reach dig s \<Longrightarrow> recomputeAccount dig (mem_reads s) None a = Inr None"
  using ledger_reach_chains [of dig s a]
  by (simp add: recomputeAccount_def mem_reads_def chain_ok_def recompute_walk_replays)

lemma proveChain_reach:
  assumes "ledger_reach dig s"
  shows "proveChain dig (mem_reads s) None = Inr \<lparr>intact = True, firstBreak = None, chainCount = length (heads s)\<rparr>"
proof -
  have "first_break (recomputeAccount dig (mem_reads s) None) as = Inr None" for as
    by (induction as) (simp_all add: recomputeAccount_reach [OF assms])
  then show ?thesis by (simp add: proveChain_def mem_reads_def sortedHeads_def)
qed

section \<open>Properties\<close>

text \<open>
  (C20) Honest history always verifies. On every ledger reached by checked postings the prover finds
  every chain intact, and the verified read returns each stored posting (and nothing for an unknown
  id): neither ever faults, whatever the digest.
\<close>

theorem honest_history_verifies:
  assumes "ledger_reach dig s"
  shows "proveChain dig (mem_reads s) None = Inr \<lparr>intact = True, firstBreak = None, chainCount = length (heads s)\<rparr> \<and>
    verifiedPosting dig (mem_reads s) txn = Inr (postingOf (plog s) txn)"
  using proveChain_reach [OF assms] verifiedPosting_reach [OF assms] by blast

lemma demo_chain:
  obtains s where "ledger_reach demo_digest s" "postingOf (plog s) ''t1'' = Some demo_topup"
proof -
  obtain t s where p: "postEntry (memory_ledger demo_digest 7) demo_topup empty_ledger = Inr (t, s)"
    using demo_post by blast
  obtain lks st where st: "st = \<lparr>txnId = txnId demo_topup, legs = legs (dropZeroLegs demo_topup), meta = meta demo_topup,
       postedAt = 7, links = lks, pseq = seqno empty_ledger + 1\<rparr>" and
    c: "commitPosting (empty_ledger\<lparr>seqno := seqno empty_ledger + 1\<rparr>) st = Inr s"
    by (rule postEntry_commit [OF p])
  have "dropZeroLegs demo_topup = demo_topup" by code_simp
  then have "postingOf (plog s) ''t1'' = Some demo_topup"
    using commitPosting_Inr(1) [OF c] by (simp add: st postingOf_def empty_ledger_def posting.defs demo_topup_def)
  then show ?thesis using that p by (blast intro: lr_empty lr_post)
qed

theorem honest_history_verifies_witness:
  "\<exists>s. verifiedPosting demo_digest (mem_reads (s :: ledger_state)) ''t1'' = Inr (Some demo_topup) \<and>
     postingOf (plog s) ''t1'' = Some demo_topup"
proof -
  obtain s where s: "ledger_reach demo_digest s" "postingOf (plog s) ''t1'' = Some demo_topup" by (rule demo_chain)
  from honest_history_verifies [OF s(1), of "''t1''"] s(2) show ?thesis by auto
qed

text \<open>
  (C22) An edited posting is refused. Take a reachable ledger, and reads that show some other content
  under a transaction id while the links are still the ledger's own. If the verified read returns
  that content, then each account it names was in the original, and either it carries the same bag
  of amounts on that account and the same canonical metadata, or the two different messages shown
  have one digest; and it still nets to zero in each currency.
\<close>

theorem edited_posting_refused:
  assumes "ledger_reach dig s" "postingOf (plog s) txn = Some p" "cr_links r txn = linksOf (plog s) txn"
    and "verifiedPosting dig r txn = Inr (Some q)" "a \<in> account ` set (legs q)"
    and "\<forall>l \<in> set (legs p) \<union> set (legs q). in_i64 (minor (amount l))"
  shows "cur_sum c (legs q) = 0 \<and> a \<in> account ` set (legs p) \<and>
    (\<exists>prev m n. chainPreimage prev txn a (legs p) (meta p) = Inr m \<and>
     chainPreimage prev txn a (legs q) (meta q) = Inr n \<and> dig m = dig n \<and>
     (m = n \<longrightarrow> length m < 2 ^ 32 \<longrightarrow>
       own_bag a (legs q) = own_bag a (legs p) \<and> canonicalMeta (JObj (meta q)) = canonicalMeta (JObj (meta p))))"
proof -
  obtain row where f: "find (\<lambda>row. txnId row = txn) (plog s) = Some row" and p: "p = posting.truncate row"
    using assms(2) by (auto simp: postingOf_def)
  have row: "row \<in> set (plog s)" "txnId row = txn" using find_in [OF f] by auto
  have l: "row_linked dig row" using ledger_reach_linked [OF assms(1)] row(1) by blast
  have ck: "\<forall>b \<in> account ` set (legs q). check_link dig q txn (link_map (links row)) b = Inr ()"
    and z: "assertZeroSum q = Inr ()"
    using assms(3,4) by (auto simp: verifiedPosting_def linksOf_def f split: option.splits)
  from ck assms(5) have cl: "check_link dig q txn (link_map (links row)) a = Inr ()" by blast
  then obtain lk prev where lk: "map_of (link_map (links row)) a = Some lk" "fromHex (prevHash lk) = Inr prev"
    "chainHash dig prev txn a (legs q) (meta q) = Inr (lhash lk)"
    by (auto simp: check_link_def split: option.splits)
  have a: "a \<in> account ` set (legs row)"
    using link_map_Some [OF lk(1)] l by (auto simp: row_linked_def)
  then have "chainHash dig prev txn a (legs row) (meta row) = Inr (lhash lk)"
    using l lk(1,2) row(2) unfolding row_linked_def by fastforce
  then obtain m n where m: "chainPreimage prev txn a (legs p) (meta p) = Inr m"
    "chainPreimage prev txn a (legs q) (meta q) = Inr n" "dig m = dig n"
    using lk(3) by (auto simp: chainHash_def p posting.defs) (metis toHex_inj)
  have "own_bag a (legs q) = own_bag a (legs p) \<and> canonicalMeta (JObj (meta q)) = canonicalMeta (JObj (meta p))"
    if "m = n" "length m < 2 ^ 32"
    using chainPreimage_commits [OF m(1) m(2) [folded that(1)] assms(6) that(2)] by simp
  moreover have "a \<in> account ` set (legs p)" using a by (simp add: p posting.defs)
  ultimately show ?thesis using z m unfolding assertZeroSum_Inr by blast
qed

theorem edited_posting_refused_witness:
  "\<exists>prev m n. chainPreimage prev ''t1'' STORED_VALUE (legs demo_topup) (meta demo_topup) = Inr m \<and>
     chainPreimage prev ''t1'' STORED_VALUE (legs demo_topup) (meta demo_topup) = Inr n \<and>
     demo_digest m = demo_digest n"
proof -
  obtain s where s: "ledger_reach demo_digest s" "postingOf (plog s) ''t1'' = Some demo_topup" by (rule demo_chain)
  have v: "verifiedPosting demo_digest (mem_reads s) ''t1'' = Inr (Some demo_topup)"
    using verifiedPosting_reach [OF s(1)] s(2) by simp
  have i: "\<forall>l \<in> set (legs demo_topup) \<union> set (legs demo_topup). in_i64 (minor (amount l))"
    by (simp add: demo_topup_def in_i64_def I64_MIN_def I64_MAX_def)
  have a: "STORED_VALUE \<in> account ` set (legs demo_topup)" by (simp add: demo_topup_def)
  have l: "cr_links (mem_reads s) ''t1'' = linksOf (plog s) ''t1''" by (simp add: mem_reads_def)
  from edited_posting_refused [OF s l v a i] show ?thesis by blast
qed

text \<open>
  (C21) A head commits to the whole history behind it. When two readings of an account's chain both
  re-derive from genesis and end in the same head, they hold the same postings in the same order
  (transaction ids, amounts on the account, canonical metadata and hashes), unless the digest fails
  on messages among the two chains themselves: two of them with one digest, or one hashing to the
  genesis value.
\<close>

theorem head_commits_history:
  assumes "recomputeAccount dig r None a = Inr None" "recomputeAccount dig r' None a = Inr None"
    and "end_of GENESIS_HEX (cr_lineage r a None) = end_of GENESIS_HEX (cr_lineage r' a None)"
    and "\<forall>lk \<in> set (cr_lineage r a None) \<union> set (cr_lineage r' a None). bounded_link a lk"
  shows "list_all2 (same_link a) (cr_lineage r a None) (cr_lineage r' a None) \<or>
    digest_failure dig (link_messages a (cr_lineage r a None @ cr_lineage r' a None))"
  using assms replays_commit [of dig a "cr_lineage r a None" "cr_lineage r' a None"]
  by (auto simp: recomputeAccount_def recompute_walk_replays)

definition demo_links :: "stored_link list" where
  "demo_links = [\<lparr>kaccount = STORED_VALUE, ktxnId = ''t'', klegs = [], kmeta = [], kprev = GENESIS_HEX,
     khash = toHex (demo_digest (lengthPrefixed [GENESIS, utf8 ''t'', [], utf8 [CHR 0x7B, CHR 0x7D]]))\<rparr>]"

definition demo_reads :: chain_reads where
  "demo_reads = \<lparr>cr_heads = [], cr_headSums = [], cr_lineage = (\<lambda>_ _. demo_links), cr_posting = (\<lambda>_. None),
     cr_links = (\<lambda>_. [])\<rparr>"

theorem head_commits_history_witness:
  "demo_links \<noteq> [] \<and> recomputeAccount demo_digest demo_reads None STORED_VALUE = Inr None \<and>
   (list_all2 (same_link STORED_VALUE) demo_links demo_links \<or>
    digest_failure demo_digest (link_messages STORED_VALUE (demo_links @ demo_links)))"
proof -
  have b: "\<forall>lk \<in> set demo_links. bounded_link STORED_VALUE lk"
    by (simp add: demo_links_def bounded_link_def link_message_def chainPreimage_def own_amounts_def
        lengthPrefixed_def utf8_def utf8_char_def of_char_of GENESIS_def)
  have r: "recomputeAccount demo_digest demo_reads None STORED_VALUE = Inr None"
    by (simp add: recomputeAccount_def demo_reads_def demo_links_def recomputeLink_def chainHash_def
        chainPreimage_def own_amounts_def utf8_def Let_def)
  from head_commits_history [OF r r] b r show ?thesis
    by (simp add: demo_reads_def demo_links_def)
qed

text \<open>
  (C24) A sealed root determines what was sealed. With a digest of 32 bytes, two non-empty lists of
  head leaves with the same sum root are the same leaves up to order of listing (accounts, heads and
  sums), however many there are, unless two different messages hashed in the two trees have one
  digest. No leaf can pass for a node: their messages start with different tags.
\<close>

theorem sum_root_binds:
  assumes "merkleSumRoot dig ls = Inr (h, v)" "merkleSumRoot dig ks = Inr (h, w)" "ls \<noteq> []" "ks \<noteq> []"
    and "\<forall>x. length (dig x) = 32" "\<forall>x \<in> set ls \<union> set ks. CHR '':'' \<notin> set (fst (snd x))"
  shows "\<exists>t u. sum_tree ls = Inr [t] \<and> sum_tree ks = Inr [u] \<and>
    (sort_key fst ls = sort_key fst ks \<and> v = w \<or> two_messages dig (tree_messages dig t @ tree_messages dig u))"
proof -
  obtain t where t: "sum_tree ls = Inr [t]" "tree_node dig t = Inr (h, v)" "leaves_of t = sort_key fst ls"
    by (rule merkleSumRoot_tree [OF assms(1,3)])
  obtain u where u: "sum_tree ks = Inr [u]" "tree_node dig u = Inr (h, w)" "leaves_of u = sort_key fst ks"
    by (rule merkleSumRoot_tree [OF assms(2,4)])
  have "\<forall>x \<in> set (leaves_of t) \<union> set (leaves_of u). CHR '':'' \<notin> set (fst (snd x))"
    using assms(6) by (simp add: t(3) u(3))
  then have "t = u" if "\<not> two_messages dig (tree_messages dig t @ tree_messages dig u)"
    using trees_agree [OF t(2) u(2) assms(5) _ that] by blast
  then show ?thesis using t u by (metis Pair_inject sum.inject(2))
qed

definition demo_digest32 :: digest where
  "demo_digest32 bytes = take 32 (bytes @ replicate 32 0)"

definition demo_leaves :: "seal_head list" where
  "demo_leaves = [(''b'', ''ff'', 5), (''a'', ''00'', - 5)]"

lemma demo_root: "\<exists>h. merkleSumRoot demo_digest32 demo_leaves = Inr (h, 0)"
proof -
  have "case merkleSumRoot demo_digest32 demo_leaves of Inr (h, v) \<Rightarrow> v = 0 | Inl _ \<Rightarrow> False" by code_simp
  then show ?thesis by (auto split: sum.splits prod.splits)
qed

theorem sum_root_binds_witness:
  "\<exists>t u. sum_tree demo_leaves = Inr [t] \<and> sum_tree (rev demo_leaves) = Inr [u] \<and>
    (sort_key fst demo_leaves = sort_key fst (rev demo_leaves) \<and> (0 :: int) = 0 \<or>
     two_messages demo_digest32 (tree_messages demo_digest32 t @ tree_messages demo_digest32 u))"
proof -
  obtain h where h: "merkleSumRoot demo_digest32 demo_leaves = Inr (h, 0)" using demo_root by blast
  have s: "sort_key fst (rev demo_leaves) = sort_key fst demo_leaves" by code_simp
  then have h': "merkleSumRoot demo_digest32 (rev demo_leaves) = Inr (h, 0)" using h by (simp add: merkleSumRoot_def)
  show ?thesis
    by (rule sum_root_binds [OF h h']) (auto simp: demo_leaves_def demo_digest32_def)
qed

text \<open>
  (C19) A seal verifies. A checkpoint the sealer signs over a ledger with no archived history is in
  the store as the latest one, and re-verifying it against the same ledger succeeds, for every signer
  whose verification accepts its own signatures.
\<close>

theorem seal_verifies:
  assumes "recordCheckpoint dig sg now i r cps = Inr (cp, cps')" "cpArchive cps = None"
    and "\<forall>p. sg_verify sg p (sg_sign sg p)"
  shows "verifyCheckpoint dig sg r cp = Inr True \<and> cp_latest cps' = Some cp"
  using sealed_verifies [OF assms] .

definition demo_signer :: signer where
  "demo_signer = \<lparr>sg_sign = (\<lambda>p. p), sg_verify = (\<lambda>p s. s = p), sg_kid = None\<rparr>"

definition demo_sealed :: chain_reads where
  "demo_sealed = demo_reads\<lparr>cr_headSums := demo_leaves\<rparr>"

theorem seal_verifies_witness:
  "\<exists>cp. cpCount cp = 2 \<and> verifyCheckpoint demo_digest32 demo_signer demo_sealed cp = Inr True"
proof -
  obtain h where h: "merkleSumRoot demo_digest32 demo_leaves = Inr (h, 0)" using demo_root by blast
  obtain b where "toInt64BE 0 = Inr b" using toInt64BE_total [of 0] by (auto simp: in_i64_def I64_MIN_def I64_MAX_def)
  then obtain cp cps' where c: "recordCheckpoint demo_digest32 demo_signer 9 ''chk1'' demo_sealed empty_checkpoints = Inr (cp, cps')"
    "cpCount cp = 2"
    using h by (simp add: recordCheckpoint_def loadArchiveBoundary_def empty_checkpoints_def mergeArchiveSums_def
        planSeal_def cp_sealHeads_def cp_latest_def proveChain_def demo_sealed_def demo_reads_def sumRootPayload_def
        demo_leaves_def Let_def)
  from seal_verifies [OF c(1)] c(2) show ?thesis by (auto simp: empty_checkpoints_def demo_signer_def)
qed

end
