(* ===== verification/Pricing.thy ===== *)
theory Pricing
  imports Ledger
begin

text \<open>
  src/pricing.ts: the built-in fee policy. The fee comes off the top, rounded up to a whole credit
  and capped at the price; the net is divided by basis points, each share rounded down; revenue
  takes the fee and what the rounding left. The legs are the credit side of a sale, so they sum to
  minus the price.
\<close>

definition BPS_TOTAL :: int where "BPS_TOTAL = 10000"

definition applyBps :: "int \<Rightarrow> int \<Rightarrow> int res" where
  "applyBps m bps = mulDiv m bps BPS_TOTAL Floor"

definition feeForPrice :: "int \<Rightarrow> int \<Rightarrow> int res" where
  "feeForPrice m bps =
     rbind (mulDiv m bps (BPS_TOTAL * SCALE) Ceil) (\<lambda>units.
     let fee = units * SCALE in Inr (if fee > m then m else fee))"

fun distribute :: "int \<Rightarrow> recipient list \<Rightarrow> int \<Rightarrow> int res" where
  "distribute net_minor [] distributed = Inr distributed"
| "distribute net_minor (r # rs) distributed =
     rbind (applyBps net_minor (shareBps r)) (\<lambda>s. distribute net_minor rs (distributed + s))"

definition revenueForSplit :: "amount \<Rightarrow> recipient list \<Rightarrow> int \<Rightarrow> int res" where
  "revenueForSplit price recipients feeBps =
     rbind (feeForPrice (minor price) feeBps) (\<lambda>fee.
     let net_minor = minor price - fee
     in rbind (distribute net_minor recipients 0) (\<lambda>distributed.
        Inr (fee + (net_minor - distributed))))"

definition assertShareSum :: "recipient list \<Rightarrow> unit res" where
  "assertShareSum recipients =
     (if recipients = [] then Inr ()
      else ensure (sum_list (map shareBps recipients) = BPS_TOTAL) (fault MALFORMED_OPERATION))"

definition share_leg :: "currency \<Rightarrow> int \<Rightarrow> recipient \<Rightarrow> leg res" where
  "share_leg cur net_minor r =
     rbind (applyBps net_minor (shareBps r)) (\<lambda>s.
     rbind (toAmount cur s) (\<lambda>a. credit (earned (sellerId r)) a))"

definition splitLegs :: "amount \<Rightarrow> recipient list \<Rightarrow> int \<Rightarrow> leg list res" where
  "splitLegs price recipients feeBps =
     rbind (assertShareSum recipients) (\<lambda>_.
     rbind (feeForPrice (minor price) feeBps) (\<lambda>fee.
     let net_minor = minor price - fee
     in rbind (rmap (share_leg (currency price) net_minor) recipients) (\<lambda>ls.
        rbind (revenueForSplit price recipients feeBps) (\<lambda>rev.
        rbind (toAmount (currency price) rev) (\<lambda>a.
        rbind (credit REVENUE a) (\<lambda>r. Inr (ls @ [r])))))))"

text \<open>A fee policy is a function of the sale it is asked to split.\<close>

record fee_input =
  fprice :: amount
  frecipients :: "recipient list"
  ffeeBps :: int
  fbuyerId :: "string option"
  fsku :: "string option"

type_synonym fee_policy = "fee_input \<Rightarrow> leg list res"

definition flatFee :: fee_policy where
  "flatFee i = splitLegs (fprice i) (frecipients i) (ffeeBps i)"

section \<open>Lemmas\<close>

lemma mulDiv_Floor: "den \<noteq> 0 \<Longrightarrow> mulDiv v n den Floor = checkI64 (v * n div den)"
  by (simp add: mulDiv_def divRound_rounded rounded_floor)

lemma mulDiv_Ceil: "den \<noteq> 0 \<Longrightarrow> mulDiv v n den Ceil = checkI64 (- ((- (v * n)) div den))"
  by (simp add: mulDiv_def divRound_rounded rounded_ceil)

lemma applyBps_Inr: "applyBps m bps = Inr s \<longleftrightarrow> in_i64 (m * bps div 10000) \<and> s = m * bps div 10000"
  by (simp add: applyBps_def BPS_TOTAL_def mulDiv_Floor)

definition fee_units :: "int \<Rightarrow> int \<Rightarrow> int" where
  "fee_units m bps = - ((- (m * bps)) div 1000000)"

lemma feeForPrice_Inr:
  "feeForPrice m bps = Inr f \<longleftrightarrow> in_i64 (fee_units m bps) \<and> f = min m (100 * fee_units m bps)"
  by (auto simp: feeForPrice_def BPS_TOTAL_def SCALE_def mulDiv_Ceil fee_units_def Let_def min_def)

lemma distribute_Inr:
  "distribute n rs d = Inr e \<Longrightarrow> e = d + (\<Sum>r\<leftarrow>rs. n * shareBps r div 10000)"
proof (induction rs arbitrary: d)
  case (Cons r rs)
  then have "distribute n rs (d + n * shareBps r div 10000) = Inr e" by (auto simp: applyBps_Inr)
  from Cons.IH [OF this] show ?case by simp
qed simp

lemma share_leg_Inr:
  "share_leg c n r = Inr l \<longleftrightarrow> in_i64 (n * shareBps r div 10000) \<and> in_i64 (- (n * shareBps r div 10000)) \<and>
     l = \<lparr>account = earned (sellerId r), amount = \<lparr>currency = c, minor = - (n * shareBps r div 10000)\<rparr>\<rparr>"
  by (auto simp: share_leg_def applyBps_Inr toAmount_Inr)

lemma share_legs_Inr:
  "rmap (share_leg c n) rs = Inr ls \<Longrightarrow>
     ls = map (\<lambda>r. \<lparr>account = earned (sellerId r),
       amount = \<lparr>currency = c, minor = - (n * shareBps r div 10000)\<rparr>\<rparr>) rs"
  by (induction rs arbitrary: ls) (auto simp: share_leg_Inr)

definition kept :: "int \<Rightarrow> int \<Rightarrow> recipient list \<Rightarrow> int" where
  "kept price fee rs = price - (\<Sum>r\<leftarrow>rs. (price - fee) * shareBps r div 10000)"

lemma revenueForSplit_Inr:
  assumes "revenueForSplit price rs bps = Inr kr"
  shows "\<exists>fee. feeForPrice (minor price) bps = Inr fee \<and> kr = kept (minor price) fee rs"
  using assms unfolding revenueForSplit_def kept_def Let_def by (auto dest!: distribute_Inr)

lemma splitLegs_Inr:
  assumes "splitLegs price rs bps = Inr ls"
  shows "\<exists>fee. feeForPrice (minor price) bps = Inr fee \<and>
    revenueForSplit price rs bps = Inr (kept (minor price) fee rs) \<and>
    (rs = [] \<or> sum_list (map shareBps rs) = 10000) \<and>
    ls = map (\<lambda>r. \<lparr>account = earned (sellerId r), amount =
        \<lparr>currency = currency price, minor = - ((minor price - fee) * shareBps r div 10000)\<rparr>\<rparr>) rs @
      [\<lparr>account = REVENUE, amount = \<lparr>currency = currency price, minor = - kept (minor price) fee rs\<rparr>\<rparr>]"
proof -
  from assms obtain fee sh k where f: "feeForPrice (minor price) bps = Inr fee"
    and sh: "rmap (share_leg (currency price) (minor price - fee)) rs = Inr sh"
    and k: "revenueForSplit price rs bps = Inr k" and "in_i64 k"
    and ls: "ls = sh @ [\<lparr>account = REVENUE, amount = \<lparr>currency = currency price, minor = - k\<rparr>\<rparr>]"
    and sum: "assertShareSum rs = Inr ()"
    by (auto simp: splitLegs_def Let_def toAmount_Inr)
  from k f have "k = kept (minor price) fee rs" by (auto dest!: revenueForSplit_Inr)
  moreover from sum have "rs = [] \<or> sum_list (map shareBps rs) = 10000"
    by (auto simp: assertShareSum_def BPS_TOTAL_def split: if_splits)
  ultimately show ?thesis using f k ls share_legs_Inr [OF sh] by auto
qed

lemma sum_negated: "(\<Sum>x\<leftarrow>xs. - f x) = - (\<Sum>x\<leftarrow>xs. (f x :: int))"
  by (induction xs) simp_all

lemma fee_units_bounds:
  assumes "0 \<le> m" "0 \<le> bps"
  shows "0 \<le> fee_units m bps" "m * bps \<le> 1000000 * fee_units m bps"
    "1000000 * fee_units m bps < m * bps + 1000000"
proof -
  have "0 \<le> m * bps" using assms by simp
  then show "0 \<le> fee_units m bps" by (simp add: fee_units_def div_nonpos_pos_le0)
  show "m * bps \<le> 1000000 * fee_units m bps" "1000000 * fee_units m bps < m * bps + 1000000"
    using mult_div_mod_eq [of 1000000 "- (m * bps)"] pos_mod_bound [of 1000000 "- (m * bps)"]
      pos_mod_sign [of 1000000 "- (m * bps)"]
    by (simp_all add: fee_units_def)
qed

lemma fee_bounds:
  assumes "feeForPrice m bps = Inr f" "0 \<le> m" "0 \<le> bps"
  shows "0 \<le> f" "f \<le> m" "f = m \<or> 100 dvd f \<and> m * bps \<le> 10000 * f \<and> 10000 * f < m * bps + 1000000"
proof -
  have f: "f = min m (100 * fee_units m bps)" using assms(1) by (simp add: feeForPrice_Inr)
  note u = fee_units_bounds [OF assms(2,3)]
  show "0 \<le> f" "f \<le> m" using f u(1) assms(2) by auto
  show "f = m \<or> 100 dvd f \<and> m * bps \<le> 10000 * f \<and> 10000 * f < m * bps + 1000000"
  proof (cases "m \<le> 100 * fee_units m bps")
    case False
    then have "f = 100 * fee_units m bps" using f by simp
    then show ?thesis using u by simp
  qed (use f in simp)
qed

lemma floor_bps:
  fixes p :: int
  assumes "0 \<le> p"
  shows "0 \<le> p div 10000" "10000 * (p div 10000) \<le> p" "p \<le> 10000 * (p div 10000) + 9999"
  using assms mult_div_mod_eq [of 10000 p] pos_mod_bound [of 10000 p] pos_mod_sign [of 10000 p]
  by (simp_all add: pos_imp_zdiv_nonneg_iff)

lemma floors_le:
  fixes n :: int
  assumes "0 \<le> n" "\<forall>r \<in> set rs. 0 \<le> shareBps r"
  shows "0 \<le> (\<Sum>r\<leftarrow>rs. n * shareBps r div 10000) \<and>
    10000 * (\<Sum>r\<leftarrow>rs. n * shareBps r div 10000) \<le> n * sum_list (map shareBps rs) \<and>
    n * sum_list (map shareBps rs) \<le> 10000 * (\<Sum>r\<leftarrow>rs. n * shareBps r div 10000) + 9999 * int (length rs)"
  using assms(2)
proof (induction rs)
  case (Cons r rs)
  have "0 \<le> n * shareBps r" using assms(1) Cons.prems by simp
  from floor_bps [OF this] Cons show ?case by (simp add: distrib_left)
qed simp

lemma kept_bounds:
  assumes "0 \<le> fee" "fee \<le> p" "\<forall>r \<in> set rs. 0 \<le> shareBps r"
    "rs = [] \<or> sum_list (map shareBps rs) = 10000"
  shows "fee \<le> kept p fee rs" "kept p fee rs \<le> p"
    "rs \<noteq> [] \<Longrightarrow> kept p fee rs \<le> fee + int (length rs)"
proof -
  have n: "0 \<le> p - fee" using assms by simp
  note s = floors_le [OF n assms(3), THEN conjunct1] floors_le [OF n assms(3), THEN conjunct2, THEN conjunct1]
    floors_le [OF n assms(3), THEN conjunct2, THEN conjunct2]
  show "kept p fee rs \<le> p" using s(1) by (simp add: kept_def)
  show "fee \<le> kept p fee rs"
  proof (cases "rs = []")
    case False
    then show ?thesis using assms(4) s(2) by (simp add: kept_def)
  qed (use assms in \<open>simp add: kept_def\<close>)
  assume "rs \<noteq> []"
  then show "kept p fee rs \<le> fee + int (length rs)" using assms(4) s(3) by (simp add: kept_def)
qed

lemma bps_le:
  fixes n :: int
  assumes "0 \<le> n" "0 \<le> b" "b \<le> 10000"
  shows "0 \<le> n * b div 10000" "n * b div 10000 \<le> n"
proof -
  show "0 \<le> n * b div 10000" using assms by (simp add: pos_imp_zdiv_nonneg_iff)
  have "n * b \<le> n * 10000" using assms by (simp add: mult_left_mono)
  then have "n * b div 10000 \<le> n * 10000 div 10000" by (intro zdiv_mono1) auto
  then show "n * b div 10000 \<le> n" by simp
qed

lemma distribute_total:
  assumes "0 \<le> n" "n \<le> I64_MAX" "\<forall>r \<in> set rs. 0 \<le> shareBps r \<and> shareBps r \<le> 10000"
  shows "\<exists>e. distribute n rs d = Inr e"
  using assms(3)
proof (induction rs arbitrary: d)
  case (Cons r rs)
  have "in_i64 (n * shareBps r div 10000)"
    using bps_le [of n "shareBps r"] assms Cons.prems by (simp add: in_i64_def I64_MIN_def)
  then show ?case using Cons by (simp add: applyBps_Inr)
qed simp

lemma share_le_sum:
  "\<forall>r \<in> set rs. 0 \<le> shareBps r \<Longrightarrow> r \<in> set rs \<Longrightarrow> shareBps r \<le> sum_list (map shareBps rs)"
  by (intro member_le_sum_list) auto

lemma split_total:
  assumes "0 \<le> minor price" "minor price \<le> I64_MAX" "0 \<le> bps" "bps \<le> 10000"
    and sh: "\<forall>r \<in> set rs. 0 \<le> shareBps r" "rs = [] \<or> sum_list (map shareBps rs) = 10000"
  shows "\<exists>ls. splitLegs price rs bps = Inr ls"
proof -
  have le: "\<forall>r \<in> set rs. 0 \<le> shareBps r \<and> shareBps r \<le> 10000" using sh share_le_sum [OF sh(1)] by fastforce
  have "minor price * bps \<le> minor price * 10000" using assms by (simp add: mult_left_mono)
  then have "in_i64 (fee_units (minor price) bps)"
    using fee_units_bounds [OF assms(1,3)] assms(2) by (simp add: in_i64_def I64_MIN_def I64_MAX_def)
  then obtain fee where fee: "feeForPrice (minor price) bps = Inr fee" by (auto simp: feeForPrice_Inr)
  note fb = fee_bounds [OF fee assms(1,3)]
  let ?n = "minor price - fee"
  have n: "0 \<le> ?n" "?n \<le> I64_MAX" using fb assms(2) by auto
  obtain d where d: "distribute ?n rs 0 = Inr d" using distribute_total [OF n le] by blast
  have rev: "revenueForSplit price rs bps = Inr (kept (minor price) fee rs)"
    using fee d distribute_Inr [OF d] by (simp add: revenueForSplit_def kept_def)
  have "\<exists>l. share_leg (currency price) ?n r = Inr l" if "r \<in> set rs" for r
    using bps_le [of ?n "shareBps r"] n le that by (simp add: share_leg_Inr in_i64_def I64_MIN_def I64_MAX_def)
  then obtain ls where ls: "rmap (share_leg (currency price) ?n) rs = Inr ls" using rmap_total by metis
  have "in_i64 (kept (minor price) fee rs)" "in_i64 (- kept (minor price) fee rs)"
    using kept_bounds [of fee "minor price" rs] fb sh assms(2) by (auto simp: in_i64_def I64_MIN_def I64_MAX_def)
  then show ?thesis using fee rev ls sh
    by (auto simp: splitLegs_def assertShareSum_def BPS_TOTAL_def toAmount_Inr)
qed

section \<open>Properties\<close>

text \<open>
  (C26) The split loses nothing. For a price that fits 64 bits, a fee of at most 100% and shares that
  sum to 100%, the policy returns a share leg per recipient and the revenue leg; every leg is a
  credit in the price's currency, the legs sum to minus the price, each recipient gets the floor of
  the share of the net, and revenue keeps at least the fee and less than one unit per recipient
  above it. The fee is the whole price, or a whole number of credits that covers the exact fee and
  exceeds it by less than a credit.
\<close>
theorem split_loses_nothing:
  assumes "0 \<le> minor price" "minor price \<le> I64_MAX" "0 \<le> bps" "bps \<le> 10000"
    and "\<forall>r \<in> set rs. 0 \<le> shareBps r" "rs \<noteq> []" "sum_list (map shareBps rs) = 10000"
  shows "\<exists>ls fee rev. splitLegs price rs bps = Inr ls \<and> feeForPrice (minor price) bps = Inr fee \<and>
    revenueForSplit price rs bps = Inr rev \<and>
    map account ls = map (\<lambda>r. earned (sellerId r)) rs @ [REVENUE] \<and>
    map (\<lambda>l. minor (amount l)) ls = map (\<lambda>r. - ((minor price - fee) * shareBps r div 10000)) rs @ [- rev] \<and>
    (\<forall>l \<in> set ls. currency (amount l) = currency price \<and> minor (amount l) \<le> 0) \<and>
    (\<Sum>l\<leftarrow>ls. minor (amount l)) = - minor price \<and>
    0 \<le> fee \<and> fee \<le> rev \<and> rev \<le> fee + int (length rs) \<and> rev \<le> minor price \<and>
    (fee = minor price \<or>
     100 dvd fee \<and> minor price * bps \<le> 10000 * fee \<and> 10000 * fee < minor price * bps + 1000000)"
proof -
  obtain ls where ls: "splitLegs price rs bps = Inr ls" using split_total assms by blast
  obtain fee where fee: "feeForPrice (minor price) bps = Inr fee"
    and rev: "revenueForSplit price rs bps = Inr (kept (minor price) fee rs)"
    and eq: "ls = map (\<lambda>r. \<lparr>account = earned (sellerId r), amount =
        \<lparr>currency = currency price, minor = - ((minor price - fee) * shareBps r div 10000)\<rparr>\<rparr>) rs @
      [\<lparr>account = REVENUE, amount = \<lparr>currency = currency price, minor = - kept (minor price) fee rs\<rparr>\<rparr>]"
    using splitLegs_Inr [OF ls] by blast
  note fb = fee_bounds [OF fee assms(1,3)]
  note kb = kept_bounds [OF fb(1,2) assms(5)]
  have nn: "0 \<le> (minor price - fee) * shareBps r div 10000" if "r \<in> set rs" for r
    using that assms(5) fb(2) by (simp add: pos_imp_zdiv_nonneg_iff)
  have sum: "(\<Sum>l\<leftarrow>ls. minor (amount l)) = - minor price"
    by (simp add: eq o_def kept_def sum_negated)
  have sgn: "\<forall>l \<in> set ls. currency (amount l) = currency price \<and> minor (amount l) \<le> 0"
    using nn kb fb(1) assms(6,7) by (auto simp: eq)
  show ?thesis
    using ls fee rev sum sgn fb kb assms(6,7) by (intro exI [of _ ls] exI [of _ fee]
      exI [of _ "kept (minor price) fee rs"]) (auto simp: eq o_def)
qed

theorem split_loses_nothing_witness:
  "\<exists>ls fee rev. splitLegs \<lparr>currency = CREDIT, minor = 999\<rparr>
      [\<lparr>sellerId = ''a'', shareBps = 3333\<rparr>, \<lparr>sellerId = ''b'', shareBps = 6667\<rparr>] 3000 = Inr ls \<and>
    feeForPrice 999 3000 = Inr fee \<and> (\<Sum>l\<leftarrow>ls. minor (amount l)) = - 999 \<and> fee \<le> rev \<and> rev \<le> fee + 2"
  using split_loses_nothing [of "\<lparr>currency = CREDIT, minor = 999\<rparr>" 3000
    "[\<lparr>sellerId = ''a'', shareBps = 3333\<rparr>, \<lparr>sellerId = ''b'', shareBps = 6667\<rparr>]"]
  by (auto simp: I64_MAX_def)

end
