(* ===== verification/Unit.thy ===== *)
theory Unit
  imports Maturity Chain Pricing
begin

text \<open>
  The unit of work every operation handler runs on: the stores of src/adapters/memory.ts side by
  side, the context of src/contract.ts a handler is given, and the helpers handlers share
  (src/operations/guards.ts, src/operations/accrual.ts, src/outbox.ts). The clock reading, the ids an
  operation draws, the rates, the fee policy, the payee directory, the digest and the configuration
  are the context; ids are a function of their prefix and of how many the operation has drawn.
\<close>

section \<open>State and context\<close>

record unit_state =
  u_ledger :: ledger_state
  u_idem :: idem_store
  u_sales :: sale_store
  u_outbox :: outbox_store
  u_inbox :: inbox_store
  u_sagas :: saga_store
  u_ents :: ent_store
  u_subs :: sub_store
  u_promos :: promo_store
  u_trust :: trust_store
  u_accruals :: accrual_store
  u_balances :: "(AccountRef \<times> amount) list option"
  u_drawn :: nat

definition empty_unit :: unit_state where
  "empty_unit = \<lparr>u_ledger = empty_ledger, u_idem = empty_idem, u_sales = [], u_outbox = empty_outbox,
     u_inbox = empty_inbox, u_sagas = empty_sagas, u_ents = [], u_subs = [], u_promos = [],
     u_trust = empty_trust, u_accruals = empty_accruals, u_balances = None, u_drawn = 0\<rparr>"

record ctx =
  c_now :: int
  c_digest :: digest
  c_config :: config
  c_pricing :: fee_policy
  c_buy :: rate
  c_par :: rate
  c_payout :: rate
  c_payees :: "(string \<Rightarrow> bool) option"
  c_ids :: "string \<Rightarrow> nat \<Rightarrow> string"

abbreviation shards :: "ctx \<Rightarrow> nat" where
  "shards c \<equiv> nat (platformShards (c_config c))"

type_synonym handler = "ctx \<Rightarrow> operation \<Rightarrow> (unit_state, outcome) act"

text \<open>A step on one store, lifted to the unit.\<close>

definition zoom :: "('s \<Rightarrow> 't) \<Rightarrow> (('t \<Rightarrow> 't) \<Rightarrow> 's \<Rightarrow> 's) \<Rightarrow> ('t, 'a) act \<Rightarrow> ('s, 'a) act" where
  "zoom get_part upd m = (\<lambda>s. case m (get_part s) of Inl e \<Rightarrow> Inl e | Inr (x, t) \<Rightarrow> Inr (x, upd (\<lambda>_. t) s))"

definition on_ledger :: "(ledger_state, 'a) act \<Rightarrow> (unit_state, 'a) act" where
  "on_ledger = zoom u_ledger u_ledger_update"

definition unit_ledger :: "ctx \<Rightarrow> unit_state ledger" where
  "unit_ledger c = (let L = memory_ledger (c_digest c) (c_now c) in
     \<lparr>l_hasAccount = (\<lambda>a. on_ledger (l_hasAccount L a)),
      l_balance = (\<lambda>a. on_ledger (l_balance L a)),
      l_append = (\<lambda>p. on_ledger (l_append L p)),
      l_appendAll = None,
      l_lock = (\<lambda>a. on_ledger (l_lock L a)),
      l_lockMany = None\<rparr>)"

definition fresh :: "ctx \<Rightarrow> string \<Rightarrow> (unit_state, string) act" where
  "fresh c prefix = (\<lambda>s. Inr (c_ids c prefix (u_drawn s), s\<lparr>u_drawn := u_drawn s + 1\<rparr>))"

definition idem_claim_act :: "ctx \<Rightarrow> string \<Rightarrow> (unit_state, transaction option) act" where
  "idem_claim_act c key = (\<lambda>s. case idem_claim (c_now c) key (u_idem s) of
     (r, st) \<Rightarrow> Inr (r, s\<lparr>u_idem := st\<rparr>))"

definition idem_record_act :: "ctx \<Rightarrow> string \<Rightarrow> transaction \<Rightarrow> (unit_state, unit) act" where
  "idem_record_act c key t = modify (u_idem_update (idem_record (c_now c) key t))"

text \<open>A read of the balance cache of the operation, through to the ledger when it has none.\<close>

definition cached_balance :: "ctx \<Rightarrow> AccountRef \<Rightarrow> (unit_state, amount) act" where
  "cached_balance c acct =
     sbind (gets (\<lambda>s. case u_balances s of None \<Rightarrow> None | Some m \<Rightarrow> map_of m acct)) (\<lambda>hit.
       case hit of None \<Rightarrow> l_balance (unit_ledger c) acct | Some a \<Rightarrow> ret a)"

text \<open>
  The maturity reads of a handler: the balance is read only when something is needed, and the walk
  always ends (see \<open>walk_terminates\<close>), so its option is read off.
\<close>

definition matured_at_least :: "ctx \<Rightarrow> AccountRef \<Rightarrow> amount \<Rightarrow> (unit_state, amount) act \<Rightarrow> (unit_state, bool) act" where
  "matured_at_least c acct need live_read =
     (if minor need \<le> 0 then ret True
      else sbind live_read (\<lambda>b. gets (\<lambda>s.
        the (maturedAtLeast (timelineOf (u_ledger s)) (minor b) acct (c_now c) (c_config c) need))))"

definition maturity_rejection :: "ctx \<Rightarrow> AccountRef \<Rightarrow> amount \<Rightarrow> (unit_state, amount) act \<Rightarrow> (unit_state, outcome) act" where
  "maturity_rejection c acct need live_read =
     sbind live_read (\<lambda>b. gets (\<lambda>s.
       let bl = the (maturityBlocker (timelineOf (u_ledger s)) (minor b) acct (c_now c) (c_config c) need)
       in Rejected (FUNDS_IMMATURE (blockSource bl) (availableAt bl))))"

text \<open>The compare-and-set move of a saga, as a step on the unit.\<close>

definition advance_saga ::
    "string \<Rightarrow> saga_state \<Rightarrow> saga_state \<Rightarrow> (saga \<Rightarrow> saga) \<Rightarrow> int option \<Rightarrow> (unit_state, bool) act" where
  "advance_saga i from_state to_state patch updatedAt = (\<lambda>s.
     case saga_advance i from_state to_state patch updatedAt (u_sagas s) of (ok, st) \<Rightarrow> Inr (ok, s\<lparr>u_sagas := st\<rparr>))"

definition trust_record_act :: "ctx \<Rightarrow> string \<Rightarrow> attempt \<Rightarrow> (unit_state, velocity) act" where
  "trust_record_act c subject a =
     zoom u_trust u_trust_update (trust_record subject a (c_now c) (velocityWindowMs (c_config c)))"

section \<open>Guards (src/operations/guards.ts)\<close>

definition malformed :: err where
  "malformed = fault MALFORMED_OPERATION"

definition assertOperator :: "operation \<Rightarrow> unit res" where
  "assertOperator opn = ensure (case actor opn of OperatorActor _ \<Rightarrow> True | _ \<Rightarrow> False) malformed"

definition assertReason :: "string \<Rightarrow> unit res" where
  "assertReason reason = ensure (\<not> blank reason) malformed"

fun check_recipients :: "recipient list \<Rightarrow> string \<Rightarrow> string list \<Rightarrow> int \<Rightarrow> unit res" where
  "check_recipients [] buyerId seen bps = ensure (bps = 10000) malformed"
| "check_recipients (r # rs) buyerId seen bps =
     rbind (ensure (sellerId r \<noteq> buyerId) malformed) (\<lambda>_.
     rbind (ensure (sellerId r \<notin> set seen) malformed) (\<lambda>_.
     rbind (ensure (\<not> (shareBps r \<le> 0 \<or> shareBps r > 10000)) malformed) (\<lambda>_.
       check_recipients rs buyerId (sellerId r # seen) (bps + shareBps r))))"

definition assertRecipientShares :: "recipient list \<Rightarrow> string \<Rightarrow> unit res" where
  "assertRecipientShares recipients buyerId =
     (if recipients = [] then Inl malformed else check_recipients recipients buyerId [] 0)"

definition loadSaga :: "string \<Rightarrow> (unit_state, saga) act" where
  "loadSaga i = sbind (gets (\<lambda>s. saga_load i (u_sagas s))) (\<lambda>r.
     case r of None \<Rightarrow> throw malformed | Some x \<Rightarrow> ret x)"

definition reversalKey :: "string \<Rightarrow> string" where
  "reversalKey i = ''reversed:'' @ i"

definition lifecycleMarker :: "ctx \<Rightarrow> (unit_state, transaction) act" where
  "lifecycleMarker c = sbind (fresh c ''txn'') (\<lambda>i.
     ret \<lparr>txnId = i, legs = [], meta = [], postedAt = c_now c, links = []\<rparr>)"

definition noopTransaction :: transaction where
  "noopTransaction = \<lparr>txnId = [], legs = [], meta = [], postedAt = 0, links = []\<rparr>"

definition unit_reads :: "unit_state \<Rightarrow> chain_reads" where
  "unit_reads s = mem_reads (u_ledger s)"

definition verified_posting :: "ctx \<Rightarrow> string \<Rightarrow> (unit_state, posting option) act" where
  "verified_posting c txn = (\<lambda>s. lift (verifiedPosting (c_digest c) (unit_reads s) txn) s)"

definition saga_anchored :: "saga \<Rightarrow> posting option \<Rightarrow> amount res" where
  "saga_anchored x found =
     (case (found, sagaPayoutUsd x) of
        (Some p, Some usd_amount) \<Rightarrow>
          (if map_of (meta p) ''kind'' = Some (JStr ''requestPayout'') \<and>
              map_of (meta p) ''sagaId'' = Some (JStr (sagaId x)) \<and>
              map_of (meta p) ''rateId'' = Some (JStr (sagaRateId x)) \<and>
              map_of (meta p) ''payoutUsd'' = Some (JStr (encodeAmount usd_amount)) \<and>
              (case find (\<lambda>l. account l = earned (sagaUser x)) (legs p) of
                 None \<Rightarrow> False | Some l \<Rightarrow> minor (amount l) = minor (sagaReserve x))
           then Inr usd_amount else Inl (fault_retryable CHAIN_BROKEN False))
      | _ \<Rightarrow> Inl (fault_retryable CHAIN_BROKEN False))"

definition assertSagaAnchored :: "ctx \<Rightarrow> saga \<Rightarrow> (unit_state, amount) act" where
  "assertSagaAnchored c x = sbind (verified_posting c (sagaTxn x)) (\<lambda>p. lift (saga_anchored x p))"

definition subscription_anchored :: "subscription \<Rightarrow> posting option \<Rightarrow> unit res" where
  "subscription_anchored x found =
     (case found of
        None \<Rightarrow> Inl (fault_retryable CHAIN_BROKEN False)
      | Some p \<Rightarrow>
          ensure (map_of (meta p) ''kind'' = Some (JStr ''subscribe'') \<and>
             map_of (meta p) ''subscriptionId'' = Some (JStr (subId x)) \<and>
             map_of (meta p) ''userId'' = Some (JStr (subUser x)) \<and>
             map_of (meta p) ''sellerId'' = Some (JStr (subSeller x)) \<and>
             map_of (meta p) ''price'' = Some (JStr (encodeAmount (subPrice x))) \<and>
             map_of (meta p) ''periodMs'' = Some (JNum (subPeriodMs x)))
            (fault_retryable CHAIN_BROKEN False))"

definition assertSubscriptionAnchored :: "ctx \<Rightarrow> subscription \<Rightarrow> (unit_state, unit) act" where
  "assertSubscriptionAnchored c x = sbind (verified_posting c (subTxn x)) (\<lambda>p. lift (subscription_anchored x p))"

section \<open>The accrual split (src/operations/accrual.ts)\<close>

definition is_parked :: "leg \<Rightarrow> bool" where
  "is_parked l \<longleftrightarrow> walletKindOf (account l) = Some Kearned \<and> minor (amount l) < 0"

definition parkEarnedLegs :: "leg list \<Rightarrow> leg list \<times> (string \<times> int) list" where
  "parkEarnedLegs ls =
     (map (\<lambda>l. if is_parked l then l\<lparr>account := SETTLEMENT_ACCRUAL\<rparr> else l) ls,
      foldl (\<lambda>shares l. if is_parked l then bump (ownerOf (account l)) (- minor (amount l)) shares else shares) [] ls)"

definition sharesMeta :: "(string \<times> int) list \<Rightarrow> json" where
  "sharesMeta shares = JObj (map (\<lambda>(seller, m). (seller, JStr (int_text m))) (filter (\<lambda>(seller, m). m > 0) shares))"

definition accrualRowsOf ::
    "string \<Rightarrow> (string \<times> int) list \<Rightarrow> string \<Rightarrow> nat \<Rightarrow> string \<Rightarrow> int \<Rightarrow> accrual_row list res" where
  "accrualRowsOf orderId shares routeKey n txn recordedAt =
     (let shard = platformShard SETTLEMENT_ACCRUAL routeKey n
      in rmap (\<lambda>(seller, m). rbind (toAmount CREDIT m) (\<lambda>a.
           Inr \<lparr>accOrder = orderId, accSeller = seller, accSeq = 0, accAmount = a, accShard = shard,
             accStatus = AccPending, accTxn = txn, accSettledTxn = None, accRecordedAt = recordedAt\<rparr>))
         (filter (\<lambda>(seller, m). m > 0) shares))"

definition put_accruals :: "accrual_row list \<Rightarrow> (unit_state, unit) act" where
  "put_accruals rows = (\<lambda>s. case acc_put rows (u_accruals s) of
     Inl e \<Rightarrow> Inl e | Inr st \<Rightarrow> Inr ((), s\<lparr>u_accruals := st\<rparr>))"

section \<open>Outbox envelopes (src/outbox.ts)\<close>

definition pendingOutbox :: "ctx \<Rightarrow> event \<Rightarrow> string option \<Rightarrow> (unit_state, outbox_message) act" where
  "pendingOutbox c ev correlationId = sbind (fresh c ''obx'') (\<lambda>i.
     ret \<lparr>outId = i, outEvent = ev, outStatus = OutPending, outAttempts = 0, outReason = None,
          outCorrelation = correlationId\<rparr>)"

definition enqueue_event :: "ctx \<Rightarrow> event \<Rightarrow> string option \<Rightarrow> (unit_state, unit) act" where
  "enqueue_event c ev correlationId = sbind (pendingOutbox c ev correlationId) (\<lambda>m.
     modify (u_outbox_update (outbox_enqueue (c_now c) m)))"

section \<open>Lemmas\<close>

lemma zoom_Inr: "zoom g u m s = Inr (x, s') \<longleftrightarrow> (\<exists>t. m (g s) = Inr (x, t) \<and> s' = u (\<lambda>_. t) s)"
  by (auto simp: zoom_def split: sum.splits prod.splits)

lemma on_ledger_Inr: "on_ledger m s = Inr (x, s') \<longleftrightarrow> (\<exists>t. m (u_ledger s) = Inr (x, t) \<and> s' = s\<lparr>u_ledger := t\<rparr>)"
  by (simp add: on_ledger_def zoom_Inr)

text \<open>The unit's ledger keeps the contract of the in-memory ledger it wraps.\<close>

interpretation uled: ledger_port "unit_ledger c" "\<lambda>s a. getz (balances (u_ledger s)) a"
proof
  fix a s b s'
  assume "l_hasAccount (unit_ledger c) a s = Inr (b, s')"
  then obtain t where "l_hasAccount (memory_ledger (c_digest c) (c_now c)) a (u_ledger s) = Inr (b, t)"
    "s' = s\<lparr>u_ledger := t\<rparr>" by (auto simp: unit_ledger_def Let_def on_ledger_Inr)
  then show "s' = s" using mem.has_pure by fastforce
next
  fix a s v s'
  assume "l_balance (unit_ledger c) a s = Inr (v, s')"
  then obtain t where t: "l_balance (memory_ledger (c_digest c) (c_now c)) a (u_ledger s) = Inr (v, t)"
    "s' = s\<lparr>u_ledger := t\<rparr>" by (auto simp: unit_ledger_def Let_def on_ledger_Inr)
  from mem.balance_reads [OF t(1)] t(2)
  show "s' = s \<and> minor v = getz (balances (u_ledger s)) a \<and> currency v = currencyOf a" by simp
next
  fix p s t s'
  assume "l_append (unit_ledger c) p s = Inr (t, s')"
  then obtain r where r: "l_append (memory_ledger (c_digest c) (c_now c)) p (u_ledger s) = Inr (t, r)"
    "s' = s\<lparr>u_ledger := r\<rparr>" by (auto simp: unit_ledger_def Let_def on_ledger_Inr)
  from mem.append_moves [OF r(1)] r(2)
  show "(\<forall>a. getz (balances (u_ledger s')) a = getz (balances (u_ledger s)) a + net a (legs p)) \<and>
      legs t = legs p \<and> txnId t = txnId p \<and> meta t = meta p" by simp
qed

text \<open>The ledger operations of the unit are those of the in-memory ledger it holds.\<close>

lemma on_ledger_sbind: "on_ledger (sbind m f) = sbind (on_ledger m) (\<lambda>x. on_ledger (f x))"
  by (rule ext) (auto simp: on_ledger_def zoom_def sbind_def split: sum.splits prod.splits)

lemma on_ledger_ret: "on_ledger (ret x) = ret x"
  and on_ledger_throw: "on_ledger (throw e) = throw e"
  and on_ledger_lift: "on_ledger (lift r) = lift r"
  by (rule ext; auto simp: on_ledger_def zoom_def lift_def split: sum.splits)+

lemma on_ledger_if: "on_ledger (if b then m else n) = (if b then on_ledger m else on_ledger n)"
  by simp

lemma on_ledger_seach: "on_ledger (seach f xs) = seach (\<lambda>x. on_ledger (f x)) xs"
  by (induction xs) (simp_all only: seach.simps on_ledger_ret on_ledger_sbind)

lemmas on_ledger_rules = on_ledger_ret on_ledger_sbind on_ledger_throw on_ledger_lift on_ledger_if on_ledger_seach

lemma unit_ledger_sel [simp]:
  "l_hasAccount (unit_ledger c) a = on_ledger (l_hasAccount (memory_ledger (c_digest c) (c_now c)) a)"
  "l_balance (unit_ledger c) a = on_ledger (m_balance a)"
  "l_append (unit_ledger c) p = on_ledger (l_append (memory_ledger (c_digest c) (c_now c)) p)"
  "l_appendAll (unit_ledger c) = None"
  by (simp_all add: unit_ledger_def memory_ledger_def Let_def)

lemma postEntry_unit [simp]:
  "postEntry (unit_ledger c) p = on_ledger (postEntry (memory_ledger (c_digest c) (c_now c)) p)"
proof -
  have "assertKnownAccounts (unit_ledger c) q = on_ledger (assertKnownAccounts (memory_ledger (c_digest c) (c_now c)) q)" for q
    by (simp add: assertKnownAccounts_def on_ledger_rules cong: if_cong)
  moreover have "assertNoOverdraft (unit_ledger c) q = on_ledger (assertNoOverdraft (memory_ledger (c_digest c) (c_now c)) q)" for q
    by (simp add: assertNoOverdraft_def on_ledger_rules memory_ledger_def split_def cong: if_cong)
  ultimately show ?thesis
    by (simp add: postEntry_def post_checks_def on_ledger_rules Let_def)
qed

lemma lockAll_unit [simp]: "lockAll (unit_ledger c) as = ret ()"
proof -
  have "seach (l_lock (unit_ledger c)) xs = ret ()" for xs
    by (induction xs) (simp_all add: unit_ledger_def memory_ledger_def Let_def sbind_def fun_eq_iff on_ledger_ret)
  then show ?thesis by (simp add: lockAll_def unit_ledger_def Let_def)
qed

lemma m_balance_Inr [simp]:
  "m_balance a s = Inr (v, s') \<longleftrightarrow>
     s' = s \<and> in_i64 (getz (balances s) a) \<and> v = \<lparr>currency = currencyOf a, minor = getz (balances s) a\<rparr>"
  by (auto simp: m_balance_def)

lemma fresh_Inr [simp]: "fresh c x s = Inr (i, s') \<longleftrightarrow> i = c_ids c x (u_drawn s) \<and> s' = s\<lparr>u_drawn := u_drawn s + 1\<rparr>"
  by (auto simp: fresh_def)

lemma fresh_bind: "sbind (fresh c x) f s = f (c_ids c x (u_drawn s)) (s\<lparr>u_drawn := u_drawn s + 1\<rparr>)"
  by (simp add: sbind_def fresh_def)

lemma keeps_prod [keeps_rules]: "(\<And>a b. keeps P (f a b)) \<Longrightarrow> keeps P (case p of (a, b) \<Rightarrow> f a b)"
  by (cases p) simp

lemma keeps_Let [keeps_rules]: "(\<And>x. keeps P (f x)) \<Longrightarrow> keeps P (let x = v in f x)"
  by simp

lemma keeps_on_ledger_read:
  "(\<And>l x l'. m l = Inr (x, l') \<Longrightarrow> l' = l) \<Longrightarrow> keeps P (on_ledger m)"
  by (rule keepsI) (fastforce simp: on_ledger_Inr)

section \<open>Invariants of the unit, step by step\<close>

text \<open>
  What an invariant needs of the primitive steps of handlers. The three steps an invariant may want to
  guard, recording a key, storing a sale and moving a saga, have locales of their own.
\<close>

locale unit_core =
  fixes c :: ctx and P :: "unit_state \<Rightarrow> bool"
  assumes post: "keeps P (on_ledger (postEntry (memory_ledger (c_digest c) (c_now c)) p))"
    and drawn: "keeps P (fresh c x)"
    and ents: "keeps P (modify (u_ents_update f1))"
    and subs: "keeps P (modify (u_subs_update f2))"
    and promos: "keeps P (modify (u_promos_update f3))"
    and outbox: "keeps P (modify (u_outbox_update f4))"
    and balances: "keeps P (modify (u_balances_update f5))"
    and accruals: "keeps P (modify (u_accruals_update f6))"
    and put_acc: "keeps P (put_accruals rows)"
    and trust: "keeps P (trust_record_act c subject a)"
    and claim: "keeps P (idem_claim_act c k)"

locale unit_rec = unit_core +
  assumes record_key: "keeps P (idem_record_act c k t)"

locale unit_sale = unit_core +
  assumes store_sale: "keeps P (modify (u_sales_update (sale_put x)))"

locale unit_saga = unit_core +
  assumes open_saga: "keeps P (modify (u_sagas_update (saga_open x)))"
    and move_saga: "keeps P (advance_saga i from_state to_state patch u)"

context unit_core begin

lemmas core = post drawn ents subs promos outbox balances accruals put_acc trust claim

lemma read_balance: "keeps P (on_ledger (m_balance a))"
  by (rule keeps_on_ledger_read) simp

lemmas steps = core read_balance keeps_rules

lemma cached [keeps_rules]: "keeps P (cached_balance c a)"
  by (auto simp: cached_balance_def intro!: steps)

lemma maturity: "keeps P m \<Longrightarrow> keeps P (matured_at_least c a need m)" "keeps P m \<Longrightarrow> keeps P (maturity_rejection c a need m)"
  by (auto simp: matured_at_least_def maturity_rejection_def Let_def intro!: steps)

lemma marker: "keeps P (lifecycleMarker c)"
  by (auto simp: lifecycleMarker_def intro!: steps)

lemma verified: "keeps P (verified_posting c t)"
  by (auto simp: verified_posting_def keeps_def)

lemma event: "keeps P (enqueue_event c ev cid)"
  by (auto simp: enqueue_event_def pendingOutbox_def intro!: steps)

lemma entries: "keeps P (postEntries (unit_ledger c) ps)"
  by (auto simp: postEntries_def intro!: steps)

end

text \<open>A context for concrete instances: every rate a hundredth, the flat fee, ids from the clock and the count.\<close>

definition demo_rate :: rate where
  "demo_rate = \<lparr>rate = 1, scale = 2, rateId = ''par''\<rparr>"

definition demo_ctx :: "int \<Rightarrow> ctx" where
  "demo_ctx t = \<lparr>c_now = t, c_digest = demo_digest, c_config = demo_config, c_pricing = flatFee,
     c_buy = demo_rate, c_par = demo_rate, c_payout = demo_rate, c_payees = None,
     c_ids = (\<lambda>p n. p @ ''-'' @ int_text t @ ''-'' @ int_text (int n))\<rparr>"

end
