(* ===== verification/OpsFunds.thy ===== *)
theory OpsFunds
  imports Unit
begin

text \<open>
  The handlers of src/operations that issue, correct and claw back credits and that keep ownership
  records: topUp, adjust, clawback, grantPromo, grantEntitlement, revokeEntitlement and
  cancelSubscription. A handler given another kind faults, as assertKind does.
\<close>

section \<open>topUp (src/operations/topUp.ts)\<close>

definition requireBundleAmount :: "amount \<Rightarrow> int list option \<Rightarrow> unit res" where
  "requireBundleAmount a bundles =
     (case bundles of
        None \<Rightarrow> Inr ()
      | Some bs \<Rightarrow>
          (if minor a \<in> set bs then Inr ()
           else rbind (rmap (toAmount CREDIT) bs) (\<lambda>_. Inl malformed)))"

definition requireSource :: "string \<Rightarrow> unit res" where
  "requireSource source = ensure (\<not> blank source) malformed"

definition cash_legs :: "amount \<Rightarrow> amount \<Rightarrow> amount \<Rightarrow> leg list res" where
  "cash_legs backing margin gross =
     rbind (credit USD_CLEARING gross) (\<lambda>clearing.
       Inr ([debit TRUST_CASH backing] @ (if minor margin > 0 then [debit REVENUE_USD margin] else []) @ [clearing]))"

definition topUp :: handler where
  "topUp c opn = (case payload opn of
     TopUp userId requested source \<Rightarrow>
       sbind (lift (requireSource source)) (\<lambda>_.
       sbind (lift (requirePositiveCredit requested)) (\<lambda>a.
       sbind (lift (requireBundleAmount a (topUpBundlesMinor (c_config c)))) (\<lambda>_.
       sbind (lift (convertCeil a (c_buy c) USD)) (\<lambda>gross.
       sbind (lift (convertCeil a (c_par c) USD)) (\<lambda>backing.
       sbind (lift (toAmount USD (minor gross - minor backing))) (\<lambda>margin.
       if minor margin < 0 then throw (fault_retryable CONFIG_INVALID False)
       else
       sbind (lift (cash_legs backing margin gross)) (\<lambda>cash.
       sbind (fresh c ''txn'') (\<lambda>t1.
       sbind (lift (credit (spendable userId) a)) (\<lambda>issued.
       sbind (fresh c ''txn'') (\<lambda>t2.
       sbind (postEntries (unit_ledger c)
         [\<lparr>txnId = t1,
           legs = routePlatformLegs [debit STORED_VALUE a, issued] (idempotencyKey opn) (shards c),
           meta = [(''kind'', JStr ''topUp''), (''source'', JStr source)]\<rparr>,
          \<lparr>txnId = t2,
           legs = routePlatformLegs cash (idempotencyKey opn) (shards c),
           meta = [(''kind'', JStr ''topUp.cash''), (''rateId'', JStr (rateId (c_buy c))),
                   (''parRateId'', JStr (rateId (c_par c)))]\<rparr>]) (\<lambda>ts.
       ret (Committed (hd ts)))))))))))))
   | _ \<Rightarrow> throw malformed)"

section \<open>adjust (src/operations/adjust.ts)\<close>

definition creditDelta :: "amount \<Rightarrow> amount res" where
  "creditDelta a =
     rbind (ensure (currency a = CREDIT) malformed) (\<lambda>_.
     rbind (ensure (\<not> isZero a) (fault INVALID_AMOUNT)) (\<lambda>_. Inr a))"

definition buildAdjustLegs :: "AccountRef \<Rightarrow> amount \<Rightarrow> leg list res" where
  "buildAdjustLegs acct a =
     (let accountMinor = (if isDebitNormal acct then minor a else - minor a)
      in rbind (toAmount (currency a) accountMinor) (\<lambda>x.
         rbind (toAmount (currency a) (- accountMinor)) (\<lambda>y.
           Inr [\<lparr>account = acct, amount = x\<rparr>, \<lparr>account = OPENING_EQUITY, amount = y\<rparr>])))"

definition adjustMeta :: "amount \<Rightarrow> string \<Rightarrow> meta" where
  "adjustMeta a reason = [(''kind'', JStr ''adjust''), (''amount'', JStr (encodeAmount a)), (''reason'', JStr reason)]"

definition adjust :: handler where
  "adjust c opn = (case payload opn of
     Adjust acct requested reason \<Rightarrow>
       sbind (lift (assertOperator opn)) (\<lambda>_.
       sbind (lift (assertReason reason)) (\<lambda>_.
       sbind (lift (creditDelta requested)) (\<lambda>a.
       sbind (fresh c ''txn'') (\<lambda>t.
       sbind (lift (buildAdjustLegs acct a)) (\<lambda>ls.
       sbind (postEntry (unit_ledger c) \<lparr>txnId = t, legs = ls, meta = adjustMeta requested reason\<rparr>) (\<lambda>txn.
       ret (Committed txn)))))))
   | _ \<Rightarrow> throw malformed)"

section \<open>clawback (src/operations/clawback.ts)\<close>

definition presentOrderId :: "string \<Rightarrow> string res" where
  "presentOrderId orderId = rbind (ensure (\<not> blank orderId) malformed) (\<lambda>_. Inr orderId)"

text \<open>The recovered and the missing part.\<close>

definition splitClawback :: "amount \<Rightarrow> amount \<Rightarrow> (amount \<times> amount) res" where
  "splitClawback a held =
     (let available = (if minor held > 0 then minor held else 0);
          recovered = (if available < minor a then available else minor a)
      in rbind (toAmount (currency a) recovered) (\<lambda>x.
         rbind (toAmount (currency a) (minor a - recovered)) (\<lambda>y. Inr (x, y))))"

definition buildClawbackLegs :: "string \<Rightarrow> amount \<Rightarrow> amount \<times> amount \<Rightarrow> leg list res" where
  "buildClawbackLegs userId a parts =
     rbind (credit STORED_VALUE a) (\<lambda>back.
       Inr ((if minor (fst parts) > 0 then [debit (spendable userId) (fst parts)] else []) @
            (if minor (snd parts) > 0 then [debit RECEIVABLE (snd parts)] else []) @ [back]))"

definition opt_meta :: "string \<Rightarrow> string option \<Rightarrow> meta" where
  "opt_meta k v = (case v of None \<Rightarrow> [] | Some x \<Rightarrow> [(k, JStr x)])"

definition clawbackMeta :: "string option \<Rightarrow> string option \<Rightarrow> string option \<Rightarrow> amount \<times> amount \<Rightarrow> meta" where
  "clawbackMeta orderId key reason parts =
     [(''kind'', JStr ''clawback''), (''recovered'', JStr (encodeAmount (fst parts))),
      (''shortfall'', JStr (encodeAmount (snd parts)))] @
     opt_meta ''orderId'' orderId @ opt_meta ''key'' key @ opt_meta ''reason'' reason"

text \<open>
  The claim of the order's reversal marker, when the chargeback names an order: \<open>Some t\<close> is the
  earlier reversal.
\<close>

definition claim_reversal :: "ctx \<Rightarrow> string option \<Rightarrow> (unit_state, transaction option) act" where
  "claim_reversal c orderId = (case orderId of
     None \<Rightarrow> ret None
   | Some oid \<Rightarrow> sbind (lift (presentOrderId oid)) (\<lambda>i. idem_claim_act c (reversalKey i)))"

definition record_reversal :: "ctx \<Rightarrow> string option \<Rightarrow> transaction \<Rightarrow> (unit_state, unit) act" where
  "record_reversal c orderId t = (case orderId of
     None \<Rightarrow> ret () | Some oid \<Rightarrow> idem_record_act c (reversalKey oid) t)"

definition clawback :: handler where
  "clawback c opn = (case payload opn of
     Clawback userId requested orderId key reason \<Rightarrow>
       sbind (lift (requirePositiveCredit requested)) (\<lambda>a.
       sbind (claim_reversal c orderId) (\<lambda>prior.
       case prior of Some t \<Rightarrow> ret (Duplicate t) | None \<Rightarrow>
       sbind (l_balance (unit_ledger c) (spendable userId)) (\<lambda>held.
       sbind (lift (splitClawback a held)) (\<lambda>parts.
       sbind (lift (buildClawbackLegs userId a parts)) (\<lambda>ls.
       sbind (fresh c ''txn'') (\<lambda>t.
       sbind (postEntry (unit_ledger c)
         \<lparr>txnId = t, legs = ls, meta = clawbackMeta orderId key reason parts\<rparr>) (\<lambda>txn.
       sbind (record_reversal c orderId txn) (\<lambda>_.
       ret (Committed txn)))))))))
   | _ \<Rightarrow> throw malformed)"

section \<open>grantPromo (src/operations/promo.ts)\<close>

definition MAX_EXPIRY_AHEAD_MS :: int where
  "MAX_EXPIRY_AHEAD_MS = 5 * 365 * 24 * 60 * 60000"

definition futureExpiresAt :: "jsnum \<Rightarrow> int \<Rightarrow> int res" where
  "futureExpiresAt expiresAt now =
     (case expiresAt of
        NInt e \<Rightarrow> (if e \<le> now then Inl malformed
                  else if e > now + MAX_EXPIRY_AHEAD_MS then Inl malformed else Inr e)
      | _ \<Rightarrow> Inl malformed)"

definition grantPromo :: handler where
  "grantPromo c opn = (case payload opn of
     GrantPromo userId requested expiresAt \<Rightarrow>
       sbind (lift (requirePositiveCredit requested)) (\<lambda>a.
       sbind (lift (futureExpiresAt expiresAt (c_now c))) (\<lambda>e.
       sbind (fresh c ''txn'') (\<lambda>t.
       sbind (lift (credit (promo userId) a)) (\<lambda>granted.
       sbind (postEntry (unit_ledger c)
         \<lparr>txnId = t, legs = [debit PROMO_FLOAT a, granted],
          meta = [(''kind'', JStr ''grantPromo''), (''expiresAt'', JNum e)]\<rparr>) (\<lambda>txn.
       sbind (modify (u_promos_update (promo_open
         \<lparr>grantId = txnId txn, grantUser = userId, grantAmount = a, grantExpiresAt = e, grantReversed = False\<rparr>))) (\<lambda>_.
       ret (Committed txn)))))))
   | _ \<Rightarrow> throw malformed)"

section \<open>Entitlements (src/operations/entitlements.ts)\<close>

definition assertIdentified :: "string \<Rightarrow> string \<Rightarrow> unit res" where
  "assertIdentified userId sku =
     rbind (ensure (\<not> blank userId) malformed) (\<lambda>_. ensure (\<not> blank sku) malformed)"

definition assertAttrs :: "ent_attrs option \<Rightarrow> unit res" where
  "assertAttrs attrs = (case attrs of
     None \<Rightarrow> Inr ()
   | Some a \<Rightarrow>
       rbind (ensure (case eexpiresAt a of None \<Rightarrow> True | Some e \<Rightarrow> num_isFinite e) malformed) (\<lambda>_.
         ensure (case quantity a of None \<Rightarrow> True | Some q \<Rightarrow> num_isInteger q \<and> num_gt q 0) malformed))"

definition EMPTY_ATTRS :: ent_attrs where
  "EMPTY_ATTRS = \<lparr>quantity = None, eversion = None, eexpiresAt = None, esource = None\<rparr>"

definition grantEntitlement :: handler where
  "grantEntitlement c opn = (case payload opn of
     GrantEntitlement userId sku attrs \<Rightarrow>
       sbind (lift (assertIdentified userId sku)) (\<lambda>_.
       sbind (lift (assertAttrs attrs)) (\<lambda>_.
       sbind (modify (u_ents_update (ent_grant userId sku
         (case attrs of None \<Rightarrow> EMPTY_ATTRS | Some a \<Rightarrow> a)))) (\<lambda>_.
       sbind (lifecycleMarker c) (\<lambda>txn. ret (Committed txn)))))
   | _ \<Rightarrow> throw malformed)"

definition revokeEntitlement :: handler where
  "revokeEntitlement c opn = (case payload opn of
     RevokeEntitlement userId sku reason \<Rightarrow>
       sbind (lift (assertIdentified userId sku)) (\<lambda>_.
       sbind (gets (\<lambda>s. ent_owns (c_now c) userId sku (u_ents s))) (\<lambda>owns.
       if \<not> owns then ret (Rejected (NOT_ENTITLED userId sku))
       else
       sbind (modify (u_ents_update (ent_revoke userId sku))) (\<lambda>_.
       sbind (lifecycleMarker c) (\<lambda>txn. ret (Committed txn)))))
   | _ \<Rightarrow> throw malformed)"

section \<open>cancelSubscription (src/operations/cancelSubscription.ts)\<close>

definition assertMayCancel :: "operation \<Rightarrow> subscription \<Rightarrow> unit res" where
  "assertMayCancel opn x = (case actor opn of
     UserActor u \<Rightarrow> ensure (u = subUser x) (fault UNAUTHORIZED) | _ \<Rightarrow> Inr ())"

definition cancelSubscription :: handler where
  "cancelSubscription c opn = (case payload opn of
     CancelSubscription i \<Rightarrow>
       sbind (lift (ensure (\<not> blank i) malformed)) (\<lambda>_.
       sbind (gets (\<lambda>s. sub_load i (u_subs s))) (\<lambda>found.
       case found of
         None \<Rightarrow> ret (Rejected (UNKNOWN_SUBSCRIPTION i))
       | Some x \<Rightarrow>
           (if subState x = CANCELED then ret (Rejected (UNKNOWN_SUBSCRIPTION i))
            else
            sbind (lift (assertMayCancel opn x)) (\<lambda>_.
            sbind (modify (u_subs_update (sub_cancel i))) (\<lambda>_.
            sbind (lifecycleMarker c) (\<lambda>txn. ret (Committed txn)))))))
   | _ \<Rightarrow> throw malformed)"

section \<open>Invariants\<close>

context unit_core begin

lemma keeps_topUp: "keeps P (topUp c opn)"
  by (auto simp: topUp_def intro!: steps entries split: payload.split)

lemma keeps_adjust: "keeps P (adjust c opn)"
  by (auto simp: adjust_def intro!: steps split: payload.split)

lemma keeps_grantPromo: "keeps P (grantPromo c opn)"
  by (auto simp: grantPromo_def intro!: steps split: payload.split)

lemma keeps_grantEntitlement: "keeps P (grantEntitlement c opn)"
  by (auto simp: grantEntitlement_def intro!: steps marker split: payload.split)

lemma keeps_revokeEntitlement: "keeps P (revokeEntitlement c opn)"
  by (auto simp: revokeEntitlement_def intro!: steps marker split: payload.split)

lemma keeps_cancelSubscription: "keeps P (cancelSubscription c opn)"
  by (auto simp: cancelSubscription_def intro!: steps marker split: payload.split)

lemma keeps_claim_reversal: "keeps P (claim_reversal c orderId)"
  by (auto simp: claim_reversal_def intro!: steps)

end

context unit_rec begin

lemma keeps_clawback: "keeps P (clawback c opn)"
  by (auto simp: clawback_def record_reversal_def intro!: steps keeps_claim_reversal record_key split: payload.split)

end

end
