(* ===== verification/OpsSpend.thy ===== *)
theory OpsSpend
  imports OpsFunds
begin

text \<open>
  Purchases and their reversal: src/operations/spend.ts and src/operations/refund.ts, with the
  accrual split's per-order share rows.
\<close>

section \<open>spend\<close>

record spend_plan =
  promoPart :: amount
  spendablePart :: amount

definition planSpend :: "amount \<Rightarrow> amount \<Rightarrow> spend_plan res" where
  "planSpend price promoBalance =
     (let available = (if minor promoBalance > 0 then minor promoBalance else 0);
          promoMinor = (if available < minor price then available else minor price)
      in rbind (toAmount (currency price) promoMinor) (\<lambda>p.
         rbind (toAmount (currency price) (minor price - promoMinor)) (\<lambda>s.
           Inr \<lparr>promoPart = p, spendablePart = s\<rparr>)))"

definition spendPreClaim :: "string \<Rightarrow> (unit_state, outcome option) act" where
  "spendPreClaim orderId = gets (\<lambda>s.
     (case sale_get orderId (u_sales s) of None \<Rightarrow> None | Some _ \<Rightarrow> Some (Rejected (DUPLICATE_ORDER orderId))))"

fun check_sellers :: "recipient list \<Rightarrow> string list \<Rightarrow> unit res" where
  "check_sellers [] seen = Inr ()"
| "check_sellers (r # rs) seen =
     rbind (ensure (sellerId r \<notin> set seen) malformed) (\<lambda>_.
     rbind (ensure (isWalletAccount (earned (sellerId r)) \<and> \<not> blank (ownerOf (earned (sellerId r)))) malformed) (\<lambda>_.
       check_sellers rs (sellerId r # seen)))"

definition assertSpendShape :: "string \<Rightarrow> string \<Rightarrow> recipient list \<Rightarrow> unit res" where
  "assertSpendShape orderId sku recipients =
     rbind (ensure (\<not> blank sku) malformed) (\<lambda>_.
     rbind (ensure (\<not> blank orderId) malformed) (\<lambda>_.
       check_sellers recipients []))"

definition entitlementRecipient :: "string \<Rightarrow> string option \<Rightarrow> string res" where
  "entitlementRecipient buyerId giftTo = (case giftTo of
     None \<Rightarrow> Inr buyerId
   | Some g \<Rightarrow> rbind (ensure (\<not> blank g) malformed) (\<lambda>_. Inr g))"

text \<open>The seller credits of the promo-funded part, and what they add up to.\<close>

fun distributeEarned :: "amount \<Rightarrow> recipient list \<Rightarrow> int \<Rightarrow> (leg list \<times> amount) res" where
  "distributeEarned a [] distributed = rbind (toAmount (currency a) distributed) (\<lambda>d. Inr ([], d))"
| "distributeEarned a (r # rs) distributed =
     rbind (mulDiv (minor a) (shareBps r) 10000 Floor) (\<lambda>share.
     rbind (if share > 0
            then rbind (toAmount (currency a) share) (\<lambda>x. rbind (credit (earned (sellerId r)) x) (\<lambda>l. Inr [l]))
            else Inr []) (\<lambda>own.
     rbind (distributeEarned a rs (distributed + share)) (\<lambda>(ls, d). Inr (own @ ls, d))))"

definition appendPromoLegs :: "string \<Rightarrow> spend_plan \<Rightarrow> recipient list \<Rightarrow> leg list res" where
  "appendPromoLegs buyerId plan recipients =
     (if minor (promoPart plan) = 0 then Inr []
      else rbind (credit PROMO_FLOAT (promoPart plan)) (\<lambda>float.
           rbind (distributeEarned (promoPart plan) recipients 0) (\<lambda>(ls, distributed).
             Inr ([debit (promo buyerId) (promoPart plan), float] @ ls @ [debit REVENUE distributed]))))"

definition appendSpendableLegs :: "ctx \<Rightarrow> string \<Rightarrow> string \<Rightarrow> spend_plan \<Rightarrow> recipient list \<Rightarrow> leg list res" where
  "appendSpendableLegs c buyerId sku plan recipients =
     (if minor (spendablePart plan) = 0 then Inr []
      else rbind (c_pricing c \<lparr>fprice = spendablePart plan, frecipients = recipients,
              ffeeBps = platformFeeBps (c_config c), fbuyerId = Some buyerId, fsku = Some sku\<rparr>) (\<lambda>ls.
             Inr (debit (spendable buyerId) (spendablePart plan) # ls)))"

definition buildSpendLegs :: "ctx \<Rightarrow> string \<Rightarrow> string \<Rightarrow> spend_plan \<Rightarrow> recipient list \<Rightarrow> leg list res" where
  "buildSpendLegs c buyerId sku plan recipients =
     rbind (appendPromoLegs buyerId plan recipients) (\<lambda>ps.
     rbind (appendSpendableLegs c buyerId sku plan recipients) (\<lambda>ss. Inr (ps @ ss)))"

definition spendMeta :: "string \<Rightarrow> bool \<Rightarrow> string \<Rightarrow> string \<Rightarrow> (string \<times> int) list option \<Rightarrow> meta" where
  "spendMeta orderId ageRestricted buyerId recipientId parked =
     [(''kind'', JStr ''spend''), (''orderId'', JStr orderId)] @
     (if ageRestricted then [(''ageRestricted'', JBool True)] else []) @
     (if recipientId \<noteq> buyerId then [(''isGift'', JBool True), (''giftTo'', JStr recipientId)] else []) @
     (case parked of None \<Rightarrow> [] | Some sh \<Rightarrow> [(''shares'', sharesMeta sh)])"

text \<open>The recorded fee is what REVENUE kept of the spendable-funded part.\<close>

definition saleOf ::
    "string \<Rightarrow> string \<Rightarrow> string \<Rightarrow> string option \<Rightarrow> amount \<Rightarrow> recipient list \<Rightarrow> spend_plan \<Rightarrow> transaction \<Rightarrow> int \<Rightarrow> sale res" where
  "saleOf orderId buyerId sku giftTo price recipients plan t feeBps =
     rbind (revenueForSplit (spendablePart plan) recipients feeBps) (\<lambda>fee.
     rbind (toAmount (currency price) fee) (\<lambda>f.
       Inr \<lparr>saleOrder = orderId, saleBuyer = buyerId, saleSku = sku,
         saleRecipient = Some (case giftTo of None \<Rightarrow> buyerId | Some g \<Rightarrow> g), salePrice = price, saleFee = f,
         saleLegs = legs t, saleTxn = txnId t, salePostedAt = postedAt t\<rparr>))"

text \<open>The charge itself: park under the split, route, post, record the sale and the share rows.\<close>

definition park :: "ctx \<Rightarrow> leg list \<Rightarrow> leg list \<times> (string \<times> int) list option" where
  "park c built = (if accrualDrain (c_config c)
     then (case parkEarnedLegs built of (ls, sh) \<Rightarrow> (ls, Some sh)) else (built, None))"

definition recordAccruals :: "ctx \<Rightarrow> string \<Rightarrow> string \<Rightarrow> (string \<times> int) list option \<Rightarrow> transaction \<Rightarrow> (unit_state, unit) act" where
  "recordAccruals c orderId routeKey parked t = (case parked of
     None \<Rightarrow> ret ()
   | Some sh \<Rightarrow> sbind (lift (accrualRowsOf orderId sh routeKey (shards c) (txnId t) (postedAt t))) put_accruals)"

definition spend :: handler where
  "spend c opn = (case payload opn of
     Spend orderId buyerId sku asked recipients ageRestricted giftTo \<Rightarrow>
       sbind (lift (assertSpendShape orderId sku recipients)) (\<lambda>_.
       sbind (lift (requirePositiveCredit asked)) (\<lambda>price.
       sbind (lift (assertRecipientShares recipients buyerId)) (\<lambda>_.
       sbind (lift (entitlementRecipient buyerId giftTo)) (\<lambda>recipientId.
       sbind (gets (\<lambda>s. sale_get orderId (u_sales s))) (\<lambda>existing.
       if existing \<noteq> None then ret (Rejected (DUPLICATE_ORDER orderId))
       else
       sbind (cached_balance c (promo buyerId)) (\<lambda>promoBalance.
       sbind (lift (planSpend price promoBalance)) (\<lambda>plan.
       sbind (matured_at_least c (spendable buyerId) (spendablePart plan) (cached_balance c (spendable buyerId))) (\<lambda>cleared.
       if \<not> cleared
       then maturity_rejection c (spendable buyerId) (spendablePart plan) (cached_balance c (spendable buyerId))
       else
       sbind (lift (buildSpendLegs c buyerId sku plan recipients)) (\<lambda>built.
       let parked = park c built in
       sbind (fresh c ''txn'') (\<lambda>t.
       sbind (postEntry (unit_ledger c)
         \<lparr>txnId = t, legs = routePlatformLegs (fst parked) (idempotencyKey opn) (shards c),
          meta = spendMeta orderId ageRestricted buyerId recipientId (snd parked)\<rparr>) (\<lambda>txn.
       sbind (lift (saleOf orderId buyerId sku giftTo asked recipients plan txn (platformFeeBps (c_config c)))) (\<lambda>x.
       sbind (modify (u_sales_update (sale_put x))) (\<lambda>_.
       sbind (recordAccruals c orderId (idempotencyKey opn) (snd parked) txn) (\<lambda>_.
       sbind (modify (u_ents_update (ent_grant recipientId sku
         (EMPTY_ATTRS\<lparr>esource := Some (''sale:'' @ orderId)\<rparr>)))) (\<lambda>_.
       ret (Committed txn))))))))))))))))
   | _ \<Rightarrow> throw malformed)"

section \<open>refund\<close>

definition leg_text :: "leg \<Rightarrow> string" where
  "leg_text l = account l @ ''|'' @ currency_text (currency (amount l)) @ ''|'' @ int_text (minor (amount l))"

definition assertSaleMatchesPosting :: "sale \<Rightarrow> posting \<Rightarrow> unit res" where
  "assertSaleMatchesPosting x p =
     ensure (sort (map leg_text (legs p)) = sort (map leg_text (saleLegs x))) (fault_retryable CHAIN_BROKEN False)"

definition extendLocks :: "ctx \<Rightarrow> leg list \<Rightarrow> (unit_state, unit) act" where
  "extendLocks c ls = lockAll (unit_ledger c) (map account ls)"

record account_delta =
  dacct :: AccountRef
  delta :: int
  dcur :: currency

text \<open>The fold of a posting's effects, in the order the accounts first appear.\<close>

fun foldDeltas :: "leg list \<Rightarrow> (AccountRef \<times> int \<times> currency) list \<Rightarrow> account_delta list res" where
  "foldDeltas [] m = Inr (map (\<lambda>(a, d, cur). \<lparr>dacct = a, delta = d, dcur = cur\<rparr>) m)"
| "foldDeltas (l # ls) m =
     rbind (balanceDelta l) (\<lambda>effect.
       foldDeltas ls (case map_of m (account l) of
         None \<Rightarrow> AList.update (account l) (minor effect, currency effect) m
       | Some (d, cur) \<Rightarrow> AList.update (account l) (d + minor effect, cur) m))"

definition raiseLeg :: "AccountRef \<Rightarrow> amount \<Rightarrow> leg res" where
  "raiseLeg acct a =
     (let sign = (if isDebitNormal acct then 1 else - 1)
      in rbind (toAmount (currency a) (minor a * sign)) (\<lambda>x. Inr \<lparr>account = acct, amount = x\<rparr>))"

definition lowerLeg :: "AccountRef \<Rightarrow> amount \<Rightarrow> leg res" where
  "lowerLeg acct a =
     (let sign = (if isDebitNormal acct then - 1 else 1)
      in rbind (toAmount (currency a) (minor a * sign)) (\<lambda>x. Inr \<lparr>account = acct, amount = x\<rparr>))"

record coverage =
  uncapped :: "account_delta list"
  capped :: "(AccountRef \<times> int \<times> currency) list"
  shortfall :: int

definition covered_part :: "int \<Rightarrow> int \<Rightarrow> int" where
  "covered_part onHand want = (if onHand < want then (if onHand > 0 then onHand else 0) else want)"

fun cover_deltas :: "ctx \<Rightarrow> account_delta list \<Rightarrow> coverage \<Rightarrow> (unit_state, coverage) act" where
  "cover_deltas c [] cov = ret cov"
| "cover_deltas c (d # ds) cov =
     (if delta d = 0 then cover_deltas c ds cov
      else if delta d < 0
      then cover_deltas c ds (cov\<lparr>uncapped := uncapped cov @ [d\<lparr>delta := - delta d\<rparr>]\<rparr>)
      else sbind (l_balance (unit_ledger c) (dacct d)) (\<lambda>b.
        let cv = covered_part (minor b) (delta d)
        in cover_deltas c ds (cov\<lparr>capped := capped cov @ (if cv > 0 then [(dacct d, cv, dcur d)] else []),
             shortfall := shortfall cov + (delta d - cv)\<rparr>)))"

definition coverageOf :: "ctx \<Rightarrow> leg list \<Rightarrow> (unit_state, coverage) act" where
  "coverageOf c ls = sbind (lift (foldDeltas ls [])) (\<lambda>ds.
     cover_deltas c ds \<lparr>uncapped = [], capped = [], shortfall = 0\<rparr>)"

definition receivable_leg :: "int \<Rightarrow> leg list res" where
  "receivable_leg m =
     (if m > 0 then rbind (toAmount CREDIT m) (\<lambda>a. rbind (raiseLeg RECEIVABLE a) (\<lambda>l. Inr [l])) else Inr [])"

definition reversalLegs :: "coverage \<Rightarrow> leg list res" where
  "reversalLegs cov =
     rbind (rmap (\<lambda>u. rbind (toAmount (dcur u) (delta u)) (raiseLeg (dacct u))) (uncapped cov)) (\<lambda>us.
     rbind (rmap (\<lambda>(a, m, cur). rbind (toAmount cur m) (lowerLeg a)) (capped cov)) (\<lambda>cs.
     rbind (receivable_leg (shortfall cov)) (\<lambda>rs. Inr (us @ cs @ rs))))"

text \<open>
  \<open>BigInt\<close> of a string of decimal digits with an optional sign, blanks around it and the empty
  string included; prefixes of other bases, which no writer of the map uses, are refused.
\<close>

definition bigint_of :: "string \<Rightarrow> int res" where
  "bigint_of text =
     (let t = trim text;
          signed = starts_with ''-'' t \<or> starts_with ''+'' t;
          ds = (if signed then tl t else t)
      in if t = [] then Inr 0
         else if ds \<noteq> [] \<and> list_all is_digit ds
         then Inr (if starts_with ''-'' t then - int (digits_val ds) else int (digits_val ds))
         else Inl (HostError ''SyntaxError''))"

definition share_of :: "posting \<Rightarrow> string \<Rightarrow> json option" where
  "share_of p seller = (case map_of (meta p) ''shares'' of Some (JObj kvs) \<Rightarrow> map_of kvs seller | _ \<Rightarrow> None)"

definition row_matches :: "posting \<Rightarrow> accrual_row \<Rightarrow> unit res" where
  "row_matches p r =
     (if accSeq r \<noteq> 0 then Inl (fault_retryable CHAIN_BROKEN False)
      else case share_of p (accSeller r) of
        None \<Rightarrow> Inl (fault_retryable CHAIN_BROKEN False)
      | Some (JStr t) \<Rightarrow> rbind (bigint_of t) (\<lambda>v.
          ensure (v = minor (accAmount r)) (fault_retryable CHAIN_BROKEN False))
      | Some (JNum v) \<Rightarrow> ensure (v = minor (accAmount r)) (fault_retryable CHAIN_BROKEN False)
      | Some _ \<Rightarrow> Inl (HostError ''TypeError''))"

definition assertRowsMatchShares :: "accrual_row list \<Rightarrow> posting \<Rightarrow> unit res" where
  "assertRowsMatchShares rows p = reach (row_matches p) rows"

text \<open>The next free sequence number per order and seller, and the negative row of each drained share.\<close>

definition pair_key :: "accrual_row \<Rightarrow> string" where
  "pair_key r = accOrder r @ ''::'' @ accSeller r"

definition next_seqs :: "accrual_row list \<Rightarrow> (string \<times> nat) list" where
  "next_seqs rows = foldl (\<lambda>m r. AList.update (pair_key r)
     (max (case map_of m (pair_key r) of Some n \<Rightarrow> n | None \<Rightarrow> 0) (accSeq r + 1)) m) [] rows"

fun recovery_rows :: "(string \<times> nat) list \<Rightarrow> accrual_row list \<Rightarrow> string \<Rightarrow> int \<Rightarrow> accrual_row list res" where
  "recovery_rows m [] txn now = Inr []"
| "recovery_rows m (r # rs) txn now =
     (let sq = (case map_of m (pair_key r) of Some n \<Rightarrow> n | None \<Rightarrow> 0)
      in rbind (toAmount CREDIT (- minor (accAmount r))) (\<lambda>a.
         rbind (recovery_rows (AList.update (pair_key r) (sq + 1) m) rs txn now) (\<lambda>rows.
           Inr (\<lparr>accOrder = accOrder r, accSeller = accSeller r, accSeq = sq, accAmount = a, accShard = accShard r,
             accStatus = AccPending, accTxn = txn, accSettledTxn = None, accRecordedAt = now\<rparr> # rows))))"

definition recoveryRowsOf :: "accrual_row list \<Rightarrow> accrual_row list \<Rightarrow> string \<Rightarrow> int \<Rightarrow> accrual_row list res" where
  "recoveryRowsOf all_rows drained txn now = recovery_rows (next_seqs all_rows) drained txn now"

text \<open>The loop over the sale's deltas under the split: the accrual shards are settled row by row.\<close>

fun split_deltas :: "ctx \<Rightarrow> account_delta list \<Rightarrow> leg list \<times> int \<Rightarrow> (unit_state, leg list \<times> int) act" where
  "split_deltas c [] acc = ret acc"
| "split_deltas c (d # ds) acc =
     (if delta d = 0 then split_deltas c ds acc
      else if delta d < 0
      then sbind (lift (rbind (toAmount (dcur d) (- delta d)) (raiseLeg (dacct d)))) (\<lambda>l.
             split_deltas c ds (fst acc @ [l], snd acc))
      else if baseOf (dacct d) = SETTLEMENT_ACCRUAL then split_deltas c ds acc
      else sbind (l_balance (unit_ledger c) (dacct d)) (\<lambda>b.
        let cv = covered_part (minor b) (delta d)
        in sbind (lift (if cv > 0 then rbind (toAmount (dcur d) cv) (\<lambda>a. rbind (lowerLeg (dacct d) a) (\<lambda>l. Inr [l]))
                        else Inr [])) (\<lambda>ls.
           split_deltas c ds (fst acc @ ls, snd acc + (delta d - cv)))))"

definition accrualReversalLegs ::
    "ctx \<Rightarrow> posting \<Rightarrow> accrual_row list \<Rightarrow> accrual_row list \<Rightarrow> string \<Rightarrow>
     (unit_state, leg list \<times> (string \<times> int) list option) act" where
  "accrualReversalLegs c p claimed saleRows txn =
     sbind (lift (assertRowsMatchShares saleRows p)) (\<lambda>_.
     let pending = filter (\<lambda>r. accStatus r = AccPending \<and> minor (accAmount r) > 0) saleRows;
         drained = filter (\<lambda>r. accStatus r = AccDrained \<and> minor (accAmount r) > 0) saleRows in
     sbind (lift (foldDeltas (legs p) [])) (\<lambda>ds.
     sbind (split_deltas c ds ([], 0)) (\<lambda>(ls, missing).
     sbind (lift (rmap (\<lambda>r. lowerLeg (accShard r) (accAmount r)) pending)) (\<lambda>claws.
     sbind (lift (receivable_leg (\<Sum>r\<leftarrow>drained. minor (accAmount r)))) (\<lambda>owed.
     sbind (lift (receivable_leg missing)) (\<lambda>short.
     sbind (modify (u_accruals_update (acc_mark (map key_of_row pending) AccRefunded txn))) (\<lambda>_.
     sbind (if drained = [] then ret ()
            else sbind (lift (recoveryRowsOf claimed drained txn (c_now c))) put_accruals) (\<lambda>_.
     let recovered = foldl (\<lambda>m r. AList.update (accSeller r) (minor (accAmount r)) m) [] drained
     in ret (ls @ claws @ owed @ short, if recovered = [] then None else Some recovered)))))))))"

definition refundMeta :: "string \<Rightarrow> string option \<Rightarrow> sale \<Rightarrow> (string \<times> int) list option \<Rightarrow> meta" where
  "refundMeta orderId reason x recovered =
     [(''kind'', JStr ''refund''), (''orderId'', JStr orderId), (''reversedTxnId'', JStr (saleTxn x))] @
     opt_meta ''reason'' reason @
     (case recovered of None \<Rightarrow> [] | Some m \<Rightarrow> [(''recovered'', JObj (map (\<lambda>(seller, v). (seller, JStr (int_text v))) m))])"

definition refund_legs ::
    "ctx \<Rightarrow> sale \<Rightarrow> posting \<Rightarrow> string \<Rightarrow> (unit_state, leg list \<times> (string \<times> int) list option) act" where
  "refund_legs c x p t =
     sbind (gets (\<lambda>s. acc_claimByOrder (saleOrder x) (u_accruals s))) (\<lambda>claimed.
     let saleRows = filter (\<lambda>r. accTxn r = saleTxn x) claimed in
     if saleRows \<noteq> [] then accrualReversalLegs c p claimed saleRows t
     else sbind (coverageOf c (legs p)) (\<lambda>cov. sbind (lift (reversalLegs cov)) (\<lambda>ls. ret (ls, None))))"

definition refund :: handler where
  "refund c opn = (case payload opn of
     Refund orderId reason \<Rightarrow>
       sbind (lift (ensure (\<not> blank orderId) malformed)) (\<lambda>_.
       sbind (gets (\<lambda>s. sale_get orderId (u_sales s))) (\<lambda>found.
       case found of None \<Rightarrow> ret (Rejected (UNKNOWN_ORDER orderId)) | Some x \<Rightarrow>
       sbind (verified_posting c (saleTxn x)) (\<lambda>posting.
       case posting of None \<Rightarrow> throw (fault_retryable CHAIN_BROKEN False) | Some p \<Rightarrow>
       sbind (lift (assertSaleMatchesPosting x p)) (\<lambda>_.
       sbind (extendLocks c (legs p)) (\<lambda>_.
       sbind (idem_claim_act c (reversalKey orderId)) (\<lambda>prior.
       case prior of Some t \<Rightarrow> ret (Duplicate t) | None \<Rightarrow>
       sbind (fresh c ''txn'') (\<lambda>t.
       sbind (refund_legs c x p t) (\<lambda>(ls, recovered).
       sbind (postEntry (unit_ledger c)
         \<lparr>txnId = t, legs = ls, meta = refundMeta orderId reason x recovered\<rparr>) (\<lambda>txn.
       sbind (idem_record_act c (reversalKey orderId) txn) (\<lambda>_.
       sbind (modify (u_ents_update (ent_revoke
         (case saleRecipient x of Some r \<Rightarrow> r | None \<Rightarrow> saleBuyer x) (saleSku x)))) (\<lambda>_.
       ret (Committed txn))))))))))))
   | _ \<Rightarrow> throw malformed)"

section \<open>Invariants\<close>

context unit_core begin

lemma keeps_recordAccruals: "keeps P (recordAccruals c oid k parked t)"
  by (auto simp: recordAccruals_def intro!: steps split: option.split)

lemma keeps_cover: "keeps P (cover_deltas c ds cov)"
  by (induction ds arbitrary: cov) (auto simp: Let_def intro!: steps)

lemma keeps_split: "keeps P (split_deltas c ds acc)"
  by (induction ds arbitrary: acc) (auto simp: Let_def intro!: steps)

lemma keeps_refund_legs: "keeps P (refund_legs c x p t)"
  by (auto simp: refund_legs_def accrualReversalLegs_def coverageOf_def Let_def
      intro!: steps keeps_cover keeps_split)

end

context unit_rec begin

lemma keeps_refund: "keeps P (refund c opn)"
  by (auto simp: refund_def extendLocks_def intro!: steps verified keeps_refund_legs record_key split: payload.split)

end

context unit_sale begin

lemma keeps_spend: "keeps P (spend c opn)"
  by (auto simp: spend_def Let_def intro!: steps cached maturity keeps_recordAccruals store_sale split: payload.split)

end

end
