(* ===== verification/OpsPayout.thy ===== *)
theory OpsPayout
  imports OpsSpend
begin

text \<open>
  Cashing out and undoing: src/operations/requestPayout.ts, settlePayout.ts, reversePayout.ts and
  reverse.ts. The payout rate is a parameter of the context (the port prices it asynchronously).
\<close>

section \<open>requestPayout\<close>

definition payableCredit :: "amount \<Rightarrow> amount res" where
  "payableCredit a =
     rbind (ensure (currency a = CREDIT) malformed) (\<lambda>_.
     rbind (ensure (\<not> minor a \<le> 0) (fault INVALID_AMOUNT)) (\<lambda>_. Inr a))"

definition pendingSlaMs :: "config \<Rightarrow> int" where
  "pendingSlaMs cfg = (case map_of (payoutSla cfg) ''PENDING'' of
     Some v \<Rightarrow> v | None \<Rightarrow> (case map_of (payoutSla cfg) ''DEFAULT'' of Some v \<Rightarrow> v | None \<Rightarrow> 0))"

definition sagaOf :: "ctx \<Rightarrow> string \<Rightarrow> string \<Rightarrow> amount \<Rightarrow> string \<Rightarrow> amount \<Rightarrow> string \<Rightarrow> saga" where
  "sagaOf c i userId reserve quoteId payoutUsd txn =
     \<lparr>sagaId = i, sagaUser = userId, sagaReserve = reserve, sagaRateId = quoteId, sagaTxn = txn,
      sagaState = RESERVED, sagaProviderRef = None, sagaReason = None, sagaAttempts = 0,
      sagaDueAt = c_now c + pendingSlaMs (c_config c), sagaUpdatedAt = c_now c, sagaPayoutUsd = Some payoutUsd\<rparr>"

definition priceQuote :: "ctx \<Rightarrow> amount \<Rightarrow> (string \<times> amount) res" where
  "priceQuote c a =
     (if \<not> rateGte (c_par c) (c_payout c) then Inl (fault_retryable CONFIG_INVALID False)
      else rbind (convertFloor a (c_payout c) USD) (\<lambda>u. Inr (rateId (c_payout c), u)))"

definition payableEarned :: "string \<Rightarrow> amount \<Rightarrow> (unit_state, amount) act" where
  "payableEarned userId available =
     sbind (gets (\<lambda>s. acc_netPending userId (u_accruals s))) (\<lambda>pend.
       if pend < 0 then lift (toAmount CREDIT (minor available + pend)) else ret available)"

definition reserveAndOpen :: "ctx \<Rightarrow> string \<Rightarrow> amount \<Rightarrow> string \<times> amount \<Rightarrow> (unit_state, transaction) act" where
  "reserveAndOpen c userId a quote =
     sbind (fresh c ''pay'') (\<lambda>i.
     sbind (fresh c ''txn'') (\<lambda>t.
     sbind (lift (credit PAYOUT_RESERVE a)) (\<lambda>held.
     sbind (postEntry (unit_ledger c)
       \<lparr>txnId = t, legs = routePlatformLegs [debit (earned userId) a, held] userId (shards c),
        meta = [(''kind'', JStr ''requestPayout''), (''rateId'', JStr (fst quote)), (''sagaId'', JStr i),
                (''payoutUsd'', JStr (encodeAmount (snd quote)))]\<rparr>) (\<lambda>txn.
     sbind (modify (u_sagas_update (saga_open (sagaOf c i userId a (fst quote) (snd quote) t)))) (\<lambda>_.
     ret txn)))))"

definition requestPayout :: handler where
  "requestPayout c opn = (case payload opn of
     RequestPayout userId requested \<Rightarrow>
       sbind (lift (payableCredit requested)) (\<lambda>a.
       if minor a < payoutMinimumEarnedMinor (c_config c)
       then sbind (lift (toAmount CREDIT (payoutMinimumEarnedMinor (c_config c)))) (\<lambda>m. ret (Rejected (BELOW_MINIMUM m a)))
       else
       sbind (gets (\<lambda>s. lastPayoutAt userId (u_sagas s))) (\<lambda>latest.
       if (case latest of None \<Rightarrow> False | Some t \<Rightarrow> c_now c - t < payoutMinIntervalMs (c_config c))
       then ret (Rejected (PAYOUT_TOO_SOON (the latest + payoutMinIntervalMs (c_config c))))
       else if (case c_payees c of None \<Rightarrow> False | Some isCleared \<Rightarrow> \<not> isCleared userId)
       then ret (Rejected (PAYEE_UNVERIFIED userId))
       else
       sbind (l_balance (unit_ledger c) (earned userId)) (\<lambda>available.
       sbind (payableEarned userId available) (\<lambda>payable.
       sbind (lift (compare payable a)) (\<lambda>cmp.
       if cmp < 0 then ret (Rejected (INSUFFICIENT_FUNDS (earned userId) a payable))
       else
       sbind (matured_at_least c (earned userId) a (ret available)) (\<lambda>cleared.
       if \<not> cleared then maturity_rejection c (earned userId) a (ret available)
       else
       sbind (lift (priceQuote c a)) (\<lambda>quote.
       sbind (reserveAndOpen c userId a quote) (\<lambda>txn.
       ret (Committed txn)))))))))
   | _ \<Rightarrow> throw malformed)"

section \<open>settlePayout\<close>

definition refuseNotSubmitted :: "saga \<Rightarrow> unit res" where
  "refuseNotSubmitted x =
     ensure (sagaState x = SUBMITTED) (fault_retryable INVALID_TRANSITION (sagaState x \<noteq> FAILED))"

definition payoutFee :: "amount \<Rightarrow> int \<Rightarrow> amount res" where
  "payoutFee gross feeBps = rbind (mulDiv (minor gross) feeBps 10000 Floor) (toAmount USD)"

definition postSettlementEntries :: "ctx \<Rightarrow> saga \<Rightarrow> amount \<Rightarrow> amount \<Rightarrow> amount \<Rightarrow> (unit_state, transaction) act" where
  "postSettlementEntries c x gross fee net_usd =
     (let reserveRef = platformShard PAYOUT_RESERVE (sagaUser x) (shards c) in
     sbind (if reserveRef \<noteq> PAYOUT_RESERVE then lockAll (unit_ledger c) [reserveRef] else ret ()) (\<lambda>_.
     sbind (fresh c ''txn'') (\<lambda>t1.
     sbind (lift (credit REVENUE (sagaReserve x))) (\<lambda>rev_leg.
     sbind (fresh c ''txn'') (\<lambda>t2.
     sbind (lift (credit TRUST_CASH gross)) (\<lambda>cash_leg.
     sbind (postEntries (unit_ledger c)
       [\<lparr>txnId = t1, legs = [debit reserveRef (sagaReserve x), rev_leg],
         meta = [(''kind'', JStr ''settlePayout''), (''sagaId'', JStr (sagaId x)), (''rateId'', JStr (sagaRateId x))]\<rparr>,
        \<lparr>txnId = t2, legs = [debit USD_CLEARING gross, cash_leg],
         meta = [(''kind'', JStr ''settlePayout.cash''), (''sagaId'', JStr (sagaId x)), (''rateId'', JStr (sagaRateId x)),
                 (''payoutFee'', JStr (encodeAmount fee)), (''netUsd'', JStr (encodeAmount net_usd))]\<rparr>]) (\<lambda>ts.
     ret (hd ts))))))))"

definition settled_event :: "ctx \<Rightarrow> string \<Rightarrow> saga \<Rightarrow> amount \<Rightarrow> amount \<Rightarrow> amount \<Rightarrow> event" where
  "settled_event c i x gross fee net_usd =
     \<lparr>eventId = i, eventType = ''economy.payout.settled'', eventVersion = 1, occurredAt = c_now c,
      eventSubject = sagaUser x,
      eventData = JObj [(''sagaId'', JStr (sagaId x)), (''userId'', JStr (sagaUser x)),
        (''reserve'', JStr (encodeAmount (sagaReserve x))), (''usd'', JStr (encodeAmount gross)),
        (''payoutFee'', JStr (encodeAmount fee)), (''netUsd'', JStr (encodeAmount net_usd)),
        (''rateId'', JStr (sagaRateId x))],
      clientAudience = False\<rparr>"

definition settlePayout :: handler where
  "settlePayout c opn = (case payload opn of
     SettlePayout i providerRef settledUsd \<Rightarrow>
       sbind (loadSaga i) (\<lambda>x.
       if sagaState x = SETTLED then ret (Duplicate noopTransaction)
       else
       sbind (lift (refuseNotSubmitted x)) (\<lambda>_.
       sbind (assertSagaAnchored c x) (\<lambda>gross.
       sbind (lift (payoutFee gross (payoutFeeBps (c_config c)))) (\<lambda>fee.
       sbind (lift (toAmount USD (minor gross - minor fee))) (\<lambda>net_usd.
       sbind (postSettlementEntries c x gross fee net_usd) (\<lambda>txn.
       sbind (advance_saga (sagaId x) SUBMITTED SETTLED
         (\<lambda>y. y\<lparr>sagaUpdatedAt := c_now c, sagaPayoutUsd := Some gross\<rparr>) (Some (c_now c))) (\<lambda>advanced.
       if \<not> advanced then throw (fault_retryable INVALID_TRANSITION True)
       else
       sbind (fresh c ''evt'') (\<lambda>ev.
       sbind (enqueue_event c (settled_event c ev x gross fee net_usd) None) (\<lambda>_.
       ret (Committed txn))))))))))
   | _ \<Rightarrow> throw malformed)"

section \<open>reversePayout\<close>

definition refuseLiveSubmitted :: "bool \<Rightarrow> saga \<Rightarrow> ctx \<Rightarrow> unit res" where
  "refuseLiveSubmitted providerReported x c =
     (if providerReported then Inr ()
      else ensure (\<not> (sagaState x = SUBMITTED \<and> c_now c - sagaUpdatedAt x \<le> maxPayoutAgeMs (c_config c)))
             (fault INVALID_TRANSITION))"

definition reversePayout :: handler where
  "reversePayout c opn = (case payload opn of
     ReversePayout userId i reason providerReported \<Rightarrow>
       sbind (lift (assertReason reason)) (\<lambda>_.
       sbind (loadSaga i) (\<lambda>x.
       sbind (lift (ensure (userId = sagaUser x) malformed)) (\<lambda>_.
       sbind (lift (ensure (sagaState x \<noteq> SETTLED) (fault INVALID_TRANSITION))) (\<lambda>_.
       sbind (lift (refuseLiveSubmitted providerReported x c)) (\<lambda>_.
       if sagaState x \<noteq> RESERVED \<and> sagaState x \<noteq> SUBMITTED then ret (Duplicate noopTransaction)
       else
       sbind (advance_saga (sagaId x) (sagaState x) FAILED (\<lambda>y. y\<lparr>sagaUpdatedAt := c_now c\<rparr>) (Some (c_now c))) (\<lambda>advanced.
       if \<not> advanced then ret (Duplicate noopTransaction)
       else
       sbind (assertSagaAnchored c x) (\<lambda>_.
       sbind (fresh c ''txn'') (\<lambda>t.
       sbind (lift (credit (earned (sagaUser x)) (sagaReserve x))) (\<lambda>back.
       sbind (postEntry (unit_ledger c)
         \<lparr>txnId = t, legs = routePlatformLegs [debit PAYOUT_RESERVE (sagaReserve x), back] userId (shards c),
          meta = [(''kind'', JStr ''reversePayout''), (''sagaId'', JStr (sagaId x)), (''reason'', JStr reason)] @
            (if providerReported then [(''providerReported'', JBool True)] else [])\<rparr>) (\<lambda>txn.
       ret (Committed txn)))))))))))
   | _ \<Rightarrow> throw malformed)"

section \<open>reverse\<close>

definition reverseLegs :: "leg list \<Rightarrow> leg list res" where
  "reverseLegs ls = rmap (\<lambda>l. rbind (negate (amount l)) (\<lambda>a. Inr \<lparr>account = account l, amount = a\<rparr>)) ls"

definition reverseMeta :: "string \<Rightarrow> string \<Rightarrow> meta" where
  "reverseMeta txn reason = [(''kind'', JStr ''reverse''), (''txnId'', JStr txn), (''reason'', JStr reason)]"

definition loadPosting :: "ctx \<Rightarrow> string \<Rightarrow> (unit_state, posting) act" where
  "loadPosting c txn = sbind (verified_posting c txn) (\<lambda>found.
     case found of None \<Rightarrow> throw malformed | Some p \<Rightarrow> ret p)"

definition assertNotReversal :: "posting \<Rightarrow> unit res" where
  "assertNotReversal p = ensure (map_of (meta p) ''kind'' \<noteq> Some (JStr ''reverse'')) malformed"

definition reverse :: handler where
  "reverse c opn = (case payload opn of
     Reverse txn reason \<Rightarrow>
       sbind (lift (assertOperator opn)) (\<lambda>_.
       sbind (lift (assertReason reason)) (\<lambda>_.
       sbind (loadPosting c txn) (\<lambda>original.
       sbind (lift (assertNotReversal original)) (\<lambda>_.
       sbind (extendLocks c (legs original)) (\<lambda>_.
       sbind (idem_claim_act c (reversalKey txn)) (\<lambda>prior.
       case prior of Some t \<Rightarrow> ret (Duplicate t) | None \<Rightarrow>
       sbind (fresh c ''txn'') (\<lambda>t.
       sbind (lift (reverseLegs (legs original))) (\<lambda>ls.
       sbind (postEntry (unit_ledger c) \<lparr>txnId = t, legs = ls, meta = reverseMeta txn reason\<rparr>) (\<lambda>done_txn.
       sbind (idem_record_act c (reversalKey txn) done_txn) (\<lambda>_.
       ret (Committed done_txn)))))))))))
   | _ \<Rightarrow> throw malformed)"

section \<open>Invariants\<close>

context unit_core begin

lemma keeps_loadSaga: "keeps P (loadSaga i)"
  by (auto simp: loadSaga_def intro!: steps)

lemma keeps_anchored: "keeps P (assertSagaAnchored c x)"
  by (auto simp: assertSagaAnchored_def intro!: steps verified)

lemma keeps_settlement: "keeps P (postSettlementEntries c x a b d)"
  by (auto simp: postSettlementEntries_def Let_def intro!: steps entries)

end

context unit_saga begin

lemma keeps_requestPayout: "keeps P (requestPayout c opn)"
  by (auto simp: requestPayout_def payableEarned_def reserveAndOpen_def intro!: steps maturity open_saga split: payload.split)

lemma keeps_settlePayout: "keeps P (settlePayout c opn)"
  by (auto simp: settlePayout_def intro!: steps keeps_loadSaga keeps_anchored keeps_settlement event move_saga
      split: payload.split)

lemma keeps_reversePayout: "keeps P (reversePayout c opn)"
  by (auto simp: reversePayout_def intro!: steps keeps_loadSaga keeps_anchored move_saga split: payload.split)

end

context unit_rec begin

lemma keeps_reverse: "keeps P (reverse c opn)"
  by (auto simp: reverse_def loadPosting_def extendLocks_def intro!: steps verified record_key split: payload.split)

end

end
