(* ===== verification/OpsSubscribe.thy ===== *)
theory OpsSubscribe
  imports OpsPayout
begin

text \<open>src/operations/subscribe.ts: the first charge of a subscription and the record it opens.\<close>

definition MAX_PERIOD_MS :: int where
  "MAX_PERIOD_MS = 10 * 365 * 24 * 60 * 60000"

text \<open>The checked period, an integer from here on.\<close>

definition validateFields :: "jsnum \<Rightarrow> string \<Rightarrow> int res" where
  "validateFields periodMs sku =
     (case periodMs of
        NInt p \<Rightarrow> rbind (ensure (\<not> (p \<le> 0 \<or> p > MAX_PERIOD_MS)) malformed) (\<lambda>_.
          rbind (ensure (\<not> blank sku) malformed) (\<lambda>_. Inr p))
      | _ \<Rightarrow> Inl malformed)"

definition validatedPrice :: "amount \<Rightarrow> config \<Rightarrow> amount res" where
  "validatedPrice price cfg =
     rbind (ensure (currency price = CREDIT) malformed) (\<lambda>_.
       if minor price < subscriptionPriceMinMinor cfg \<or> minor price > subscriptionPriceMaxMinor cfg
       then rbind (toAmount CREDIT (subscriptionPriceMinMinor cfg)) (\<lambda>_.
            rbind (toAmount CREDIT (subscriptionPriceMaxMinor cfg)) (\<lambda>_. Inl malformed))
       else Inr price)"

definition screenSpendable :: "ctx \<Rightarrow> string \<Rightarrow> spend_plan \<Rightarrow> (unit_state, outcome option) act" where
  "screenSpendable c userId plan =
     sbind (l_balance (unit_ledger c) (spendable userId)) (\<lambda>have.
     sbind (lift (compare have (spendablePart plan))) (\<lambda>cmp.
     if cmp < 0 then ret (Some (Rejected (INSUFFICIENT_FUNDS (spendable userId) (spendablePart plan) have)))
     else
     sbind (matured_at_least c (spendable userId) (spendablePart plan) (ret have)) (\<lambda>cleared.
     if \<not> cleared
     then sbind (maturity_rejection c (spendable userId) (spendablePart plan) (ret have)) (\<lambda>r. ret (Some r))
     else ret None)))"

definition sub_promo_legs :: "string \<Rightarrow> string \<Rightarrow> amount \<Rightarrow> leg list res" where
  "sub_promo_legs userId seller part =
     (if minor part = 0 then Inr []
      else rbind (credit PROMO_FLOAT part) (\<lambda>float.
           rbind (credit (earned seller) part) (\<lambda>paid.
             Inr [debit (promo userId) part, float, debit REVENUE part, paid])))"

definition sub_spendable_legs :: "config \<Rightarrow> string \<Rightarrow> string \<Rightarrow> amount \<Rightarrow> leg list res" where
  "sub_spendable_legs cfg userId seller part =
     (if minor part = 0 then Inr []
      else rbind (feeForPrice (minor part) (platformFeeBps cfg)) (\<lambda>fee.
           rbind (toAmount CREDIT (minor part - fee)) (\<lambda>n.
           rbind (credit (earned seller) n) (\<lambda>paid.
           rbind (toAmount CREDIT fee) (\<lambda>f.
           rbind (credit REVENUE f) (\<lambda>kept_leg.
             Inr [debit (spendable userId) part, paid, kept_leg]))))))"

definition sub_legs :: "config \<Rightarrow> string \<Rightarrow> string \<Rightarrow> spend_plan \<Rightarrow> leg list res" where
  "sub_legs cfg userId seller plan =
     rbind (sub_promo_legs userId seller (promoPart plan)) (\<lambda>ps.
     rbind (sub_spendable_legs cfg userId seller (spendablePart plan)) (\<lambda>ss. Inr (ps @ ss)))"

definition subscribeMeta ::
    "string \<Rightarrow> string \<Rightarrow> string \<Rightarrow> string \<Rightarrow> amount \<Rightarrow> int \<Rightarrow> (string \<times> int) list option \<Rightarrow> meta" where
  "subscribeMeta sku seller i userId price periodMs parked =
     [(''kind'', JStr ''subscribe''), (''sku'', JStr sku), (''sellerId'', JStr seller), (''subscriptionId'', JStr i),
      (''userId'', JStr userId), (''price'', JStr (encodeAmount price)), (''periodMs'', JNum periodMs)] @
     (case parked of None \<Rightarrow> [] | Some sh \<Rightarrow> [(''shares'', sharesMeta sh)])"

definition postCharge ::
    "ctx \<Rightarrow> operation \<Rightarrow> string \<Rightarrow> string \<Rightarrow> string \<Rightarrow> amount \<Rightarrow> int \<Rightarrow> spend_plan \<Rightarrow> string \<Rightarrow>
     (unit_state, transaction) act" where
  "postCharge c opn userId seller sku price periodMs plan i =
     sbind (lift (sub_legs (c_config c) userId seller plan)) (\<lambda>built.
     let parked = park c built;
         routed = (if snd parked = None then built
                   else routePlatformLegs (fst parked) (idempotencyKey opn) (shards c)) in
     sbind (fresh c ''txn'') (\<lambda>t.
     sbind (postEntry (unit_ledger c)
       \<lparr>txnId = t, legs = routed, meta = subscribeMeta sku seller i userId price periodMs (snd parked)\<rparr>) (\<lambda>txn.
     sbind (recordAccruals c (txnId txn) (idempotencyKey opn) (snd parked) txn) (\<lambda>_.
     ret txn))))"

definition opened_subscription ::
    "string \<Rightarrow> string \<Rightarrow> string \<Rightarrow> string \<Rightarrow> amount \<Rightarrow> int \<Rightarrow> transaction \<Rightarrow> subscription" where
  "opened_subscription i userId seller sku price periodMs t =
     \<lparr>subId = i, subUser = userId, subSeller = seller, subSku = sku, subPrice = price, subTxn = txnId t,
      subPeriodMs = periodMs, subState = ACTIVE, subPeriod = 1, subAttempts = 0,
      subNextDueAt = postedAt t + periodMs, subUpdatedAt = postedAt t\<rparr>"

definition subscribe :: handler where
  "subscribe c opn = (case payload opn of
     Subscribe userId seller sku asked period \<Rightarrow>
       sbind (lift (ensure (userId \<noteq> seller) malformed)) (\<lambda>_.
       sbind (lift (validateFields period sku)) (\<lambda>periodMs.
       sbind (lift (validatedPrice asked (c_config c))) (\<lambda>price.
       sbind (gets (\<lambda>s. sub_activeFor userId sku seller (u_subs s))) (\<lambda>existing.
       if existing \<noteq> None then ret (Rejected (ALREADY_SUBSCRIBED userId sku))
       else
       sbind (l_balance (unit_ledger c) (promo userId)) (\<lambda>promoBalance.
       sbind (lift (planSpend price promoBalance)) (\<lambda>plan.
       sbind (screenSpendable c userId plan) (\<lambda>short.
       case short of Some r \<Rightarrow> ret r | None \<Rightarrow>
       sbind (fresh c ''sub'') (\<lambda>i.
       sbind (postCharge c opn userId seller sku asked periodMs plan i) (\<lambda>txn.
       sbind (modify (u_subs_update (sub_open (opened_subscription i userId seller sku asked periodMs txn)))) (\<lambda>_.
       sbind (modify (u_ents_update (ent_grant userId sku
         (EMPTY_ATTRS\<lparr>eexpiresAt := Some (NInt (postedAt txn + periodMs)), esource := Some (''subscription:'' @ i)\<rparr>)))) (\<lambda>_.
       ret (Committed txn))))))))))))
   | _ \<Rightarrow> throw malformed)"

section \<open>Invariants\<close>

context unit_core begin

lemma keeps_subscribe: "keeps P (subscribe c opn)"
  by (auto simp: subscribe_def screenSpendable_def postCharge_def Let_def intro!: steps maturity keeps_recordAccruals
      split: payload.split)

end

end
