(* ===== verification/Economy.thy ===== *)
theory Economy
  imports OpsSubscribe
begin

text \<open>
  src/economy.ts: the submit pipeline. A transaction of the in-memory store runs alone (the store
  queues writers), so its body is a step on the unit; a fault or a rejection drops what it wrote, which
  is what the undo journals restore (see \<open>rollback_restores_ledger\<close>), and the velocity attempt it
  staged is recorded again. The balance cache, the meter and the logger are left out: they never
  decide an outcome.
\<close>

section \<open>Validation and authorization\<close>

definition MAX_OP_AMOUNT_MINOR :: int where
  "MAX_OP_AMOUNT_MINOR = 1000000000000000"

definition operationAmount :: "operation \<Rightarrow> amount option" where
  "operationAmount opn = (case payload opn of
     TopUp _ a _ \<Rightarrow> Some a
   | RequestPayout _ a \<Rightarrow> Some a
   | GrantPromo _ a _ \<Rightarrow> Some a
   | Clawback _ a _ _ _ \<Rightarrow> Some a
   | Adjust _ a _ \<Rightarrow> Some a
   | Spend _ _ _ price _ _ _ \<Rightarrow> Some price
   | Subscribe _ _ _ price _ \<Rightarrow> Some price
   | _ \<Rightarrow> None)"

definition is_adjust :: "operation \<Rightarrow> bool" where
  "is_adjust opn \<longleftrightarrow> (case payload opn of Adjust _ _ _ \<Rightarrow> True | _ \<Rightarrow> False)"

definition assertAmountInRange :: "operation \<Rightarrow> unit res" where
  "assertAmountInRange opn = (case operationAmount opn of
     None \<Rightarrow> Inr ()
   | Some a \<Rightarrow>
       rbind (ensure (if is_adjust opn then minor a \<noteq> 0 else minor a > 0) (fault INVALID_AMOUNT)) (\<lambda>_.
         ensure (\<not> (if minor a < 0 then - minor a else minor a) > MAX_OP_AMOUNT_MINOR) (fault INVALID_AMOUNT)))"

definition validateOperation :: "operation \<Rightarrow> config \<Rightarrow> unit res" where
  "validateOperation opn cfg =
     rbind (ensure (\<not> blank (idempotencyKey opn)) malformed) (\<lambda>_.
     rbind (reach (\<lambda>a. ensure (\<not> (isWalletAccount a \<and> blank (ownerOf a))) malformed)
              (accountsOf opn (nat (platformShards cfg)) (accrualDrain cfg))) (\<lambda>_.
     assertAmountInRange opn))"

definition restricted :: "operation \<Rightarrow> bool" where
  "restricted opn \<longleftrightarrow> (case payload opn of
     GrantPromo _ _ _ \<Rightarrow> True | GrantEntitlement _ _ _ \<Rightarrow> True | RevokeEntitlement _ _ _ \<Rightarrow> True
   | TopUp _ _ _ \<Rightarrow> True | Adjust _ _ _ \<Rightarrow> True | Reverse _ _ \<Rightarrow> True | Refund _ _ \<Rightarrow> True
   | Clawback _ _ _ _ _ \<Rightarrow> True | ReversePayout _ _ _ _ \<Rightarrow> True | SettlePayout _ _ _ \<Rightarrow> True | _ \<Rightarrow> False)"

definition debitedUserAccounts :: "operation \<Rightarrow> AccountRef list" where
  "debitedUserAccounts opn = (case payload opn of
     Spend _ buyerId _ _ _ _ _ \<Rightarrow> [promo buyerId, spendable buyerId]
   | Subscribe userId _ _ _ _ \<Rightarrow> [promo userId, spendable userId]
   | RequestPayout userId _ \<Rightarrow> [earned userId]
   | _ \<Rightarrow> [])"

definition ownedBy :: "AccountRef \<Rightarrow> string \<Rightarrow> bool" where
  "ownedBy acct userId \<longleftrightarrow> starts_with (userId @ '':'') acct"

definition authorize :: "operation \<Rightarrow> unit res" where
  "authorize opn = (case actor opn of
     OperatorActor _ \<Rightarrow> Inr ()
   | SystemActor _ \<Rightarrow> Inr ()
   | UserActor u \<Rightarrow>
       rbind (ensure (\<not> restricted opn) (fault UNAUTHORIZED)) (\<lambda>_.
         reach (\<lambda>a. ensure (ownedBy a u) (fault UNAUTHORIZED)) (debitedUserAccounts opn)))"

section \<open>Dispatch (src/operations/registry.ts)\<close>

definition REGISTRY :: "ctx \<Rightarrow> operation \<Rightarrow> (unit_state, outcome) act" where
  "REGISTRY c opn = (case payload opn of
     TopUp _ _ _ \<Rightarrow> topUp c opn
   | Spend _ _ _ _ _ _ _ \<Rightarrow> spend c opn
   | Refund _ _ \<Rightarrow> refund c opn
   | Clawback _ _ _ _ _ \<Rightarrow> clawback c opn
   | RequestPayout _ _ \<Rightarrow> requestPayout c opn
   | Subscribe _ _ _ _ _ \<Rightarrow> subscribe c opn
   | CancelSubscription _ \<Rightarrow> cancelSubscription c opn
   | GrantEntitlement _ _ _ \<Rightarrow> grantEntitlement c opn
   | RevokeEntitlement _ _ _ \<Rightarrow> revokeEntitlement c opn
   | GrantPromo _ _ _ \<Rightarrow> grantPromo c opn
   | Adjust _ _ _ \<Rightarrow> adjust c opn
   | Reverse _ _ \<Rightarrow> reverse c opn
   | ReversePayout _ _ _ _ \<Rightarrow> reversePayout c opn
   | SettlePayout _ _ _ \<Rightarrow> settlePayout c opn)"

definition PRE_CLAIMS :: "operation \<Rightarrow> (unit_state, outcome option) act" where
  "PRE_CLAIMS opn = (case payload opn of
     Spend orderId _ _ _ _ _ _ \<Rightarrow> spendPreClaim orderId | _ \<Rightarrow> ret None)"

section \<open>Screens\<close>

definition staged_attempt :: "ctx \<Rightarrow> operation \<Rightarrow> (string \<times> attempt) option res" where
  "staged_attempt c opn = (case riskSubject opn of
     None \<Rightarrow> Inr None
   | Some (subject, _) \<Rightarrow> rbind (toAmount VELOCITY_CURRENCY (attemptMinor opn)) (\<lambda>a.
       Inr (Some (subject, \<lparr>attemptKey = idempotencyKey opn, attemptAmount = a, attemptAt = c_now c,
         attemptCommitted = True\<rparr>))))"

definition screenRisk :: "ctx \<Rightarrow> operation \<Rightarrow> (unit_state, outcome option) act" where
  "screenRisk c opn = (case riskSubject opn of
     None \<Rightarrow> ret None
   | Some (subject, cls) \<Rightarrow>
       sbind (lift (staged_attempt c opn)) (\<lambda>staged.
       case staged of None \<Rightarrow> ret None | Some (_, a) \<Rightarrow>
       sbind (trust_record_act c subject a) (\<lambda>v.
       ret (if minor (spent v) > classLimitMinor (c_config c) cls
            then Some (Rejected (RISK_DENIED (if cls = RiskIn then Inflow else Outflow) (classLimitMinor (c_config c) cls)))
            else None))))"

definition lockAccounts :: "ctx \<Rightarrow> operation \<Rightarrow> (unit_state, unit) act" where
  "lockAccounts c opn = lockAll (unit_ledger c) (accountsOf opn (shards c) (accrualDrain (c_config c)))"

definition readCachedBalance :: "ctx \<Rightarrow> AccountRef \<Rightarrow> (unit_state, amount) act" where
  "readCachedBalance c acct =
     sbind (gets (\<lambda>s. case u_balances s of None \<Rightarrow> None | Some m \<Rightarrow> map_of m acct)) (\<lambda>hit.
     case hit of Some a \<Rightarrow> ret a | None \<Rightarrow>
     sbind (l_balance (unit_ledger c) acct) (\<lambda>b.
     sbind (modify (u_balances_update (map_option (AList.update acct b)))) (\<lambda>_. ret b)))"

definition fundsNeeded :: "ctx \<Rightarrow> operation \<Rightarrow> (unit_state, (AccountRef \<times> amount) list) act" where
  "fundsNeeded c opn = (case payload opn of
     Spend _ buyerId _ price _ _ _ \<Rightarrow>
       sbind (readCachedBalance c (promo buyerId)) (\<lambda>b.
       sbind (lift (planSpend price b)) (\<lambda>plan. ret [(spendable buyerId, spendablePart plan)]))
   | _ \<Rightarrow> ret [])"

fun screen_needs :: "ctx \<Rightarrow> (AccountRef \<times> amount) list \<Rightarrow> (unit_state, outcome option) act" where
  "screen_needs c [] = ret None"
| "screen_needs c ((acct, need) # rest) =
     sbind (readCachedBalance c acct) (\<lambda>have.
     sbind (lift (compare have need)) (\<lambda>cmp.
     if cmp < 0 then ret (Some (Rejected (INSUFFICIENT_FUNDS acct need have))) else screen_needs c rest))"

definition screenFunds :: "ctx \<Rightarrow> operation \<Rightarrow> (unit_state, outcome option) act" where
  "screenFunds c opn = sbind (fundsNeeded c opn) (screen_needs c)"

section \<open>Events\<close>

definition refundBuyer :: "transaction \<Rightarrow> string" where
  "refundBuyer t = (case find (\<lambda>l. isWalletAccount (account l) \<and>
       (walletKindOf (account l) = Some Kspendable \<or> walletKindOf (account l) = Some Kpromo)) (legs t) of
     Some l \<Rightarrow> ownerOf (account l) | None \<Rightarrow> ''unknown'')"

record descriptor =
  d_type :: string
  d_client :: bool
  d_subject :: string
  d_data :: json

definition EVENTS :: "operation \<Rightarrow> transaction \<Rightarrow> descriptor option" where
  "EVENTS opn t = (let txn = (''txnId'', JStr (txnId t)) in case payload opn of
     TopUp userId _ _ \<Rightarrow> Some \<lparr>d_type = ''economy.credits.topped_up'', d_client = True, d_subject = userId,
       d_data = JObj [txn]\<rparr>
   | GrantPromo userId _ _ \<Rightarrow> Some \<lparr>d_type = ''economy.promo.granted'', d_client = True, d_subject = userId,
       d_data = JObj [txn]\<rparr>
   | Spend _ buyerId _ _ _ _ giftTo \<Rightarrow> Some \<lparr>d_type = ''economy.sale.completed'', d_client = True, d_subject = buyerId,
       d_data = JObj (txn # (case giftTo of None \<Rightarrow> [] | Some g \<Rightarrow>
         if g \<noteq> buyerId then [(''isGift'', JBool True), (''giftTo'', JStr g)] else []))\<rparr>
   | Refund orderId _ \<Rightarrow> Some \<lparr>d_type = ''economy.sale.refunded'', d_client = True, d_subject = refundBuyer t,
       d_data = JObj [txn, (''orderId'', JStr orderId), (''buyerId'', JStr (refundBuyer t))]\<rparr>
   | Clawback userId a orderId _ _ \<Rightarrow> Some \<lparr>d_type = ''economy.credits.clawed_back'', d_client = False, d_subject = userId,
       d_data = JObj ([txn, (''userId'', JStr userId), (''amount'', JStr (encodeAmount a))] @ opt_meta ''orderId'' orderId)\<rparr>
   | RequestPayout userId a \<Rightarrow> Some \<lparr>d_type = ''economy.payout.requested'', d_client = True, d_subject = userId,
       d_data = JObj [txn, (''userId'', JStr userId), (''amount'', JStr (encodeAmount a))]\<rparr>
   | Subscribe userId _ sku _ _ \<Rightarrow> Some \<lparr>d_type = ''economy.subscription.started'', d_client = True, d_subject = userId,
       d_data = JObj [txn, (''userId'', JStr userId), (''sku'', JStr sku), (''period'', JNum 1)]\<rparr>
   | CancelSubscription i \<Rightarrow> Some \<lparr>d_type = ''economy.subscription.canceled'', d_client = True, d_subject = i,
       d_data = JObj [txn, (''subscriptionId'', JStr i)]\<rparr>
   | ReversePayout userId i reason _ \<Rightarrow> Some \<lparr>d_type = ''economy.payout.reversed'', d_client = False, d_subject = userId,
       d_data = JObj [(''sagaId'', JStr i), (''reason'', JStr reason)]\<rparr>
   | _ \<Rightarrow> None)"

definition emitEvents :: "ctx \<Rightarrow> operation \<Rightarrow> string option \<Rightarrow> transaction \<Rightarrow> (unit_state, unit) act" where
  "emitEvents c opn correlationId t = (case EVENTS opn t of
     None \<Rightarrow> ret ()
   | Some d \<Rightarrow>
       sbind (fresh c ''evt'') (\<lambda>i.
         enqueue_event c \<lparr>eventId = i, eventType = d_type d, eventVersion = 1, occurredAt = postedAt t,
           eventSubject = d_subject d, eventData = d_data d, clientAudience = d_client d\<rparr> correlationId))"

section \<open>The claimed run\<close>

text \<open>What is decided before the risk screen: a replayed key, or a duplicate order.\<close>

definition claim_phase :: "ctx \<Rightarrow> operation \<Rightarrow> (unit_state, outcome option) act" where
  "claim_phase c opn =
     sbind (idem_claim_act c (idempotencyKey opn)) (\<lambda>prior.
     case prior of Some t \<Rightarrow> ret (Some (Duplicate t)) | None \<Rightarrow> PRE_CLAIMS opn)"

definition finish_run :: "ctx \<Rightarrow> operation \<Rightarrow> string option \<Rightarrow> outcome \<Rightarrow> (unit_state, outcome) act" where
  "finish_run c opn correlationId out = (case out of
     Committed t \<Rightarrow>
       sbind (idem_record_act c (idempotencyKey opn) t) (\<lambda>_.
       sbind (emitEvents c opn correlationId t) (\<lambda>_. ret out))
   | _ \<Rightarrow> ret out)"

definition runClaimed :: "ctx \<Rightarrow> operation \<Rightarrow> string option \<Rightarrow> (unit_state, outcome) act" where
  "runClaimed c opn correlationId =
     sbind (claim_phase c opn) (\<lambda>early.
     case early of Some out \<Rightarrow> ret out | None \<Rightarrow>
     sbind (screenRisk c opn) (\<lambda>risk.
     case risk of Some out \<Rightarrow> ret out | None \<Rightarrow>
     sbind (lockAccounts c opn) (\<lambda>_.
     sbind (modify (u_balances_update (\<lambda>_. Some []))) (\<lambda>_.
     sbind (screenFunds c opn) (\<lambda>funds.
     case funds of Some out \<Rightarrow> ret out | None \<Rightarrow>
     sbind (REGISTRY c opn) (finish_run c opn correlationId))))))"

text \<open>The attempt a run from state \<open>s\<close> stages: it gets as far as the risk screen.\<close>

definition staged_in :: "ctx \<Rightarrow> operation \<Rightarrow> unit_state \<Rightarrow> (string \<times> attempt) option" where
  "staged_in c opn s = (case claim_phase c opn s of
     Inr (None, _) \<Rightarrow> (case staged_attempt c opn of Inr x \<Rightarrow> x | Inl _ \<Rightarrow> None)
   | _ \<Rightarrow> None)"

definition bump_staged :: "(string \<times> attempt) option \<Rightarrow> unit_state \<Rightarrow> unit_state" where
  "bump_staged staged s = (case staged of
     None \<Rightarrow> s | Some (subject, a) \<Rightarrow> s\<lparr>u_trust := trust_insert subject a (u_trust s)\<rparr>)"

definition begin_txn :: "unit_state \<Rightarrow> unit_state" where
  "begin_txn s = s\<lparr>u_drawn := 0\<rparr>"

section \<open>submit\<close>

definition screen_pause :: "ctx \<Rightarrow> operation \<Rightarrow> outcome option" where
  "screen_pause c opn = (case actor opn of
     UserActor _ \<Rightarrow> (if economyPaused (c_now c) (c_config c)
                     then Some (Rejected (ECONOMY_PAUSED (pauseEndMs (c_config c)))) else None)
   | _ \<Rightarrow> None)"

text \<open>One transaction around the claimed run: a rejection or a fault rolls back.\<close>

definition in_transaction :: "ctx \<Rightarrow> operation \<Rightarrow> string option \<Rightarrow> unit_state \<Rightarrow> outcome res \<times> unit_state" where
  "in_transaction c opn correlationId s = (case runClaimed c opn correlationId (begin_txn s) of
     Inl e \<Rightarrow> (Inl e, s)
   | Inr (Rejected r, _) \<Rightarrow> (Inr (Rejected r), s)
   | Inr (out, s') \<Rightarrow> (Inr out, s'))"

definition rolled_back :: "outcome res \<Rightarrow> bool" where
  "rolled_back r = (case r of Inl _ \<Rightarrow> True | Inr (Rejected _) \<Rightarrow> True | _ \<Rightarrow> False)"

definition submit :: "ctx \<Rightarrow> operation \<Rightarrow> string option \<Rightarrow> unit_state \<Rightarrow> outcome res \<times> unit_state" where
  "submit c opn correlationId s =
     (case rbind (validateOperation opn (c_config c)) (\<lambda>_. authorize opn) of
        Inl e \<Rightarrow> (Inl e, s)
      | Inr _ \<Rightarrow> (case screen_pause c opn of
          Some out \<Rightarrow> (Inr out, s)
        | None \<Rightarrow> (case in_transaction c opn correlationId s of
            (r, s') \<Rightarrow> (r, if rolled_back r then bump_staged (staged_in c opn (begin_txn s)) s' else s'))))"

section \<open>submitBatch\<close>

text \<open>The screens before the shared transaction: a decided slot, or an entry.\<close>

fun screenBatch :: "ctx \<Rightarrow> operation list \<Rightarrow> string list \<Rightarrow> (outcome res option) list" where
  "screenBatch c [] seen = []"
| "screenBatch c (opn # rest) seen =
     (case rbind (validateOperation opn (c_config c)) (\<lambda>_. authorize opn) of
        Inl e \<Rightarrow> Some (Inl e) # screenBatch c rest seen
      | Inr _ \<Rightarrow>
          (if idempotencyKey opn \<in> set seen then Some (Inl malformed) # screenBatch c rest seen
           else (case screen_pause c opn of
                   Some out \<Rightarrow> Some (Inr out)
                 | None \<Rightarrow> None) # screenBatch c rest (idempotencyKey opn # seen)))"

text \<open>
  The shared transaction: each entry runs under its savepoint, and its staged attempt is kept for
  after. A context per entry: the clock and the ids move on.
\<close>

fun run_entries ::
    "(ctx \<times> operation \<times> outcome res option) list \<Rightarrow> string option \<Rightarrow> unit_state \<Rightarrow>
     (outcome res \<times> (string \<times> attempt) option) list \<times> unit_state" where
  "run_entries [] correlationId s = ([], s)"
| "run_entries ((c, opn, decided) # rest) correlationId s =
     (case decided of
        Some r \<Rightarrow> (case run_entries rest correlationId s of (rs, s') \<Rightarrow> ((r, None) # rs, s'))
      | None \<Rightarrow> (case in_transaction c opn correlationId s of
          (r, s1) \<Rightarrow> (case run_entries rest correlationId s1 of
            (rs, s') \<Rightarrow> ((r, if rolled_back r then staged_in c opn (begin_txn s) else None) # rs, s'))))"

definition settleBatch :: "(outcome res \<times> (string \<times> attempt) option) list \<Rightarrow> unit_state \<Rightarrow> unit_state" where
  "settleBatch results s = fold (\<lambda>(_, staged). bump_staged staged) results s"

text \<open>\<open>c0\<close> is the context of the screens, the list the context of each operation's run.\<close>

definition submitBatch ::
    "ctx \<Rightarrow> (ctx \<times> operation) list \<Rightarrow> string option \<Rightarrow> unit_state \<Rightarrow> outcome res list \<times> unit_state" where
  "submitBatch c0 work correlationId s =
     (let decided = screenBatch c0 (map snd work) [];
          entries = map (\<lambda>((c, opn), d). (c, opn, d)) (zip work decided)
      in case run_entries entries correlationId s of
           (results, s') \<Rightarrow> (map fst results, settleBatch results s'))"

section \<open>Construction and status\<close>

definition assertBuyCoversPar :: "rate \<Rightarrow> rate \<Rightarrow> unit res" where
  "assertBuyCoversPar buy par = ensure (rateGte buy par) (fault_retryable CONFIG_INVALID False)"

record economy_status =
  maintenanceActive :: bool
  es_pauseStart :: "int option"
  es_pauseEnd :: "int option"
  resumesAt :: "int option"

definition economyStatus :: "ctx \<Rightarrow> economy_status" where
  "economyStatus c = (let active = economyPaused (c_now c) (c_config c) in
     \<lparr>maintenanceActive = active, es_pauseStart = pauseStartMs (c_config c), es_pauseEnd = pauseEndMs (c_config c),
      resumesAt = (if active then pauseEndMs (c_config c) else None)\<rparr>)"

text \<open>A balance read without a cache: a sharded base reads as the sum of its shards.\<close>

definition logical_balance :: "ctx \<Rightarrow> AccountRef \<Rightarrow> (unit_state, amount) act" where
  "logical_balance c acct =
     (if shards c > 1 \<and> isShardedBase acct
      then sbind (smap (l_balance (unit_ledger c)) (shardsOf acct (shards c))) (\<lambda>bs.
             lift (toAmount (currencyOf acct) (\<Sum>b\<leftarrow>bs. minor b)))
      else l_balance (unit_ledger c) acct)"

section \<open>Invariants of the pipeline\<close>

context unit_core begin

lemma keeps_claim_phase: "keeps P (claim_phase c opn)"
  by (auto simp: claim_phase_def PRE_CLAIMS_def spendPreClaim_def intro!: steps split: payload.split)

lemma keeps_screenRisk: "keeps P (screenRisk c opn)"
  by (auto simp: screenRisk_def intro!: steps)

lemma keeps_readCached: "keeps P (readCachedBalance c a)"
  by (auto simp: readCachedBalance_def intro!: steps)

lemma keeps_screenFunds: "keeps P (screenFunds c opn)"
proof -
  have "keeps P (screen_needs c ns)" for ns
    by (induction ns) (auto intro!: steps keeps_readCached keeps_Inr)
  then show ?thesis by (auto simp: screenFunds_def fundsNeeded_def intro!: steps keeps_readCached split: payload.split)
qed

lemma keeps_emitEvents: "keeps P (emitEvents c opn cid t)"
  by (auto simp: emitEvents_def intro!: steps event)

text \<open>A run keeps the invariant when the handler and the recording of its key do.\<close>

lemma keeps_run:
  assumes "keeps P (REGISTRY c opn)" "\<And>t. keeps P (idem_record_act c (idempotencyKey opn) t)"
  shows "keeps P (runClaimed c opn cid)"
proof -
  have "keeps P (finish_run c opn cid out)" for out
    by (auto simp: finish_run_def intro!: steps assms(2) keeps_emitEvents split: outcome.split)
  then show ?thesis
    by (auto simp: runClaimed_def lockAccounts_def intro!: steps keeps_claim_phase keeps_screenRisk keeps_screenFunds assms(1))
qed

end

text \<open>An invariant every primitive step keeps is kept by every run.\<close>

locale unit_all = unit_rec + unit_sale + unit_saga
begin

lemma keeps_registry: "keeps P (REGISTRY c opn)"
  unfolding REGISTRY_def
  by (cases "payload opn") (simp_all add: keeps_topUp keeps_spend keeps_refund keeps_clawback keeps_requestPayout keeps_subscribe
      keeps_cancelSubscription keeps_grantEntitlement keeps_revokeEntitlement keeps_grantPromo keeps_adjust keeps_reverse
      keeps_reversePayout keeps_settlePayout)

lemma keeps_runClaimed: "keeps P (runClaimed c opn cid)"
  by (rule keeps_run) (rule keeps_registry, rule record_key)

end

end
