(* ===== verification/Sweeps.thy ===== *)
theory Sweeps
  imports Economy
begin

text \<open>
  The background jobs of src/worker that expire promo grants, relay the outbox, apply the inbox and
  advance payouts. A job claims a batch, then works each row in an error boundary of its own: a
  transaction that faults is rolled back and the fault becomes an entry of the job's tally. Logs and
  meters never decide and are left out. The dispatcher, the economy the inbox applies to and the
  payment processor are parameters.
\<close>

section \<open>Codes as text\<close>

definition code_text :: "error_code \<Rightarrow> string" where
  "code_text c = (case c of
     MALFORMED_OPERATION \<Rightarrow> ''OP.MALFORMED''
   | INVALID_AMOUNT \<Rightarrow> ''MONEY.INVALID_AMOUNT''
   | AMOUNT_OVERFLOW \<Rightarrow> ''MONEY.OVERFLOW''
   | LEDGER_UNBALANCED \<Rightarrow> ''LEDGER.UNBALANCED''
   | UNKNOWN_ACCOUNT \<Rightarrow> ''LEDGER.UNKNOWN_ACCOUNT''
   | CURRENCY_MISMATCH \<Rightarrow> ''LEDGER.CURRENCY_MISMATCH''
   | OVERDRAFT \<Rightarrow> ''LEDGER.OVERDRAFT''
   | COMMINGLING \<Rightarrow> ''LEDGER.COMMINGLING''
   | INVALID_TRANSITION \<Rightarrow> ''SAGA.INVALID_TRANSITION''
   | SESSION_SETTLED \<Rightarrow> ''SESSION.SETTLED''
   | SESSION_MISROUTED \<Rightarrow> ''SESSION.MISROUTED''
   | UNAUTHORIZED \<Rightarrow> ''AUTH.UNAUTHORIZED''
   | INVALID_SIGNATURE \<Rightarrow> ''AUTH.INVALID_SIGNATURE''
   | STORE_FAILURE \<Rightarrow> ''STORE.FAILURE''
   | PROVIDER_FAILURE \<Rightarrow> ''PROVIDER.FAILURE''
   | CONFIG_INVALID \<Rightarrow> ''CONFIG.INVALID''
   | CHAIN_BROKEN \<Rightarrow> ''CHAIN.BROKEN'')"

definition reason_text :: "rejection \<Rightarrow> string" where
  "reason_text r = (case r of
     INSUFFICIENT_FUNDS _ _ _ \<Rightarrow> ''INSUFFICIENT_FUNDS''
   | FUNDS_IMMATURE _ _ \<Rightarrow> ''FUNDS_IMMATURE''
   | RISK_DENIED _ _ \<Rightarrow> ''RISK_DENIED''
   | DUPLICATE_ORDER _ \<Rightarrow> ''DUPLICATE_ORDER''
   | UNKNOWN_ORDER _ \<Rightarrow> ''UNKNOWN_ORDER''
   | NOT_ENTITLED _ _ \<Rightarrow> ''NOT_ENTITLED''
   | UNKNOWN_SUBSCRIPTION _ \<Rightarrow> ''UNKNOWN_SUBSCRIPTION''
   | ALREADY_SUBSCRIBED _ _ \<Rightarrow> ''ALREADY_SUBSCRIBED''
   | BELOW_MINIMUM _ _ \<Rightarrow> ''BELOW_MINIMUM''
   | PAYOUT_TOO_SOON _ \<Rightarrow> ''PAYOUT_TOO_SOON''
   | PAYEE_UNVERIFIED _ \<Rightarrow> ''PAYEE_UNVERIFIED''
   | ECONOMY_PAUSED _ \<Rightarrow> ''ECONOMY_PAUSED'')"

text \<open>The code and the retryable flag of a normalized fault.\<close>

definition err_code :: "err \<Rightarrow> error_code" where
  "err_code e = (case normalizeError e of EconomyError c _ \<Rightarrow> c | HostError _ \<Rightarrow> STORE_FAILURE)"

definition err_retryable :: "err \<Rightarrow> bool" where
  "err_retryable e = (case normalizeError e of EconomyError _ r \<Rightarrow> r | HostError _ \<Rightarrow> True)"

section \<open>Transactions of a sweep\<close>

text \<open>\<open>store.transaction\<close>: a fault rolls back to the state the transaction began in.\<close>

definition transact :: "('s, 'a) act \<Rightarrow> 's \<Rightarrow> 'a res \<times> 's" where
  "transact m s = (case m s of Inl e \<Rightarrow> (Inl e, s) | Inr (x, s') \<Rightarrow> (Inr x, s'))"

section \<open>Promo expiry (src/worker/promos.ts)\<close>

record promo_tally =
  pt_reversed :: "(string \<times> amount) list"
  pt_failed :: "(string \<times> error_code) list"

text \<open>A grant row is trusted when its amount and expiry are the ones its granting posting sealed.\<close>

definition grant_anchored :: "promo_grant \<Rightarrow> posting option \<Rightarrow> unit res" where
  "grant_anchored g found = (case found of
     None \<Rightarrow> Inl (fault_retryable CHAIN_BROKEN False)
   | Some p \<Rightarrow> (case find (\<lambda>l. account l = promo (grantUser g)) (legs p) of
       None \<Rightarrow> Inl (fault_retryable CHAIN_BROKEN False)
     | Some l \<Rightarrow> ensure (- minor (amount l) = minor (grantAmount g) \<and>
           map_of (meta p) ''expiresAt'' = Some (JNum (grantExpiresAt g)))
         (fault_retryable CHAIN_BROKEN False)))"

definition postReversal :: "ctx \<Rightarrow> promo_grant \<Rightarrow> amount \<Rightarrow> (unit_state, unit) act" where
  "postReversal c g a =
     sbind (fresh c ''txn'') (\<lambda>t.
     sbind (lift (credit PROMO_FLOAT a)) (\<lambda>float.
     sbind (postEntry (unit_ledger c)
       \<lparr>txnId = t, legs = [debit (promo (grantUser g)) a, float],
        meta = [(''kind'', JStr ''promos.expiry''), (''grantId'', JStr (grantId g))]\<rparr>) (\<lambda>_.
     ret ())))"

definition settle_grant :: "ctx \<Rightarrow> promo_grant \<Rightarrow> (unit_state, amount) act" where
  "settle_grant c g =
     sbind (verified_posting c (grantId g)) (\<lambda>posting.
     sbind (lift (grant_anchored g posting)) (\<lambda>_.
     sbind (l_lock (unit_ledger c) (promo (grantUser g))) (\<lambda>_.
     sbind (l_balance (unit_ledger c) (promo (grantUser g))) (\<lambda>bal.
     let reverseMinor = (if minor bal < minor (grantAmount g) then minor bal else minor (grantAmount g)) in
     sbind (lift (toAmount CREDIT reverseMinor)) (\<lambda>reversed.
     sbind (if reverseMinor > 0 then postReversal c g reversed else ret ()) (\<lambda>_.
     sbind (modify (u_promos_update (promo_markReversed (grantId g)))) (\<lambda>_.
     ret reversed)))))))"

definition reverseOne :: "ctx \<Rightarrow> promo_grant \<Rightarrow> unit_state \<times> promo_tally \<Rightarrow> unit_state \<times> promo_tally" where
  "reverseOne c g st = (case transact (settle_grant c g) (fst st) of
     (Inr a, s') \<Rightarrow> (s', (snd st)\<lparr>pt_reversed := pt_reversed (snd st) @ [(grantId g, a)]\<rparr>)
   | (Inl e, s') \<Rightarrow> (s', (snd st)\<lparr>pt_failed := pt_failed (snd st) @ [(grantId g, err_code e)]\<rparr>))"

definition sweepExpiredPromos :: "ctx \<Rightarrow> int \<Rightarrow> nat \<Rightarrow> unit_state \<Rightarrow> unit_state \<times> promo_tally" where
  "sweepExpiredPromos c now limit s =
     fold (reverseOne c) (promo_claimDue now limit (u_promos s)) (s, \<lparr>pt_reversed = [], pt_failed = []\<rparr>)"

section \<open>Outbox relay (src/worker/relay.ts)\<close>

text \<open>A dispatcher accepts an event or faults.\<close>

type_synonym dispatcher = "event \<Rightarrow> unit res"

record relay_tally =
  rt_relayed :: "string list"
  rt_failed :: "(string \<times> error_code \<times> bool) list"
  rt_dead :: "(string \<times> string) list"

definition port_fault :: "err \<Rightarrow> error_code \<times> bool" where
  "port_fault e = (case normalizePortError e of EconomyError c r \<Rightarrow> (c, r) | HostError _ \<Rightarrow> (PROVIDER_FAILURE, True))"

definition dispatchOne :: "config \<Rightarrow> dispatcher \<Rightarrow> outbox_message \<Rightarrow> outbox_store \<times> relay_tally \<Rightarrow> outbox_store \<times> relay_tally" where
  "dispatchOne cfg dispatch m st = (case dispatch (outEvent m) of
     Inr _ \<Rightarrow> (fst st, (snd st)\<lparr>rt_relayed := rt_relayed (snd st) @ [outId m]\<rparr>)
   | Inl e \<Rightarrow> (case port_fault e of (code, retryable) \<Rightarrow>
       if int (outAttempts m + 1) \<ge> maxOutboxAttempts cfg
       then (outbox_deadLetter (outId m) (code_text code) (fst st),
             (snd st)\<lparr>rt_dead := rt_dead (snd st) @ [(outId m, code_text code)]\<rparr>)
       else (outbox_recordFailure (outId m) (fst st),
             (snd st)\<lparr>rt_failed := rt_failed (snd st) @ [(outId m, code, retryable)]\<rparr>)))"

text \<open>The marking of the delivered rows comes last, and is skipped when nothing was delivered.\<close>

definition relayOutbox :: "config \<Rightarrow> dispatcher \<Rightarrow> nat \<Rightarrow> outbox_store \<Rightarrow> outbox_store \<times> relay_tally" where
  "relayOutbox cfg dispatch limit s =
     (case fold (dispatchOne cfg dispatch) (outbox_claimBatch limit s) (s, \<lparr>rt_relayed = [], rt_failed = [], rt_dead = []\<rparr>) of
        (s', t) \<Rightarrow> (if rt_relayed t = [] then s' else outbox_markRelayed (rt_relayed t) s', t))"

section \<open>Inbox apply (src/worker/inbox.ts)\<close>

text \<open>The economy the inbox submits through, on the whole unit.\<close>

type_synonym applier = "operation \<Rightarrow> unit_state \<Rightarrow> outcome res \<times> unit_state"

record inbox_tally =
  it_applied :: "string list"
  it_failed :: "(string \<times> error_code \<times> bool) list"
  it_dead :: "(string \<times> string) list"

definition record_inbox_failure ::
    "config \<Rightarrow> inbox_message \<Rightarrow> err \<Rightarrow> unit_state \<times> inbox_tally \<Rightarrow> unit_state \<times> inbox_tally" where
  "record_inbox_failure cfg entry e st = (case port_fault e of (code, retryable) \<Rightarrow>
     if \<not> retryable \<or> int (inAttempts entry + 1) \<ge> maxInboxAttempts cfg
     then (u_inbox_update (inbox_deadLetter (inId entry) (code_text code)) (fst st),
           (snd st)\<lparr>it_dead := it_dead (snd st) @ [(inId entry, code_text code)]\<rparr>)
     else (u_inbox_update (inbox_bumpAttempt (inId entry)) (fst st),
           (snd st)\<lparr>it_failed := it_failed (snd st) @ [(inId entry, code, retryable)]\<rparr>))"

definition applyOne :: "config \<Rightarrow> applier \<Rightarrow> inbox_message \<Rightarrow> unit_state \<times> inbox_tally \<Rightarrow> unit_state \<times> inbox_tally" where
  "applyOne cfg app entry st = (case app (inOperation entry) (fst st) of
     (Inl e, s') \<Rightarrow> record_inbox_failure cfg entry e (s', snd st)
   | (Inr (Rejected r), s') \<Rightarrow>
       (u_inbox_update (inbox_deadLetter (inId entry) (reason_text r)) s',
        (snd st)\<lparr>it_dead := it_dead (snd st) @ [(inId entry, reason_text r)]\<rparr>)
   | (Inr _, s') \<Rightarrow>
       (u_inbox_update (inbox_markApplied (inId entry)) s',
        (snd st)\<lparr>it_applied := it_applied (snd st) @ [inId entry]\<rparr>))"

definition drainInbox :: "config \<Rightarrow> applier \<Rightarrow> nat \<Rightarrow> unit_state \<Rightarrow> unit_state \<times> inbox_tally" where
  "drainInbox cfg app limit s =
     fold (applyOne cfg app) (inbox_claimInbound limit (u_inbox s)) (s, \<lparr>it_applied = [], it_failed = [], it_dead = []\<rparr>)"

section \<open>Payout sweep (src/worker/payouts.ts)\<close>

datatype provider_state = PSettled | PReturned | PFailed | PPending | PUnknown

text \<open>
  The processor: the submission of a disbursement answers a provider reference or faults, and the
  status probe is optional.
\<close>

record processor =
  submitPayout :: "string \<Rightarrow> string \<Rightarrow> amount \<Rightarrow> string res"
  payoutStatus :: "(string \<Rightarrow> provider_state res) option"

record payout_tally =
  yt_submitted :: "string list"
  yt_dead :: "(string \<times> string) list"
  yt_retrying :: "(string \<times> error_code) list"

definition submittedSlaMs :: "config \<Rightarrow> int" where
  "submittedSlaMs cfg = (case map_of (payoutSla cfg) ''SUBMITTED'' of
     Some v \<Rightarrow> v | None \<Rightarrow> (case map_of (payoutSla cfg) ''DEFAULT'' of Some v \<Rightarrow> v | None \<Rightarrow> 0))"

definition bumpAttempt :: "ctx \<Rightarrow> saga \<Rightarrow> unit_state \<Rightarrow> unit_state" where
  "bumpAttempt c x = u_sagas_update (\<lambda>st. snd (saga_advance (sagaId x) (sagaState x) (sagaState x)
     (\<lambda>y. y\<lparr>sagaAttempts := sagaAttempts x + 1, sagaUpdatedAt := c_now c\<rparr>) (Some (c_now c)) st))"

definition reversed_event :: "ctx \<Rightarrow> string \<Rightarrow> saga \<Rightarrow> string \<Rightarrow> event" where
  "reversed_event c i x reason =
     \<lparr>eventId = i, eventType = ''economy.payout.reversed'', eventVersion = 1, occurredAt = c_now c,
      eventSubject = sagaUser x,
      eventData = JObj [(''sagaId'', JStr (sagaId x)), (''userId'', JStr (sagaUser x)),
        (''reserve'', JStr (encodeAmount (sagaReserve x))), (''reason'', JStr reason)],
      clientAudience = False\<rparr>"

text \<open>The transaction of a dead-letter; \<open>False\<close> when another actor moved the saga first.\<close>

definition dead_letter_txn :: "ctx \<Rightarrow> saga \<Rightarrow> string \<Rightarrow> (unit_state, bool) act" where
  "dead_letter_txn c x reason =
     sbind (assertSagaAnchored c x) (\<lambda>_.
     let reserveRef = platformShard PAYOUT_RESERVE (sagaUser x) (shards c) in
     sbind (lockAll (unit_ledger c) [reserveRef, earned (sagaUser x)]) (\<lambda>_.
     sbind (advance_saga (sagaId x) (sagaState x) FAILED
       (\<lambda>y. y\<lparr>sagaUpdatedAt := c_now c, sagaReason := Some reason\<rparr>) (Some (c_now c))) (\<lambda>advanced.
     if \<not> advanced then ret False
     else
     sbind (fresh c ''txn'') (\<lambda>t.
     sbind (lift (credit (earned (sagaUser x)) (sagaReserve x))) (\<lambda>back.
     sbind (postEntry (unit_ledger c)
       \<lparr>txnId = t, legs = [debit reserveRef (sagaReserve x), back],
        meta = [(''kind'', JStr ''payouts.dead_letter''), (''sagaId'', JStr (sagaId x)), (''reason'', JStr reason)]\<rparr>) (\<lambda>_.
     sbind (fresh c ''evt'') (\<lambda>ev.
     sbind (enqueue_event c (reversed_event c ev x reason) None) (\<lambda>_.
     ret True))))))))"

definition PAYOUT_TIMEOUT_REASON :: string where
  "PAYOUT_TIMEOUT_REASON = ''payout.timeout''"

definition PAYOUT_PROVIDER_FAILED_REASON :: string where
  "PAYOUT_PROVIDER_FAILED_REASON = ''payout.provider_failed''"

definition PAYOUT_PROVIDER_RETURNED_REASON :: string where
  "PAYOUT_PROVIDER_RETURNED_REASON = ''payout.provider_returned''"

text \<open>What the processor says of a submitted payout, when it can be asked: no answer is no evidence.\<close>

definition providerVerdict :: "processor \<Rightarrow> saga \<Rightarrow> provider_state option" where
  "providerVerdict proc x = (case (payoutStatus proc, sagaProviderRef x) of
     (Some probe, Some r) \<Rightarrow> (case probe r of Inl _ \<Rightarrow> None | Inr PUnknown \<Rightarrow> None | Inr v \<Rightarrow> Some v)
   | _ \<Rightarrow> None)"

definition recheckLater :: "ctx \<Rightarrow> saga \<Rightarrow> bool \<Rightarrow> unit_state \<Rightarrow> unit_state" where
  "recheckLater c x refresh = u_sagas_update (\<lambda>st. snd (saga_advance (sagaId x) SUBMITTED SUBMITTED
     (\<lambda>y. (y\<lparr>sagaDueAt := c_now c + submittedSlaMs (c_config c)\<rparr>)
       \<lparr>sagaUpdatedAt := if refresh then c_now c else sagaUpdatedAt y\<rparr>) (if refresh then Some (c_now c) else None) st))"

definition note_dead :: "string \<Rightarrow> string \<Rightarrow> bool res \<times> unit_state \<Rightarrow> payout_tally \<Rightarrow> (unit res \<times> unit_state) \<times> payout_tally" where
  "note_dead i reason r t = (case r of
     (Inl e, s) \<Rightarrow> ((Inl e, s), t)
   | (Inr True, s) \<Rightarrow> ((Inr (), s), t\<lparr>yt_dead := yt_dead t @ [(i, reason)]\<rparr>)
   | (Inr False, s) \<Rightarrow> ((Inr (), s), t))"

definition checkSubmitted ::
    "ctx \<Rightarrow> processor \<Rightarrow> saga \<Rightarrow> unit_state \<Rightarrow> payout_tally \<Rightarrow> (unit res \<times> unit_state) \<times> payout_tally" where
  "checkSubmitted c proc x s t =
     (let kill = (\<lambda>reason. note_dead (sagaId x) reason (transact (dead_letter_txn c x reason) s) t);
          aged = c_now c - sagaUpdatedAt x > maxPayoutAgeMs (c_config c)
      in case providerVerdict proc x of
           Some PFailed \<Rightarrow> kill PAYOUT_PROVIDER_FAILED_REASON
         | Some PReturned \<Rightarrow> kill PAYOUT_PROVIDER_RETURNED_REASON
         | Some PSettled \<Rightarrow> ((Inr (), recheckLater c x False s), t)
         | Some PPending \<Rightarrow> ((Inr (), recheckLater c x aged s), t)
         | _ \<Rightarrow> (if aged then kill PAYOUT_TIMEOUT_REASON else ((Inr (), s), t)))"

text \<open>The result of the compare-and-set after the provider accepted is not looked at.\<close>

definition submitToProvider :: "ctx \<Rightarrow> processor \<Rightarrow> saga \<Rightarrow> unit_state \<Rightarrow> unit res \<times> unit_state" where
  "submitToProvider c proc x s = (case assertSagaAnchored c x s of
     Inl e \<Rightarrow> (Inl e, s)
   | Inr (usd_amount, _) \<Rightarrow> (case submitPayout proc (sagaId x) (sagaUser x) usd_amount of
       Inl e \<Rightarrow> (Inl e, s)
     | Inr ref \<Rightarrow> (Inr (), u_sagas_update (\<lambda>st. snd (saga_advance (sagaId x) RESERVED SUBMITTED
         (\<lambda>y. y\<lparr>sagaProviderRef := Some ref, sagaAttempts := sagaAttempts x + 1,
           sagaDueAt := c_now c + submittedSlaMs (c_config c), sagaUpdatedAt := c_now c\<rparr>) (Some (c_now c)) st)) s)))"

definition driveTransition ::
    "ctx \<Rightarrow> processor \<Rightarrow> saga \<Rightarrow> unit_state \<Rightarrow> payout_tally \<Rightarrow> (unit res \<times> unit_state) \<times> payout_tally" where
  "driveTransition c proc x s t =
     (if sagaState x = RESERVED
      then (case submitToProvider c proc x s of
              (Inl e, s') \<Rightarrow> ((Inl e, s'), t)
            | (Inr _, s') \<Rightarrow> ((Inr (), s'), t\<lparr>yt_submitted := yt_submitted t @ [sagaId x]\<rparr>))
      else if sagaState x = SUBMITTED then checkSubmitted c proc x s t
      else ((Inr (), s), t))"

definition advanceOne :: "ctx \<Rightarrow> processor \<Rightarrow> saga \<Rightarrow> unit_state \<times> payout_tally \<Rightarrow> unit_state \<times> payout_tally" where
  "advanceOne c proc x st = (case driveTransition c proc x (fst st) (snd st) of
     ((Inr _, s'), t) \<Rightarrow> (s', t)
   | ((Inl e, s'), t) \<Rightarrow>
       (if err_retryable e \<and> int (sagaAttempts x + 1) < maxPayoutAttempts (c_config c)
        then (bumpAttempt c x s', t\<lparr>yt_retrying := yt_retrying t @ [(sagaId x, err_code e)]\<rparr>)
        else (case note_dead (sagaId x) (code_text (err_code e)) (transact (dead_letter_txn c x (code_text (err_code e))) s') t of
                ((Inr _, s2), t2) \<Rightarrow> (s2, t2)
              | ((Inl e2, s2), t2) \<Rightarrow> (s2, t2\<lparr>yt_retrying := yt_retrying t2 @ [(sagaId x, err_code e2)]\<rparr>))))"

definition advanceDuePayouts :: "ctx \<Rightarrow> processor \<Rightarrow> int \<Rightarrow> nat \<Rightarrow> unit_state \<Rightarrow> unit_state \<times> payout_tally" where
  "advanceDuePayouts c proc now limit s =
     fold (advanceOne c proc) (saga_claimDue now limit (u_sagas s))
       (s, \<lparr>yt_submitted = [], yt_dead = [], yt_retrying = []\<rparr>)"

section \<open>Invariants\<close>

lemma unit_ledger_lock [simp]: "l_lock (unit_ledger c) a = ret ()"
  by (simp add: unit_ledger_def memory_ledger_def Let_def on_ledger_ret)

lemma transact_keeps: "keeps P m \<Longrightarrow> P s \<Longrightarrow> transact m s = (r, s') \<Longrightarrow> P s'"
  by (auto simp: transact_def dest: keepsD split: sum.splits)

context unit_core begin

lemma anchored_sub: "keeps P (assertSubscriptionAnchored c x)"
  by (auto simp: assertSubscriptionAnchored_def intro!: steps verified)

lemma keeps_settle_grant: "keeps P (settle_grant c g)"
  by (auto simp: settle_grant_def postReversal_def Let_def intro!: steps verified)

end

context unit_saga begin

lemma keeps_dead_letter: "keeps P (dead_letter_txn c x reason)"
  by (auto simp: dead_letter_txn_def Let_def intro!: steps keeps_anchored move_saga event)

lemma saga_moved:
  assumes "P s" shows "P (u_sagas_update (\<lambda>st. snd (saga_advance i a b f u st)) s)"
proof -
  have "advance_saga i a b f u s = Inr (fst (saga_advance i a b f u (u_sagas s)),
      u_sagas_update (\<lambda>st. snd (saga_advance i a b f u st)) s)"
    by (auto simp: advance_saga_def split: prod.splits)
  from keepsD [OF move_saga this assms] show ?thesis .
qed

end

end
