(* ===== verification/Billing.thy ===== *)
theory Billing
  imports Sweeps
begin

text \<open>
  The background jobs that charge: subscription renewals (src/worker/subscriptions.ts) and the drain
  of parked seller shares (src/worker/accrual.ts).
\<close>

section \<open>Renewals (src/worker/subscriptions.ts)\<close>

record renew_tally =
  nt_charged :: "string list"
  nt_lapsed :: "string list"
  nt_dead :: "(string \<times> string) list"
  nt_retrying :: "(string \<times> string) list"

definition renewedEvent :: "ctx \<Rightarrow> string \<Rightarrow> subscription \<Rightarrow> event" where
  "renewedEvent c i x =
     \<lparr>eventId = i, eventType = ''economy.subscription.renewed'', eventVersion = 1, occurredAt = c_now c,
      eventSubject = subUser x,
      eventData = JObj [(''subscriptionId'', JStr (subId x)), (''userId'', JStr (subUser x)), (''sku'', JStr (subSku x)),
        (''period'', JNum (int (subPeriod x + 1)))],
      clientAudience = True\<rparr>"

definition lapsedEvent :: "ctx \<Rightarrow> string \<Rightarrow> subscription \<Rightarrow> event" where
  "lapsedEvent c i x =
     \<lparr>eventId = i, eventType = ''economy.subscription.lapsed'', eventVersion = 1, occurredAt = c_now c,
      eventSubject = subUser x,
      eventData = JObj [(''subscriptionId'', JStr (subId x)), (''userId'', JStr (subUser x)), (''sku'', JStr (subSku x)),
        (''period'', JNum (int (subPeriod x)))],
      clientAudience = True\<rparr>"

definition lapseAtomically :: "ctx \<Rightarrow> subscription \<Rightarrow> (unit_state, unit) act" where
  "lapseAtomically c x =
     sbind (modify (u_subs_update (sub_markLapsed (subId x)))) (\<lambda>_.
     sbind (modify (u_ents_update (ent_revoke (subUser x) (subSku x)))) (\<lambda>_.
     sbind (fresh c ''evt'') (\<lambda>i. enqueue_event c (lapsedEvent c i x) None)))"

text \<open>None of its steps faults in this store, so its transaction always commits.\<close>

definition lapsed_state :: "ctx \<Rightarrow> subscription \<Rightarrow> unit_state \<Rightarrow> unit_state" where
  "lapsed_state c x s = snd (transact (lapseAtomically c x) s)"

definition lapse :: "ctx \<Rightarrow> subscription \<Rightarrow> unit_state \<times> renew_tally \<Rightarrow> unit_state \<times> renew_tally" where
  "lapse c x st = (lapsed_state c x (fst st), (snd st)\<lparr>nt_lapsed := nt_lapsed (snd st) @ [subId x]\<rparr>)"

text \<open>The retry writes the row the sweep claimed back, with one more attempt.\<close>

definition recordRetry :: "ctx \<Rightarrow> subscription \<Rightarrow> string \<Rightarrow> unit_state \<times> renew_tally \<Rightarrow> unit_state \<times> renew_tally" where
  "recordRetry c x code st =
     (if int (subAttempts x + 1) \<ge> maxSubscriptionAttempts (c_config c) then lapse c x st
      else (u_subs_update (sub_open (x\<lparr>subAttempts := subAttempts x + 1\<rparr>)) (fst st),
            (snd st)\<lparr>nt_retrying := nt_retrying (snd st) @ [(subId x, code)]\<rparr>))"

definition deadLetter_sub :: "ctx \<Rightarrow> subscription \<Rightarrow> string \<Rightarrow> unit_state \<times> renew_tally \<Rightarrow> unit_state \<times> renew_tally" where
  "deadLetter_sub c x reason st =
     (lapsed_state c x (fst st), (snd st)\<lparr>nt_dead := nt_dead (snd st) @ [(subId x, reason)]\<rparr>)"

definition renewal_legs :: "config \<Rightarrow> subscription \<Rightarrow> leg list res" where
  "renewal_legs cfg x =
     rbind (feeForPrice (minor (subPrice x)) (platformFeeBps cfg)) (\<lambda>fee.
     rbind (toAmount CREDIT (minor (subPrice x) - fee)) (\<lambda>n.
     rbind (credit (earned (subSeller x)) n) (\<lambda>paid.
     rbind (toAmount CREDIT fee) (\<lambda>f.
     rbind (credit REVENUE f) (\<lambda>kept_leg.
       Inr [debit (spendable (subUser x)) (subPrice x), paid, kept_leg])))))"

definition postRenewal :: "ctx \<Rightarrow> subscription \<Rightarrow> string \<Rightarrow> (unit_state, transaction) act" where
  "postRenewal c x billingKey =
     sbind (lift (renewal_legs (c_config c) x)) (\<lambda>built.
     let parked = park c built;
         routed = (if snd parked = None then built else routePlatformLegs (fst parked) billingKey (shards c)) in
     sbind (fresh c ''txn'') (\<lambda>t.
     sbind (postEntry (unit_ledger c)
       \<lparr>txnId = t, legs = routed,
        meta = [(''kind'', JStr ''subscriptions.renew''), (''subscriptionId'', JStr (subId x)), (''sku'', JStr (subSku x)),
          (''sellerId'', JStr (subSeller x))] @
          (case snd parked of None \<Rightarrow> [] | Some sh \<Rightarrow> [(''shares'', sharesMeta sh)])\<rparr>) (\<lambda>txn.
     sbind (recordAccruals c (txnId txn) billingKey (snd parked) txn) (\<lambda>_.
     ret txn))))"

datatype renewal = Charged | Underfunded | Immature | LostRace

definition renewal_key :: "subscription \<Rightarrow> string" where
  "renewal_key x = ''sub:'' @ subId x @ '':p'' @ nat_text (subPeriod x + 1)"

definition mark_billed :: "string \<Rightarrow> int \<Rightarrow> int \<Rightarrow> (unit_state, bool) act" where
  "mark_billed i nextDueAt expectedDueAt = (\<lambda>s. case sub_markBilled i nextDueAt expectedDueAt (u_subs s) of
     (ok, st) \<Rightarrow> Inr (ok, s\<lparr>u_subs := st\<rparr>))"

text \<open>The renewal transaction.\<close>

definition renew_txn :: "ctx \<Rightarrow> subscription \<Rightarrow> (unit_state, renewal) act" where
  "renew_txn c x =
     sbind (l_lock (unit_ledger c) (spendable (subUser x))) (\<lambda>_.
     sbind (l_balance (unit_ledger c) (spendable (subUser x))) (\<lambda>have.
     sbind (lift (compare have (subPrice x))) (\<lambda>cmp.
     if cmp < 0 then ret Underfunded
     else
     sbind (matured_at_least c (spendable (subUser x)) (subPrice x) (ret have)) (\<lambda>cleared.
     if \<not> cleared then ret Immature
     else
     sbind (idem_claim_act c (renewal_key x)) (\<lambda>prior.
     case prior of Some _ \<Rightarrow> ret LostRace | None \<Rightarrow>
     sbind (mark_billed (subId x) (subNextDueAt x + subPeriodMs x) (subNextDueAt x)) (\<lambda>billed.
     if \<not> billed then ret LostRace
     else
     sbind (assertSubscriptionAnchored c x) (\<lambda>_.
     sbind (postRenewal c x (renewal_key x)) (\<lambda>txn.
     sbind (idem_record_act c (renewal_key x) txn) (\<lambda>_.
     sbind (modify (u_ents_update (ent_grant (subUser x) (subSku x)
       (EMPTY_ATTRS\<lparr>eexpiresAt := Some (NInt (subNextDueAt x + subPeriodMs x)), esource := Some (subId x)\<rparr>)))) (\<lambda>_.
     sbind (fresh c ''evt'') (\<lambda>i.
     sbind (enqueue_event c (renewedEvent c i x) None) (\<lambda>_.
     ret Charged))))))))))))"

definition billOne :: "ctx \<Rightarrow> subscription \<Rightarrow> unit_state \<times> renew_tally \<Rightarrow> unit_state \<times> renew_tally" where
  "billOne c x st = (case transact (renew_txn c x) (fst st) of
     (Inl e, s') \<Rightarrow>
       (if err_retryable e then recordRetry c x (code_text (err_code e)) (s', snd st)
        else deadLetter_sub c x (code_text (err_code e)) (s', snd st))
   | (Inr Charged, s') \<Rightarrow> (s', (snd st)\<lparr>nt_charged := nt_charged (snd st) @ [subId x]\<rparr>)
   | (Inr Immature, s') \<Rightarrow> recordRetry c x ''FUNDS_IMMATURE'' (s', snd st)
   | (Inr Underfunded, s') \<Rightarrow> lapse c x (s', snd st)
   | (Inr LostRace, s') \<Rightarrow> (s', snd st))"

definition sweepDueSubscriptions :: "ctx \<Rightarrow> int \<Rightarrow> nat \<Rightarrow> unit_state \<Rightarrow> unit_state \<times> renew_tally" where
  "sweepDueSubscriptions c now limit s =
     fold (billOne c) (sub_claimDue now limit (u_subs s))
       (s, \<lparr>nt_charged = [], nt_lapsed = [], nt_dead = [], nt_retrying = []\<rparr>)"

section \<open>The accrual drain (src/worker/accrual.ts)\<close>

record drained =
  dr_seller :: string
  dr_txn :: string
  dr_earned :: string
  dr_recovered :: string

record drain_tally =
  at_drained :: "drained list"
  at_failed :: "(string \<times> error_code) list"
  at_skipped :: bool

definition rowFault :: err where
  "rowFault = fault_retryable CHAIN_BROKEN False"

text \<open>\<open>BigInt\<close> of a metadata value: decimal text or a number.\<close>

definition json_bigint :: "json \<Rightarrow> int res" where
  "json_bigint j = (case j of JStr t \<Rightarrow> bigint_of t | JNum v \<Rightarrow> Inr v | _ \<Rightarrow> Inl (HostError ''TypeError''))"

definition meta_field :: "meta \<Rightarrow> string \<Rightarrow> string \<Rightarrow> json option" where
  "meta_field m k f = (case map_of m k of Some (JObj kvs) \<Rightarrow> map_of kvs f | _ \<Rightarrow> None)"

definition rowMatchesMeta :: "accrual_row \<Rightarrow> meta \<Rightarrow> bool res" where
  "rowMatchesMeta r m =
     (if minor (accAmount r) > 0
      then (if accSeq r \<noteq> 0 then Inr False
            else case meta_field m ''shares'' (accSeller r) of
              None \<Rightarrow> Inr False
            | Some j \<Rightarrow> rbind (json_bigint j) (\<lambda>v. Inr (v = minor (accAmount r))))
      else if map_of m ''kind'' = Some (JStr ''refund'')
      then (case meta_field m ''recovered'' (accSeller r) of
              None \<Rightarrow> Inr False
            | Some j \<Rightarrow> rbind (json_bigint j) (\<lambda>v. Inr (v = - minor (accAmount r))))
      else if map_of m ''kind'' = Some (JStr ''accrual_drain'')
      then (case map_of m ''residual'' of
              Some (JObj kvs) \<Rightarrow>
                (if map_of m ''sellerId'' = Some (JStr (accSeller r)) \<and> map_of kvs ''orderId'' = Some (JStr (accOrder r)) \<and>
                    map_of kvs ''seq'' = Some (JNum (int (accSeq r)))
                 then rbind (case map_of kvs ''minor'' of None \<Rightarrow> Inr 0 | Some j \<Rightarrow> json_bigint j)
                        (\<lambda>v. Inr (v = minor (accAmount r)))
                 else Inr False)
            | _ \<Rightarrow> Inr False)
      else Inr False)"

definition row_provable :: "ctx \<Rightarrow> accrual_row \<Rightarrow> (unit_state, unit) act" where
  "row_provable c r =
     sbind (verified_posting c (accTxn r)) (\<lambda>found.
     case found of None \<Rightarrow> throw rowFault
     | Some p \<Rightarrow> sbind (lift (rowMatchesMeta r (meta p))) (\<lambda>ok. if ok then ret () else throw rowFault))"

definition assertRowsProvable :: "ctx \<Rightarrow> accrual_row list \<Rightarrow> (unit_state, unit) act" where
  "assertRowsProvable c rows = seach (row_provable c) rows"

record recovery =
  rec_minor :: int
  rec_consumed :: "accrual_row list"
  rec_residual :: "(accrual_row \<times> amount) option"

text \<open>
  The debts in claim order against what is left to repay them; the boundary row is split, its
  residual being the row of the next sequence number with the unpaid rest.
\<close>

fun consumeRecovery :: "accrual_row list \<Rightarrow> int \<Rightarrow> recovery res" where
  "consumeRecovery [] remaining = Inr \<lparr>rec_minor = 0, rec_consumed = [], rec_residual = None\<rparr>"
| "consumeRecovery (r # rs) remaining =
     (if remaining = 0 then Inr \<lparr>rec_minor = 0, rec_consumed = [], rec_residual = None\<rparr>
      else (let owed = - minor (accAmount r)
            in if owed \<le> remaining
               then rbind (consumeRecovery rs (remaining - owed)) (\<lambda>rest.
                      Inr (rest\<lparr>rec_minor := owed + rec_minor rest, rec_consumed := r # rec_consumed rest\<rparr>))
               else rbind (toAmount CREDIT (- (owed - remaining))) (\<lambda>a.
                      Inr \<lparr>rec_minor = remaining, rec_consumed = [r], rec_residual = Some (r, a)\<rparr>)))"

definition residual_row :: "accrual_row \<Rightarrow> amount \<Rightarrow> string \<Rightarrow> int \<Rightarrow> accrual_row" where
  "residual_row r a txn now =
     \<lparr>accOrder = accOrder r, accSeller = accSeller r, accSeq = accSeq r + 1, accAmount = a, accShard = accShard r,
      accStatus = AccPending, accTxn = txn, accSettledTxn = None, accRecordedAt = now\<rparr>"

definition drain_row_text :: "accrual_row \<Rightarrow> string" where
  "drain_row_text r = accOrder r @ ''|'' @ accSeller r @ ''|'' @ nat_text (accSeq r)"

definition drainTxnId :: "ctx \<Rightarrow> accrual_row list \<Rightarrow> string" where
  "drainTxnId c rows =
     ''acc_'' @ take 32 (toHex (c_digest c (utf8 (join [char_of (10 :: nat)] (sort (map drain_row_text rows))))))"

definition by_shard :: "accrual_row list \<Rightarrow> (AccountRef \<times> int) list" where
  "by_shard rows = foldl (\<lambda>m r. bump (accShard r) (minor (accAmount r)) m) [] rows"

definition drain_legs :: "string \<Rightarrow> accrual_row list \<Rightarrow> int \<Rightarrow> int \<Rightarrow> leg list res" where
  "drain_legs seller positives earnedMinor recoveredMinor =
     rbind (rmap (\<lambda>(shard, m). rbind (toAmount CREDIT m) (\<lambda>a. Inr (debit shard a))) (by_shard positives)) (\<lambda>ds.
     rbind (if earnedMinor > 0 then rbind (toAmount CREDIT earnedMinor) (\<lambda>a. rbind (credit (earned seller) a) (\<lambda>l. Inr [l]))
            else Inr []) (\<lambda>es.
     rbind (if recoveredMinor > 0 then rbind (toAmount CREDIT recoveredMinor) (\<lambda>a. rbind (credit RECEIVABLE a) (\<lambda>l. Inr [l]))
            else Inr []) (\<lambda>rs. Inr (ds @ es @ rs))))"

definition drain_meta :: "string \<Rightarrow> accrual_row list \<Rightarrow> (accrual_row \<times> amount) option \<Rightarrow> meta" where
  "drain_meta seller rows residual =
     [(''kind'', JStr ''accrual_drain''), (''sellerId'', JStr seller),
      (''orders'', JArr (map JStr (sort (remdups (map accOrder rows)))))] @
     (case residual of None \<Rightarrow> []
      | Some (r, a) \<Rightarrow> [(''residual'', JObj [(''orderId'', JStr (accOrder r)), (''seq'', JNum (int (accSeq r + 1))),
          (''minor'', JStr (int_text (minor a)))])])"

definition drainSeller :: "ctx \<Rightarrow> string \<Rightarrow> int \<Rightarrow> nat \<Rightarrow> (unit_state, drained option) act" where
  "drainSeller c seller now limit =
     sbind (gets (\<lambda>s. claimSellerPending seller limit (u_accruals s))) (\<lambda>rows.
     sbind (assertRowsProvable c rows) (\<lambda>_.
     let positives = filter (\<lambda>r. minor (accAmount r) > 0) rows;
         negatives = filter (\<lambda>r. minor (accAmount r) < 0) rows;
         parkedMinor = (\<Sum>r\<leftarrow>positives. minor (accAmount r)) in
     if positives = [] then ret None
     else
     sbind (lift (consumeRecovery negatives parkedMinor)) (\<lambda>recovery.
     let earnedMinor = parkedMinor - rec_minor recovery;
         txn = drainTxnId c rows in
     sbind (lift (drain_legs seller positives earnedMinor (rec_minor recovery))) (\<lambda>ls.
     sbind (lockAll (unit_ledger c) (map account ls)) (\<lambda>_.
     sbind (gets (\<lambda>s. postingOf (plog (u_ledger s)) txn)) (\<lambda>existing.
     sbind (if existing = None
            then sbind (postEntry (unit_ledger c)
                   \<lparr>txnId = txn, legs = ls, meta = drain_meta seller rows (rec_residual recovery)\<rparr>) (\<lambda>_. ret ())
            else ret ()) (\<lambda>_.
     sbind (modify (u_accruals_update (acc_mark (map key_of_row (positives @ rec_consumed recovery)) AccDrained txn))) (\<lambda>_.
     sbind (case rec_residual recovery of None \<Rightarrow> ret () | Some (r, a) \<Rightarrow> put_accruals [residual_row r a txn now]) (\<lambda>_.
     ret (Some \<lparr>dr_seller = seller, dr_txn = txn, dr_earned = int_text earnedMinor,
       dr_recovered = int_text (rec_minor recovery)\<rparr>))))))))))"

definition drain_one :: "ctx \<Rightarrow> int \<Rightarrow> nat \<Rightarrow> string \<Rightarrow> unit_state \<times> drain_tally \<Rightarrow> unit_state \<times> drain_tally" where
  "drain_one c now limit seller st = (case transact (drainSeller c seller now limit) (fst st) of
     (Inl e, s') \<Rightarrow> (s', (snd st)\<lparr>at_failed := at_failed (snd st) @ [(seller, err_code e)]\<rparr>)
   | (Inr None, s') \<Rightarrow> (s', snd st)
   | (Inr (Some d), s') \<Rightarrow> (s', (snd st)\<lparr>at_drained := at_drained (snd st) @ [d]\<rparr>))"

definition drainAccruals :: "ctx \<Rightarrow> int \<Rightarrow> nat \<Rightarrow> unit_state \<Rightarrow> unit_state \<times> drain_tally" where
  "drainAccruals c now limit s =
     (if \<not> accrualDrain (c_config c) then (s, \<lparr>at_drained = [], at_failed = [], at_skipped = True\<rparr>)
      else fold (drain_one c now limit) (acc_pendingSellers limit (u_accruals s))
             (s, \<lparr>at_drained = [], at_failed = [], at_skipped = False\<rparr>))"

section \<open>Invariants\<close>

context unit_core begin

lemma keeps_mark_billed: "keeps P (mark_billed i a b)"
proof (rule keepsI)
  fix s x s' assume "P s" "mark_billed i a b s = Inr (x, s')"
  moreover have "P (u_subs_update (\<lambda>_. st) s)" if "P s" for st using keepsD [OF subs, of "\<lambda>_. st"] that by simp
  ultimately show "P s'" by (auto simp: mark_billed_def split: prod.splits)
qed

lemma keeps_lapse: "keeps P (lapseAtomically c x)"
  by (auto simp: lapseAtomically_def intro!: steps event)

lemma keeps_postRenewal: "keeps P (postRenewal c x k)"
  by (auto simp: postRenewal_def Let_def intro!: steps keeps_recordAccruals)

lemma keeps_provable: "keeps P (assertRowsProvable c rows)"
  by (auto simp: assertRowsProvable_def row_provable_def intro!: steps verified)

lemma keeps_drainSeller: "keeps P (drainSeller c seller now limit)"
  by (auto simp: drainSeller_def Let_def intro!: steps keeps_provable)

end

context unit_rec begin

lemma keeps_renew: "keeps P (renew_txn c x)"
  by (auto simp: renew_txn_def unit_ledger_lock intro!: steps maturity anchored_sub keeps_mark_billed keeps_postRenewal record_key event)

end

end
