(* ===== verification/Engine.thy ===== *)
theory Engine
  imports Billing
begin

text \<open>
  The engine as a state machine: its steps are submits, batches and the single items of the background
  jobs, each with a clock reading, ids and configuration of its own. An item's row is any row: the one
  the job claimed may be stale by the time it is worked. What every step keeps, and the properties of whole histories of submits.
\<close>

section \<open>The ledger's reachability is kept by every operation\<close>

lemma keeps_update:
  "(\<And>s. P s \<Longrightarrow> P (f s)) \<Longrightarrow> keeps P (modify f)"
  by (rule keeps_modify)

lemma put_accruals_Inr: "put_accruals rows s = Inr (x, s') \<longleftrightarrow> (\<exists>st. acc_put rows (u_accruals s) = Inr st \<and> s' = s\<lparr>u_accruals := st\<rparr>)"
  by (auto simp: put_accruals_def split: sum.splits)

lemma idem_claim_act_Inr: "idem_claim_act c k s = Inr (r, s') \<longleftrightarrow>
    r = map_of (idemCommitted (u_idem s)) k \<and>
    s' = (case r of Some _ \<Rightarrow> s | None \<Rightarrow> s\<lparr>u_idem := snd (idem_claim (c_now c) k (u_idem s))\<rparr>)"
  by (auto simp: idem_claim_act_def idem_claim_def split: option.splits)

lemma idem_record_act_Inr [simp]:
  "idem_record_act c k t s = Inr (x, s') \<longleftrightarrow> s' = s\<lparr>u_idem := idem_record (c_now c) k t (u_idem s)\<rparr>"
  by (auto simp: idem_record_act_def)

lemma advance_saga_Inr: "advance_saga i a b f u s = Inr (ok, s') \<longleftrightarrow>
    ok = fst (saga_advance i a b f u (u_sagas s)) \<and> s' = s\<lparr>u_sagas := snd (saga_advance i a b f u (u_sagas s))\<rparr>"
  by (auto simp: advance_saga_def split: prod.splits)

lemmas step_Inr = on_ledger_Inr put_accruals_Inr idem_claim_act_Inr advance_saga_Inr trust_record_act_def zoom_Inr

text \<open>A property of the ledger alone that postings keep is kept by everything.\<close>

lemma ledger_only:
  assumes "\<And>l t l' p. P l \<Longrightarrow> postEntry (memory_ledger (c_digest c) (c_now c)) p l = Inr (t, l') \<Longrightarrow> P l'"
  shows "unit_all c (\<lambda>s. P (u_ledger s))"
  by unfold_locales (rule keepsI, auto simp: step_Inr dest: assms split: option.splits)+

interpretation reach: unit_all c "\<lambda>s. ledger_reach (c_digest c) (u_ledger s)" for c
  by (rule ledger_only) (rule lr_post)

section \<open>Steps\<close>

inductive engine_step :: "digest \<Rightarrow> unit_state \<Rightarrow> unit_state \<Rightarrow> bool" for dig where
  es_submit: "c_digest c = dig \<Longrightarrow> submit c opn cid s = (r, s') \<Longrightarrow> engine_step dig s s'"
| es_batch: "\<forall>(c, opn) \<in> set work. c_digest c = dig \<Longrightarrow> submitBatch c0 work cid s = (rs, s') \<Longrightarrow> engine_step dig s s'"
| es_promo: "c_digest c = dig \<Longrightarrow> reverseOne c g (s, t) = (s', t') \<Longrightarrow> engine_step dig s s'"
| es_relay: "engine_step dig s (s\<lparr>u_outbox := fst (relayOutbox cfg d limit (u_outbox s))\<rparr>)"
| es_inbox: "\<forall>opn. c_digest (cc opn) = dig \<Longrightarrow> applyOne cfg (\<lambda>opn. submit (cc opn) opn None) m (s, t) = (s', t') \<Longrightarrow>
    engine_step dig s s'"
| es_payout: "c_digest c = dig \<Longrightarrow> advanceOne c proc x (s, t) = (s', t') \<Longrightarrow> engine_step dig s s'"
| es_renewal: "c_digest c = dig \<Longrightarrow> billOne c sub (s, t) = (s', t') \<Longrightarrow> engine_step dig s s'"
| es_drain: "c_digest c = dig \<Longrightarrow> drain_one c now limit seller (s, t) = (s', t') \<Longrightarrow> engine_step dig s s'"

text \<open>
  An invariant of the unit that does not look at the id counter, the trust store, the two queues, the
  subscriptions and the sagas.
\<close>

definition plain_inv :: "(unit_state \<Rightarrow> bool) \<Rightarrow> bool" where
  "plain_inv P \<longleftrightarrow> (\<forall>s n t ob ib su sa. P s \<longrightarrow> P (s\<lparr>u_drawn := n\<rparr>) \<and> P (s\<lparr>u_trust := t\<rparr>) \<and>
     P (s\<lparr>u_outbox := ob\<rparr>) \<and> P (s\<lparr>u_inbox := ib\<rparr>) \<and> P (s\<lparr>u_subs := su\<rparr>) \<and> P (s\<lparr>u_sagas := sa\<rparr>))"

text \<open>What an engine invariant must keep: the transactions of every step.\<close>

definition txn_inv :: "digest \<Rightarrow> (unit_state \<Rightarrow> bool) \<Rightarrow> bool" where
  "txn_inv dig P \<longleftrightarrow> (\<forall>c. c_digest c = dig \<longrightarrow>
     (\<forall>opn cid. keeps P (runClaimed c opn cid)) \<and> (\<forall>g. keeps P (settle_grant c g)) \<and>
     (\<forall>x reason. keeps P (dead_letter_txn c x reason)) \<and> (\<forall>x. keeps P (renew_txn c x)) \<and>
     (\<forall>x. keeps P (lapseAtomically c x)) \<and> (\<forall>seller now limit. keeps P (drainSeller c seller now limit)))"

lemma plain_upd:
  assumes "plain_inv P" "P s"
  shows "P (u_drawn_update f1 s)" "P (u_trust_update f2 s)" "P (u_outbox_update f3 s)" "P (u_inbox_update f4 s)"
    "P (u_subs_update f5 s)" "P (u_sagas_update f6 s)"
proof -
  have "u_drawn_update f1 s = s\<lparr>u_drawn := f1 (u_drawn s)\<rparr>" "u_trust_update f2 s = s\<lparr>u_trust := f2 (u_trust s)\<rparr>"
    "u_outbox_update f3 s = s\<lparr>u_outbox := f3 (u_outbox s)\<rparr>" "u_inbox_update f4 s = s\<lparr>u_inbox := f4 (u_inbox s)\<rparr>"
    "u_subs_update f5 s = s\<lparr>u_subs := f5 (u_subs s)\<rparr>" "u_sagas_update f6 s = s\<lparr>u_sagas := f6 (u_sagas s)\<rparr>"
    by simp_all
  then show "P (u_drawn_update f1 s)" "P (u_trust_update f2 s)" "P (u_outbox_update f3 s)" "P (u_inbox_update f4 s)"
    "P (u_subs_update f5 s)" "P (u_sagas_update f6 s)" using assms unfolding plain_inv_def by metis+
qed

lemma plain_bump: "plain_inv P \<Longrightarrow> P s \<Longrightarrow> P (bump_staged x s)"
  by (auto simp: bump_staged_def intro: plain_upd split: option.splits)

lemma in_transaction_inv:
  assumes "keeps P (runClaimed c opn cid)" "plain_inv P" "P s" "in_transaction c opn cid s = (r, s')"
  shows "P s'"
proof -
  have b: "P (begin_txn s)" using assms(2,3) plain_upd(1) [of P s "\<lambda>_. 0"] by (simp add: begin_txn_def)
  show ?thesis
    using assms(4,3) keepsD [OF assms(1) _ b]
    by (auto simp: in_transaction_def split: sum.splits outcome.splits)
qed

lemma submit_inv:
  assumes "keeps P (runClaimed c opn cid)" "plain_inv P" "P s" "submit c opn cid s = (r, s')"
  shows "P s'"
  using assms(4,3) in_transaction_inv [OF assms(1-3)] plain_bump [OF assms(2)]
  by (auto simp: submit_def split: sum.splits option.splits prod.splits if_splits)

lemma run_entries_inv:
  assumes "\<forall>(c, opn, d) \<in> set es. keeps P (runClaimed c opn cid)" "plain_inv P" "P s" "run_entries es cid s = (rs, s')"
  shows "P s'"
  using assms
proof (induction es arbitrary: s rs)
  case (Cons e es)
  obtain c opn d where e: "e = (c, opn, d)" by (cases e)
  show ?case
  proof (cases d)
    case None
    obtain r1 s1 where t: "in_transaction c opn cid s = (r1, s1)" by fastforce
    then have "P s1" using Cons.prems by (auto simp: e intro: in_transaction_inv)
    then show ?thesis
      using Cons.prems t Cons.IH [of s1] by (auto simp: e None split: prod.splits)
  next
    case (Some r)
    then show ?thesis using Cons.prems Cons.IH [of s] by (auto simp: e split: prod.splits)
  qed
qed simp

lemma settleBatch_inv: "plain_inv P \<Longrightarrow> P s \<Longrightarrow> P (settleBatch rs s)"
  unfolding settleBatch_def by (induction rs arbitrary: s) (auto simp: plain_bump)

lemma batch_inv:
  assumes "\<forall>(c, opn) \<in> set work. \<forall>cid. keeps P (runClaimed c opn cid)" "plain_inv P" "submitBatch c0 work cid s = (rs, s')" "P s"
  shows "P s'"
proof -
  let ?es = "map (\<lambda>((c, opn), d). (c, opn, d)) (zip work (screenBatch c0 (map snd work) []))"
  obtain results t where r: "run_entries ?es cid s = (results, t)" "s' = settleBatch results t"
    using assms(3) by (auto simp: submitBatch_def Let_def split: prod.splits)
  have "\<forall>(c, opn, d) \<in> set ?es. keeps P (runClaimed c opn cid)"
    using assms(1) by (fastforce dest: set_zip_leftD)
  from run_entries_inv [OF this assms(2,4) r(1)] show ?thesis
    unfolding r(2) by (rule settleBatch_inv [OF assms(2)])
qed

lemma inbox_inv:
  assumes "plain_inv P" "\<And>opn s r s'. P s \<Longrightarrow> app opn s = (r, s') \<Longrightarrow> P s'" "P s" "applyOne cfg app m (s, t) = (s', t')"
  shows "P s'"
  using assms(4,3) plain_upd(4) [OF assms(1)] assms(2)
  by (auto simp: applyOne_def record_inbox_failure_def split: prod.splits sum.splits outcome.splits if_splits)

lemma note_dead_state: "note_dead i reason r t = ((x, s), t') \<Longrightarrow> s = snd r"
  by (auto simp: note_dead_def split: prod.splits sum.splits bool.splits)

lemma payout_inv:
  assumes "plain_inv P" "\<And>reason. keeps P (dead_letter_txn c x reason)" "P s" "advanceOne c proc x (s, t) = (s', t')"
  shows "P s'"
proof -
  have dl: "P (snd (transact (dead_letter_txn c x reason) s1))" if "P s1" for reason s1
    using transact_keeps [OF assms(2) that] by (metis prod.collapse)
  have drive: "P s1" if "driveTransition c proc x s t = ((r, s1), t1)" for r s1 t1
    using that assms(3) dl [OF assms(3)] plain_upd(6) [OF assms(1,3)]
    by (auto simp: driveTransition_def submitToProvider_def checkSubmitted_def recheckLater_def Let_def
        split: if_splits sum.splits prod.splits option.splits provider_state.splits dest!: note_dead_state)
  obtain r s1 t1 where d: "driveTransition c proc x s t = ((r, s1), t1)" by (metis prod.collapse)
  note p = drive [OF d]
  show ?thesis
    using assms(4) p dl [OF p] plain_upd(6) [OF assms(1) p]
    by (auto simp: advanceOne_def d bumpAttempt_def split: if_splits sum.splits prod.splits dest!: note_dead_state)
qed

lemma renewal_inv:
  assumes "plain_inv P" "keeps P (renew_txn c x)" "keeps P (lapseAtomically c x)" "P s" "billOne c x (s, t) = (s', t')"
  shows "P s'"
proof -
  have lp: "P (lapsed_state c x s1)" if "P s1" for s1
    unfolding lapsed_state_def using transact_keeps [OF assms(3) that] by (metis prod.collapse)
  obtain r s1 where r: "transact (renew_txn c x) s = (r, s1)" by fastforce
  note p = transact_keeps [OF assms(2,4) r]
  show ?thesis
    using assms(5) p lp [OF p] plain_upd(5) [OF assms(1) p]
    by (auto simp: billOne_def r recordRetry_def deadLetter_sub_def lapse_def split: if_splits sum.splits renewal.splits)
qed

lemma engine_step_inv:
  assumes "txn_inv dig P" "plain_inv P" "engine_step dig s s'" "P s"
  shows "P s'"
proof -
  have run: "keeps P (runClaimed c opn cid)" if "c_digest c = dig" for c opn cid
    using assms(1) that by (auto simp: txn_inv_def)
  from assms(3) show ?thesis
  proof cases
    case (es_submit c opn cid r)
    then show ?thesis using submit_inv [OF run assms(2)] assms(4) by blast
  next
    case (es_batch work c0 cid rs)
    have "\<forall>(c, opn) \<in> set work. \<forall>cid. keeps P (runClaimed c opn cid)" using es_batch(1) run by blast
    then show ?thesis using batch_inv [OF _ assms(2) es_batch(2) assms(4)] by blast
  next
    case (es_promo c g t t')
    then have "keeps P (settle_grant c g)" using assms(1) by (auto simp: txn_inv_def)
    from transact_keeps [OF this assms(4)] es_promo(2) show ?thesis
      by (auto simp: reverseOne_def split: prod.splits sum.splits)
  next
    case (es_inbox cc cfg m t t')
    have "P s2" if "P s1" "submit (cc opn) opn None s1 = (r, s2)" for opn s1 r s2
      by (rule submit_inv [OF run assms(2) that]) (use es_inbox(1) in simp)
    then show ?thesis using inbox_inv [OF assms(2) _ assms(4) es_inbox(2)] by blast
  next
    case (es_payout c proc x t t')
    then have "keeps P (dead_letter_txn c x reason)" for reason using assms(1) by (auto simp: txn_inv_def)
    then show ?thesis using payout_inv [OF assms(2) _ assms(4)] es_payout(2) by blast
  next
    case (es_renewal c x t t')
    then have "keeps P (renew_txn c x)" "keeps P (lapseAtomically c x)" using assms(1) by (auto simp: txn_inv_def)
    then show ?thesis using renewal_inv [OF assms(2) _ _ assms(4)] es_renewal(2) by blast
  next
    case (es_drain c now limit seller t t')
    then have "keeps P (drainSeller c seller now limit)" using assms(1) by (auto simp: txn_inv_def)
    from transact_keeps [OF this assms(4)] es_drain(2) show ?thesis
      by (auto simp: drain_one_def split: prod.splits sum.splits option.splits)
  qed (use assms(4) plain_upd(3) [OF assms(2)] in simp)
qed

lemma engine_steps_inv:
  assumes "txn_inv dig P" "plain_inv P" "(engine_step dig)\<^sup>*\<^sup>* s s'" "P s"
  shows "P s'"
  using assms(3,4) by (induction rule: rtranclp_induct) (auto intro: engine_step_inv [OF assms(1,2)])

text \<open>A whole pass of a job is a run of item steps.\<close>

lemma fold_steps:
  assumes "\<And>x s t s' t'. f x (s, t) = (s', t') \<Longrightarrow> R s s'"
  shows "R\<^sup>*\<^sup>* (fst st) (fst (fold f xs st))"
proof (induction xs arbitrary: st)
  case (Cons x xs)
  have "R (fst st) (fst (f x st))" using assms [of x "fst st" "snd st"] by (metis prod.collapse)
  then show ?case using Cons [of "f x st"] by (simp add: converse_rtranclp_into_rtranclp)
qed simp

lemma passes_are_steps:
  assumes "c_digest c = dig"
  shows "(engine_step dig)\<^sup>*\<^sup>* s (fst (sweepExpiredPromos c now limit s))"
    "(engine_step dig)\<^sup>*\<^sup>* s (fst (advanceDuePayouts c proc now limit s))"
    "(engine_step dig)\<^sup>*\<^sup>* s (fst (sweepDueSubscriptions c now limit s))"
    "(engine_step dig)\<^sup>*\<^sup>* s (fst (drainAccruals c now limit s))"
  unfolding sweepExpiredPromos_def advanceDuePayouts_def sweepDueSubscriptions_def drainAccruals_def
  using fold_steps [of "reverseOne c" "engine_step dig" "(s, _)"] fold_steps [of "advanceOne c proc" "engine_step dig" "(s, _)"]
    fold_steps [of "billOne c" "engine_step dig" "(s, _)"] fold_steps [of "drain_one c now limit" "engine_step dig" "(s, _)"]
    es_promo [OF assms] es_payout [OF assms] es_renewal [OF assms] es_drain [OF assms] by auto

text \<open>An invariant every primitive step keeps is an engine invariant.\<close>

lemma unit_all_txn:
  assumes "\<And>c. c_digest c = dig \<Longrightarrow> unit_all c P"
  shows "txn_inv dig P"
  unfolding txn_inv_def
proof (intro allI impI)
  fix c :: ctx assume "c_digest c = dig"
  then have a: "unit_all c P" by (rule assms)
  then have "unit_rec c P" "unit_core c P" "unit_saga c P" by (simp_all add: unit_all_def unit_rec_def)
  then show "(\<forall>opn cid. keeps P (runClaimed c opn cid)) \<and> (\<forall>g. keeps P (settle_grant c g)) \<and>
     (\<forall>x reason. keeps P (dead_letter_txn c x reason)) \<and> (\<forall>x. keeps P (renew_txn c x)) \<and>
     (\<forall>x. keeps P (lapseAtomically c x)) \<and> (\<forall>seller now limit. keeps P (drainSeller c seller now limit))"
    using unit_all.keeps_runClaimed [OF a] unit_core.keeps_settle_grant unit_saga.keeps_dead_letter unit_rec.keeps_renew
      unit_core.keeps_lapse unit_core.keeps_drainSeller by blast
qed

lemma engine_reach:
  assumes "(engine_step dig)\<^sup>*\<^sup>* s s'" "ledger_reach dig (u_ledger s)"
  shows "ledger_reach dig (u_ledger s')"
proof (rule engine_steps_inv [OF unit_all_txn _ assms(1)])
  show "unit_all c (\<lambda>s. ledger_reach dig (u_ledger s))" if "c_digest c = dig" for c
    using reach.unit_all_axioms [of c] that by simp
qed (use assms(2) in \<open>simp_all add: plain_inv_def\<close>)

section \<open>Recorded keys and orders\<close>

text \<open>A recorded key stays recorded with its transaction, and a stored sale stays stored.\<close>

abbreviation recorded :: "string \<Rightarrow> transaction \<Rightarrow> unit_state \<Rightarrow> bool" where
  "recorded k t s \<equiv> map_of (idemCommitted (u_idem s)) k = Some t"

abbreviation unrecorded :: "string \<Rightarrow> unit_state \<Rightarrow> bool" where
  "unrecorded k s \<equiv> map_of (idemCommitted (u_idem s)) k = None"

abbreviation has_sale :: "string \<Rightarrow> sale \<Rightarrow> unit_state \<Rightarrow> bool" where
  "has_sale k x s \<equiv> map_of (u_sales s) k = Some x"

lemma idem_keeps_committed [simp]: "idemCommitted (snd (idem_claim now k s)) = idemCommitted s"
  by (simp add: idem_claim_def split: option.splits)

text \<open>A predicate of the committed keys alone: every step but the recording of a key keeps it.\<close>

lemma committed_only: "unit_sale c (\<lambda>s. Q (idemCommitted (u_idem s)))" "unit_saga c (\<lambda>s. Q (idemCommitted (u_idem s)))"
  by unfold_locales (rule keepsI, auto simp: step_Inr split: option.splits)+

interpretation keys: unit_sale c "\<lambda>s. Q (idemCommitted (u_idem s))" for c Q
  by (rule committed_only)

interpretation keys_saga: unit_saga c "\<lambda>s. Q (idemCommitted (u_idem s))" for c Q
  by (rule committed_only)

lemma sales_only: "unit_rec c (\<lambda>s. Q (u_sales s))" "unit_saga c (\<lambda>s. Q (u_sales s))"
  by unfold_locales (rule keepsI, auto simp: step_Inr split: option.splits)+

interpretation sales: unit_rec c "\<lambda>s. Q (u_sales s)" for c Q
  by (rule sales_only)

interpretation sales_saga: unit_saga c "\<lambda>s. Q (u_sales s)" for c Q
  by (rule sales_only)

section \<open>What a run never takes back\<close>

text \<open>A step after a read or a computation may use what was read.\<close>

lemma keeps_gets_bind: "(\<And>s. P s \<Longrightarrow> keeps P (f (g s))) \<Longrightarrow> keeps P (sbind (gets g) f)"
  unfolding keeps_def sbind_Inr gets_apply by blast

lemma keeps_lift_bind: "(\<And>x. r = Inr x \<Longrightarrow> keeps P (f x)) \<Longrightarrow> keeps P (sbind (lift r) f)"
  unfolding keeps_def sbind_Inr lift_Inr by blast

interpretation recd: unit_sale c "recorded k t" for c k t
  by (rule committed_only(1) [where Q = "\<lambda>m. map_of m k = Some t"])

interpretation recd_saga: unit_saga c "recorded k t" for c k t
  by (rule committed_only(2) [where Q = "\<lambda>m. map_of m k = Some t"])

lemma sbind_assoc: "sbind (sbind m f) g = sbind m (\<lambda>x. sbind (f x) g)"
  by (rule ext) (auto simp: sbind_def split: sum.splits prod.splits)

text \<open>A claim of the recorded key itself replays; a claim of another key cannot touch it.\<close>

lemma recorded_claim:
  assumes "\<And>u. keeps (recorded k t) (g u)" "K \<noteq> k \<Longrightarrow> keeps (recorded k t) m"
  shows "keeps (recorded k t) (sbind (idem_claim_act c K) (\<lambda>p. case p of None \<Rightarrow> m | Some u \<Rightarrow> g u))"
proof (rule keepsI)
  fix s x s' assume r: "recorded k t s" "sbind (idem_claim_act c K) (\<lambda>p. case p of None \<Rightarrow> m | Some u \<Rightarrow> g u) s = Inr (x, s')"
  then obtain p s1 where p: "idem_claim_act c K s = Inr (p, s1)" "(case p of None \<Rightarrow> m | Some u \<Rightarrow> g u) s1 = Inr (x, s')" by auto
  have "recorded k t s1 \<and> (p = None \<longrightarrow> K \<noteq> k)"
    using p(1) r(1) by (auto simp: idem_claim_act_Inr split: option.splits)
  then show "recorded k t s'" using p(2) assms by (cases p) (auto dest: keepsD)
qed

lemma recorded_other: "K \<noteq> k \<Longrightarrow> keeps (recorded k t) (idem_record_act c K u)"
  by (auto simp: keeps_def idem_record_def)

lemmas recorded_steps = recorded_claim recorded_other recd.verified recd.keeps_refund_legs recd.steps

lemma recorded_refund: "keeps (recorded k t) (refund c opn)"
  unfolding refund_def extendLocks_def lockAll_unit postEntry_unit
  by (cases "payload opn"; simp only: payload.case) (rule recorded_steps | assumption)+

lemma recorded_reverse: "keeps (recorded k t) (reverse c opn)"
  unfolding reverse_def loadPosting_def extendLocks_def lockAll_unit postEntry_unit
  by (cases "payload opn"; simp only: payload.case) (rule recorded_steps | assumption)+

lemma recorded_order:
  "keeps P (f i) \<Longrightarrow> keeps P (sbind (lift (presentOrderId i)) f)"
  by (rule keeps_lift_bind) (auto simp: presentOrderId_def)

lemma recorded_clawback: "keeps (recorded k t) (clawback c opn)"
proof (cases "payload opn")
  case (Clawback u a oid key reason)
  show ?thesis
  proof (cases oid)
    case (Some i)
    show ?thesis
      unfolding clawback_def Clawback Some claim_reversal_def record_reversal_def payload.case option.case
        sbind_assoc unit_ledger_sel postEntry_unit
      by (rule recorded_order recorded_steps | assumption)+
  next
    case None
    then show ?thesis
      by (auto simp: clawback_def Clawback claim_reversal_def record_reversal_def intro!: recd.steps)
  qed
qed (simp_all add: clawback_def recd.steps)


lemma recorded_registry: "keeps (recorded k t) (REGISTRY c opn)"
  unfolding REGISTRY_def
  by (cases "payload opn") (simp_all add: recd.keeps_topUp recd.keeps_spend recorded_refund recorded_clawback
      recd_saga.keeps_requestPayout recd.keeps_subscribe recd.keeps_cancelSubscription recd.keeps_grantEntitlement
      recd.keeps_revokeEntitlement recd.keeps_grantPromo recd.keeps_adjust recorded_reverse
      recd_saga.keeps_reversePayout recd_saga.keeps_settlePayout)

lemma replay_run:
  "recorded (idempotencyKey opn) t s \<Longrightarrow> runClaimed c opn cid s = Inr (Duplicate t, s)"
  by (simp add: runClaimed_def claim_phase_def sbind_def idem_claim_act_def idem_claim_def)

lemma recorded_run: "keeps (recorded k t) (runClaimed c opn cid)"
proof (cases "idempotencyKey opn = k")
  case True
  then show ?thesis by (auto intro!: keepsI simp: replay_run)
next
  case False
  then show ?thesis by (rule recd.keeps_run [OF recorded_registry recorded_other])
qed

lemma recorded_renew: "keeps (recorded k t) (renew_txn c x)"
  unfolding renew_txn_def unit_ledger_sel unit_ledger_lock
  by (rule recorded_steps recd.maturity recd.anchored_sub recd.keeps_mark_billed recd.keeps_postRenewal recd.event | assumption)+

lemma recorded_txn: "txn_inv dig (recorded k t)"
  by (simp add: txn_inv_def recorded_run recd.keeps_settle_grant recd_saga.keeps_dead_letter recorded_renew
      recd.keeps_lapse recd.keeps_drainSeller)

lemma recorded_steps_kept: "(engine_step dig)\<^sup>*\<^sup>* s s' \<Longrightarrow> recorded k t s \<Longrightarrow> recorded k t s'"
  by (rule engine_steps_inv [OF recorded_txn]) (simp_all add: plain_inv_def)

text \<open>A committed run leaves its key recorded with the transaction it returns.\<close>

lemma screenRisk_out: "screenRisk c opn s = Inr (Some out, s') \<Longrightarrow> \<exists>r. out = Rejected r"
  by (auto simp: screenRisk_def split: option.splits prod.splits if_splits)

lemma screen_needs_out: "screen_needs c ns s = Inr (Some out, s') \<Longrightarrow> \<exists>r. out = Rejected r"
  by (induction c ns arbitrary: s rule: screen_needs.induct) (auto split: if_splits)

lemma screenFunds_out: "screenFunds c opn s = Inr (Some out, s') \<Longrightarrow> \<exists>r. out = Rejected r"
  by (auto simp: screenFunds_def dest: screen_needs_out)

lemma claim_phase_out: "claim_phase c opn s = Inr (Some out, s') \<Longrightarrow>
    (\<exists>t. out = Duplicate t \<and> recorded (idempotencyKey opn) t s \<and> s' = s) \<or> (\<exists>k. out = Rejected (DUPLICATE_ORDER k))"
  by (auto simp: claim_phase_def PRE_CLAIMS_def spendPreClaim_def idem_claim_act_Inr split: option.splits payload.splits)

text \<open>The screens change no books: they claim the key, record the attempt and fill the balance cache.\<close>

definition same_books :: "unit_state \<Rightarrow> unit_state \<Rightarrow> bool" where
  "same_books s s1 \<longleftrightarrow> u_ledger s1 = u_ledger s \<and> u_sales s1 = u_sales s \<and> u_outbox s1 = u_outbox s \<and>
     u_sagas s1 = u_sagas s \<and> u_ents s1 = u_ents s \<and> u_subs s1 = u_subs s \<and> u_promos s1 = u_promos s \<and>
     u_accruals s1 = u_accruals s \<and> u_drawn s1 = u_drawn s \<and> idemCommitted (u_idem s1) = idemCommitted (u_idem s)"

lemma same_books_refl: "same_books s s"
  by (simp add: same_books_def)

lemma same_books_steps:
  "keeps (same_books s) (idem_claim_act c k)" "keeps (same_books s) (trust_record_act c subject a)"
  "keeps (same_books s) (modify (u_balances_update f))" "keeps (same_books s) (on_ledger (m_balance acct))"
  by (auto simp: keeps_def same_books_def step_Inr split: option.splits)

lemma same_books_screens:
  "keeps (same_books s) (claim_phase c opn)" "keeps (same_books s) (screenRisk c opn)" "keeps (same_books s) (lockAccounts c opn)"
  by (auto simp: claim_phase_def PRE_CLAIMS_def spendPreClaim_def screenRisk_def lockAccounts_def
      intro!: same_books_steps keeps_rules split: payload.split)

lemma same_books_cached: "keeps (same_books s) (readCachedBalance c a)"
  by (auto simp: readCachedBalance_def intro!: same_books_steps keeps_rules)

lemma same_books_funds: "keeps (same_books s) (screenFunds c opn)"
proof -
  have "keeps (same_books s) (screen_needs c ns)" for ns
    by (induction ns) (auto intro!: keeps_rules same_books_cached keeps_Inr)
  then show ?thesis by (auto simp: screenFunds_def fundsNeeded_def intro!: keeps_rules same_books_cached split: payload.split)
qed

text \<open>How a run ends: at a screen, or with what the handler returned.\<close>

lemma runClaimed_cases:
  assumes "runClaimed c opn cid s = Inr (out, s')"
  obtains (replay) t where "out = Duplicate t" "recorded (idempotencyKey opn) t s" "s' = s"
  | (screened) r where "out = Rejected r"
  | (handled) s0 s1 s2 where "claim_phase c opn s = Inr (None, s0)" "same_books s s1"
      "REGISTRY c opn s1 = Inr (out, s2)" "finish_run c opn cid out s2 = Inr (out, s')"
proof -
  obtain e s0 where e: "claim_phase c opn s = Inr (e, s0)"
    "(case e of Some out \<Rightarrow> ret out | None \<Rightarrow> sbind (screenRisk c opn) (\<lambda>risk.
     case risk of Some out \<Rightarrow> ret out | None \<Rightarrow>
     sbind (lockAccounts c opn) (\<lambda>_.
     sbind (modify (u_balances_update (\<lambda>_. Some []))) (\<lambda>_.
     sbind (screenFunds c opn) (\<lambda>funds.
     case funds of Some out \<Rightarrow> ret out | None \<Rightarrow>
     sbind (REGISTRY c opn) (finish_run c opn cid)))))) s0 = Inr (out, s')"
    using assms unfolding runClaimed_def sbind_Inr by blast
  have fin: "o2 = out" if "finish_run c opn cid o2 s2 = Inr (out, s')" for o2 s2
    using that by (auto simp: finish_run_def split: outcome.splits)
  show ?thesis
  proof (cases e)
    case (Some x)
    then have "x = out" "s' = s0" using e(2) by auto
    with claim_phase_out [of c opn s out s0] e(1) Some show ?thesis using replay screened by blast
  next
    case None
    then obtain r s1 where r: "screenRisk c opn s0 = Inr (r, s1)"
      "(case r of Some out \<Rightarrow> ret out | None \<Rightarrow>
     sbind (lockAccounts c opn) (\<lambda>_.
     sbind (modify (u_balances_update (\<lambda>_. Some []))) (\<lambda>_.
     sbind (screenFunds c opn) (\<lambda>funds.
     case funds of Some out \<Rightarrow> ret out | None \<Rightarrow>
     sbind (REGISTRY c opn) (finish_run c opn cid))))) s1 = Inr (out, s')"
      using e(2) by (simp only: option.case sbind_Inr) blast
    show ?thesis
    proof (cases r)
      case (Some x)
      then show ?thesis using r screenRisk_out screened by fastforce
    next
      case none: None
      then obtain s11 s2 f s3 where f: "lockAccounts c opn s1 = Inr ((), s11)" "s2 = s11\<lparr>u_balances := Some []\<rparr>"
        "screenFunds c opn s2 = Inr (f, s3)"
        "(case f of Some out \<Rightarrow> ret out | None \<Rightarrow> sbind (REGISTRY c opn) (finish_run c opn cid)) s3 = Inr (out, s')"
        using r(2) by (auto simp: lockAccounts_def)
      have "same_books s s11"
        using keepsD [OF same_books_screens(1) e(1) same_books_refl] r(1) f(1) by (blast dest: keepsD [OF same_books_screens(2)] keepsD [OF same_books_screens(3)])
      then have b3: "same_books s s3"
        using keepsD [OF same_books_funds f(3)] f(2) by (simp add: same_books_def)
      show ?thesis
      proof (cases f)
        case (Some x)
        then show ?thesis using f(3,4) screenFunds_out screened by fastforce
      next
        case None
        then obtain o2 s4 where h: "REGISTRY c opn s3 = Inr (o2, s4)" "finish_run c opn cid o2 s4 = Inr (out, s')"
          using f(4) by (simp only: option.case sbind_Inr) blast
        then show ?thesis using handled e(1) \<open>e = None\<close> fin b3 by blast
      qed
    qed
  qed
qed

lemma committed_recorded:
  assumes "runClaimed c opn cid s = Inr (Committed t, s')"
  shows "recorded (idempotencyKey opn) t s'"
  using assms
proof (cases rule: runClaimed_cases)
  case (handled s0 s1 s2)
  then show ?thesis
    using keepsD [OF recd.keeps_emitEvents [of "idempotencyKey opn" t c opn cid t]]
    by (auto simp: finish_run_def idem_record_def)
qed simp_all

lemma submit_committed:
  assumes "submit c opn cid s = (Inr (Committed t), s')"
  shows "recorded (idempotencyKey opn) t s'"
proof -
  have "screen_pause c opn = None"
    using assms by (auto simp: submit_def screen_pause_def split: sum.splits principal.splits if_splits)
  then have "in_transaction c opn cid s = (Inr (Committed t), s')"
    using assms by (auto simp: submit_def rolled_back_def split: sum.splits prod.splits outcome.splits)
  then show ?thesis
    by (auto simp: in_transaction_def split: sum.splits outcome.splits dest!: committed_recorded)
qed

end
