(* ===== verification/Posting.thy ===== *)
theory Posting
  imports MemLedger
begin

text \<open>
  When a posting goes through, and how it is refused when it does not: the converse of the posting
  specification, for the in-memory ledger of src/adapters/memory.ts under the checks of src/ledger.ts.
\<close>

definition bounded_move :: "(AccountRef \<Rightarrow> int) \<Rightarrow> leg list \<Rightarrow> bool" where
  "bounded_move b ls \<longleftrightarrow> (\<forall>a \<in> account ` set ls. \<bar>b a\<bar> + (\<Sum>l\<leftarrow>ls. \<bar>moved l\<bar>) \<le> I64_MAX)"

lemma bounded_in_i64: "\<bar>x\<bar> \<le> I64_MAX \<Longrightarrow> in_i64 x"
  by (auto simp: in_i64_def I64_MIN_def I64_MAX_def)

lemma next_balances_total:
  assumes "bounded_move (\<lambda>a. case map_of nxt a of Some v \<Rightarrow> v | None \<Rightarrow> getz bals a) ls"
  shows "\<exists>r. next_balances bals ls nxt = Inr r"
  using assms
proof (induction ls arbitrary: nxt)
  case (Cons l ls)
  let ?b = "\<lambda>nxt a. case map_of nxt a of Some v \<Rightarrow> v | None \<Rightarrow> getz bals a"
  let ?n = "AList.update (account l) (?b nxt (account l) + moved l) nxt"
  have s: "0 \<le> (\<Sum>l\<leftarrow>ls. \<bar>moved l\<bar>)" by (induction ls) auto
  have b: "\<bar>?b nxt (account l)\<bar> + \<bar>moved l\<bar> + (\<Sum>l\<leftarrow>ls. \<bar>moved l\<bar>) \<le> I64_MAX"
    using Cons.prems by (simp add: bounded_move_def algebra_simps)
  have "bounded_move (?b ?n) ls"
    unfolding bounded_move_def
  proof
    fix a assume "a \<in> account ` set ls"
    then have "a \<in> account ` set (l # ls)" by simp
    with Cons.prems have "\<bar>?b nxt a\<bar> + (\<Sum>l\<leftarrow>l # ls. \<bar>moved l\<bar>) \<le> I64_MAX"
      unfolding bounded_move_def by (rule bspec)
    then have "\<bar>?b nxt a\<bar> + \<bar>moved l\<bar> + (\<Sum>l\<leftarrow>ls. \<bar>moved l\<bar>) \<le> I64_MAX" by simp
    then show "\<bar>?b ?n a\<bar> + (\<Sum>l\<leftarrow>ls. \<bar>moved l\<bar>) \<le> I64_MAX" using b by auto
  qed
  from Cons.IH [OF this] obtain nx ds where r: "next_balances bals ls ?n = Inr (nx, ds)" by auto
  have "in_i64 (moved l)" "in_i64 (?b nxt (account l) + moved l)"
    using b s by (intro bounded_in_i64; linarith)+
  then have "toAmount c (moved l) = Inr \<lparr>currency = c, minor = moved l\<rparr>"
    "toAmount c (?b nxt (account l) + moved l) = Inr \<lparr>currency = c, minor = ?b nxt (account l) + moved l\<rparr>" for c
    by (simp_all add: toAmount_Inr)
  then show ?case using r by (simp add: balanceDelta_moved Let_def)
qed simp

text \<open>A loop of checks that each pass or raise the same error passes exactly when all pass.\<close>

lemma seach_gate:
  "\<forall>x \<in> set xs. f x s = (if ok x then Inr ((), s) else Inl e) \<Longrightarrow>
   seach f xs s = (if \<forall>x \<in> set xs. ok x then Inr ((), s) else Inl e)"
  by (induction xs) (auto simp: sbind_def)

lemma reach_gate:
  "\<forall>x \<in> set xs. f x = (if ok x then Inr () else Inl e) \<Longrightarrow>
   reach f xs = (if \<forall>x \<in> set xs. ok x then Inr () else Inl e)"
  by (induction xs) auto

lemma bounded_cur_sum: "\<bar>cur_sum c ls\<bar> \<le> (\<Sum>l\<leftarrow>ls. \<bar>moved l\<bar>)"
  by (induction ls) (auto simp: moved_def)

lemma dropZeroLegs_sums [simp]:
  "cur_sum c (legs (dropZeroLegs p)) = cur_sum c (legs p)"
  "(\<Sum>l\<leftarrow>legs (dropZeroLegs p). \<bar>moved l\<bar>) = (\<Sum>l\<leftarrow>legs p. \<bar>moved l\<bar>)"
proof -
  have "cur_sum c (filter (\<lambda>l. minor (amount l) \<noteq> 0) ls) = cur_sum c ls" for ls
    by (induction ls) (auto simp: cur_sum_def)
  moreover have "(\<Sum>l\<leftarrow>filter (\<lambda>l. minor (amount l) \<noteq> 0) ls. \<bar>moved l\<bar>) = (\<Sum>l\<leftarrow>ls. \<bar>moved l\<bar>)" for ls
    by (induction ls) (auto simp: moved_def)
  ultimately show "cur_sum c (legs (dropZeroLegs p)) = cur_sum c (legs p)"
    "(\<Sum>l\<leftarrow>legs (dropZeroLegs p). \<bar>moved l\<bar>) = (\<Sum>l\<leftarrow>legs p. \<bar>moved l\<bar>)"
    by (simp_all add: dropZeroLegs_sel)
qed

section \<open>Each check, refusals included\<close>

lemma assertSingleCurrencyPerLeg_gate:
  "assertSingleCurrencyPerLeg p =
     (if \<forall>l \<in> set (legs p). currency (amount l) = currencyOf (account l) then Inr ()
      else Inl (fault CURRENCY_MISMATCH))"
  unfolding assertSingleCurrencyPerLeg_def by (rule reach_gate) (simp add: ensure_def)

lemma assertBalanced_gate:
  assumes "\<forall>c. in_i64 (cur_sum c (legs p))"
  shows "assertBalanced p =
    (if \<forall>c. cur_sum c (legs p) = 0 then Inr () else Inl (fault LEDGER_UNBALANCED))"
proof -
  have "assertBalanced p = (if \<forall>x \<in> set (currency_sums (legs p)). snd x = 0 then Inr ()
      else Inl (fault LEDGER_UNBALANCED))"
    unfolding assertBalanced_def
  proof (rule reach_gate, rule ballI)
    fix x assume x: "x \<in> set (currency_sums (legs p))"
    obtain c v where cv: "x = (c, v)" by (cases x)
    then have "v = cur_sum c (legs p)"
      using getz_mem [OF currency_sums_facts(2), of c v "legs p"] x by (simp add: currency_sums_facts(1))
    then show "(case x of (c, t) \<Rightarrow> if t \<noteq> 0 then rbind (toAmount c t) (\<lambda>_. Inl (fault LEDGER_UNBALANCED))
        else Inr ()) = (if snd x = 0 then Inr () else Inl (fault LEDGER_UNBALANCED))"
      using assms by (simp add: cv toAmount_ok)
  qed
  then show ?thesis using assertBalanced_Inr [of p] by (auto split: if_splits)
qed

lemma assertKnownAccounts_gate:
  "assertKnownAccounts (memory_ledger dig now) p s =
     (if \<forall>l \<in> set (legs p). isKnownAccount (account l) (registered s) then Inr ((), s) else Inl (fault UNKNOWN_ACCOUNT))"
  unfolding assertKnownAccounts_def by (rule seach_gate) (simp add: memory_ledger_def sbind_def)

definition affordable :: "'a ledger_data_scheme \<Rightarrow> leg list \<Rightarrow> bool" where
  "affordable s ls \<longleftrightarrow> list_all (\<lambda>a. isUserGuarded a \<longrightarrow> net a ls < 0 \<longrightarrow>
     0 \<le> getz (balances s) a + net a ls) (map account ls)"

lemma affordableD: "affordable s ls \<Longrightarrow> isUserGuarded a \<Longrightarrow> net a ls < 0 \<Longrightarrow> 0 \<le> getz (balances s) a + net a ls"
  using net_absent [of a ls] by (force simp: affordable_def list_all_iff)

lemma bounded_moveD:
  assumes "bounded_move b ls" "l \<in> set ls"
  shows "in_i64 (moved l)" "in_i64 (b (account l))" "in_i64 (b (account l) + net (account l) ls)"
proof -
  have "\<bar>moved l\<bar> \<le> (\<Sum>l\<leftarrow>ls. \<bar>moved l\<bar>)" using assms(2) by (intro member_le_sum_list) auto
  moreover have "\<bar>net (account l) ls\<bar> \<le> (\<Sum>l\<leftarrow>ls. \<bar>moved l\<bar>)"
    by (induction ls) auto
  moreover have "\<bar>b (account l)\<bar> + (\<Sum>l\<leftarrow>ls. \<bar>moved l\<bar>) \<le> I64_MAX"
    using assms by (auto simp: bounded_move_def)
  moreover have "0 \<le> (\<Sum>l\<leftarrow>ls. \<bar>moved l\<bar>)" by (rule sum_list_nonneg) auto
  ultimately show "in_i64 (moved l)" "in_i64 (b (account l))" "in_i64 (b (account l) + net (account l) ls)"
    by (intro bounded_in_i64; linarith)+
qed

lemma assertNoOverdraft_gate:
  assumes "bounded_move (getz (balances s)) (legs p)"
  shows "assertNoOverdraft (memory_ledger dig now) p s =
    (if affordable s (legs p) then Inr ((), s) else Inl (fault OVERDRAFT))"
proof -
  obtain ds where ds: "guarded_deltas (legs p) [] = Inr ds"
    using bounded_moveD(1) [OF assms] by (auto simp: guarded_deltas_Inr)
  note gf = guarded_deltas_facts [OF ds]
  let ?ok = "\<lambda>x. snd x < 0 \<longrightarrow> 0 \<le> getz (balances s) (fst x) + snd x"
  have dn: "d = net a (legs p) \<and> isUserGuarded a \<and> a \<in> account ` set (legs p)" if "(a, d) \<in> set ds" for a d
  proof -
    have k: "isUserGuarded a \<and> a \<in> account ` set (legs p)" using that gf(3) by (metis (mono_tags, lifting) fst_conv image_eqI mem_Collect_eq)
    then show ?thesis using getz_mem [OF gf(1) that] gf(2) [of a] by simp
  qed
  have eq: "affordable s (legs p) \<longleftrightarrow> (\<forall>x \<in> set ds. ?ok x)"
  proof
    assume "affordable s (legs p)"
    then show "\<forall>x \<in> set ds. ?ok x" using affordableD dn by fastforce
  next
    assume r: "\<forall>x \<in> set ds. ?ok x"
    have "0 \<le> getz (balances s) a + net a (legs p)"
      if "a \<in> account ` set (legs p)" "isUserGuarded a" "net a (legs p) < 0" for a
    proof -
      have "a \<in> fst ` set ds" using that gf(3) by auto
      then obtain d where "(a, d) \<in> set ds" by auto
      then show ?thesis using r dn that by fastforce
    qed
    then show "affordable s (legs p)" by (auto simp: affordable_def list_all_iff)
  qed
  show ?thesis
    unfolding assertNoOverdraft_def ds eq
  proof (simp only: sbind_def lift_def sum.case prod.case, rule seach_gate, rule ballI)
    fix x assume x: "x \<in> set ds"
    obtain a d where ad: "x = (a, d)" by (cases x)
    obtain l where l: "l \<in> set (legs p)" "account l = a" using dn [of a d] x ad by auto
    have "in_i64 (getz (balances s) a)" "in_i64 (getz (balances s) a + d)"
      using bounded_moveD(2,3) [OF assms l(1)] l(2) dn [of a d] x ad by auto
    then show "(case x of (acct, delta) \<Rightarrow> if 0 \<le> delta then ret ()
        else (\<lambda>s. case l_balance (memory_ledger dig now) acct s of Inl e \<Rightarrow> Inl e
             | Inr (current, s) \<Rightarrow> (\<lambda>s. case (\<lambda>s. case toAmount (currency current) (minor current + delta) of Inl e \<Rightarrow> Inl e | Inr r \<Rightarrow> Inr (r, s)) s of Inl e \<Rightarrow> Inl e
                 | Inr (projected, s) \<Rightarrow> (if minor projected < 0 then throw (fault OVERDRAFT) else ret ()) s) s)) s =
        (if ?ok x then Inr ((), s) else Inl (fault OVERDRAFT))"
      by (simp add: ad sbind_def memory_ledger_def m_balance_def lift_def toAmount_ok)
  qed
qed

section \<open>The outcome of a posting\<close>

text \<open>Why a posting is refused: the first of the four rules it breaks, in the order the code checks them.\<close>

definition refusal :: "'a ledger_data_scheme \<Rightarrow> leg list \<Rightarrow> error_code option" where
  "refusal s ls =
     (if \<not> list_all (\<lambda>l. currency (amount l) = currencyOf (account l)) ls then Some CURRENCY_MISMATCH
      else if \<not> (cur_sum CREDIT ls = 0 \<and> cur_sum USD ls = 0) then Some LEDGER_UNBALANCED
      else if \<not> list_all (\<lambda>l. isKnownAccount (account l) (registered s)) ls then Some UNKNOWN_ACCOUNT
      else if \<not> affordable s ls then Some OVERDRAFT
      else None)"

lemma all_currencies: "(\<forall>c. P c) \<longleftrightarrow> P CREDIT \<and> P USD"
  using currency.exhaust by metis

lemma post_checks_outcome:
  assumes "bounded_move (getz (balances s)) (legs p)"
  shows "post_checks (memory_ledger dig now) p s =
    (case refusal s (legs p) of Some code \<Rightarrow> Inl (fault code) | None \<Rightarrow> Inr ((), s))"
proof -
  have "in_i64 (cur_sum c (legs p))" for c
  proof (cases "legs p")
    case Nil then show ?thesis by (simp add: in_i64_def I64_MIN_def I64_MAX_def)
  next
    case (Cons l ls)
    then have "\<bar>getz (balances s) (account l)\<bar> + (\<Sum>l\<leftarrow>legs p. \<bar>moved l\<bar>) \<le> I64_MAX"
      using assms by (auto simp: bounded_move_def)
    then show ?thesis using bounded_cur_sum [of c "legs p"] by (intro bounded_in_i64) linarith
  qed
  then show ?thesis
    by (simp add: post_checks_def sbind_def lift_def assertSingleCurrencyPerLeg_gate assertBalanced_gate
        assertKnownAccounts_gate assertNoOverdraft_gate [OF assms] refusal_def all_currencies list_all_iff)
qed

lemma append_total:
  assumes "heads_ok s" "canonicalMeta (JObj (meta p)) = Inr cm" "bounded_move (getz (balances s)) (legs p)"
  shows "\<exists>t s'. m_append dig now p s = Inr (t, s')"
proof -
  obtain lks where lks: "advanceChain dig s p = Inr lks"
    using advanceChain_total [OF assms(1,2)] by blast
  obtain r where "next_balances (balances s) (legs p) [] = Inr r"
    using next_balances_total [where nxt = "[]" and bals = "balances s" and ls = "legs p"] assms(3) by auto
  then have "\<exists>s'. commitPosting (s\<lparr>seqno := seqno s + 1\<rparr>) st = Inr s'" if "legs st = legs p" for st
    using that by (cases r) (simp add: commitPosting_def Let_def)
  then show ?thesis using lks by (auto simp: m_append_def Let_def)
qed

text \<open>The converse of the posting specification: what is not refused goes through.\<close>

lemma postEntry_outcome:
  assumes "heads_ok s" "canonicalMeta (JObj (meta p)) = Inr cm"
    and "bounded_move (getz (balances s)) (legs (dropZeroLegs p))"
  shows "case refusal s (legs (dropZeroLegs p)) of
      Some code \<Rightarrow> postEntry (memory_ledger dig now) p s = Inl (fault code)
    | None \<Rightarrow> \<exists>t s'. postEntry (memory_ledger dig now) p s = Inr (t, s')"
proof -
  have "\<exists>t s'. m_append dig now (dropZeroLegs p) s = Inr (t, s')"
    using append_total [OF assms(1) _ assms(3)] assms(2) by (simp add: dropZeroLegs_sel)
  moreover have "l_append (memory_ledger dig now) = m_append dig now" by (simp add: memory_ledger_def)
  ultimately show ?thesis
    by (cases "refusal s (legs (dropZeroLegs p))")
      (auto simp: postEntry_def Let_def sbind_def post_checks_outcome [OF assms(3)])
qed

text \<open>Metadata of plain texts and numbers hashes.\<close>

lemma hashable_flat:
  assumes "\<forall>kv \<in> set kvs. \<exists>t. canonicalMeta (snd kv) = Inr t"
  shows "\<exists>cm. canonicalMeta (JObj kvs) = Inr cm"
proof -
  have "\<exists>r. rmap (\<lambda>kv. rbind (canonicalMeta (snd kv)) (\<lambda>v. Inr (fst kv, v))) xs = Inr r" if "set xs \<subseteq> set kvs" for xs
    using that assms by (induction xs) fastforce+
  from this [of "sort_key fst kvs"] show ?thesis by auto
qed

section \<open>On a reached ledger\<close>

lemma ledger_reach_frame: "ledger_reach dig s \<Longrightarrow> heads_ok s \<and> registered s = SYSTEM"
proof (induction rule: ledger_reach.induct)
  case (lr_post s now p t s')
  then have "heads_ok s'" using postEntry_heads by blast
  moreover obtain s1 st where "commitPosting (s\<lparr>seqno := seqno s + 1\<rparr>) st = Inr s'"
    by (rule postEntry_commit [OF lr_post.hyps(2)]) blast
  ultimately show ?case using commitPosting_Inr(2) lr_post.IH by fastforce
qed (simp_all add: heads_ok_def empty_ledger_def)

text \<open>A posting on house accounts alone only has to balance.\<close>

lemma house_posting_total:
  assumes "ledger_reach dig' s" "\<forall>a. \<bar>getz (balances s) a\<bar> \<le> B" "\<exists>cm. canonicalMeta (JObj (meta p)) = Inr cm"
    and "list_all (\<lambda>l. \<not> isUserGuarded (account l)) (legs p)" "refusal empty_ledger (filter (\<lambda>l. minor (amount l) \<noteq> 0) (legs p)) = None"
    and "B + (\<Sum>l\<leftarrow>legs p. \<bar>moved l\<bar>) \<le> I64_MAX"
  shows "\<exists>t s'. postEntry (memory_ledger dig now) p s = Inr (t, s')"
proof -
  note fr = ledger_reach_frame [OF assms(1)]
  have g: "\<forall>l \<in> set (legs (dropZeroLegs p)). \<not> isUserGuarded (account l)"
    using assms(4) by (auto simp: list_all_iff dropZeroLegs_sel)
  then have "affordable s (legs (dropZeroLegs p))" by (auto simp: affordable_def list_all_iff)
  then have "refusal s (legs (dropZeroLegs p)) = None"
    using assms(5) fr by (auto simp: refusal_def empty_ledger_def dropZeroLegs_sel split: if_splits)
  moreover have "bounded_move (getz (balances s)) (legs (dropZeroLegs p))"
    using assms(2,6) by (auto simp: bounded_move_def intro: order_trans [OF add_right_mono])
  ultimately show ?thesis using postEntry_outcome [of s p _ dig now] fr assms(3) by fastforce
qed

text \<open>What a posting leaves in the log and the lot index.\<close>

lemma commit_after:
  assumes "postEntry (memory_ledger dig now) p s = Inr (t, s')" "dropZeroLegs p = p"
  shows "\<exists>lks. plog s' = plog s @ [\<lparr>txnId = txnId p, legs = legs p, meta = meta p, postedAt = now, links = lks, pseq = seqno s + 1\<rparr>]"
    "lotIndex s' = fold (push_lot (length (plog s))) (lottedAccounts (legs p)) (lotIndex s)" "seqno s' = seqno s + 1"
proof -
  obtain lks st where st: "st = \<lparr>txnId = txnId p, legs = legs p, meta = meta p, postedAt = now, links = lks, pseq = seqno s + 1\<rparr>"
    "commitPosting (s\<lparr>seqno := seqno s + 1\<rparr>) st = Inr s'"
    by (rule postEntry_commit [OF assms(1)]) (simp add: assms(2))
  note ci = commitPosting_Inr [OF st(2)]
  show "\<exists>lks. plog s' = plog s @ [\<lparr>txnId = txnId p, legs = legs p, meta = meta p, postedAt = now, links = lks, pseq = seqno s + 1\<rparr>]"
    using ci(1) st(1) by auto
  show "lotIndex s' = fold (push_lot (length (plog s))) (lottedAccounts (legs p)) (lotIndex s)" "seqno s' = seqno s + 1"
    using ci(3,10) st(1) by simp_all
qed

section \<open>Properties\<close>

text \<open>
  (C15) A posting is refused for the first rule it breaks and for nothing else. On a ledger with
  readable chain heads, a posting with hashable metadata and amounts that stay in 64 bits either
  breaks a rule, and is refused with exactly that rule's error (a leg in a foreign currency, an
  unbalanced currency, an unknown account, a guarded account that would go negative, in this order),
  or breaks none, and goes through. Zero legs never matter.
\<close>

theorem posting_outcome:
  assumes "heads_ok s" "canonicalMeta (JObj (meta p)) = Inr cm"
    and "bounded_move (getz (balances s)) (legs (dropZeroLegs p))"
  shows "case refusal s (filter (\<lambda>l. minor (amount l) \<noteq> 0) (legs p)) of
      Some code \<Rightarrow> postEntry (memory_ledger dig now) p s = Inl (fault code)
    | None \<Rightarrow> \<exists>t s'. postEntry (memory_ledger dig now) p s = Inr (t, s')"
  using postEntry_outcome [OF assms] by (simp add: dropZeroLegs_sel)

text \<open>An empty ledger: the top-up of the earlier instances passes, its inverse overdraws the user.\<close>

theorem posting_outcome_witness:
  "refusal empty_ledger (legs demo_topup) = None \<and>
   (\<exists>t s'. postEntry (memory_ledger demo_digest 7) demo_topup empty_ledger = Inr (t, s')) \<and>
   postEntry (memory_ledger demo_digest 7) (demo_topup\<lparr>legs :=
       [\<lparr>account = spendable ''u'', amount = \<lparr>currency = CREDIT, minor = 500\<rparr>\<rparr>,
        \<lparr>account = STORED_VALUE, amount = \<lparr>currency = CREDIT, minor = - 500\<rparr>\<rparr>]\<rparr>) empty_ledger = Inl (fault OVERDRAFT)"
proof -
  let ?inv = "demo_topup\<lparr>legs :=
       [\<lparr>account = spendable ''u'', amount = \<lparr>currency = CREDIT, minor = 500\<rparr>\<rparr>,
        \<lparr>account = STORED_VALUE, amount = \<lparr>currency = CREDIT, minor = - 500\<rparr>\<rparr>]\<rparr>"
  have h: "heads_ok empty_ledger" by (simp add: heads_ok_def empty_ledger_def)
  obtain cm where m: "canonicalMeta (JObj (meta demo_topup)) = Inr cm" "canonicalMeta (JObj (meta ?inv)) = Inr cm"
    by (simp add: demo_topup_def)
  have b: "bounded_move (getz (balances empty_ledger)) (legs (dropZeroLegs demo_topup))" by code_simp
  have b': "bounded_move (getz (balances empty_ledger)) (legs (dropZeroLegs ?inv))" by code_simp
  have r: "refusal empty_ledger (filter (\<lambda>l. minor (amount l) \<noteq> 0) (legs demo_topup)) = None" by code_simp
  have r': "refusal empty_ledger (filter (\<lambda>l. minor (amount l) \<noteq> 0) (legs ?inv)) = Some OVERDRAFT" by code_simp
  have f: "filter (\<lambda>l. minor (amount l) \<noteq> 0) (legs demo_topup) = legs demo_topup" by code_simp
  show ?thesis
    using posting_outcome [OF h m(1) b, of demo_digest 7] posting_outcome [OF h m(2) b', of demo_digest 7]
    unfolding r r' f using r f by simp
qed

end
