(* ===== verification/History.thy ===== *)
theory History
  imports Engine Posting
begin

text \<open>
  What whole histories of submits and batches promise: the books, the replay of keys, the single
  charge of an order.
\<close>

section \<open>Orders\<close>

abbreviation sold :: "string \<Rightarrow> unit_state \<Rightarrow> bool" where
  "sold k s \<equiv> map_of (u_sales s) k \<noteq> None"

lemma sold_only: "unit_all c (sold k)"
  by unfold_locales (rule keepsI, auto simp: step_Inr sale_put_def split: option.splits)+

interpretation sold: unit_all c "sold k" for c k
  by (rule sold_only)

lemma sold_stays: "(engine_step dig)\<^sup>*\<^sup>* s s' \<Longrightarrow> sold k s \<Longrightarrow> sold k s'"
  by (rule engine_steps_inv [OF unit_all_txn [OF sold_only]]) (simp_all add: plain_inv_def)

lemma saleOf_order: "saleOf oid b sku g price rs plan t bps = Inr x \<Longrightarrow> saleOrder x = oid"
  by (auto simp: saleOf_def)

lemma sold_after_store:
  "saleOrder x = oid \<Longrightarrow> keeps (sold oid) m \<Longrightarrow> yields (\<lambda>_. True) (sbind (modify (u_sales_update (sale_put x))) (\<lambda>_. m)) (\<lambda>_. sold oid)"
  by (auto simp: yields_def sale_put_def dest: keepsD)

text \<open>A spend that commits has stored the sale of its order; one that does not has no transaction.\<close>

lemma maturity_rejection_out: "yields P (maturity_rejection c a need m) (\<lambda>out s. \<exists>r. out = Rejected r)"
  by (auto simp: yields_def maturity_rejection_def Let_def)

lemma spend_sold:
  assumes "payload opn = Spend oid b sku p rs age g"
  shows "yields (\<lambda>_. True) (spend c opn) (\<lambda>out s. (\<exists>r. out = Rejected r) \<or> sold oid s)"
proof -
  have tail: "yields (\<lambda>_. True) (sbind (modify (u_sales_update (sale_put x))) (\<lambda>_.
       sbind (recordAccruals c oid k parked txn) (\<lambda>_. sbind (modify (u_ents_update f)) (\<lambda>_. ret (Committed txn)))))
      (\<lambda>out s. (\<exists>r. out = Rejected r) \<or> sold oid s)" if "saleOrder x = oid" for x k parked txn f
  proof -
    have "keeps (sold oid) (sbind (recordAccruals c oid k parked txn) (\<lambda>_. sbind (modify (u_ents_update f)) (\<lambda>_. ret (Committed txn))))"
      by (rule keeps_sbind sold.keeps_recordAccruals sold.ents keeps_ret)+
    from sold_after_store [OF that this] show ?thesis by (rule yields_weaken) blast+
  qed
  have "yields (\<lambda>_. True) (ret (Rejected r)) (\<lambda>out s. (\<exists>r. out = Rejected r) \<or> sold oid s)"
    "yields (\<lambda>_. True) (maturity_rejection c a need m) (\<lambda>out s. (\<exists>r. out = Rejected r) \<or> sold oid s)" for r a need m
    by (auto intro: yields_ret yields_weaken [OF maturity_rejection_out])
  note ends = this tail [OF saleOf_order]
  show ?thesis
    unfolding spend_def assms payload.case Let_def
    by (rule ends yields_lift yields_if yields_any | assumption)+
qed

lemma in_transaction_committed:
  "in_transaction c opn cid s = (Inr (Committed t), s') \<longleftrightarrow> runClaimed c opn cid (begin_txn s) = Inr (Committed t, s')"
  by (auto simp: in_transaction_def split: sum.splits outcome.splits)

lemma submit_committed_run:
  assumes "submit c opn cid s = (Inr (Committed t), s')"
  shows "runClaimed c opn cid (begin_txn s) = Inr (Committed t, s')"
proof -
  have "screen_pause c opn = None"
    using assms by (auto simp: submit_def screen_pause_def split: sum.splits principal.splits if_splits)
  then have "in_transaction c opn cid s = (Inr (Committed t), s')"
    using assms by (auto simp: submit_def rolled_back_def split: sum.splits prod.splits outcome.splits)
  then show ?thesis by (simp add: in_transaction_committed)
qed

lemma committed_sold:
  assumes "runClaimed c opn cid s = Inr (Committed t, s')" "payload opn = Spend oid b sku p rs age g"
  shows "sold oid s'"
  using assms(1)
proof (cases rule: runClaimed_cases)
  case (handled s0 s1 s2)
  then have "spend c opn s1 = Inr (Committed t, s2)" using assms(2) by (simp add: REGISTRY_def)
  then have "sold oid s2" using yieldsD [OF spend_sold [OF assms(2)]] by blast
  then show ?thesis
    using handled(4) keepsD [OF sold.keeps_emitEvents [of oid c opn cid t]]
    by (auto simp: finish_run_def)
qed simp_all

text \<open>A spend of a sold order is decided in the claim phase.\<close>

lemma sold_run:
  assumes "sold oid s" "payload opn = Spend oid b sku p rs age g" "unrecorded (idempotencyKey opn) s"
  shows "\<exists>s1. runClaimed c opn cid s = Inr (Rejected (DUPLICATE_ORDER oid), s1) \<and> staged_in c opn s = None"
proof -
  obtain x where "map_of (u_sales s) oid = Some x" using assms(1) by blast
  then have "\<exists>s1. claim_phase c opn s = Inr (Some (Rejected (DUPLICATE_ORDER oid)), s1)"
    using assms(2,3) by (simp add: claim_phase_def PRE_CLAIMS_def spendPreClaim_def sale_get_def sbind_def idem_claim_act_def idem_claim_def)
  then show ?thesis by (auto simp: runClaimed_def staged_in_def sbind_def)
qed

section \<open>Properties\<close>

text \<open>
  (C1) The engine keeps the books. After any sequence of submits, batches and background job items from
  the empty store, whatever their operations, rows, clocks, ids and configurations: each currency sums to zero over the
  whole log, every balance is the fold of its legs and fits 64 bits, no guarded account is negative,
  and the chain prover finds every chain intact.
\<close>

theorem engine_books:
  assumes "(engine_step dig)\<^sup>*\<^sup>* empty_unit s"
  shows "cur_sum cur (all_legs (u_ledger s)) = 0 \<and>
    getz (balances (u_ledger s)) a = net a (all_legs (u_ledger s)) \<and> in_i64 (getz (balances (u_ledger s)) a) \<and>
    (isUserGuarded a \<longrightarrow> 0 \<le> getz (balances (u_ledger s)) a) \<and>
    proveChain dig (mem_reads (u_ledger s)) None =
      Inr \<lparr>intact = True, firstBreak = None, chainCount = length (heads (u_ledger s))\<rparr>"
proof -
  have "ledger_reach dig (u_ledger empty_unit)" by (simp add: empty_unit_def lr_empty)
  then have r: "ledger_reach dig (u_ledger s)" by (rule engine_reach [OF assms])
  then show ?thesis
    using books_conserved [OF ledger_reach_books [OF r], of cur] ledger_reach_books [OF r] proveChain_reach [OF r]
    unfolding books_ok_def by blast
qed

text \<open>A world for the concrete instances: its clock, ids and three operations.\<close>

definition demo_seed :: operation where
  "demo_seed = \<lparr>idempotencyKey = ''k1'', actor = OperatorActor ''op'',
     payload = Adjust (spendable ''u'') \<lparr>currency = CREDIT, minor = 500\<rparr> ''seed''\<rparr>"


theorem engine_books_witness:
  "\<exists>s. engine_step demo_digest empty_unit s \<and> s = snd (submit (demo_ctx 7) demo_seed None empty_unit) \<and>
     cur_sum CREDIT (all_legs (u_ledger s)) = 0 \<and> 0 \<le> getz (balances (u_ledger s)) (spendable ''u'')"
proof -
  obtain r s where s: "submit (demo_ctx 7) demo_seed None empty_unit = (r, s)" by fastforce
  have e: "engine_step demo_digest empty_unit s"
    by (rule es_submit [OF _ s]) (simp add: demo_ctx_def)
  have "isUserGuarded (spendable ''u'')" by code_simp
  moreover have "(engine_step demo_digest)\<^sup>*\<^sup>* empty_unit s" using e by (rule r_into_rtranclp)
  ultimately show ?thesis using engine_books [of demo_digest s CREDIT "spendable ''u''"] e s by auto
qed



end
