(* ===== verification/Affordable.thy ===== *)
theory Affordable
  imports History
begin

text \<open>
  What it takes for a spend (src/operations/spend.ts) to go all the way through the submit pipeline of
  src/economy.ts, and that its order is charged at most once.
\<close>

section \<open>The legs of a spend\<close>

text \<open>A leg that cannot overdraw: on a house account, or a credit of a seller's earnings.\<close>

definition house_leg :: "leg \<Rightarrow> bool" where
  "house_leg l \<longleftrightarrow> currency (amount l) = CREDIT \<and>
     (account l = PROMO_FLOAT \<or> account l = REVENUE \<or>
      (\<exists>s. isWalletAccount (earned s) \<and> account l = earned s \<and> minor (amount l) \<le> 0))"

definition legal_shares :: "recipient list \<Rightarrow> bool" where
  "legal_shares rs \<longleftrightarrow> rs \<noteq> [] \<and> sum_list (map shareBps rs) = 10000 \<and>
     (\<forall>r \<in> set rs. 0 < shareBps r \<and> shareBps r \<le> 10000 \<and> isWalletAccount (earned (sellerId r)))"

lemma check_recipients_legal:
  "check_recipients rs b seen bps = Inr () \<Longrightarrow>
     bps + sum_list (map shareBps rs) = 10000 \<and> (\<forall>r \<in> set rs. 0 < shareBps r \<and> shareBps r \<le> 10000)"
  by (induction rs arbitrary: seen bps) (auto simp: ensure_def algebra_simps split: if_splits, fastforce+)

lemma check_sellers_legal:
  "check_sellers rs seen = Inr () \<Longrightarrow> \<forall>r \<in> set rs. isWalletAccount (earned (sellerId r))"
  by (induction rs arbitrary: seen) (auto simp: ensure_def split: if_splits)

lemma spend_shape_legal:
  assumes "assertSpendShape oid sku rs = Inr ()" "assertRecipientShares rs b = Inr ()"
  shows "legal_shares rs"
  using assms check_recipients_legal [of rs b "[]" 0] check_sellers_legal [of rs "[]"]
  by (auto simp: legal_shares_def assertSpendShape_def assertRecipientShares_def split: if_splits)

lemma distributeEarned_shape:
  assumes "currency a = CREDIT" "0 \<le> minor a" "minor a \<le> I64_MAX div 4" "0 \<le> d" "d \<le> I64_MAX div 4"
    and "\<forall>r \<in> set rs. 0 < shareBps r \<and> shareBps r \<le> 10000 \<and> isWalletAccount (earned (sellerId r))"
    and "d + (\<Sum>r\<leftarrow>rs. minor a * shareBps r div 10000) \<le> I64_MAX div 4"
  shows "\<exists>ls. distributeEarned a rs d = Inr (ls, \<lparr>currency = CREDIT, minor = d + (\<Sum>r\<leftarrow>rs. minor a * shareBps r div 10000)\<rparr>) \<and>
    (\<forall>l \<in> set ls. house_leg l) \<and> (\<Sum>l\<leftarrow>ls. minor (amount l)) = - (\<Sum>r\<leftarrow>rs. minor a * shareBps r div 10000) \<and>
    (\<Sum>l\<leftarrow>ls. \<bar>minor (amount l)\<bar>) = (\<Sum>r\<leftarrow>rs. minor a * shareBps r div 10000)"
  using assms(4-7)
proof (induction rs arbitrary: d)
  case Nil
  then show ?case using assms(1) by (simp add: in_i64_def I64_MIN_def I64_MAX_def)
next
  case (Cons r rs)
  let ?s = "minor a * shareBps r div 10000" and ?S = "\<Sum>r\<leftarrow>rs. minor a * shareBps r div 10000"
  have s: "0 \<le> ?s" "?s \<le> minor a" using bps_le [OF assms(2), of "shareBps r"] Cons.prems(3) by auto
  have S: "0 \<le> ?S" using floors_le [OF assms(2), of rs] Cons.prems(3) by fastforce
  obtain ls where ls: "distributeEarned a rs (d + ?s) = Inr (ls, \<lparr>currency = CREDIT, minor = d + ?s + ?S\<rparr>)"
    "\<forall>l \<in> set ls. house_leg l" "(\<Sum>l\<leftarrow>ls. minor (amount l)) = - ?S" "(\<Sum>l\<leftarrow>ls. \<bar>minor (amount l)\<bar>) = ?S"
    using Cons.IH [of "d + ?s"] Cons.prems s S by auto
  have i: "in_i64 ?s" "in_i64 (- ?s)" using s assms(3) by (auto simp: in_i64_def I64_MIN_def I64_MAX_def)
  show ?case
    using ls i s assms(1) Cons.prems(3)
    by (cases "0 < ?s") (auto simp: mulDiv_Floor checkI64_def in_i64_def house_leg_def algebra_simps)
qed

text \<open>A buyer's part: a debit of a wallet, and house legs that balance it.\<close>

definition buyer_part :: "AccountRef \<Rightarrow> amount \<Rightarrow> leg list \<Rightarrow> leg list" where
  "buyer_part a m h = (if minor m = 0 then [] else debit a m # h)"

lemma promo_legs_shape:
  assumes "currency (promoPart plan) = CREDIT" "0 \<le> minor (promoPart plan)" "minor (promoPart plan) \<le> I64_MAX div 4"
    and "legal_shares rs"
  shows "\<exists>h. appendPromoLegs b plan rs = Inr (buyer_part (promo b) (promoPart plan) h) \<and>
    (\<forall>l \<in> set h. house_leg l) \<and> (\<Sum>l\<leftarrow>h. minor (amount l)) = - minor (promoPart plan) \<and>
    (\<Sum>l\<leftarrow>h. \<bar>minor (amount l)\<bar>) \<le> 3 * minor (promoPart plan)"
proof (cases "minor (promoPart plan) = 0")
  case True
  then show ?thesis by (intro exI [of _ "[]"]) (simp add: appendPromoLegs_def buyer_part_def)
next
  case False
  let ?m = "minor (promoPart plan)" and ?S = "\<Sum>r\<leftarrow>rs. minor (promoPart plan) * shareBps r div 10000"
  have sh: "\<forall>r \<in> set rs. 0 < shareBps r \<and> shareBps r \<le> 10000 \<and> isWalletAccount (earned (sellerId r))"
    "sum_list (map shareBps rs) = 10000" using assms(4) by (auto simp: legal_shares_def)
  have S: "0 \<le> ?S" "?S \<le> ?m" using floors_le [OF assms(2), of rs] sh by fastforce+
  obtain ls where ls: "distributeEarned (promoPart plan) rs 0 = Inr (ls, \<lparr>currency = CREDIT, minor = ?S\<rparr>)"
    "\<forall>l \<in> set ls. house_leg l" "(\<Sum>l\<leftarrow>ls. minor (amount l)) = - ?S" "(\<Sum>l\<leftarrow>ls. \<bar>minor (amount l)\<bar>) = ?S"
    using distributeEarned_shape [OF assms(1-3), of 0 rs] S assms(3) sh by (auto simp: I64_MAX_def)
  let ?h = "\<lparr>account = PROMO_FLOAT, amount = \<lparr>currency = CREDIT, minor = - ?m\<rparr>\<rparr> # ls @ [debit REVENUE \<lparr>currency = CREDIT, minor = ?S\<rparr>]"
  have c: "credit PROMO_FLOAT (promoPart plan) = Inr \<lparr>account = PROMO_FLOAT, amount = \<lparr>currency = CREDIT, minor = - ?m\<rparr>\<rparr>"
    using assms(1-3) by (simp add: in_i64_def I64_MIN_def I64_MAX_def)
  have "appendPromoLegs b plan rs = Inr (debit (promo b) (promoPart plan) # ?h)"
    unfolding appendPromoLegs_def c using False ls(1) by simp
  moreover have "\<forall>l \<in> set ?h. house_leg l" using ls(2) by (simp add: house_leg_def debit_def)
  moreover have "(\<Sum>l\<leftarrow>?h. minor (amount l)) = - ?m" using ls(3) by (simp add: debit_def)
  moreover have "(\<Sum>l\<leftarrow>?h. \<bar>minor (amount l)\<bar>) \<le> 3 * ?m" using ls(4) S assms(2) by (simp add: debit_def)
  ultimately show ?thesis using False by (intro exI [of _ ?h]) (simp add: buyer_part_def)
qed

lemma spendable_legs_shape:
  assumes "currency (spendablePart plan) = CREDIT" "0 \<le> minor (spendablePart plan)" "minor (spendablePart plan) \<le> I64_MAX div 4"
    and "legal_shares rs" "c_pricing c = flatFee" "0 \<le> platformFeeBps (c_config c)" "platformFeeBps (c_config c) \<le> 10000"
  shows "\<exists>h. appendSpendableLegs c b sku plan rs =
      Inr (buyer_part (spendable b) (spendablePart plan) h) \<and>
    (\<forall>l \<in> set h. house_leg l) \<and> (\<Sum>l\<leftarrow>h. minor (amount l)) = - minor (spendablePart plan) \<and>
    (\<Sum>l\<leftarrow>h. \<bar>minor (amount l)\<bar>) \<le> minor (spendablePart plan) \<and>
    (\<exists>rev. revenueForSplit (spendablePart plan) rs (platformFeeBps (c_config c)) = Inr rev \<and> in_i64 rev)"
proof -
  let ?p = "spendablePart plan" and ?bps = "platformFeeBps (c_config c)"
  have sh: "\<forall>r \<in> set rs. 0 \<le> shareBps r" "rs = [] \<or> sum_list (map shareBps rs) = 10000"
    "\<forall>r \<in> set rs. isWalletAccount (earned (sellerId r))" using assms(4) by (auto simp: legal_shares_def)
  have m: "minor ?p \<le> I64_MAX" using assms(3) by (simp add: I64_MAX_def)
  obtain ls where ls: "splitLegs ?p rs ?bps = Inr ls" using split_total [OF assms(2) m assms(6,7) sh(1,2)] by blast
  obtain fee where fee: "feeForPrice (minor ?p) ?bps = Inr fee"
    and rev: "revenueForSplit ?p rs ?bps = Inr (kept (minor ?p) fee rs)"
    and eq: "ls = map (\<lambda>r. \<lparr>account = earned (sellerId r), amount =
        \<lparr>currency = currency ?p, minor = - ((minor ?p - fee) * shareBps r div 10000)\<rparr>\<rparr>) rs @
      [\<lparr>account = REVENUE, amount = \<lparr>currency = currency ?p, minor = - kept (minor ?p) fee rs\<rparr>\<rparr>]"
    using splitLegs_Inr [OF ls] by blast
  note fb = fee_bounds [OF fee assms(2,6)] and kb = kept_bounds [OF fee_bounds(1,2) [OF fee assms(2,6)] sh(1,2)]
  have nn: "0 \<le> (minor ?p - fee) * shareBps r div 10000" if "r \<in> set rs" for r
    using that sh(1) fb(2) by (simp add: pos_imp_zdiv_nonneg_iff)
  have h: "\<forall>l \<in> set ls. house_leg l" using nn sh(3) assms(1) by (auto simp: eq house_leg_def)
  have s: "(\<Sum>l\<leftarrow>ls. minor (amount l)) = - minor ?p" by (simp add: eq o_def kept_def sum_negated)
  have "\<forall>l \<in> set ls. minor (amount l) \<le> 0" using nn kb(1) fb(1) by (auto simp: eq)
  then have "(\<Sum>l\<leftarrow>ls. \<bar>minor (amount l)\<bar>) = - (\<Sum>l\<leftarrow>ls. minor (amount l))" by (induction ls) auto
  then have a: "(\<Sum>l\<leftarrow>ls. \<bar>minor (amount l)\<bar>) \<le> minor ?p" using s by simp
  have k: "in_i64 (kept (minor ?p) fee rs)" using kb(1,2) fb(1) m by (simp add: in_i64_def I64_MIN_def)
  show ?thesis
    using ls h s a rev k
    by (intro exI [of _ ls]) (simp add: appendSpendableLegs_def assms(5) flatFee_def buyer_part_def)
qed

section \<open>The posting of a spend\<close>

lemma wallet_traits:
  assumes "isWalletAccount a"
  shows "baseOf a = a" "isDebitNormal a = False" "currencyOf a = CREDIT" "platformShard a k n = a" "a \<noteq> PROMO_FLOAT" "a \<noteq> REVENUE"
proof -
  show b: "baseOf a = a" using assms by (simp add: baseOf_def isWalletAccount_def)
  have n: "a \<notin> set SYSTEM" using assms system_ids_wallet by blast
  have "fst ` set SYSTEM_TRAITS \<subseteq> set SYSTEM" by code_simp
  then have "map_of SYSTEM_TRAITS a = None" using n by (auto simp: map_of_eq_None_iff)
  then show "isDebitNormal a = False" "currencyOf a = CREDIT" by (simp_all add: isDebitNormal_def currencyOf_def b)
  have "set SHARDED \<subseteq> set SYSTEM" by code_simp
  then show "platformShard a k n = a" using n by (auto simp: platformShard_def)
  show "a \<noteq> PROMO_FLOAT" "a \<noteq> REVENUE" using n by (auto simp: SYSTEM_def)
qed

abbreviation route :: "string \<Rightarrow> nat \<Rightarrow> leg \<Rightarrow> leg" where
  "route k n l \<equiv> l\<lparr>account := platformShard (account l) k n\<rparr>"

lemma house_leg_route:
  assumes "house_leg l"
  shows "currency (amount l) = currencyOf (platformShard (account l) k n)" "isKnownAccount (platformShard (account l) k n) SYSTEM"
    "isUserGuarded a \<Longrightarrow> platformShard (account l) k n = a \<Longrightarrow> 0 \<le> moved (route k n l)"
proof -
  have h: "currencyOf PROMO_FLOAT = CREDIT" "currencyOf REVENUE = CREDIT" "baseOf PROMO_FLOAT \<in> set SYSTEM" "baseOf REVENUE \<in> set SYSTEM"
    "classify PROMO_FLOAT = HouseLiability" "classify REVENUE = HouseLiability" by code_simp+
  show "currency (amount l) = currencyOf (platformShard (account l) k n)"
    using assms h wallet_traits(3) by (auto simp: house_leg_def)
  show "isKnownAccount (platformShard (account l) k n) SYSTEM"
    using assms h wallet_traits(4) by (auto simp: house_leg_def isKnownAccount_def)
  assume g: "isUserGuarded a" "platformShard (account l) k n = a"
  then have "account l \<noteq> PROMO_FLOAT" "account l \<noteq> REVENUE" using h by (auto simp: isUserGuarded_def)
  then obtain e where "isWalletAccount (earned e)" "account l = earned e" "minor (amount l) \<le> 0"
    using assms by (auto simp: house_leg_def)
  then show "0 \<le> moved (route k n l)" using wallet_traits(2) by (simp add: moved_def)
qed

lemma house_legs_net: "\<forall>l \<in> set h. house_leg l \<Longrightarrow> isUserGuarded a \<Longrightarrow> 0 \<le> net a (map (route k n) h)"
proof (induction h)
  case (Cons l h)
  then show ?case using house_leg_route(3) [of l a k n] by (simp add: moved_def)
qed (simp add: net_def)

lemma sum_moved: "(\<Sum>l\<leftarrow>map (route k n) ls. \<bar>moved l\<bar>) = (\<Sum>l\<leftarrow>ls. \<bar>minor (amount l)\<bar>)"
  by (induction ls) (auto simp: moved_def)

lemma cur_sum_credit:
  "\<forall>l \<in> set ls. currency (amount l) = CREDIT \<Longrightarrow> cur_sum c (map (route k n) ls) = (if c = CREDIT then (\<Sum>l\<leftarrow>ls. minor (amount l)) else 0)"
  by (induction ls) (auto simp: cur_sum_def)

lemma buyer_part_facts:
  assumes "isWalletAccount a" "walletKindOf a \<noteq> None" "currency m = CREDIT" "0 \<le> minor m" "\<forall>l \<in> set h. house_leg l"
    and "(\<Sum>l\<leftarrow>h. minor (amount l)) = - minor m" "(\<Sum>l\<leftarrow>h. \<bar>minor (amount l)\<bar>) \<le> 3 * minor m"
  shows "\<forall>l \<in> set (map (route k n) (buyer_part a m h)). currency (amount l) = currencyOf (account l) \<and> isKnownAccount (account l) SYSTEM"
    "cur_sum c (map (route k n) (buyer_part a m h)) = 0"
    "(\<Sum>l\<leftarrow>map (route k n) (buyer_part a m h). \<bar>moved l\<bar>) \<le> 4 * minor m"
    "isUserGuarded x \<Longrightarrow> (if x = a then - minor m else 0) \<le> net x (map (route k n) (buyer_part a m h))"
proof -
  note w = wallet_traits [OF assms(1)]
  show "\<forall>l \<in> set (map (route k n) (buyer_part a m h)). currency (amount l) = currencyOf (account l) \<and> isKnownAccount (account l) SYSTEM"
    using assms(2,3,5) w house_leg_route(1,2) by (auto simp: buyer_part_def debit_def isKnownAccount_def)
  have "\<forall>l \<in> set (buyer_part a m h). currency (amount l) = CREDIT"
    using assms(3,5) by (auto simp: buyer_part_def debit_def house_leg_def)
  from cur_sum_credit [OF this] show "cur_sum c (map (route k n) (buyer_part a m h)) = 0"
    using assms(6) by (simp add: buyer_part_def debit_def)
  show "(\<Sum>l\<leftarrow>map (route k n) (buyer_part a m h). \<bar>moved l\<bar>) \<le> 4 * minor m"
    unfolding sum_moved using assms(4,7) by (simp add: buyer_part_def debit_def)
  assume "isUserGuarded x"
  then show "(if x = a then - minor m else 0) \<le> net x (map (route k n) (buyer_part a m h))"
    using house_legs_net [OF assms(5), of x k n] w assms(4) by (auto simp: buyer_part_def debit_def moved_def)
qed

lemma house_legs_apart:
  assumes "\<forall>l \<in> set h. house_leg l" "isWalletAccount a" "\<forall>e. a \<noteq> earned e"
  shows "net a (map (route k n) h) = 0"
proof -
  have b: "baseOf PROMO_FLOAT = PROMO_FLOAT" "baseOf REVENUE = REVENUE" by code_simp+
  have "platformShard (account l) k n \<noteq> a" if "house_leg l" for l
  proof
    assume e: "platformShard (account l) k n = a"
    then have "baseOf (account l) = a" using wallet_traits(1) [OF assms(2)] baseOf_platformShard [of "account l" k n] by simp
    then show False using that assms(3) wallet_traits(1,5,6) [OF assms(2)] wallet_traits(1) b by (auto simp: house_leg_def)
  qed
  then show ?thesis using assms(1) by (induction h) (auto simp: net_def)
qed

lemma buyer_net:
  assumes w: "isWalletAccount (promo b)" "isWalletAccount (spendable b)" and h: "\<forall>l \<in> set h1. house_leg l" "\<forall>l \<in> set h2. house_leg l"
  shows "net (promo b) (map (route k n) (buyer_part (promo b) P h1 @ buyer_part (spendable b) S h2)) = - minor P"
    "net (spendable b) (map (route k n) (buyer_part (promo b) P h1 @ buyer_part (spendable b) S h2)) = - minor S"
  using house_legs_apart [OF h(1) w(1), of k n] house_legs_apart [OF h(2) w(1), of k n]
    house_legs_apart [OF h(1) w(2), of k n] house_legs_apart [OF h(2) w(2), of k n]
    wallet_traits(2,4) [OF w(1)] wallet_traits(2,4) [OF w(2)]
  by (auto simp: buyer_part_def debit_def moved_def)

lemma spend_posts:
  assumes "legs p = map (route k n) (buyer_part (promo b) P h1 @ buyer_part (spendable b) S h2)"
    and w: "isWalletAccount (promo b)" "isWalletAccount (spendable b)"
    and P: "currency P = CREDIT" "0 \<le> minor P" "\<forall>l \<in> set h1. house_leg l" "(\<Sum>l\<leftarrow>h1. minor (amount l)) = - minor P"
      "(\<Sum>l\<leftarrow>h1. \<bar>minor (amount l)\<bar>) \<le> 3 * minor P"
    and S: "currency S = CREDIT" "0 \<le> minor S" "\<forall>l \<in> set h2. house_leg l" "(\<Sum>l\<leftarrow>h2. minor (amount l)) = - minor S"
      "(\<Sum>l\<leftarrow>h2. \<bar>minor (amount l)\<bar>) \<le> 3 * minor S"
    and "registered s = SYSTEM" "heads_ok s" "canonicalMeta (JObj (meta p)) = Inr cm"
    and "\<forall>a. \<bar>getz (balances s) a\<bar> + 4 * (minor P + minor S) \<le> I64_MAX"
    and "\<forall>a. isUserGuarded a \<longrightarrow> 0 \<le> getz (balances s) a"
    and "minor P \<le> getz (balances s) (promo b) \<or> minor P = 0" "minor S \<le> getz (balances s) (spendable b) \<or> minor S = 0"
  shows "\<exists>t s'. postEntry (memory_ledger dig now) p s = Inr (t, s')"
proof -
  note f1 = buyer_part_facts [OF w(1) _ P] and f2 = buyer_part_facts [OF w(2) _ S]
  have q: "set (legs (dropZeroLegs p)) \<subseteq> set (legs p)" by (auto simp: dropZeroLegs_sel)
  have m: "(\<Sum>l\<leftarrow>legs p. \<bar>moved l\<bar>) \<le> 4 * (minor P + minor S)"
    using f1(3) [of k n] f2(3) [of k n] by (simp add: assms(1))
  have c: "cur_sum c (legs p) = 0" for c using f1(2) [of c k n] f2(2) [of c k n] by (simp add: assms(1))
  have l: "currency (amount l) = currencyOf (account l) \<and> isKnownAccount (account l) SYSTEM" if "l \<in> set (legs p)" for l
    using f1(1) [of k n] f2(1) [of k n] that by (auto simp: assms(1))
  have n: "0 \<le> getz (balances s) a + net a (legs p)" if "isUserGuarded a" for a
    using f1(4) [of a k n] f2(4) [of a k n] that assms(18-20) by (auto simp: assms(1) split: if_splits)
  have "bounded_move (getz (balances s)) (legs (dropZeroLegs p))"
    using assms(17) m by (auto simp: bounded_move_def intro: order_trans [OF add_left_mono])
  moreover have "refusal s (legs (dropZeroLegs p)) = None"
    using l q c n assms(14) by (auto simp: refusal_def list_all_iff affordable_def)
  ultimately show ?thesis using postEntry_outcome [OF assms(15,16)] by fastforce
qed

section \<open>The run of a spend\<close>

definition cache_ok :: "unit_state \<Rightarrow> bool" where
  "cache_ok s \<longleftrightarrow> (\<forall>m a v. u_balances s = Some m \<longrightarrow> map_of m a = Some v \<longrightarrow>
     v = \<lparr>currency = currencyOf a, minor = getz (balances (u_ledger s)) a\<rparr>)"

lemma cached_balance_value:
  "cache_ok s \<Longrightarrow> in_i64 (getz (balances (u_ledger s)) a) \<Longrightarrow>
     cached_balance c a s = Inr (\<lparr>currency = currencyOf a, minor = getz (balances (u_ledger s)) a\<rparr>, s)"
  by (auto simp: cached_balance_def cache_ok_def sbind_def gets_def ret_def on_ledger_Inr split: option.splits)

lemma readCachedBalance_value:
  assumes "cache_ok s" "in_i64 (getz (balances (u_ledger s)) a)"
  shows "\<exists>m. readCachedBalance c a s = Inr (\<lparr>currency = currencyOf a, minor = getz (balances (u_ledger s)) a\<rparr>, s\<lparr>u_balances := m\<rparr>) \<and>
    cache_ok (s\<lparr>u_balances := m\<rparr>)"
proof (cases "u_balances s")
  case None
  have "l_balance (unit_ledger c) a s = Inr (\<lparr>currency = currencyOf a, minor = getz (balances (u_ledger s)) a\<rparr>, s)"
    using assms(2) by (simp add: on_ledger_Inr)
  then show ?thesis using None
    by (intro exI [of _ None]) (simp add: readCachedBalance_def sbind_def gets_def ret_def modify_def cache_ok_def)
next
  case (Some m)
  have r: "l_balance (unit_ledger c) a s = Inr (\<lparr>currency = currencyOf a, minor = getz (balances (u_ledger s)) a\<rparr>, s)"
    using assms(2) by (simp add: on_ledger_Inr)
  show ?thesis
  proof (cases "map_of m a")
    case None
    then show ?thesis using Some r assms(1)
      by (intro exI [of _ "Some (AList.update a \<lparr>currency = currencyOf a, minor = getz (balances (u_ledger s)) a\<rparr> m)"])
        (auto simp: readCachedBalance_def sbind_def gets_def ret_def modify_def cache_ok_def)
  next
    case s': (Some v)
    then have "v = \<lparr>currency = currencyOf a, minor = getz (balances (u_ledger s)) a\<rparr>"
      using assms(1) Some by (simp add: cache_ok_def)
    moreover have "cache_ok (s\<lparr>u_balances := Some m\<rparr>)" using assms(1) Some by (simp add: cache_ok_def)
    ultimately show ?thesis using Some s'
      by (intro exI [of _ "Some m"]) (simp add: readCachedBalance_def sbind_def gets_def ret_def)
  qed
qed

text \<open>What of the price promo credits cover, and what is left.\<close>

definition promo_cover :: "unit_state \<Rightarrow> string \<Rightarrow> int \<Rightarrow> int" where
  "promo_cover s b price = min (max 0 (getz (balances (u_ledger s)) (promo b))) price"

lemma planSpend_value:
  assumes "minor price \<le> I64_MAX" "0 \<le> minor price"
  shows "planSpend price \<lparr>currency = cur, minor = getz (balances (u_ledger s)) (promo b)\<rparr> =
    Inr \<lparr>promoPart = \<lparr>currency = currency price, minor = promo_cover s b (minor price)\<rparr>,
      spendablePart = \<lparr>currency = currency price, minor = minor price - promo_cover s b (minor price)\<rparr>\<rparr>"
proof -
  have "(if (if 0 < x then x else 0) < m then (if 0 < x then x else 0) else m) = min (max 0 x) m" for x m :: int by auto
  moreover have "in_i64 (promo_cover s b (minor price))" "in_i64 (minor price - promo_cover s b (minor price))"
    using assms by (auto simp: promo_cover_def in_i64_def I64_MIN_def I64_MAX_def)
  ultimately show ?thesis by (auto simp: planSpend_def Let_def promo_cover_def toAmount_ok min_def max_def split: if_splits)
qed

definition can_pay :: "ctx \<Rightarrow> unit_state \<Rightarrow> string \<Rightarrow> int \<Rightarrow> bool" where
  "can_pay c s b price \<longleftrightarrow>
     (let need = price - promo_cover s b price; own = getz (balances (u_ledger s)) (spendable b)
      in need \<le> own \<and> (need \<le> 0 \<or>
         maturedAtLeast (timelineOf (u_ledger s)) own (spendable b) (c_now c) (c_config c) \<lparr>currency = CREDIT, minor = need\<rparr> = Some True))"

lemma spend_meta_hashable: "\<exists>cm. canonicalMeta (JObj (spendMeta oid age b r None)) = Inr cm"
  by (rule hashable_flat) (auto simp: spendMeta_def split: if_splits)

lemma spend_commits:
  assumes pl: "payload opn = Spend oid b sku price rs age g"
    and sh: "assertSpendShape oid sku rs = Inr ()" "requirePositiveCredit price = Inr price"
      "assertRecipientShares rs b = Inr ()" "entitlementRecipient b g = Inr rcpt" "minor price \<le> MAX_OP_AMOUNT_MINOR"
    and w: "isWalletAccount (promo b)" "isWalletAccount (spendable b)"
    and cf: "c_pricing c = flatFee" "0 \<le> platformFeeBps (c_config c)" "platformFeeBps (c_config c) \<le> 10000"
      "\<not> accrualDrain (c_config c)"
    and l: "registered (u_ledger s) = SYSTEM" "heads_ok (u_ledger s)"
      "\<forall>a. \<bar>getz (balances (u_ledger s)) a\<bar> + 4 * minor price \<le> I64_MAX"
      "\<forall>a. isUserGuarded a \<longrightarrow> 0 \<le> getz (balances (u_ledger s)) a"
    and u: "cache_ok s" "sale_get oid (u_sales s) = None" "can_pay c s b (minor price)"
  shows "\<exists>t s'. spend c opn s = Inr (Committed t, s') \<and>
    getz (balances (u_ledger s')) (promo b) = getz (balances (u_ledger s)) (promo b) - promo_cover s b (minor price) \<and>
    getz (balances (u_ledger s')) (spendable b) =
      getz (balances (u_ledger s)) (spendable b) - (minor price - promo_cover s b (minor price))"
proof -
  let ?bal = "getz (balances (u_ledger s))"
  let ?P = "\<lparr>currency = currency price, minor = promo_cover s b (minor price)\<rparr>"
    and ?S = "\<lparr>currency = currency price, minor = minor price - promo_cover s b (minor price)\<rparr>"
  let ?plan = "\<lparr>promoPart = ?P, spendablePart = ?S\<rparr>"
  have pr: "currency price = CREDIT" "0 < minor price" using sh(2) by (auto simp: requirePositiveCredit_def split: if_splits)
  have pm: "0 \<le> minor ?P" "0 \<le> minor ?S" "minor ?P \<le> I64_MAX div 4" "minor ?S \<le> I64_MAX div 4" "minor price \<le> I64_MAX"
    using pr sh(5) by (auto simp: promo_cover_def MAX_OP_AMOUNT_MINOR_def I64_MAX_def)
  have i: "in_i64 (?bal a)" for a using spec [OF l(3), of a] pr by (intro bounded_in_i64) linarith
  note cb = cached_balance_value [OF u(1) i]
  have plan: "planSpend price \<lparr>currency = currencyOf (promo b), minor = ?bal (promo b)\<rparr> = Inr ?plan"
    using planSpend_value pm(5) pr by simp
  have legal: "legal_shares rs" using spend_shape_legal sh(1,3) by blast
  obtain h1 where h1: "appendPromoLegs b ?plan rs = Inr (buyer_part (promo b) ?P h1)" "\<forall>l \<in> set h1. house_leg l"
    "(\<Sum>l\<leftarrow>h1. minor (amount l)) = - minor ?P" "(\<Sum>l\<leftarrow>h1. \<bar>minor (amount l)\<bar>) \<le> 3 * minor ?P"
    using promo_legs_shape [of ?plan rs b] pr pm legal by auto
  obtain h2 rev where h2: "appendSpendableLegs c b sku ?plan rs = Inr (buyer_part (spendable b) ?S h2)" "\<forall>l \<in> set h2. house_leg l"
    "(\<Sum>l\<leftarrow>h2. minor (amount l)) = - minor ?S" "(\<Sum>l\<leftarrow>h2. \<bar>minor (amount l)\<bar>) \<le> minor ?S"
    and rev: "revenueForSplit ?S rs (platformFeeBps (c_config c)) = Inr rev" "in_i64 rev"
    using spendable_legs_shape [of ?plan rs c b sku] pr pm legal cf(1-3) by auto
  have mat: "matured_at_least c (spendable b) ?S (cached_balance c (spendable b)) s = Inr (True, s)"
    using u(3) pr cb [of c "spendable b"] by (auto simp: matured_at_least_def can_pay_def Let_def sbind_def gets_def ret_def)
  let ?p = "\<lparr>txnId = c_ids c ''txn'' (u_drawn s),
      legs = routePlatformLegs (buyer_part (promo b) ?P h1 @ buyer_part (spendable b) ?S h2) (idempotencyKey opn) (shards c),
      meta = spendMeta oid age b rcpt None\<rparr>"
  obtain cm where cm: "canonicalMeta (JObj (spendMeta oid age b rcpt None)) = Inr cm" using spend_meta_hashable by blast
  have "minor ?P \<le> ?bal (promo b) \<or> minor ?P = 0" "minor ?S \<le> ?bal (spendable b)"
    using u(3) pr by (auto simp: promo_cover_def can_pay_def Let_def)
  then have "\<exists>t l'. postEntry (memory_ledger (c_digest c) (c_now c)) ?p (u_ledger s) = Inr (t, l')"
    using pr pm h1(2-4) h2(2-4) l cm w
    by (intro spend_posts [of ?p "idempotencyKey opn" "shards c" b ?P h1 ?S h2 "u_ledger s" cm]) (auto simp: routePlatformLegs_map simp del: canonicalMeta.simps)
  then obtain t l' where post: "postEntry (memory_ledger (c_digest c) (c_now c)) ?p (u_ledger s) = Inr (t, l')" by blast
  have moved: "getz (balances l') (promo b) = ?bal (promo b) - minor ?P" "getz (balances l') (spendable b) = ?bal (spendable b) - minor ?S"
    using mem.postEntry_spec(1) [OF post] buyer_net [OF w h1(2) h2(2), of "idempotencyKey opn" "shards c" ?P ?S]
    by (simp_all add: routePlatformLegs_map)
  have sale: "\<exists>x. saleOf oid b sku g price rs ?plan t' (platformFeeBps (c_config c)) = Inr x" for t'
    using rev by (simp add: saleOf_def toAmount_ok)
  then obtain x where x: "saleOf oid b sku g price rs ?plan t (platformFeeBps (c_config c)) = Inr x" by blast
  have p: "postEntry (unit_ledger c) ?p (s\<lparr>u_drawn := u_drawn s + 1\<rparr>) = Inr (t, s\<lparr>u_drawn := u_drawn s + 1, u_ledger := l'\<rparr>)"
    using post by (simp add: on_ledger_Inr)
  have cb1: "sbind (cached_balance c (promo b)) f s = f \<lparr>currency = currencyOf (promo b), minor = ?bal (promo b)\<rparr> s" for f
    using cb [of c "promo b"] by (rule act_bind)
  have mat1: "sbind (matured_at_least c (spendable b) ?S (cached_balance c (spendable b))) f s = f True s" for f
    using mat by (rule act_bind)
  have p1: "sbind (postEntry (unit_ledger c) ?p) f (s\<lparr>u_drawn := u_drawn s + 1\<rparr>) =
      f t (s\<lparr>u_drawn := u_drawn s + 1, u_ledger := l'\<rparr>)" for f
    using p by (rule act_bind)
  have bl: "buildSpendLegs c b sku ?plan rs = Inr (buyer_part (promo b) ?P h1 @ buyer_part (spendable b) ?S h2)"
    using h1(1) h2(1) by (simp add: buildSpendLegs_def)
  have pk: "park c ls = (ls, None)" for ls using cf(4) by (simp add: park_def)
  show ?thesis
    unfolding spend_def pl payload.case pk Let_def
    by (simp only: lift_bind [OF sh(1)] lift_bind [OF sh(2)] lift_bind [OF sh(3)] lift_bind [OF sh(4)] gets_bind u(2)
        cb1 lift_bind [OF plan] spend_plan.select_convs mat1 lift_bind [OF bl] fresh_bind
        pk fst_conv snd_conv p1 lift_bind [OF x] modify_bind recordAccruals_def option.case ret_bind
        not_True_eq_False if_False not_False_eq_True simp_thms Let_def) (simp add: ret_def moved)
qed

section \<open>From the handler to submit\<close>

definition within_limit :: "ctx \<Rightarrow> operation \<Rightarrow> unit_state \<Rightarrow> bool" where
  "within_limit c opn s = (case staged_attempt c opn of
     Inr (Some (subject, a)) \<Rightarrow> (case trust_record subject a (c_now c) (velocityWindowMs (c_config c)) (u_trust s) of
       Inr (v, _) \<Rightarrow> minor (spent v) \<le> classLimitMinor (c_config c) RiskOut | Inl _ \<Rightarrow> False)
   | _ \<Rightarrow> False)"

lemma emitEvents_total: "\<exists>s'. emitEvents c opn cid t s = Inr ((), s') \<and> u_ledger s' = u_ledger s"
  by (cases "EVENTS opn t") (simp_all add: emitEvents_def enqueue_event_def pendingOutbox_def sbind_def fresh_def modify_def ret_def)

lemma finish_run_committed:
  "\<exists>s'. finish_run c opn cid (Committed t) s = Inr (Committed t, s') \<and> u_ledger s' = u_ledger s"
proof -
  let ?s = "u_idem_update (idem_record (c_now c) (idempotencyKey opn) t) s"
  obtain s' where "emitEvents c opn cid t ?s = Inr ((), s')" "u_ledger s' = u_ledger s" using emitEvents_total [of c opn cid t ?s] by auto
  then show ?thesis by (simp add: finish_run_def idem_record_act_def sbind_def modify_def ret_def)
qed

lemma screens_pass:
  assumes "payload opn = Spend oid b sku price rs age g" "within_limit c opn s"
  shows "\<exists>tr. screenRisk c opn s = Inr (None, s\<lparr>u_trust := tr\<rparr>)"
  using assms
  by (auto simp: within_limit_def screenRisk_def staged_attempt_def riskSubject_def sbind_def lift_def ret_def
      trust_record_act_def zoom_def toAmount_ok split: sum.splits option.splits prod.splits)

lemma funds_pass:
  assumes "payload opn = Spend oid b sku price rs age g" "cache_ok s" "\<forall>a. in_i64 (getz (balances (u_ledger s)) a)"
    and "minor price \<le> I64_MAX" "0 \<le> minor price" "currency price = CREDIT" "isWalletAccount (spendable b)"
    and "price_need = minor price - promo_cover s b (minor price)" "price_need \<le> getz (balances (u_ledger s)) (spendable b)"
  shows "\<exists>m. screenFunds c opn s = Inr (None, s\<lparr>u_balances := m\<rparr>) \<and> cache_ok (s\<lparr>u_balances := m\<rparr>)"
proof -
  obtain m where m: "readCachedBalance c (promo b) s =
      Inr (\<lparr>currency = currencyOf (promo b), minor = getz (balances (u_ledger s)) (promo b)\<rparr>, s\<lparr>u_balances := m\<rparr>)"
    "cache_ok (s\<lparr>u_balances := m\<rparr>)" using readCachedBalance_value [OF assms(2)] assms(3) by blast
  obtain n where n: "readCachedBalance c (spendable b) (s\<lparr>u_balances := m\<rparr>) =
      Inr (\<lparr>currency = currencyOf (spendable b), minor = getz (balances (u_ledger s)) (spendable b)\<rparr>, s\<lparr>u_balances := n\<rparr>)"
    "cache_ok (s\<lparr>u_balances := n\<rparr>)" using readCachedBalance_value [OF m(2), of "spendable b" c] assms(3) by auto
  note p = planSpend_value [OF assms(4,5), of "currencyOf (promo b)" s b]
  have "compare \<lparr>currency = CREDIT, minor = getz (balances (u_ledger s)) (spendable b)\<rparr> \<lparr>currency = CREDIT, minor = price_need\<rparr> = Inr r \<Longrightarrow> 0 \<le> r"
    "\<exists>r. compare \<lparr>currency = CREDIT, minor = getz (balances (u_ledger s)) (spendable b)\<rparr> \<lparr>currency = CREDIT, minor = price_need\<rparr> = Inr r" for r
    using assms(9) by (auto simp: compare_def assertSameCurrency_def)
  then obtain r where r: "compare \<lparr>currency = CREDIT, minor = getz (balances (u_ledger s)) (spendable b)\<rparr> \<lparr>currency = CREDIT, minor = price_need\<rparr> = Inr r"
    "\<not> r < 0" by force
  show ?thesis
    using m(1) n p r assms(1,6,8) wallet_traits(3) [OF assms(7)]
    by (intro exI [of _ n]) (simp add: screenFunds_def fundsNeeded_def sbind_def lift_def ret_def)
qed

section \<open>An affordable spend commits\<close>

lemma affordable_spend:
  assumes "payload opn = Spend oid b sku price rs age g"
    and "validateOperation opn (c_config c) = Inr ()" "authorize opn = Inr ()" "screen_pause c opn = None"
    and "assertSpendShape oid sku rs = Inr ()" "assertRecipientShares rs b = Inr ()"
      "entitlementRecipient b g = Inr rcpt" "currency price = CREDIT"
    and "isWalletAccount (promo b)" "isWalletAccount (spendable b)"
    and "c_pricing c = flatFee" "0 \<le> platformFeeBps (c_config c)" "platformFeeBps (c_config c) \<le> 10000"
      "\<not> accrualDrain (c_config c)"
    and "ledger_reach dig (u_ledger s)" "\<forall>a. \<bar>getz (balances (u_ledger s)) a\<bar> + 4 * minor price \<le> I64_MAX"
    and "map_of (idemCommitted (u_idem s)) (idempotencyKey opn) = None" "sale_get oid (u_sales s) = None"
    and "within_limit c opn s" "can_pay c s b (minor price)"
  shows "\<exists>t s'. submit c opn cid s = (Inr (Committed t), s') \<and> sale_get oid (u_sales s') \<noteq> None \<and>
    getz (balances (u_ledger s')) (promo b) = getz (balances (u_ledger s)) (promo b) - promo_cover s b (minor price) \<and>
    getz (balances (u_ledger s')) (spendable b) =
      getz (balances (u_ledger s)) (spendable b) - (minor price - promo_cover s b (minor price))"
proof -
  note pl = assms(1)
  have rng: "0 < minor price" "minor price \<le> MAX_OP_AMOUNT_MINOR"
    using assms(2) pl by (auto simp: validateOperation_def assertAmountInRange_def operationAmount_def is_adjust_def ensure_def split: if_splits)
  then have pm: "minor price \<le> I64_MAX" "0 \<le> minor price" by (simp_all add: MAX_OP_AMOUNT_MINOR_def I64_MAX_def)
  have req: "requirePositiveCredit price = Inr price" using rng assms(8) by (simp add: requirePositiveCredit_def ensure_def)
  define s0 where "s0 = begin_txn s"
  obtain st where cl: "claim_phase c opn s0 = Inr (None, s0\<lparr>u_idem := st\<rparr>)"
    using assms(17,18) pl
    by (auto simp: claim_phase_def idem_claim_act_def idem_claim_def PRE_CLAIMS_def spendPreClaim_def sbind_def gets_def s0_def begin_txn_def)
  have tu: "u_trust (s0\<lparr>u_idem := st\<rparr>) = u_trust s" by (simp add: s0_def begin_txn_def)
  have "within_limit c opn (s0\<lparr>u_idem := st\<rparr>)" using assms(19) unfolding within_limit_def tu .
  from screens_pass [OF pl this] obtain tr where ri: "screenRisk c opn (s0\<lparr>u_idem := st\<rparr>) = Inr (None, s0\<lparr>u_idem := st, u_trust := tr\<rparr>)"
    by auto
  let ?s1 = "s0\<lparr>u_idem := st, u_trust := tr, u_balances := Some []\<rparr>"
  have lg: "u_ledger ?s1 = u_ledger s" by (simp add: s0_def begin_txn_def)
  have pc: "promo_cover t b x = promo_cover s b x" "can_pay c t b x = can_pay c s b x" if "u_ledger t = u_ledger s" for t x
    using that by (simp_all add: promo_cover_def can_pay_def)
  have i: "\<forall>a. in_i64 (getz (balances (u_ledger ?s1)) a)"
  proof
    fix a show "in_i64 (getz (balances (u_ledger ?s1)) a)"
      using spec [OF assms(16), of a] rng(1) unfolding lg by (intro bounded_in_i64) linarith
  qed
  have ok1: "cache_ok ?s1" by (simp add: cache_ok_def)
  have need: "minor price - promo_cover ?s1 b (minor price) \<le> getz (balances (u_ledger ?s1)) (spendable b)"
    using assms(20) lg pc(1) [OF lg] by (simp add: can_pay_def Let_def)
  obtain m where fu: "screenFunds c opn ?s1 = Inr (None, ?s1\<lparr>u_balances := m\<rparr>)" "cache_ok (?s1\<lparr>u_balances := m\<rparr>)"
    using funds_pass [OF pl ok1 i pm assms(8,10) refl need] by blast
  let ?s2 = "?s1\<lparr>u_balances := m\<rparr>"
  have lg2: "u_ledger ?s2 = u_ledger s" "u_sales ?s2 = u_sales s" by (simp_all add: s0_def begin_txn_def)
  note fr = ledger_reach_frame [OF assms(15)] and bk = ledger_reach_books [OF assms(15)]
  obtain t s3 where sp: "spend c opn ?s2 = Inr (Committed t, s3)"
    "getz (balances (u_ledger s3)) (promo b) = getz (balances (u_ledger s)) (promo b) - promo_cover s b (minor price)"
    "getz (balances (u_ledger s3)) (spendable b) =
      getz (balances (u_ledger s)) (spendable b) - (minor price - promo_cover s b (minor price))"
    using spend_commits [OF pl assms(5) req assms(6,7) rng(2) assms(9-14), of ?s2] fr bk assms(16,18,20) fu(2)
    unfolding lg2 pc [OF lg2(1)] books_ok_def by blast
  obtain s4 where fin: "finish_run c opn cid (Committed t) s3 = Inr (Committed t, s4)" "u_ledger s4 = u_ledger s3"
    using finish_run_committed by blast
  have run: "runClaimed c opn cid (begin_txn s) = Inr (Committed t, s4)"
    using cl ri fu(1) sp(1) fin(1) pl
    by (simp add: runClaimed_def s0_def sbind_def lockAccounts_def ret_def modify_def REGISTRY_def)
  then have sub: "submit c opn cid s = (Inr (Committed t), s4)"
    using assms(2-4) by (simp add: submit_def in_transaction_def rolled_back_def)
  moreover have "sold oid s4" using committed_sold [OF run pl] .
  ultimately show ?thesis using sp(2,3) fin(2) by (auto simp: sale_get_def)
qed

section \<open>A concrete purchase\<close>

text \<open>A ledger with five promo credits, and a purchase of that price.\<close>

definition demo_promo :: posting where
  "demo_promo = \<lparr>txnId = ''t1'', legs =
     [debit PROMO_FLOAT \<lparr>currency = CREDIT, minor = 500\<rparr>,
      \<lparr>account = promo ''u'', amount = \<lparr>currency = CREDIT, minor = - 500\<rparr>\<rparr>],
     meta = [(''kind'', JStr ''grantPromo'')]\<rparr>"

definition demo_price :: amount where
  "demo_price = \<lparr>currency = CREDIT, minor = 500\<rparr>"

definition demo_shares :: "recipient list" where
  "demo_shares = [\<lparr>sellerId = ''v'', shareBps = 10000\<rparr>]"

definition demo_spend :: "string \<Rightarrow> operation" where
  "demo_spend k = \<lparr>idempotencyKey = k, actor = UserActor ''u'',
     payload = Spend ''o'' ''u'' ''hat'' demo_price demo_shares False None\<rparr>"

lemma demo_promo_ledger:
  obtains l where "ledger_reach demo_digest l" "getz (balances l) (promo ''u'') = 500"
    "\<forall>a. \<bar>getz (balances l) a\<bar> \<le> 500"
proof -
  have h: "heads_ok empty_ledger" by (simp add: heads_ok_def empty_ledger_def)
  obtain cm where m: "canonicalMeta (JObj (meta demo_promo)) = Inr cm" by (simp add: demo_promo_def)
  have b: "bounded_move (getz (balances empty_ledger)) (legs (dropZeroLegs demo_promo))" by code_simp
  have "refusal empty_ledger (legs (dropZeroLegs demo_promo)) = None" by code_simp
  then obtain t l where l: "postEntry (memory_ledger demo_digest 7) demo_promo empty_ledger = Inr (t, l)"
    using postEntry_outcome [OF h m b, of demo_digest 7] by auto
  note e = mem.postEntry_spec(1) [OF l]
  have "net (promo ''u'') (legs demo_promo) = 500" by code_simp
  then have "getz (balances l) (promo ''u'') = 500" using e by (simp add: empty_ledger_def)
  moreover have "isDebitNormal PROMO_FLOAT" "\<not> isDebitNormal (promo ''u'')" "PROMO_FLOAT \<noteq> promo ''u''" by code_simp+
  then have "\<bar>net a (legs demo_promo)\<bar> \<le> 500" for a by (auto simp: demo_promo_def moved_def debit_def)
  then have "\<forall>a. \<bar>getz (balances l) a\<bar> \<le> 500" using e by (simp add: empty_ledger_def)
  moreover have "ledger_reach demo_digest l" using lr_post [OF lr_empty l] .
  ultimately show ?thesis using that by blast
qed

lemma demo_spend_ready:
  "payload (demo_spend ''k1'') = Spend ''o'' ''u'' ''hat'' demo_price demo_shares False None"
  "validateOperation (demo_spend ''k1'') (c_config (demo_ctx 7)) = Inr ()"
  "authorize (demo_spend ''k1'') = Inr ()" "screen_pause (demo_ctx 7) (demo_spend ''k1'') = None"
  "assertSpendShape ''o'' ''hat'' demo_shares = Inr ()"
  "assertRecipientShares demo_shares ''u'' = Inr ()"
  "entitlementRecipient ''u'' None = Inr ''u''" "currency demo_price = CREDIT"
  "isWalletAccount (promo ''u'')" "isWalletAccount (spendable ''u'')"
  "c_pricing (demo_ctx 7) = flatFee"
  "0 \<le> platformFeeBps (c_config (demo_ctx 7))" "platformFeeBps (c_config (demo_ctx 7)) \<le> 10000"
  "\<not> accrualDrain (c_config (demo_ctx 7))"
proof -
  show "c_pricing (demo_ctx 7) = flatFee" by (simp add: demo_ctx_def)
qed code_simp+

text \<open>What the ledger and the stores contribute.\<close>

lemma demo_state_ready:
  assumes "getz (balances l) (promo ''u'') = 500" "\<forall>a. \<bar>getz (balances l) a\<bar> \<le> 500"
  shows "\<forall>a. \<bar>getz (balances (u_ledger (empty_unit\<lparr>u_ledger := l\<rparr>))) a\<bar> + 4 * minor demo_price \<le> I64_MAX"
    "map_of (idemCommitted (u_idem (empty_unit\<lparr>u_ledger := l\<rparr>))) (idempotencyKey (demo_spend ''k1'')) = None"
    "sale_get ''o'' (u_sales (empty_unit\<lparr>u_ledger := l\<rparr>)) = None"
    "within_limit (demo_ctx 7) (demo_spend ''k1'') (empty_unit\<lparr>u_ledger := l\<rparr>)"
    "promo_cover (empty_unit\<lparr>u_ledger := l\<rparr>) ''u'' (minor demo_price) = 500"
proof -
  show "\<forall>a. \<bar>getz (balances (u_ledger (empty_unit\<lparr>u_ledger := l\<rparr>))) a\<bar> + 4 * minor demo_price \<le> I64_MAX"
    using assms(2) by (auto simp: demo_price_def I64_MAX_def intro: order_trans)
  show "map_of (idemCommitted (u_idem (empty_unit\<lparr>u_ledger := l\<rparr>))) (idempotencyKey (demo_spend ''k1'')) = None"
    "sale_get ''o'' (u_sales (empty_unit\<lparr>u_ledger := l\<rparr>)) = None"
    by (simp_all add: empty_unit_def empty_idem_def sale_get_def)
  have "within_limit (demo_ctx 7) (demo_spend ''k1'') empty_unit" by code_simp
  moreover have "u_trust (empty_unit\<lparr>u_ledger := l\<rparr>) = u_trust empty_unit" by simp
  ultimately show "within_limit (demo_ctx 7) (demo_spend ''k1'') (empty_unit\<lparr>u_ledger := l\<rparr>)"
    unfolding within_limit_def by metis
  show "promo_cover (empty_unit\<lparr>u_ledger := l\<rparr>) ''u'' (minor demo_price) = 500"
    using assms(1) by (simp add: promo_cover_def demo_price_def)
qed

lemma demo_can_pay:
  assumes "ledger_reach demo_digest l" "getz (balances l) (promo ''u'') = 500" "\<forall>a. \<bar>getz (balances l) a\<bar> \<le> 500"
  shows "can_pay (demo_ctx 7) (empty_unit\<lparr>u_ledger := l\<rparr>) ''u'' (minor demo_price)"
proof -
  have "isUserGuarded (spendable ''u'')" by code_simp
  then have "0 \<le> getz (balances l) (spendable ''u'')"
    using ledger_reach_books [OF assms(1)] unfolding books_ok_def by blast
  then show ?thesis using demo_state_ready(5) [OF assms(2,3)] by (simp add: can_pay_def demo_price_def)
qed

section \<open>Properties\<close>

text \<open>
  (C2) An affordable spend commits. On a ledger reached by checked postings, a spend that validates,
  is authorized, not paused and within the velocity limit, whose key and order are new, and whose
  price the buyer's promo credits and matured spendable credits cover, commits (with the flat fee and
  no accrual split, balances far enough from the 64-bit edge): no later screen, rule or posting check
  turns it down. The sale is stored, and the buyer's wallets go down by exactly the price: promo
  credits as far as they reach, spendable credits for the rest.
\<close>

theorem affordable_spend_commits:
  assumes "payload opn = Spend oid b sku price rs age g"
    and "validateOperation opn (c_config c) = Inr ()" "authorize opn = Inr ()" "screen_pause c opn = None"
    and "assertSpendShape oid sku rs = Inr ()" "assertRecipientShares rs b = Inr ()"
      "entitlementRecipient b g = Inr rcpt" "currency price = CREDIT"
    and "isWalletAccount (promo b)" "isWalletAccount (spendable b)"
    and "c_pricing c = flatFee" "0 \<le> platformFeeBps (c_config c)" "platformFeeBps (c_config c) \<le> 10000"
      "\<not> accrualDrain (c_config c)"
    and "ledger_reach dig (u_ledger s)" "\<forall>a. \<bar>getz (balances (u_ledger s)) a\<bar> + 4 * minor price \<le> I64_MAX"
    and "map_of (idemCommitted (u_idem s)) (idempotencyKey opn) = None" "sale_get oid (u_sales s) = None"
    and "within_limit c opn s" "can_pay c s b (minor price)"
  shows "\<exists>t s'. submit c opn cid s = (Inr (Committed t), s') \<and> sale_get oid (u_sales s') \<noteq> None \<and>
    getz (balances (u_ledger s')) (promo b) = getz (balances (u_ledger s)) (promo b) - promo_cover s b (minor price) \<and>
    getz (balances (u_ledger s')) (spendable b) =
      getz (balances (u_ledger s)) (spendable b) - (minor price - promo_cover s b (minor price))"
  by (rule affordable_spend [OF assms])

theorem affordable_spend_commits_witness:
  "\<exists>s t s'. getz (balances (u_ledger s)) (promo ''u'') = 500 \<and>
     submit (demo_ctx 7) (demo_spend ''k1'') None s = (Inr (Committed t), s') \<and>
     getz (balances (u_ledger s')) (promo ''u'') = 0"
proof -
  obtain l where l: "ledger_reach demo_digest l" "getz (balances l) (promo ''u'') = 500" "\<forall>a. \<bar>getz (balances l) a\<bar> \<le> 500"
    by (rule demo_promo_ledger)
  let ?s = "empty_unit\<lparr>u_ledger := l\<rparr>"
  have "ledger_reach demo_digest (u_ledger ?s)" using l(1) by simp
  note r = demo_state_ready [OF l(2,3)]
  note pay = demo_can_pay [OF l]
  show ?thesis
    using affordable_spend_commits [OF demo_spend_ready \<open>ledger_reach demo_digest (u_ledger ?s)\<close> r(1-4) pay, of None] r(5) l(2)
    by (intro exI [of _ ?s]) auto
qed

text \<open>
  (C3) An order is charged once. After a committed spend of an order, whatever ran since, a spend of
  the same order never commits, under any key, buyer, price or configuration; it leaves the store
  as it found it (the id counter apart), so it posts nothing and does not even count as an attempt.
\<close>

theorem order_charged_once:
  assumes "submit c opn cid s = (Inr (Committed t), s1)" "payload opn = Spend oid b sku p rs age g"
    and "(engine_step dig)\<^sup>*\<^sup>* s1 s2"
    and "payload opn' = Spend oid b' sku' p' rs' age' g'" "submit c' opn' cid' s2 = (r, s3)"
  shows "(\<forall>u. r \<noteq> Inr (Committed u)) \<and> s3\<lparr>u_drawn := 0\<rparr> = s2\<lparr>u_drawn := 0\<rparr>"
proof -
  have "sold oid s2"
    using sold_stays [OF assms(3)] committed_sold [OF submit_committed_run [OF assms(1)] assms(2)] by blast
  then have so: "sold oid (begin_txn s2)" by (simp add: begin_txn_def)
  show ?thesis
  proof (cases "map_of (idemCommitted (u_idem (begin_txn s2))) (idempotencyKey opn')")
    case None
    then obtain s4 where "runClaimed c' opn' cid' (begin_txn s2) = Inr (Rejected (DUPLICATE_ORDER oid), s4)"
      "staged_in c' opn' (begin_txn s2) = None"
      using sold_run [OF so assms(4)] by blast
    then show ?thesis
      using assms(5) by (auto simp: submit_def in_transaction_def rolled_back_def bump_staged_def screen_pause_def
          split: sum.splits principal.splits if_splits)
  next
    case (Some u)
    from replay_run [OF this] show ?thesis
      using assms(5) by (auto simp: submit_def in_transaction_def rolled_back_def bump_staged_def screen_pause_def begin_txn_def
          split: sum.splits principal.splits if_splits)
  qed
qed

theorem order_charged_once_witness:
  "\<exists>s1 r s3. sale_get ''o'' (u_sales s1) \<noteq> None \<and>
     submit (demo_ctx 9) (demo_spend ''k2'') None s1 = (r, s3) \<and> (\<forall>u. r \<noteq> Inr (Committed u)) \<and>
     s3\<lparr>u_drawn := 0\<rparr> = s1\<lparr>u_drawn := 0\<rparr>"
proof -
  obtain l where l: "ledger_reach demo_digest l" "getz (balances l) (promo ''u'') = 500" "\<forall>a. \<bar>getz (balances l) a\<bar> \<le> 500"
    by (rule demo_promo_ledger)
  let ?s = "empty_unit\<lparr>u_ledger := l\<rparr>"
  have "ledger_reach demo_digest (u_ledger ?s)" using l(1) by simp
  note r = demo_state_ready [OF l(2,3)]
  note pay = demo_can_pay [OF l]
  obtain t s1 where s1: "submit (demo_ctx 7) (demo_spend ''k1'') None ?s = (Inr (Committed t), s1)"
    "sale_get ''o'' (u_sales s1) \<noteq> None"
    using affordable_spend [OF demo_spend_ready \<open>ledger_reach demo_digest (u_ledger ?s)\<close> r(1-4) pay, of None] by blast
  obtain q s3 where q: "submit (demo_ctx 9) (demo_spend ''k2'') None s1 = (q, s3)" by fastforce
  have p: "payload (demo_spend k) = Spend ''o'' ''u'' ''hat'' demo_price demo_shares False None" for k
    by (simp add: demo_spend_def)
  from order_charged_once [OF s1(1) p _ p q, of demo_digest] s1(2) q show ?thesis by blast
qed

end
