(* ===== verification/Netting.thy ===== *)
theory Netting
  imports Sweeps Posting
begin

text \<open>
  Session netting (src/netting.ts): the journal chain of a session, acceptance over the reservation
  registry, settling in chunks with compensation and replay, and recovery. A session is an object of the process: what it
  did to itself and to the registry before a fault stays, so its steps return the state with a fault
  too. The chunk width is at least one (with zero the loop that cuts the chunks does not end).
\<close>

section \<open>Steps that keep their state when they fault\<close>

type_synonym ('s, 'a) step = "'s \<Rightarrow> 'a res \<times> 's"

definition finish :: "'a \<Rightarrow> ('s, 'a) step" where
  "finish x = (\<lambda>s. (Inr x, s))"

definition fails :: "err \<Rightarrow> ('s, 'a) step" where
  "fails e = (\<lambda>s. (Inl e, s))"

definition andthen :: "('s, 'a) step \<Rightarrow> ('a \<Rightarrow> ('s, 'b) step) \<Rightarrow> ('s, 'b) step" where
  "andthen m f = (\<lambda>s. case m s of (Inl e, s') \<Rightarrow> (Inl e, s') | (Inr x, s') \<Rightarrow> f x s')"

definition change :: "('s \<Rightarrow> 's) \<Rightarrow> ('s, unit) step" where
  "change f = (\<lambda>s. (Inr (), f s))"

section \<open>The session and its world\<close>

datatype movement_outcome = Accepted nat | Refused string

record session =
  ns_id :: string
  ns_maxBatch :: nat
  ns_chunkWidth :: nat
  ns_shared :: bool
  ns_outcomes :: "(string \<times> movement_outcome) list"
  ns_settled :: bool
  ns_replayForced :: bool
  ns_accepted :: "movement list"
  ns_pending :: "movement list"
  ns_opening :: "(AccountRef \<times> int) list"
  ns_head :: string
  ns_seq :: nat
  ns_released :: bool

text \<open>The store a session runs on, and its registry: the process map or the shared counter.\<close>

record net_world =
  nw_unit :: unit_state
  nw_moves :: movement_store
  nw_resv :: "(AccountRef \<times> int) list"

record net_state = net_world +
  nw_session :: session

definition open_session :: "string \<Rightarrow> nat \<Rightarrow> nat \<Rightarrow> bool \<Rightarrow> session" where
  "open_session sid maxBatch chunkWidth is_shared =
     \<lparr>ns_id = sid, ns_maxBatch = maxBatch, ns_chunkWidth = chunkWidth, ns_shared = is_shared, ns_outcomes = [],
      ns_settled = False, ns_replayForced = False, ns_accepted = [], ns_pending = [], ns_opening = [],
      ns_head = GENESIS_HEX, ns_seq = 0, ns_released = False\<rparr>"

definition epoch_id :: "string \<Rightarrow> string \<Rightarrow> nat \<Rightarrow> string" where
  "epoch_id scope nonce epoch = ''sess:'' @ scope @ '':'' @ nonce @ ''-'' @ nat_text epoch"

text \<open>\<open>epochMinter\<close>: the count per scope, and the id it mints.\<close>

definition mint_epoch :: "string \<Rightarrow> string \<Rightarrow> (string \<times> nat) list \<Rightarrow> string \<times> (string \<times> nat) list" where
  "mint_epoch nonce scope epochs =
     (let n = (case map_of epochs scope of Some k \<Rightarrow> k | None \<Rightarrow> 0)
      in (epoch_id scope nonce n, AList.update scope (n + 1) epochs))"

section \<open>The session chain\<close>

definition movement_legs_text :: "leg list \<Rightarrow> string" where
  "movement_legs_text ls = join '';'' (map (\<lambda>l. account l @ '':'' @ currency_text (currency (amount l)) @ '':'' @
     int_text (minor (amount l))) ls)"

definition movement_text :: "string \<Rightarrow> string \<Rightarrow> leg list \<Rightarrow> string" where
  "movement_text prev key ls = prev @ ''|'' @ key @ ''|'' @ movement_legs_text ls"

definition movement_hash :: "digest \<Rightarrow> string \<Rightarrow> string \<Rightarrow> leg list \<Rightarrow> string" where
  "movement_hash dig prev key ls = toHex (dig (utf8 (movement_text prev key ls)))"

text \<open>The journal re-derives from a head: each row names the previous hash and hashes to its own.\<close>

fun journal_ok :: "digest \<Rightarrow> string \<Rightarrow> movement list \<Rightarrow> bool" where
  "journal_ok dig prev [] = True"
| "journal_ok dig prev (m # ms) =
     (mvPrevHash m = prev \<and> mvHash m = movement_hash dig prev (mvKey m) (mvLegs m) \<and> journal_ok dig (mvHash m) ms)"

definition journal :: "ctx \<Rightarrow> (net_state, movement list) step" where
  "journal c = (\<lambda>s. let ms = mv_bySession (ns_id (nw_session s)) (nw_moves s)
     in if journal_ok (c_digest c) GENESIS_HEX ms then (Inr ms, s) else (Inl (fault_retryable CHAIN_BROKEN False), s))"

section \<open>Accepting movements\<close>

definition upd_session :: "(session \<Rightarrow> session) \<Rightarrow> net_state \<Rightarrow> net_state" where
  "upd_session f = nw_session_update f"

definition reserve_add :: "AccountRef \<Rightarrow> int \<Rightarrow> net_state \<Rightarrow> int \<times> net_state" where
  "reserve_add a d s = (case reservation_add a d (nw_resv s) of (held, r) \<Rightarrow> (held, s\<lparr>nw_resv := r\<rparr>))"

definition unwind :: "(AccountRef \<times> int) list \<Rightarrow> net_state \<Rightarrow> net_state" where
  "unwind applied s = fold (\<lambda>(a, d) s. snd (reserve_add a (- d) s)) (rev applied) s"

definition openingBalance :: "AccountRef \<Rightarrow> (net_state, int) step" where
  "openingBalance a = (\<lambda>s. case map_of (ns_opening (nw_session s)) a of
     Some v \<Rightarrow> (Inr v, s)
   | None \<Rightarrow> (case m_balance a (u_ledger (nw_unit s)) of
       Inl e \<Rightarrow> (Inl e, s)
     | Inr (b, _) \<Rightarrow> (Inr (minor b), upd_session (ns_opening_update (AList.update a (minor b))) s)))"

fun check_movement :: "leg list \<Rightarrow> int \<Rightarrow> int res" where
  "check_movement [] held = Inr held"
| "check_movement (l # ls) held =
     rbind (ensure (currency (amount l) = CREDIT \<and> minor (amount l) \<noteq> 0) malformed) (\<lambda>_.
       check_movement ls (held + minor (amount l)))"

text \<open>Add, then check: a debit that the first-touch balance and all pending cannot cover backs out.\<close>

fun reserve_loop :: "leg list \<Rightarrow> (AccountRef \<times> int) list \<Rightarrow> (net_state, string option) step" where
  "reserve_loop [] applied s = (Inr None, s)"
| "reserve_loop (l # ls) applied s =
     (if \<not> isWalletAccount (account l) then reserve_loop ls applied s
      else case balanceDelta l of
        Inl e \<Rightarrow> (Inl e, unwind applied s)
      | Inr d \<Rightarrow> (case reserve_add (account l) (minor d) s of (held, s1) \<Rightarrow>
          (let applied1 = applied @ [(account l, minor d)]
           in if minor d < 0
              then (case openingBalance (account l) s1 of
                      (Inl e, s2) \<Rightarrow> (Inl e, unwind applied1 s2)
                    | (Inr opening, s2) \<Rightarrow>
                        (if opening + held < 0 then (Inr (Some ''INSUFFICIENT_FUNDS''), unwind applied1 s2)
                         else reserve_loop ls applied1 s2))
              else reserve_loop ls applied1 s1)))"

definition reserve :: "leg list \<Rightarrow> (net_state, string option) step" where
  "reserve ls = (\<lambda>s. case check_movement ls 0 of
     Inl e \<Rightarrow> (Inl e, s)
   | Inr held \<Rightarrow> (if held \<noteq> 0 \<or> ls = [] then (Inl (fault LEDGER_UNBALANCED), s) else reserve_loop ls [] s))"

definition remember :: "string \<Rightarrow> movement_outcome \<Rightarrow> net_state \<Rightarrow> net_state" where
  "remember k out = upd_session (ns_outcomes_update (AList.update k out))"

text \<open>The pending batch is emptied before the append is tried.\<close>

definition flush :: "(net_state, unit) step" where
  "flush = (\<lambda>s. let batch = ns_pending (nw_session s) in
     if batch = [] then (Inr (), s)
     else (let s1 = upd_session (ns_pending_update (\<lambda>_. [])) s
           in case mv_append batch (nw_moves s1) of Inl e \<Rightarrow> (Inl e, s1) | Inr st \<Rightarrow> (Inr (), s1\<lparr>nw_moves := st\<rparr>)))"

definition next_movement :: "ctx \<Rightarrow> string \<Rightarrow> leg list \<Rightarrow> session \<Rightarrow> movement" where
  "next_movement c k ls x =
     \<lparr>mvSession = ns_id x, mvSeq = ns_seq x, mvKey = k, mvLegs = ls, mvPrevHash = ns_head x,
      mvHash = movement_hash (c_digest c) (ns_head x) k ls, mvRecordedAt = c_now c\<rparr>"

definition accept :: "movement \<Rightarrow> session \<Rightarrow> session" where
  "accept m x = x\<lparr>ns_seq := ns_seq x + 1, ns_head := mvHash m, ns_accepted := ns_accepted x @ [m],
     ns_pending := ns_pending x @ [m]\<rparr>"

definition record_movement :: "ctx \<Rightarrow> string \<Rightarrow> leg list \<Rightarrow> (net_state, movement_outcome) step" where
  "record_movement c k ls = (\<lambda>s.
     if ns_settled (nw_session s) then (Inl (fault SESSION_SETTLED), s)
     else case map_of (ns_outcomes (nw_session s)) k of Some out \<Rightarrow> (Inr out, s)
     | None \<Rightarrow>
       andthen (reserve ls) (\<lambda>rejection.
       case rejection of
         Some reason \<Rightarrow> (\<lambda>s. (Inr (Refused reason), remember k (Refused reason) s))
       | None \<Rightarrow> (\<lambda>s.
           let m = next_movement c k ls (nw_session s);
               out = Accepted (mvSeq m);
               s1 = remember k out (upd_session (accept m) s)
           in if length (ns_pending (nw_session s1)) \<ge> ns_maxBatch (nw_session s1)
              then andthen flush (\<lambda>_. finish out) s1
              else (Inr out, s1))) s)"

section \<open>Settling\<close>

text \<open>The net of the movements, account by account in order of first appearance.\<close>

definition session_net :: "movement list \<Rightarrow> (AccountRef \<times> int) list" where
  "session_net ms = foldl (\<lambda>m l. bump (account l) (minor (amount l)) m) [] (concat (map mvLegs ms))"

definition positions :: "movement list \<Rightarrow> (AccountRef \<times> int) list" where
  "positions ms = filter (\<lambda>(a, m). m \<noteq> 0) (session_net ms)"

function chunks :: "nat \<Rightarrow> 'a list \<Rightarrow> 'a list list" where
  "chunks w xs = (if xs = [] \<or> w = 0 then [] else take w xs # chunks w (drop w xs))"
  by auto
termination by (relation "measure (\<lambda>(w, xs). length xs)") auto

declare chunks.simps [simp del]

record chunk_at =
  ca_index :: nat
  ca_of :: nat
  ca_netted :: nat
  ca_head :: string

definition chunk_txn :: "string \<Rightarrow> nat \<Rightarrow> bool \<Rightarrow> string" where
  "chunk_txn sid i compensate = ''net_'' @ sid @ ''_c'' @ nat_text i @ (if compensate then ''_comp'' else [])"

definition chunk_legs :: "(AccountRef \<times> int) list \<Rightarrow> int \<Rightarrow> leg list res" where
  "chunk_legs chunk sign =
     rbind (rmap (\<lambda>(a, m). rbind (toAmount CREDIT (m * sign)) (\<lambda>x. Inr \<lparr>account = a, amount = x\<rparr>)) chunk) (\<lambda>ls.
       let clearing = - (\<Sum>(a, m)\<leftarrow>chunk. m * sign)
       in if clearing \<noteq> 0
          then rbind (toAmount CREDIT clearing) (\<lambda>x. Inr (ls @ [\<lparr>account = NETTING_CLEARING, amount = x\<rparr>]))
          else Inr ls)"

text \<open>A posting once: nothing happens when the transaction id is already on the ledger.\<close>

definition post_once :: "ctx \<Rightarrow> posting \<Rightarrow> (unit_state, unit) act" where
  "post_once c p =
     sbind (gets (\<lambda>s. postingOf (plog (u_ledger s)) (txnId p))) (\<lambda>found.
     if found \<noteq> None then ret () else sbind (postEntry (unit_ledger c) p) (\<lambda>_. ret ()))"

definition on_unit :: "(unit_state, 'a) act \<Rightarrow> (net_state, 'a) step" where
  "on_unit m = (\<lambda>s. case transact m (nw_unit s) of (r, u) \<Rightarrow> (r, s\<lparr>nw_unit := u\<rparr>))"

definition postChunk :: "ctx \<Rightarrow> string \<Rightarrow> (AccountRef \<times> int) list \<Rightarrow> chunk_at \<Rightarrow> bool \<Rightarrow> (net_state, unit) step" where
  "postChunk c sid chunk at compensate = (case chunk_legs chunk (if compensate then - 1 else 1) of
     Inl e \<Rightarrow> fails e
   | Inr ls \<Rightarrow> on_unit (post_once c
       \<lparr>txnId = chunk_txn sid (ca_index at) compensate, legs = ls,
        meta = [(''kind'', JStr (if compensate then ''instance_settlement_compensation'' else ''instance_settlement'')),
          (''sessionId'', JStr sid), (''netted'', JNum (int (ca_netted at))), (''journalHead'', JStr (ca_head at)),
          (''chunk'', JStr (nat_text (ca_index at + 1) @ ''/'' @ nat_text (ca_of at)))]\<rparr>))"

datatype settle_mode = Netted | Replayed

record settle_report =
  sr_mode :: settle_mode
  sr_postings :: nat
  sr_rejected :: "(string \<times> string) list"
  sr_head :: string
  sr_netted :: nat

definition release_legs :: "movement list \<Rightarrow> net_state \<Rightarrow> net_state" where
  "release_legs ms s = fold (\<lambda>l s. if isWalletAccount (account l)
       then snd (reserve_add (account l) (- moved l) s) else s) (concat (map mvLegs ms)) s"

definition release_claim :: "ctx \<Rightarrow> string \<Rightarrow> (unit_state, bool) act" where
  "release_claim c sid = (let k = ''resv_release:'' @ sid in
     sbind (idem_claim_act c k) (\<lambda>prior. case prior of
       Some _ \<Rightarrow> ret False
     | None \<Rightarrow> sbind (idem_record_act c k \<lparr>txnId = k, legs = [],
         meta = [(''kind'', JStr ''reservation_release''), (''sessionId'', JStr sid)], postedAt = c_now c, links = []\<rparr>)
         (\<lambda>_. ret True)))"

definition releaseReservations :: "ctx \<Rightarrow> (net_state, unit) step" where
  "releaseReservations c = (\<lambda>s. let x = nw_session s in
     if ns_released x then (Inr (), s)
     else andthen (if ns_shared x then on_unit (release_claim c (ns_id x)) else finish True) (\<lambda>won s.
       (Inr (), upd_session (ns_released_update (\<lambda>_. True)) (if won then release_legs (ns_accepted x) s else s))) s)"

definition replay_txn :: "string \<Rightarrow> nat \<Rightarrow> string" where
  "replay_txn sid n = ''mv_'' @ sid @ ''_'' @ nat_text n"

definition replay_posting :: "string \<Rightarrow> string \<Rightarrow> movement \<Rightarrow> posting" where
  "replay_posting sid head_hash m =
     \<lparr>txnId = replay_txn sid (mvSeq m), legs = mvLegs m,
      meta = [(''kind'', JStr ''instance_movement_replay''), (''sessionId'', JStr sid), (''seq'', JNum (int (mvSeq m))),
        (''journalHead'', JStr head_hash)]\<rparr>"

text \<open>Each movement in a transaction of its own; a refused one becomes its own rejection.\<close>

fun replay_loop :: "ctx \<Rightarrow> string \<Rightarrow> string \<Rightarrow> movement list \<Rightarrow> net_state \<Rightarrow> (nat \<times> (string \<times> string) list) \<times> net_state" where
  "replay_loop c sid head_hash [] s = ((0, []), s)"
| "replay_loop c sid head_hash (m # ms) s =
     (case on_unit (post_once c (replay_posting sid head_hash m)) s of
        (Inr _, s1) \<Rightarrow> (case replay_loop c sid head_hash ms s1 of ((n, rs), s2) \<Rightarrow> ((n + 1, rs), s2))
      | (Inl e, s1) \<Rightarrow>
          (let reason = code_text (err_code e)
           in case replay_loop c sid head_hash ms (remember (mvKey m) (Refused reason) s1) of
                ((n, rs), s2) \<Rightarrow> ((n, (mvKey m, reason) # rs), s2)))"

definition replay :: "ctx \<Rightarrow> movement list \<Rightarrow> string \<Rightarrow> (net_state, settle_report) step" where
  "replay c ms head_hash = (\<lambda>s. case replay_loop c (ns_id (nw_session s)) head_hash ms s of ((n, rs), s1) \<Rightarrow>
     andthen (releaseReservations c) (\<lambda>_. finish \<lparr>sr_mode = Replayed, sr_postings = n, sr_rejected = rs, sr_head = head_hash,
       sr_netted = length ms\<rparr>) s1)"

text \<open>The chunks in order; the indices already posted come back with a fault.\<close>

fun post_chunks ::
    "ctx \<Rightarrow> string \<Rightarrow> (nat \<Rightarrow> chunk_at) \<Rightarrow> (nat \<times> (AccountRef \<times> int) list) list \<Rightarrow> nat list \<Rightarrow> net_state \<Rightarrow>
     (bool \<times> nat list) \<times> net_state" where
  "post_chunks c sid at [] posted s = ((True, posted), s)"
| "post_chunks c sid at ((i, chunk) # rest) posted s =
     (case postChunk c sid chunk (at i) False s of
        (Inl e, s1) \<Rightarrow> ((False, posted), s1)
      | (Inr _, s1) \<Rightarrow> post_chunks c sid at rest (posted @ [i]) s1)"

fun compensate_chunks ::
    "ctx \<Rightarrow> string \<Rightarrow> (nat \<Rightarrow> chunk_at) \<Rightarrow> (AccountRef \<times> int) list list \<Rightarrow> nat list \<Rightarrow> (net_state, unit) step" where
  "compensate_chunks c sid at cs [] s = (Inr (), s)"
| "compensate_chunks c sid at cs (i # is) s =
     andthen (postChunk c sid (cs ! i) (at i) True) (\<lambda>_. compensate_chunks c sid at cs is) s"

definition settled_now :: "net_state \<Rightarrow> net_state" where
  "settled_now = upd_session (ns_settled_update (\<lambda>_. True))"

definition settle :: "ctx \<Rightarrow> (net_state, settle_report) step" where
  "settle c = andthen flush (\<lambda>_. andthen (journal c) (\<lambda>ms s.
     if ms = [] then (Inr \<lparr>sr_mode = Netted, sr_postings = 0, sr_rejected = [], sr_head = GENESIS_HEX, sr_netted = 0\<rparr>, s)
     else (let head_hash = mvHash (last ms);
               x = nw_session s;
               cs = chunks (ns_chunkWidth x) (positions ms);
               at = (\<lambda>i. \<lparr>ca_index = i, ca_of = length cs, ca_netted = length ms, ca_head = head_hash\<rparr>)
           in if ns_replayForced x then replay c ms head_hash (settled_now s)
              else case post_chunks c (ns_id x) at (zip [0..<length cs] cs) [] s of
                     ((True, _), s1) \<Rightarrow>
                       andthen (releaseReservations c) (\<lambda>_ s2. (Inr \<lparr>sr_mode = Netted, sr_postings = length cs,
                         sr_rejected = [], sr_head = head_hash, sr_netted = length ms\<rparr>, settled_now s2)) s1
                   | ((False, posted), s1) \<Rightarrow>
                       andthen (compensate_chunks c (ns_id x) at cs (rev posted))
                         (\<lambda>_ s2. replay c ms head_hash (settled_now s2)) s1)))"

section \<open>Recovery\<close>

definition recover_row :: "movement \<Rightarrow> net_state \<Rightarrow> net_state" where
  "recover_row m s =
     (let s1 = upd_session (ns_accepted_update (\<lambda>ms. ms @ [m])) s;
          s2 = (if ns_shared (nw_session s1) then s1
                else fold (\<lambda>l s. if isWalletAccount (account l) then snd (reserve_add (account l) (moved l) s) else s) (mvLegs m) s1)
      in upd_session (\<lambda>x. x\<lparr>ns_outcomes := AList.update (mvKey m) (Accepted (mvSeq m)) (ns_outcomes x),
           ns_head := mvHash m, ns_seq := mvSeq m + 1\<rparr>) s2)"

definition on_books :: "unit_state \<Rightarrow> string \<Rightarrow> bool" where
  "on_books u txn \<longleftrightarrow> postingOf (plog (u_ledger u)) txn \<noteq> None"

definition chunkCount :: "session \<Rightarrow> nat" where
  "chunkCount x = (let n = length (positions (ns_accepted x)) in (n + ns_chunkWidth x - 1) div ns_chunkWidth x)"

definition probe_settlement :: "net_state \<Rightarrow> net_state" where
  "probe_settlement s = (let x = nw_session s; u = nw_unit s in
     if list_ex (\<lambda>i. on_books u (chunk_txn (ns_id x) i True)) [0..<chunkCount x] \<or>
        list_ex (\<lambda>m. on_books u (replay_txn (ns_id x) (mvSeq m))) (ns_accepted x)
     then upd_session (\<lambda>x. x\<lparr>ns_settled := True, ns_replayForced := True\<rparr>) s
     else if on_books u (chunk_txn (ns_id x) 0 False) then settled_now s
     else s)"

definition recoverSession :: "ctx \<Rightarrow> session \<Rightarrow> net_world \<Rightarrow> unit res \<times> net_state" where
  "recoverSession c fresh_session w =
     andthen (journal c) (\<lambda>ms s. (Inr (), probe_settlement (fold recover_row ms s)))
       \<lparr>nw_unit = nw_unit w, nw_moves = nw_moves w, nw_resv = nw_resv w, nw_session = fresh_session\<rparr>"

definition refundEscrowRemainder :: "ctx \<Rightarrow> string \<Rightarrow> string \<Rightarrow> unit_state \<Rightarrow> int option res \<times> unit_state" where
  "refundEscrowRemainder c sid userId u = (let escrow = sessionEscrow userId sid in
     case m_balance escrow (u_ledger u) of
       Inl e \<Rightarrow> (Inl e, u)
     | Inr (remainder, _) \<Rightarrow>
         (if minor remainder \<le> 0 \<or> on_books u (''esc_refund_'' @ sid @ ''_'' @ userId) then (Inr None, u)
          else case transact (sbind (lift (credit (spendable userId) remainder)) (\<lambda>back.
                 sbind (postEntry (unit_ledger c)
                   \<lparr>txnId = ''esc_refund_'' @ sid @ ''_'' @ userId, legs = [debit escrow remainder, back],
                    meta = [(''kind'', JStr ''prefund_refund''), (''sessionId'', JStr sid), (''userId'', JStr userId)]\<rparr>) (\<lambda>_.
                 ret (Some (minor remainder))))) u of r \<Rightarrow> r))"

section \<open>The settlement nets exactly\<close>

text \<open>The minor amounts of an account's own legs, and the balance move they are.\<close>

abbreviation own :: "AccountRef \<Rightarrow> leg list \<Rightarrow> int" where
  "own a ls \<equiv> (\<Sum>l\<leftarrow>ls. if account l = a then minor (amount l) else 0)"

lemma net_own: "net a ls = own a ls * (if isDebitNormal a then 1 else - 1)"
  by (induction ls) (auto simp: net_def moved_def)

lemma chunks_concat: "0 < w \<Longrightarrow> concat (chunks w xs) = xs"
proof (induction w xs rule: chunks.induct)
  case (1 w xs)
  then show ?case by (cases "xs = []") (simp_all add: chunks.simps [of w xs] chunks.simps [of w "[]"])
qed

lemma sum_own_net: "(\<Sum>(b, m)\<leftarrow>session_net ms. if b = a then m else 0) = own a (concat (map mvLegs ms))"
proof -
  let ?n = "session_net ms"
  have d: "distinct (map fst ?n)" by (simp add: session_net_def distinct_foldl_bump)
  have "(\<Sum>(b, m)\<leftarrow>n. if b = a then m else 0) = getz n a" if "distinct (map fst n)" for n :: "(AccountRef \<times> int) list"
    using that by (induction n) (auto simp: getz_def dom_map_of_conv_image_fst [symmetric] split: option.splits)
  moreover have "getz ?n a = own a (concat (map mvLegs ms))"
    by (simp add: session_net_def getz_foldl_bump)
  ultimately show ?thesis using d by simp
qed

lemma drop_zero_sum: "f (0 :: int) = 0 \<Longrightarrow> (\<Sum>(b, m)\<leftarrow>filter (\<lambda>(a, m). m \<noteq> 0) ps. (f m :: int)) = (\<Sum>(b, m)\<leftarrow>ps. f m)"
  by (induction ps) auto

lemma positions_own: "(\<Sum>(b, m)\<leftarrow>positions ms. if b = a then m else 0) = own a (concat (map mvLegs ms))"
proof -
  have "(\<Sum>(b, m)\<leftarrow>filter (\<lambda>(a, m). m \<noteq> 0) ps. if b = a then m else 0) = (\<Sum>(b, m)\<leftarrow>ps. if b = a then m else 0)"
    for ps :: "(AccountRef \<times> int) list" by (induction ps) auto
  then show ?thesis by (simp add: positions_def sum_own_net)
qed

lemma sum_bump: "(\<Sum>(b, m)\<leftarrow>AList.update k v ps. m) = (\<Sum>(b, m)\<leftarrow>ps. m) - getz ps k + (v :: int)"
  by (induction ps) (auto simp: getz_def)

lemma positions_sum: "(\<Sum>(b, m)\<leftarrow>positions ms. m) = (\<Sum>l\<leftarrow>concat (map mvLegs ms). minor (amount l))"
proof -
  have s: "(\<Sum>(b, m)\<leftarrow>foldl (\<lambda>m l. bump (account l) (minor (amount l)) m) acc ls. m) =
      (\<Sum>(b, m)\<leftarrow>acc. m) + (\<Sum>l\<leftarrow>ls. minor (amount l))" for ls acc
    by (induction ls arbitrary: acc) (simp_all add: bump_def sum_bump)
  have "(\<Sum>(b, m)\<leftarrow>positions ms. m) = (\<Sum>(b, m)\<leftarrow>session_net ms. m)"
    unfolding positions_def by (rule drop_zero_sum) simp
  then show ?thesis unfolding session_net_def s by simp
qed

lemma chunk_legs_own:
  assumes "chunk_legs chunk sign = Inr ls"
  shows "own a ls = sign * (\<Sum>(b, m)\<leftarrow>chunk. if b = a then m else 0) -
    (if a = NETTING_CLEARING then sign * (\<Sum>(b, m)\<leftarrow>chunk. m) else 0)"
proof -
  obtain xs where xs: "rmap (\<lambda>(a, m). rbind (toAmount CREDIT (m * sign)) (\<lambda>x. Inr \<lparr>account = a, amount = x\<rparr>)) chunk = Inr xs"
    using assms by (auto simp: chunk_legs_def)
  have "own a xs = sign * (\<Sum>(b, m)\<leftarrow>chunk. if b = a then m else 0)"
    using xs by (induction chunk arbitrary: xs) (auto simp: toAmount_Inr algebra_simps)
  moreover have "(\<Sum>(b, m)\<leftarrow>chunk. m * sign) = sign * (\<Sum>(b, m)\<leftarrow>chunk. m)"
    by (induction chunk) (auto simp: algebra_simps)
  ultimately show ?thesis
    using assms xs by (auto simp: chunk_legs_def Let_def toAmount_Inr split: if_splits)
qed

lemma chunk_txn_inj: "chunk_txn sid i False = chunk_txn sid j False \<longleftrightarrow> i = j"
  by (simp add: chunk_txn_def)

abbreviation bal :: "net_state \<Rightarrow> AccountRef \<Rightarrow> int" where
  "bal s a \<equiv> getz (balances (u_ledger (nw_unit s))) a"

lemma find_append: "find P (xs @ ys) = (case find P xs of Some x \<Rightarrow> Some x | None \<Rightarrow> find P ys)"
  by (induction xs) auto

lemma post_once_new:
  assumes "on_unit (post_once c p) s = (Inr u, s')" "\<not> on_books (nw_unit s) (txnId p)"
  shows "bal s' a = bal s a + net a (legs p)" "nw_session s' = nw_session s"
    "t \<noteq> txnId p \<Longrightarrow> on_books (nw_unit s') t = on_books (nw_unit s) t" "nw_moves s' = nw_moves s"
proof -
  obtain un where m: "post_once c p (nw_unit s) = Inr (u, un)" "s' = s\<lparr>nw_unit := un\<rparr>"
    using assms(1) by (auto simp: on_unit_def transact_def split: sum.splits)
  then obtain t0 l where l: "postEntry (memory_ledger (c_digest c) (c_now c)) p (u_ledger (nw_unit s)) = Inr (t0, l)"
    "un = (nw_unit s)\<lparr>u_ledger := l\<rparr>"
    using assms(2) by (auto simp: post_once_def on_books_def on_ledger_Inr)
  obtain lks st where st: "st = \<lparr>txnId = txnId p, legs = legs (dropZeroLegs p), meta = meta p, postedAt = c_now c, links = lks,
       pseq = seqno (u_ledger (nw_unit s)) + 1\<rparr>"
    "commitPosting ((u_ledger (nw_unit s))\<lparr>seqno := seqno (u_ledger (nw_unit s)) + 1\<rparr>) st = Inr l"
    by (rule postEntry_commit [OF l(1)]) blast
  show "bal s' a = bal s a + net a (legs p)"
    using mem.postEntry_spec(1) [OF l(1)] by (simp add: m(2) l(2))
  show "nw_session s' = nw_session s" "nw_moves s' = nw_moves s" by (simp_all add: m(2))
  have "plog l = plog (u_ledger (nw_unit s)) @ [st]" using commitPosting_Inr(1) [OF st(2)] by simp
  then show "t \<noteq> txnId p \<Longrightarrow> on_books (nw_unit s') t = on_books (nw_unit s) t"
    by (simp add: m(2) l(2) on_books_def postingOf_def find_append st(1) split: option.splits)
qed


abbreviation sgn_of :: "AccountRef \<Rightarrow> int" where
  "sgn_of a \<equiv> (if isDebitNormal a then 1 else - 1)"

definition chunk_own :: "AccountRef \<Rightarrow> (AccountRef \<times> int) list \<Rightarrow> int" where
  "chunk_own a ch = (\<Sum>(b, m)\<leftarrow>ch. if b = a then m else 0) - (if a = NETTING_CLEARING then (\<Sum>(b, m)\<leftarrow>ch. m) else 0)"

lemma postChunk_new:
  assumes "postChunk c sid ch at False s = (Inr u, s')" "\<not> on_books (nw_unit s) (chunk_txn sid (ca_index at) False)"
  shows "bal s' a = bal s a + chunk_own a ch * sgn_of a" "nw_session s' = nw_session s" "nw_moves s' = nw_moves s"
    "t \<noteq> chunk_txn sid (ca_index at) False \<Longrightarrow> on_books (nw_unit s') t = on_books (nw_unit s) t"
proof -
  obtain ls where ls: "chunk_legs ch 1 = Inr ls"
    using assms(1) by (auto simp: postChunk_def fails_def split: sum.splits)
  let ?p = "\<lparr>txnId = chunk_txn sid (ca_index at) False, legs = ls,
        meta = [(''kind'', JStr ''instance_settlement''),
          (''sessionId'', JStr sid), (''netted'', JNum (int (ca_netted at))), (''journalHead'', JStr (ca_head at)),
          (''chunk'', JStr (nat_text (ca_index at + 1) @ ''/'' @ nat_text (ca_of at)))]\<rparr>"
  have p: "on_unit (post_once c ?p) s = (Inr u, s')" using assms(1) by (simp add: postChunk_def ls)
  have f: "\<not> on_books (nw_unit s) (txnId ?p)" using assms(2) by simp
  note n = post_once_new [OF p f]
  show "bal s' a = bal s a + chunk_own a ch * sgn_of a"
    using n(1) [of a] chunk_legs_own [OF ls, of a] by (simp add: net_own chunk_own_def)
  show "nw_session s' = nw_session s" "nw_moves s' = nw_moves s" by (rule n(2), rule n(4))
  show "t \<noteq> chunk_txn sid (ca_index at) False \<Longrightarrow> on_books (nw_unit s') t = on_books (nw_unit s) t"
    using n(3) [of t] by simp
qed

lemma post_chunks_net:
  assumes "post_chunks c sid at ics posted s = ((True, q), s')" "\<And>i. ca_index (at i) = i" "distinct (map fst ics)"
    "\<forall>i \<in> fst ` set ics. \<not> on_books (nw_unit s) (chunk_txn sid i False)"
  shows "bal s' a = bal s a + (\<Sum>(i, ch)\<leftarrow>ics. chunk_own a ch) * sgn_of a \<and> nw_session s' = nw_session s \<and> nw_moves s' = nw_moves s"
  using assms(1,3,4)
proof (induction ics arbitrary: posted s)
  case (Cons ic rest)
  obtain i ch where ic: "ic = (i, ch)" by (cases ic)
  obtain s1 where s1: "postChunk c sid ch (at i) False s = (Inr (), s1)"
    "post_chunks c sid at rest (posted @ [i]) s1 = ((True, q), s')"
    using Cons.prems(1) by (auto simp: ic split: prod.splits sum.splits)
  have f: "\<not> on_books (nw_unit s) (chunk_txn sid (ca_index (at i)) False)" using Cons.prems(3) by (simp add: ic assms(2))
  note n = postChunk_new [OF s1(1) f]
  have "\<forall>j \<in> fst ` set rest. \<not> on_books (nw_unit s1) (chunk_txn sid j False)"
  proof
    fix j assume j: "j \<in> fst ` set rest"
    with Cons.prems(2) have "j \<noteq> i" by (auto simp: ic)
    then have "on_books (nw_unit s1) (chunk_txn sid j False) = on_books (nw_unit s) (chunk_txn sid j False)"
      by (intro n(4)) (simp add: assms(2) chunk_txn_inj)
    then show "\<not> on_books (nw_unit s1) (chunk_txn sid j False)" using Cons.prems(3) j by (auto simp: ic)
  qed
  from Cons.IH [OF s1(2) _ this] Cons.prems(2) n(1) [of a] n(2,3) show ?case
    by (simp add: ic algebra_simps)
qed simp

lemma release_legs_unit: "nw_unit (release_legs ms s) = nw_unit s" "nw_moves (release_legs ms s) = nw_moves s"
proof -
  have "nw_unit (fold (\<lambda>l s. if isWalletAccount (account l) then snd (reserve_add (account l) (- moved l) s) else s) ls s) = nw_unit s \<and>
    nw_moves (fold (\<lambda>l s. if isWalletAccount (account l) then snd (reserve_add (account l) (- moved l) s) else s) ls s) = nw_moves s" for ls
    by (induction ls arbitrary: s) (auto simp: reserve_add_def split: prod.splits)
  then show "nw_unit (release_legs ms s) = nw_unit s" "nw_moves (release_legs ms s) = nw_moves s"
    by (simp_all add: release_legs_def)
qed

lemma release_bal:
  assumes "releaseReservations c s = (Inr u, s')"
  shows "bal s' a = bal s a" "nw_moves s' = nw_moves s"
proof -
  have "u_ledger un = u_ledger u0" if "release_claim c sid u0 = Inr (b, un)" for sid u0 un b
    using that by (auto simp: release_claim_def Let_def idem_claim_act_def idem_record_act_def split: option.splits prod.splits)
  then have c: "bal s1 a = bal s a \<and> nw_moves s1 = nw_moves s" if "on_unit (release_claim c sid) s = (r, s1)" for sid r s1
    using that by (auto simp: on_unit_def transact_def split: sum.splits prod.splits)
  show "bal s' a = bal s a" "nw_moves s' = nw_moves s"
    using assms c release_legs_unit
    by (auto simp: releaseReservations_def Let_def andthen_def finish_def upd_session_def split: if_splits prod.splits sum.splits)
qed

lemma flush_frame:
  assumes "flush s = (Inr u, s')"
  shows "nw_unit s' = nw_unit s" "ns_id (nw_session s') = ns_id (nw_session s)"
    "ns_chunkWidth (nw_session s') = ns_chunkWidth (nw_session s)"
  using assms by (auto simp: flush_def Let_def upd_session_def split: if_splits sum.splits)

lemma replay_mode: "replay c ms h s = (Inr r, s') \<Longrightarrow> sr_mode r = Replayed"
  by (auto simp: replay_def andthen_def finish_def split: prod.splits sum.splits)

definition demo_movement :: movement where
  "demo_movement =
     (let ls = [\<lparr>account = spendable ''u'', amount = \<lparr>currency = CREDIT, minor = 300\<rparr>\<rparr>,
                \<lparr>account = earned ''v'', amount = \<lparr>currency = CREDIT, minor = - 300\<rparr>\<rparr>]
      in \<lparr>mvSession = ''s'', mvSeq = 0, mvKey = ''k'', mvLegs = ls, mvPrevHash = GENESIS_HEX,
          mvHash = movement_hash demo_digest GENESIS_HEX ''k'' ls, mvRecordedAt = 3\<rparr>)"

definition demo_session :: net_state where
  "demo_session = \<lparr>nw_unit = empty_unit\<lparr>u_ledger := empty_ledger\<lparr>balances := [(spendable ''u'', 500)]\<rparr>\<rparr>,
     nw_moves = empty_movements, nw_resv = [(spendable ''u'', - 300), (earned ''v'', 300)],
     nw_session = accept demo_movement (open_session ''s'' 10 5 False)\<rparr>"

lemma demo_sel:
  "nw_unit demo_session = empty_unit\<lparr>u_ledger := empty_ledger\<lparr>balances := [(spendable ''u'', 500)]\<rparr>\<rparr>"
  "nw_moves demo_session = empty_movements"
  "ns_id (nw_session demo_session) = ''s''" "ns_chunkWidth (nw_session demo_session) = 5"
  "ns_pending (nw_session demo_session) = [demo_movement]" "ns_shared (nw_session demo_session) = False"
  "ns_replayForced (nw_session demo_session) = False" "ns_released (nw_session demo_session) = False"
  by (simp_all add: demo_session_def accept_def open_session_def)

lemma demo_posts:
  assumes "legs p = mvLegs demo_movement" "canonicalMeta (JObj (meta p)) = Inr cm"
  shows "\<exists>t l. postEntry (memory_ledger dig now) p (u_ledger (nw_unit demo_session)) = Inr (t, l)"
proof -
  let ?s = "empty_ledger\<lparr>balances := [(spendable ''u'', 500)]\<rparr>"
  have f: "filter (\<lambda>l. minor (amount l) \<noteq> 0) (mvLegs demo_movement) = mvLegs demo_movement" by code_simp
  have "heads_ok ?s" by (simp add: heads_ok_def empty_ledger_def)
  moreover have b: "bounded_move (getz (balances ?s)) (mvLegs demo_movement)" by code_simp
  moreover have r: "refusal ?s (mvLegs demo_movement) = None" by code_simp
  ultimately show ?thesis
    using postEntry_outcome [of ?s p cm] assms by (simp add: dropZeroLegs_sel f demo_sel)
qed

lemma demo_positions: "chunks 5 (positions [demo_movement]) = [[(spendable ''u'', 300), (earned ''v'', - 300)]]"
  by code_simp
lemma demo_balanced: "(\<Sum>l\<leftarrow>mvLegs demo_movement. minor (amount l)) = 0"
  by code_simp
lemma demo_chunk_legs: "chunk_legs [(spendable ''u'', 300), (earned ''v'', - 300)] 1 = Inr (mvLegs demo_movement)"
  by code_simp

lemma demo_flush: "\<exists>s1. flush demo_session = (Inr (), s1) \<and> nw_unit s1 = nw_unit demo_session \<and>
   nw_session s1 = (nw_session demo_session)\<lparr>ns_pending := []\<rparr> \<and> mv_bySession ''s'' (nw_moves s1) = [demo_movement]"
  apply (simp add: flush_def demo_sel mv_append_def empty_movements_def upd_session_def mv_bySession_def Let_def)
  by (simp add: demo_movement_def Let_def)

lemma post_once_ok:
  assumes "postingOf (plog (u_ledger (nw_unit s))) (txnId p) = None"
    and "postEntry (memory_ledger (c_digest c) (c_now c)) p (u_ledger (nw_unit s)) = Inr (t, l)"
  shows "on_unit (post_once c p) s = (Inr (), s\<lparr>nw_unit := (nw_unit s)\<lparr>u_ledger := l\<rparr>\<rparr>)"
  using assms by (simp add: on_unit_def transact_def post_once_def on_ledger_def zoom_def sbind_def gets_def ret_def)

text \<open>
  (C6) A netted settlement moves every balance by exactly the net of the session's movements. When a
  settle posts its chunks, whatever the chunk width and however the accounts fall into chunks, each
  account ends where posting the movements one by one would have put it, and the clearing account
  that balances each chunk ends where it began.
\<close>

theorem settle_nets:
  assumes "settle c s = (Inr r, s')" "sr_mode r = Netted" "0 < ns_chunkWidth (nw_session s)"
    and "\<forall>i. \<not> on_books (nw_unit s) (chunk_txn (ns_id (nw_session s)) i False)"
    and "\<forall>m \<in> set (mv_bySession (ns_id (nw_session s)) (nw_moves s')). (\<Sum>l\<leftarrow>mvLegs m. minor (amount l)) = 0"
  shows "getz (balances (u_ledger (nw_unit s'))) a = getz (balances (u_ledger (nw_unit s))) a +
    net a (concat (map mvLegs (mv_bySession (ns_id (nw_session s)) (nw_moves s'))))"
proof -
  obtain s1 where s1: "flush s = (Inr (), s1)" using assms(1) by (auto simp: settle_def andthen_def split: prod.splits sum.splits)
  note f = flush_frame [OF s1]
  let ?ms = "mv_bySession (ns_id (nw_session s)) (nw_moves s1)"
  let ?cs = "chunks (ns_chunkWidth (nw_session s)) (positions ?ms)"
  have j: "journal c s1 = (Inr ?ms, s1)"
    using assms(1) s1 by (auto simp: settle_def andthen_def journal_def Let_def f split: prod.splits sum.splits if_splits)
  show ?thesis
  proof (cases "?ms = []")
    case True
    then have "s' = s1" using assms(1) s1 j by (simp add: settle_def andthen_def)
    then show ?thesis using True f by (simp add: net_def)
  next
    case False
    let ?at = "\<lambda>i. \<lparr>ca_index = i, ca_of = length ?cs, ca_netted = length ?ms, ca_head = mvHash (last ?ms)\<rparr>"
    obtain q s2 where s2: "post_chunks c (ns_id (nw_session s)) ?at (zip [0..<length ?cs] ?cs) [] s1 = ((True, q), s2)"
      and s3: "\<exists>u s3. releaseReservations c s2 = (Inr u, s3) \<and> s' = settled_now s3"
      using assms(1,2) s1 j False
      by (auto simp: settle_def andthen_def f Let_def split: prod.splits sum.splits if_splits bool.splits dest: replay_mode)
    have fresh: "\<forall>i \<in> fst ` set (zip [0..<length ?cs] ?cs). \<not> on_books (nw_unit s1) (chunk_txn (ns_id (nw_session s)) i False)"
      using assms(4) by (simp add: f)
    have d: "distinct (map fst (zip [0..<length ?cs] ?cs))" by (simp add: map_fst_zip)
    have n: "bal s2 a = bal s1 a + (\<Sum>(i, ch)\<leftarrow>zip [0..<length ?cs] ?cs. chunk_own a ch) * sgn_of a" "nw_moves s2 = nw_moves s1"
      using post_chunks_net [OF s2 _ d fresh, of a] by simp_all
    have m: "nw_moves s' = nw_moves s1" "bal s' a = bal s2 a"
      using s3 release_bal [of c s2] n(2) by (auto simp: settled_now_def upd_session_def)
    have zs: "(\<Sum>(i, ch)\<leftarrow>zip is cs. chunk_own a ch) = (\<Sum>ch\<leftarrow>cs. chunk_own a ch)" if "length is = length cs" for "is" :: "nat list" and cs
      using that by (induction "is" cs rule: list_induct2) auto
    have cc: "(\<Sum>ch\<leftarrow>cs. chunk_own a ch) = chunk_own a (concat cs)" for cs
      by (induction cs) (auto simp: chunk_own_def)
    have "(\<Sum>m\<leftarrow>xs. \<Sum>l\<leftarrow>mvLegs m. minor (amount l)) = 0" if "\<forall>m \<in> set xs. (\<Sum>l\<leftarrow>mvLegs m. minor (amount l)) = 0" for xs
      using that by (induction xs) auto
    then have "(\<Sum>l\<leftarrow>concat (map mvLegs xs). minor (amount l)) = 0" if "\<forall>m \<in> set xs. (\<Sum>l\<leftarrow>mvLegs m. minor (amount l)) = 0" for xs
      using that by (induction xs) auto
    then have z: "(\<Sum>l\<leftarrow>concat (map mvLegs ?ms). minor (amount l)) = 0" using assms(5) m(1) by simp
    have "(\<Sum>(i, ch)\<leftarrow>zip [0..<length ?cs] ?cs. chunk_own a ch) = own a (concat (map mvLegs ?ms))"
      unfolding zs [of "[0..<length ?cs]" ?cs, simplified] cc chunks_concat [OF assms(3)]
      by (simp add: chunk_own_def positions_own positions_sum z del: sum_list.Cons)
    then show ?thesis using n(1) m f(1) by (simp add: net_own)
  qed
qed

theorem settle_nets_witness:
  "\<exists>c s r s'. settle c s = (Inr r, s') \<and> sr_mode r = Netted \<and>
     getz (balances (u_ledger (nw_unit s))) (spendable ''u'') = 500 \<and>
     getz (balances (u_ledger (nw_unit s'))) (spendable ''u'') = 200 \<and>
     getz (balances (u_ledger (nw_unit s'))) (earned ''v'') = 300"
proof -
  let ?c = "demo_ctx 4" and ?s = demo_session
  obtain s1 where s1: "flush ?s = (Inr (), s1)" "nw_unit s1 = nw_unit ?s"
    "nw_session s1 = (nw_session ?s)\<lparr>ns_pending := []\<rparr>" "mv_bySession ''s'' (nw_moves s1) = [demo_movement]"
    using demo_flush by blast
  have m: "mvPrevHash demo_movement = GENESIS_HEX"
    "mvHash demo_movement = movement_hash demo_digest GENESIS_HEX (mvKey demo_movement) (mvLegs demo_movement)"
    by (simp_all add: demo_movement_def Let_def)
  have d: "c_digest ?c = demo_digest" by (simp add: demo_ctx_def)
  have j: "journal ?c s1 = (Inr [demo_movement], s1)"
    by (simp add: journal_def s1 demo_sel d m Let_def)
  let ?at = "\<lparr>ca_index = 0, ca_of = 1, ca_netted = 1, ca_head = mvHash demo_movement\<rparr>"
  let ?p = "\<lparr>txnId = chunk_txn ''s'' 0 False, legs = mvLegs demo_movement,
        meta = [(''kind'', JStr ''instance_settlement''), (''sessionId'', JStr ''s''), (''netted'', JNum 1),
          (''journalHead'', JStr (mvHash demo_movement)), (''chunk'', JStr (nat_text 1 @ ''/'' @ nat_text 1))]\<rparr>"
  obtain cm where "canonicalMeta (JObj (meta ?p)) = Inr cm"
    using hashable_flat [of "meta ?p"] by auto
  then obtain t l where l: "postEntry (memory_ledger demo_digest 4) ?p (u_ledger (nw_unit ?s)) = Inr (t, l)"
    using demo_posts [of ?p cm demo_digest 4] by auto
  have o: "postingOf (plog (u_ledger (nw_unit s1))) t = None" for t
    by (simp add: s1(2) demo_sel empty_ledger_def postingOf_def)
  have pc: "postChunk ?c ''s'' [(spendable ''u'', 300), (earned ''v'', - 300)] ?at False s1 =
      (Inr (), s1\<lparr>nw_unit := (nw_unit s1)\<lparr>u_ledger := l\<rparr>\<rparr>)"
    using post_once_ok [OF o, where p = ?p and c = ?c and l = l and t = t] l
    by (simp add: postChunk_def demo_chunk_legs s1(2) d) (simp add: demo_ctx_def)
  obtain r s' where e: "settle ?c ?s = (Inr r, s')" "sr_mode r = Netted" "nw_moves s' = nw_moves s1"
    using pc j by (simp add: settle_def andthen_def s1 demo_sel Let_def demo_positions releaseReservations_def
        finish_def settled_now_def upd_session_def release_legs_unit)
  have ms: "mv_bySession (ns_id (nw_session ?s)) (nw_moves s') = [demo_movement]"
    using e(3) s1(4) by (simp add: demo_sel)
  have "getz (balances (u_ledger (nw_unit s'))) a = getz (balances (u_ledger (nw_unit ?s))) a + net a (mvLegs demo_movement)" for a
    using settle_nets [OF e(1,2), of a] ms by (simp add: demo_sel empty_ledger_def on_books_def postingOf_def demo_balanced)
  moreover have "getz (balances (u_ledger (nw_unit ?s))) (spendable ''u'') = 500"
    "getz (balances (u_ledger (nw_unit ?s))) (earned ''v'') = 0"
    by (simp_all add: demo_sel getz_def spendable_def earned_def)
  moreover have "net (spendable ''u'') (mvLegs demo_movement) = - 300" by code_simp
  moreover have "net (earned ''v'') (mvLegs demo_movement) = 300" by code_simp
  ultimately show ?thesis using e by (intro exI [of _ ?c] exI [of _ ?s] exI [of _ r] exI [of _ s']) simp
qed

end
