(* ===== verification/Orphans.thy ===== *)
theory Orphans
  imports Netting
begin

text \<open>
  The jobs over sessions nobody holds any more: the orphan sweep and the reservation repair
  (src/worker/orphans.ts), and the retention job (src/worker/retention.ts). A recovered session lives for
  one item of a job.
\<close>

section \<open>Escrow repair\<close>

text \<open>The owners of the session's escrows, in order of first appearance.\<close>

definition escrow_owners :: "string \<Rightarrow> movement list \<Rightarrow> string list" where
  "escrow_owners sid ms = rev (remdups (rev (List.map_filter (\<lambda>l. case escrowPartsOf (account l) of
     Some (u, s) \<Rightarrow> (if s = sid then Some u else None) | None \<Rightarrow> None) (concat (map mvLegs ms)))))"

type_synonym refund_row = "string \<times> string \<times> int"

fun refund_owners :: "ctx \<Rightarrow> string \<Rightarrow> string list \<Rightarrow> unit_state \<times> refund_row list \<Rightarrow> unit res \<times> unit_state \<times> refund_row list" where
  "refund_owners c sid [] st = (Inr (), st)"
| "refund_owners c sid (u # us) st = (case refundEscrowRemainder c sid u (fst st) of
     (Inl e, s) \<Rightarrow> (Inl e, (s, snd st))
   | (Inr None, s) \<Rightarrow> refund_owners c sid us (s, snd st)
   | (Inr (Some m), s) \<Rightarrow> refund_owners c sid us (s, snd st @ [(sid, u, m)]))"

definition refundSessionEscrows ::
    "ctx \<Rightarrow> string \<Rightarrow> net_world \<Rightarrow> refund_row list \<Rightarrow> unit res \<times> net_world \<times> refund_row list" where
  "refundSessionEscrows c sid w acc =
     (case refund_owners c sid (escrow_owners sid (mv_bySession sid (nw_moves w))) (nw_unit w, acc) of
        (r, u, acc') \<Rightarrow> (r, w\<lparr>nw_unit := u\<rparr>, acc'))"

definition newestMovementAt :: "string \<Rightarrow> net_world \<Rightarrow> int" where
  "newestMovementAt sid w = fold (\<lambda>m t. if mvRecordedAt m > t then mvRecordedAt m else t) (mv_bySession sid (nw_moves w)) 0"

section \<open>The orphan sweep\<close>

record orphan_tally =
  ot_scanned :: nat
  ot_orphans :: "(string \<times> int) list"
  ot_settled :: "(string \<times> settle_mode) list"
  ot_refunds :: "refund_row list"
  ot_failed :: "(string \<times> error_code) list"

definition world_of :: "net_state \<Rightarrow> net_world" where
  "world_of s = \<lparr>nw_unit = nw_unit s, nw_moves = nw_moves s, nw_resv = nw_resv s\<rparr>"

definition state_of :: "net_world \<Rightarrow> session \<Rightarrow> net_state" where
  "state_of w x = \<lparr>nw_unit = nw_unit w, nw_moves = nw_moves w, nw_resv = nw_resv w, nw_session = x\<rparr>"

definition orphan_refunds :: "ctx \<Rightarrow> string \<Rightarrow> net_world \<times> orphan_tally \<Rightarrow> unit res \<times> net_world \<times> orphan_tally" where
  "orphan_refunds c sid st = (case refundSessionEscrows c sid (fst st) (ot_refunds (snd st)) of
     (r, w, rows) \<Rightarrow> (r, w, (snd st)\<lparr>ot_refunds := rows\<rparr>))"

text \<open>The work on one session; a fault becomes an entry of the tally.\<close>

definition orphan_work ::
    "ctx \<Rightarrow> bool \<Rightarrow> int \<Rightarrow> int option \<Rightarrow> string \<Rightarrow> net_world \<times> orphan_tally \<Rightarrow> unit res \<times> net_world \<times> orphan_tally" where
  "orphan_work c is_shared now olderThan sid st =
     (case recoverSession c (open_session sid 64 16 is_shared) (fst st) of
        (Inl e, s) \<Rightarrow> (Inl e, world_of s, snd st)
      | (Inr _, s) \<Rightarrow>
          (if ns_settled (nw_session s) then orphan_refunds c sid (world_of s, snd st)
           else (let age = now - newestMovementAt sid (world_of s);
                     t1 = (snd st)\<lparr>ot_orphans := ot_orphans (snd st) @ [(sid, age)]\<rparr>
                 in case olderThan of
                      None \<Rightarrow> (Inr (), world_of s, t1)
                    | Some bound \<Rightarrow>
                        (if age > bound
                         then (case settle c s of
                                 (Inl e, s2) \<Rightarrow> (Inl e, world_of s2, t1)
                               | (Inr report, s2) \<Rightarrow>
                                   orphan_refunds c sid (world_of s2, t1\<lparr>ot_settled := ot_settled t1 @ [(sid, sr_mode report)]\<rparr>))
                         else (Inr (), world_of s, t1)))))"

definition orphan_one ::
    "ctx \<Rightarrow> bool \<Rightarrow> int \<Rightarrow> int option \<Rightarrow> string \<Rightarrow> net_world \<times> orphan_tally \<Rightarrow> net_world \<times> orphan_tally" where
  "orphan_one c is_shared now olderThan sid st =
     (case orphan_work c is_shared now olderThan sid (fst st, (snd st)\<lparr>ot_scanned := ot_scanned (snd st) + 1\<rparr>) of
        (Inr _, w, t) \<Rightarrow> (w, t)
      | (Inl e, w, t) \<Rightarrow> (w, t\<lparr>ot_failed := ot_failed t @ [(sid, err_code e)]\<rparr>))"

definition sweepOrphanSessions :: "ctx \<Rightarrow> bool \<Rightarrow> int \<Rightarrow> nat \<Rightarrow> int option \<Rightarrow> net_world \<Rightarrow> net_world \<times> orphan_tally" where
  "sweepOrphanSessions c is_shared now limit olderThan w =
     fold (orphan_one c is_shared now olderThan) (take limit (mv_sessionIds (nw_moves w)))
       (w, \<lparr>ot_scanned = 0, ot_orphans = [], ot_settled = [], ot_refunds = [], ot_failed = []\<rparr>)"

section \<open>Repair of the shared counter\<close>

text \<open>A session recovered over a throwaway registry: verification only.\<close>

definition recover_readonly :: "ctx \<Rightarrow> string \<Rightarrow> net_world \<Rightarrow> session res" where
  "recover_readonly c sid w = (case recoverSession c (open_session sid 64 16 False) (w\<lparr>nw_resv := []\<rparr>) of
     (Inl e, _) \<Rightarrow> Inl e | (Inr _, s) \<Rightarrow> Inr (nw_session s))"

definition session_pending :: "movement list \<Rightarrow> (AccountRef \<times> int) list \<Rightarrow> (AccountRef \<times> int) list" where
  "session_pending ms acc =
     foldl (\<lambda>m l. if isWalletAccount (account l) then bump (account l) (moved l) m else m) acc (concat (map mvLegs ms))"

fun desired_pending :: "ctx \<Rightarrow> net_world \<Rightarrow> string list \<Rightarrow> (AccountRef \<times> int) list \<Rightarrow> (AccountRef \<times> int) list res" where
  "desired_pending c w [] acc = Inr acc"
| "desired_pending c w (sid # sids) acc =
     rbind (recover_readonly c sid w) (\<lambda>x.
       desired_pending c w sids (if ns_settled x then acc else session_pending (mv_bySession sid (nw_moves w)) acc))"

definition reconcileReservations :: "ctx \<Rightarrow> net_world \<Rightarrow> (nat \<times> nat) res \<times> net_world" where
  "reconcileReservations c w = (case desired_pending c w (mv_sessionIds (nw_moves w)) [] of
     Inl e \<Rightarrow> (Inl e, w)
   | Inr want \<Rightarrow>
       (let rows = reservation_entries (nw_resv w);
            drift = filter (\<lambda>(a, cur). cur \<noteq> getz want a) rows
        in (Inr (length rows, length drift),
            w\<lparr>nw_resv := fold (\<lambda>(a, cur) r. snd (reservation_add a (getz want a - cur) r)) drift (nw_resv w)\<rparr>)))"

section \<open>Retention\<close>

record retention_tally =
  kt_deleted :: nat
  kt_idemSkipped :: bool
  kt_scanned :: nat
  kt_pruned :: "(string \<times> nat) list"
  kt_refunds :: "refund_row list"
  kt_failed :: "(string \<times> error_code) list"
  kt_skipped :: bool

definition sweepIdempotency :: "int \<Rightarrow> nat \<Rightarrow> int option \<Rightarrow> net_world \<Rightarrow> (nat \<times> bool) \<times> net_world" where
  "sweepIdempotency now limit olderThan w = (case olderThan of
     None \<Rightarrow> ((0, True), w)
   | Some age \<Rightarrow> (case idem_deleteOlderThan (now - age) limit (u_idem (nw_unit w)) of
       (n, st) \<Rightarrow> ((n, False), w\<lparr>nw_unit := (nw_unit w)\<lparr>u_idem := st\<rparr>\<rparr>)))"

definition prune_work ::
    "ctx \<Rightarrow> int \<Rightarrow> int \<Rightarrow> string \<Rightarrow> net_world \<times> retention_tally \<Rightarrow> unit res \<times> net_world \<times> retention_tally" where
  "prune_work c now olderThan sid st =
     (case recover_readonly c sid (fst st) of
        Inl e \<Rightarrow> (Inl e, st)
      | Inr x \<Rightarrow>
          (if \<not> ns_settled x \<or> now - newestMovementAt sid (fst st) \<le> olderThan then (Inr (), st)
           else (case refundSessionEscrows c sid (fst st) (kt_refunds (snd st)) of
              (Inl e, w, rows) \<Rightarrow> (Inl e, w, (snd st)\<lparr>kt_refunds := rows\<rparr>)
            | (Inr _, w, rows) \<Rightarrow> (case mv_pruneSession sid (nw_moves w) of
                (n, mv) \<Rightarrow> (Inr (), w\<lparr>nw_moves := mv\<rparr>,
                  (snd st)\<lparr>kt_refunds := rows, kt_pruned := kt_pruned (snd st) @ [(sid, n)]\<rparr>)))))"

definition prune_one ::
    "ctx \<Rightarrow> int \<Rightarrow> int \<Rightarrow> string \<Rightarrow> net_world \<times> retention_tally \<Rightarrow> net_world \<times> retention_tally" where
  "prune_one c now olderThan sid st =
     (case prune_work c now olderThan sid (fst st, (snd st)\<lparr>kt_scanned := kt_scanned (snd st) + 1\<rparr>) of
        (Inr _, w, t) \<Rightarrow> (w, t)
      | (Inl e, w, t) \<Rightarrow> (w, t\<lparr>kt_failed := kt_failed t @ [(sid, err_code e)]\<rparr>))"

definition pruneSettledSessions ::
    "ctx \<Rightarrow> int \<Rightarrow> nat \<Rightarrow> int option \<Rightarrow> net_world \<times> retention_tally \<Rightarrow> net_world \<times> retention_tally" where
  "pruneSettledSessions c now limit olderThan st = (case olderThan of
     None \<Rightarrow> (fst st, (snd st)\<lparr>kt_skipped := True\<rparr>)
   | Some age \<Rightarrow> fold (prune_one c now age) (take limit (mv_sessionIds (nw_moves (fst st)))) st)"

definition sweepRetention ::
    "ctx \<Rightarrow> int \<Rightarrow> nat \<Rightarrow> int option \<Rightarrow> int option \<Rightarrow> net_world \<Rightarrow> net_world \<times> retention_tally" where
  "sweepRetention c now limit idemAge sessionAge w =
     (case sweepIdempotency now limit idemAge w of
        ((n, skipped), w1) \<Rightarrow> pruneSettledSessions c now limit sessionAge
          (w1, \<lparr>kt_deleted = n, kt_idemSkipped = skipped, kt_scanned = 0, kt_pruned = [], kt_refunds = [], kt_failed = [],
            kt_skipped = False\<rparr>))"

end
