(* ===== verification/Integrity.thy ===== *)
theory Integrity
  imports Chain
begin

text \<open>
  The thorough prover of src/integrity.ts: one fold over the ledger (conservation, derived balances,
  backing, overdraft), the archival boundary, the chain, and the forensic lookup of a hash. The par
  rate is an argument; the ledger is the in-memory one.
\<close>

section \<open>The backing figures\<close>

record backing_totals =
  custodialCreditMinor :: int
  trustCashMinor :: int

definition no_backing :: backing_totals where
  "no_backing = \<lparr>custodialCreditMinor = 0, trustCashMinor = 0\<rparr>"

definition isCustodialCredit :: "AccountRef \<Rightarrow> bool" where
  "isCustodialCredit acct \<longleftrightarrow> classify acct = Custodial \<and> currencyOf acct = CREDIT"

definition isTrustCashShard :: "AccountRef \<Rightarrow> bool" where
  "isTrustCashShard acct \<longleftrightarrow> baseOf acct = TRUST_CASH"

definition foldBackingAccount :: "AccountRef \<Rightarrow> int \<Rightarrow> backing_totals \<Rightarrow> backing_totals" where
  "foldBackingAccount acct b t =
     (let t1 = (if isCustodialCredit acct then t\<lparr>custodialCreditMinor := custodialCreditMinor t + b\<rparr> else t)
      in if isTrustCashShard acct then t1\<lparr>trustCashMinor := trustCashMinor t1 + b\<rparr> else t1)"

fun backing_loop :: "AccountRef list \<Rightarrow> (AccountRef \<Rightarrow> amount res) \<Rightarrow> backing_totals \<Rightarrow> backing_totals res" where
  "backing_loop [] balance_of t = Inr t"
| "backing_loop (a # as) balance_of t =
     (if isCustodialCredit a \<or> isTrustCashShard a
      then rbind (balance_of a) (\<lambda>b. backing_loop as balance_of (foldBackingAccount a (minor b) t))
      else backing_loop as balance_of t)"

definition backingTotals :: "AccountRef list \<Rightarrow> (AccountRef \<Rightarrow> amount res) \<Rightarrow> backing_totals res" where
  "backingTotals accounts balance_of = backing_loop accounts balance_of no_backing"

definition backingRequiredMinor :: "int \<Rightarrow> rate \<Rightarrow> int res" where
  "backingRequiredMinor custodial par =
     rbind (toAmount CREDIT custodial) (\<lambda>a. rbind (convertFloor a par USD) (\<lambda>u. Inr (minor u)))"

definition backingShortfallMinor :: "int \<Rightarrow> int \<Rightarrow> int" where
  "backingShortfallMinor required held = (if held < required then required - held else 0)"

section \<open>One pass over the ledger\<close>

record drift_row =
  driftAccount :: AccountRef
  materialized :: amount
  derived :: amount

record ledger_fold = backing_totals +
  signedByCurrency :: "(currency \<times> int) list"
  anyUserNegative :: bool
  drift :: "drift_row list"

definition balanceBaselines :: "boundary option \<Rightarrow> (AccountRef \<times> int) list" where
  "balanceBaselines bnd = (case bnd of None \<Rightarrow> []
     | Some b \<Rightarrow> fold (\<lambda>(a, v). AList.update a (v * (if isDebitNormal a then 1 else - 1))) (rawSums b) [])"

text \<open>The sums come back signed for the account; conservation needs the debit-positive sign.\<close>

definition accumulateLegs :: "AccountRef \<Rightarrow> amount list \<Rightarrow> (currency \<times> int) list \<Rightarrow> int \<times> (currency \<times> int) list" where
  "accumulateLegs acct ds sums =
     (let sign = (if isDebitNormal acct then 1 else - 1)
      in (\<Sum>d\<leftarrow>ds. minor d, foldl (\<lambda>m d. bump (currency d) (minor d * sign) m) sums ds))"

definition pushIfDrifted :: "AccountRef \<Rightarrow> amount \<Rightarrow> int \<Rightarrow> drift_row list \<Rightarrow> drift_row list res" where
  "pushIfDrifted acct stored derived_minor rows =
     (if minor stored \<noteq> derived_minor
      then rbind (toAmount (currencyOf acct) derived_minor) (\<lambda>d.
             Inr (rows @ [\<lparr>driftAccount = acct, materialized = stored, derived = d\<rparr>]))
      else Inr rows)"

definition fold_backing :: "AccountRef \<Rightarrow> int \<Rightarrow> ledger_fold \<Rightarrow> ledger_fold" where
  "fold_backing acct b f =
     (let t = foldBackingAccount acct b (backing_totals.truncate f);
          f1 = f\<lparr>custodialCreditMinor := custodialCreditMinor t, trustCashMinor := trustCashMinor t\<rparr>
      in if isWalletAccount acct \<and> b < 0 then f1\<lparr>anyUserNegative := True\<rparr> else f1)"

fun fold_heads ::
    "(AccountRef \<Rightarrow> amount res) \<Rightarrow> (AccountRef \<Rightarrow> amount list res) \<Rightarrow> (AccountRef \<times> int) list \<Rightarrow> AccountRef list \<Rightarrow>
     ledger_fold \<Rightarrow> ledger_fold res" where
  "fold_heads balance_of derived_of base [] f = Inr f"
| "fold_heads balance_of derived_of base (a # as) f =
     rbind (derived_of a) (\<lambda>ds.
     case accumulateLegs a ds (signedByCurrency f) of (own, sums) \<Rightarrow>
     rbind (balance_of a) (\<lambda>b.
     rbind (pushIfDrifted a b (getz base a + own) (drift f)) (\<lambda>rows.
       fold_heads balance_of derived_of base as (fold_backing a (minor b) (f\<lparr>signedByCurrency := sums, drift := rows\<rparr>)))))"

text \<open>The balance rows with no head: phantoms, and accounts whose postings all moved to the archive.\<close>

fun fold_balances ::
    "(AccountRef \<Rightarrow> amount res) \<Rightarrow> (AccountRef \<times> int) list \<Rightarrow> AccountRef list \<Rightarrow> AccountRef list \<Rightarrow>
     ledger_fold \<Rightarrow> ledger_fold res" where
  "fold_balances balance_of base seen [] f = Inr f"
| "fold_balances balance_of base seen (a # as) f =
     (if a \<in> set seen then fold_balances balance_of base seen as f
      else rbind (balance_of a) (\<lambda>b.
           rbind (pushIfDrifted a b (getz base a) (drift f)) (\<lambda>rows.
           let f1 = f\<lparr>drift := rows\<rparr>
           in fold_balances balance_of base seen as
                (if map_of base a \<noteq> None then fold_backing a (minor b) f1 else f1))))"

definition empty_fold :: ledger_fold where
  "empty_fold = \<lparr>custodialCreditMinor = 0, trustCashMinor = 0, signedByCurrency = [], anyUserNegative = False, drift = []\<rparr>"

text \<open>A plain read of the in-memory balance.\<close>

definition balance_read :: "'a ledger_data_scheme \<Rightarrow> AccountRef \<Rightarrow> amount res" where
  "balance_read s a = toAmount (currencyOf a) (getz (balances s) a)"

definition foldLedger :: "bool \<Rightarrow> 'a ledger_data_scheme \<Rightarrow> (AccountRef \<times> int) list \<Rightarrow> ledger_fold res" where
  "foldLedger has_wasm s base =
     (let hs = map fst (sortedHeads (heads s))
      in rbind (fold_heads (balance_read s) (derivedBalancesOf has_wasm s) base hs empty_fold) (\<lambda>f.
           fold_balances (balance_read s) base hs (balanceAccounts s) f))"

definition everyCurrencyBalances :: "(currency \<times> int) list \<Rightarrow> bool" where
  "everyCurrencyBalances sums \<longleftrightarrow> list_all (\<lambda>(c, v). v = 0) sums"

section \<open>The prover\<close>

definition proveBoundary :: "digest \<Rightarrow> signer option \<Rightarrow> checkpoint_store \<Rightarrow> boundary option res" where
  "proveBoundary dig sg cps = (case sg of
     Some g \<Rightarrow> loadArchiveBoundary dig g cps
   | None \<Rightarrow> (if cpArchive cps = None then Inr None else Inl (fault_retryable CONFIG_INVALID False)))"

record prove_report =
  conserved :: bool
  backed :: bool
  noOverdraft :: bool
  chainIntact :: bool
  consistent :: bool
  driftRows :: "drift_row list"
  shortfallUsd :: amount

definition proveEconomy ::
    "digest \<Rightarrow> signer option \<Rightarrow> rate \<Rightarrow> bool \<Rightarrow> checkpoint_store \<Rightarrow> 'a ledger_data_scheme \<Rightarrow> prove_report res" where
  "proveEconomy dig sg par has_wasm cps s =
     rbind (proveBoundary dig sg cps) (\<lambda>bnd.
     rbind (foldLedger has_wasm s (balanceBaselines bnd)) (\<lambda>f.
     rbind (backingRequiredMinor (custodialCreditMinor f) par) (\<lambda>required.
     let short = backingShortfallMinor required (trustCashMinor f)
     in rbind (proveChain dig (mem_reads s) bnd) (\<lambda>chain.
        rbind (toAmount USD short) (\<lambda>u.
          Inr \<lparr>conserved = everyCurrencyBalances (signedByCurrency f), backed = (short = 0),
            noOverdraft = (\<not> anyUserNegative f), chainIntact = intact chain, consistent = (drift f = []),
            driftRows = drift f, shortfallUsd = u\<rparr>)))))"

definition allInvariantsHold :: "prove_report \<Rightarrow> bool" where
  "allInvariantsHold r \<longleftrightarrow> conserved r \<and> backed r \<and> noOverdraft r \<and> chainIntact r \<and> consistent r"

section \<open>The lookup of a hash\<close>

definition lower_char :: "char \<Rightarrow> char" where
  "lower_char c = (let n = (of_char c :: nat)
     in if (65 \<le> n \<and> n \<le> 90) \<or> (192 \<le> n \<and> n \<le> 222 \<and> n \<noteq> 215) then char_of (n + 32) else c)"

definition lower :: "string \<Rightarrow> string" where
  "lower s = map lower_char s"

text \<open>How far a walk got: the links it walked, out of budget, or the link and which of its hashes matched.\<close>

datatype hash_walk = Walked nat | OutOfBudget | Found AccountRef stored_link bool

fun walk_links :: "string \<Rightarrow> nat \<Rightarrow> AccountRef \<Rightarrow> stored_link list \<Rightarrow> nat \<Rightarrow> hash_walk" where
  "walk_links target scanMax a [] scanned = Walked scanned"
| "walk_links target scanMax a (k # ks) scanned =
     (if scanned + 1 > scanMax then OutOfBudget
      else if lower (khash k) = target then Found a k True
      else if kprev k \<noteq> GENESIS_HEX \<and> lower (kprev k) = target then Found a k False
      else walk_links target scanMax a ks (scanned + 1))"

fun walk_accounts :: "string \<Rightarrow> nat \<Rightarrow> (AccountRef \<Rightarrow> stored_link list) \<Rightarrow> AccountRef list \<Rightarrow> nat \<Rightarrow> hash_walk" where
  "walk_accounts target scanMax lineage [] scanned = Walked scanned"
| "walk_accounts target scanMax lineage (a # as) scanned =
     (case walk_links target scanMax a (lineage a) scanned of
        Walked n \<Rightarrow> walk_accounts target scanMax lineage as n
      | w \<Rightarrow> w)"

definition findByHash ::
    "AccountRef list \<Rightarrow> (AccountRef \<Rightarrow> stored_link list) \<Rightarrow> string \<Rightarrow> nat option \<Rightarrow> (AccountRef \<times> stored_link \<times> bool) option" where
  "findByHash accounts lineage hash scanMax =
     (case walk_accounts (lower hash) (case scanMax of None \<Rightarrow> 20000 | Some n \<Rightarrow> n) lineage accounts 0 of
        Found a k is_hash \<Rightarrow> Some (a, k, is_hash) | _ \<Rightarrow> None)"

section \<open>The accounts of a reached ledger\<close>

text \<open>On a reached ledger the accounts with a head are those of the posted legs, each once.\<close>

lemma head_accounts:
  "ledger_reach dig s \<Longrightarrow> fst ` set (heads s) = account ` set (all_legs s) \<and> distinct (map fst (heads s))"
proof (induction rule: ledger_reach.induct)
  case lr_empty then show ?case by (simp add: empty_ledger_def all_legs_def)
next
  case (lr_begin s j) then show ?case by (simp add: all_legs_def)
next
  case (lr_commit s) then show ?case by (simp add: all_legs_def)
next
  case (lr_post s now p t s')
  show ?case
  proof (rule postEntry_commit [OF lr_post.hyps(2)])
    fix lks st
    assume a: "advanceChain dig s (dropZeroLegs p) = Inr lks" and
      st: "st = \<lparr>txnId = txnId p, legs = legs (dropZeroLegs p), meta = meta p, postedAt = now, links = lks, pseq = seqno s + 1\<rparr>" and
      c: "commitPosting (s\<lparr>seqno := seqno s + 1\<rparr>) st = Inr s'"
    have k: "map laccount lks = distinctAccounts (legs (dropZeroLegs p))"
    proof -
      have "list_all2 (\<lambda>x lk. laccount lk = x) (distinctAccounts (legs (dropZeroLegs p))) lks"
        using advanceChain_Inr [OF a] by (rule list_all2_mono) simp
      then show ?thesis by (auto simp: list_all2_conv_all_nth intro: nth_equalityI)
    qed
    have f: "fst ` set (fold (\<lambda>lk. AList.update (laccount lk) (lhash lk)) ks m) = fst ` set m \<union> laccount ` set ks \<and>
        (distinct (map fst m) \<longrightarrow> distinct (map fst (fold (\<lambda>lk. AList.update (laccount lk) (lhash lk)) ks m)))" for ks m
      by (induction ks arbitrary: m) (auto simp: keys_update distinct_update)
    have "laccount ` set lks = account ` set (legs st)" using arg_cong [OF k, of set] by (simp add: st)
    then show ?thesis
      using commitPosting_Inr(1,8) [OF c] lr_post.IH f [of lks "heads s"] by (auto simp: st all_legs_def)
  qed
qed

text \<open>The backing loop sums the balances of the accounts it visits.\<close>

lemma backing_loop_sums:
  "backing_loop as (balance_read s) t = Inr t' \<Longrightarrow>
     custodialCreditMinor t' = custodialCreditMinor t + (\<Sum>a\<leftarrow>as. if isCustodialCredit a then getz (balances s) a else 0) \<and>
     trustCashMinor t' = trustCashMinor t + (\<Sum>a\<leftarrow>as. if isTrustCashShard a then getz (balances s) a else 0)"
proof (induction as arbitrary: t)
  case (Cons a as)
  then show ?case
    by (cases "isCustodialCredit a \<or> isTrustCashShard a")
      (auto simp: balance_read_def foldBackingAccount_def Let_def dest!: Cons.IH)
qed simp

lemma backing_loop_total: "\<forall>a. in_i64 (getz (balances s) a) \<Longrightarrow> \<exists>t'. backing_loop as (balance_read s) t = Inr t'"
  by (induction as arbitrary: t) (auto simp: balance_read_def)

end
