(* ===== verification/Treasury.thy ===== *)
theory Treasury
  imports Sweeps Integrity Posting
begin

text \<open>
  The treasury jobs of src/worker/treasury.ts: the backing check, the float coverage check, and the
  fee sweep, the one job here that posts. The par and payout rates are those of the context; the
  provider's balance feed is an argument. Meters and logs are left out.
\<close>

section \<open>The backing check\<close>

record backing_position =
  bp_custodial :: amount
  bp_required :: amount
  bp_trustCash :: amount
  bp_shortfall :: amount
  bp_backed :: bool

record treasury_tally =
  tt_position :: "backing_position option"
  tt_breaches :: "(string \<times> string \<times> string) list"
  tt_retrying :: "error_code list"
  tt_failed :: "error_code list"

definition ledger_accounts :: "unit_state \<Rightarrow> AccountRef list" where
  "ledger_accounts s = map fst (sortedHeads (heads (u_ledger s)))"

definition measureBacking :: "ctx \<Rightarrow> unit_state \<Rightarrow> backing_position res" where
  "measureBacking c s =
     rbind (backingTotals (ledger_accounts s) (balance_read (u_ledger s))) (\<lambda>t.
     rbind (backingRequiredMinor (custodialCreditMinor t) (c_par c)) (\<lambda>required.
     let short = backingShortfallMinor required (trustCashMinor t)
     in rbind (toAmount CREDIT (custodialCreditMinor t)) (\<lambda>custodial.
        rbind (toAmount USD required) (\<lambda>req.
        rbind (toAmount USD (trustCashMinor t)) (\<lambda>trust.
        rbind (toAmount USD short) (\<lambda>sh.
          Inr \<lparr>bp_custodial = custodial, bp_required = req, bp_trustCash = trust, bp_shortfall = sh,
            bp_backed = (short = 0)\<rparr>))))))"

definition raiseBreach :: "backing_position \<Rightarrow> treasury_tally \<Rightarrow> treasury_tally" where
  "raiseBreach p t = t\<lparr>tt_breaches := tt_breaches t @
     [(encodeAmount (bp_shortfall p), encodeAmount (bp_required p), encodeAmount (bp_trustCash p))]\<rparr>"

definition note_fault :: "err \<Rightarrow> treasury_tally \<Rightarrow> treasury_tally" where
  "note_fault e t = (if err_retryable e then t\<lparr>tt_retrying := tt_retrying t @ [err_code e]\<rparr>
     else t\<lparr>tt_failed := tt_failed t @ [err_code e]\<rparr>)"

definition sweepTreasury :: "ctx \<Rightarrow> unit_state \<Rightarrow> treasury_tally" where
  "sweepTreasury c s =
     (let t = \<lparr>tt_position = None, tt_breaches = [], tt_retrying = [], tt_failed = []\<rparr>
      in case measureBacking c s of
           Inl e \<Rightarrow> note_fault e t
         | Inr p \<Rightarrow> (let t1 = t\<lparr>tt_position := Some p\<rparr> in if bp_backed p then t1 else raiseBreach p t1))"

section \<open>Float coverage\<close>

record float_position =
  fp_float :: amount
  fp_obligations :: amount
  fp_shortfall :: amount
  fp_covered :: bool

record float_tally =
  ft_position :: "float_position option"
  ft_breaches :: "(string \<times> string \<times> string) list"
  ft_retrying :: "error_code list"
  ft_failed :: "error_code list"

fun obligations :: "rate \<Rightarrow> saga list \<Rightarrow> int \<Rightarrow> int res" where
  "obligations r [] owed = Inr owed"
| "obligations r (x # xs) owed =
     (if sagaState x = RESERVED \<or> sagaState x = SUBMITTED
      then rbind (case sagaPayoutUsd x of Some u \<Rightarrow> Inr u | None \<Rightarrow> convertFloor (sagaReserve x) r USD) (\<lambda>u.
             obligations r xs (owed + minor u))
      else obligations r xs owed)"

definition measureFloat :: "ctx \<Rightarrow> amount res \<Rightarrow> unit_state \<Rightarrow> float_position res" where
  "measureFloat c feed s =
     rbind (obligations (c_payout c) (map snd (sagaRows (u_sagas s))) 0) (\<lambda>owed.
     rbind (case feed of Inl e \<Rightarrow> Inl (normalizePortError e) | Inr a \<Rightarrow> Inr a) (\<lambda>held.
     let short = (if minor held < owed then owed - minor held else 0)
     in rbind (toAmount USD owed) (\<lambda>due.
        rbind (toAmount USD short) (\<lambda>sh.
          Inr \<lparr>fp_float = held, fp_obligations = due, fp_shortfall = sh, fp_covered = (short = 0)\<rparr>))))"

definition sweepFloatCoverage :: "ctx \<Rightarrow> amount res \<Rightarrow> unit_state \<Rightarrow> float_tally" where
  "sweepFloatCoverage c feed s = (case measureFloat c feed s of
     Inl e \<Rightarrow> \<lparr>ft_position = None, ft_breaches = [],
         ft_retrying = (if err_retryable e then [err_code e] else []),
         ft_failed = (if err_retryable e then [] else [err_code e])\<rparr>
   | Inr p \<Rightarrow> \<lparr>ft_position = Some p,
         ft_breaches = (if fp_covered p then []
            else [(encodeAmount (fp_shortfall p), encodeAmount (fp_obligations p), encodeAmount (fp_float p))]),
         ft_retrying = [], ft_failed = []\<rparr>)"

section \<open>What may be swept\<close>

definition usdToCredit :: "int \<Rightarrow> rate \<Rightarrow> int res" where
  "usdToCredit held par = (if rate par = 0 then Inr 0 else mulDiv held (10 ^ scale par) (rate par) Floor)"

definition surplusCredit :: "ctx \<Rightarrow> (unit_state, int) act" where
  "surplusCredit c =
     sbind (gets (\<lambda>s. backingTotals (ledger_accounts s) (balance_read (u_ledger s)))) (\<lambda>r.
     sbind (lift r) (\<lambda>t.
     sbind (lift (usdToCredit (trustCashMinor t) (c_par c))) (\<lambda>v. ret (v - custodialCreditMinor t))))"

definition matured_balance :: "ctx \<Rightarrow> AccountRef \<Rightarrow> (unit_state, amount) act" where
  "matured_balance c acct =
     sbind (l_balance (unit_ledger c) acct) (\<lambda>live.
     sbind (gets (\<lambda>s. the (maturedBalance (timelineOf (u_ledger s)) (minor live) acct (c_now c) (c_config c)))) lift)"

definition maturedRevenueByShard :: "ctx \<Rightarrow> (unit_state, (AccountRef \<times> int) list) act" where
  "maturedRevenueByShard c = smap (\<lambda>shard. sbind (matured_balance c shard) (\<lambda>m. ret (shard, minor m)))
     (shardsOf REVENUE (shards c))"

definition sweepableCredit :: "ctx \<Rightarrow> (unit_state, int) act" where
  "sweepableCredit c =
     sbind (surplusCredit c) (\<lambda>surplus.
     sbind (maturedRevenueByShard c) (\<lambda>by_shard.
     let cleared = (\<Sum>(shard, m)\<leftarrow>by_shard. m);
         ceiling = (if surplus < cleared then surplus else cleared)
     in ret (if ceiling < 0 then 0 else ceiling)))"

text \<open>The detail of the fault holds the ceiling as an amount, so building it may overflow first.\<close>

definition assertWithinSweepable :: "amount \<Rightarrow> int \<Rightarrow> unit res" where
  "assertWithinSweepable a sweepable =
     (if minor a \<le> sweepable then Inr () else rbind (toAmount CREDIT sweepable) (\<lambda>_. Inl (fault COMMINGLING)))"

fun drain_shards :: "currency \<Rightarrow> (AccountRef \<times> int) list \<Rightarrow> int \<Rightarrow> leg list res" where
  "drain_shards cur [] remaining = Inr []"
| "drain_shards cur ((shard, m) # rest) remaining =
     (if remaining = 0 then Inr []
      else (let part = (if m < remaining then m else remaining)
            in if part > 0
               then rbind (toAmount cur part) (\<lambda>a.
                    rbind (drain_shards cur rest (remaining - part)) (\<lambda>ls. Inr (debit shard a # ls)))
               else drain_shards cur rest remaining))"

definition revenueDrainLegs :: "ctx \<Rightarrow> amount \<Rightarrow> (unit_state, leg list) act" where
  "revenueDrainLegs c a = sbind (maturedRevenueByShard c) (\<lambda>by_shard. lift (drain_shards (currency a) by_shard (minor a)))"

section \<open>The fee sweep\<close>

record fee_sweep =
  fs_swept :: amount
  fs_txn :: "transaction option"

definition sweep_key :: "string \<Rightarrow> string" where
  "sweep_key k = ''sweep:'' @ k"

definition sweep_claim :: "ctx \<Rightarrow> string option \<Rightarrow> (unit_state, bool) act" where
  "sweep_claim c key = (case key of
     None \<Rightarrow> ret True
   | Some k \<Rightarrow> sbind (idem_claim_act c (sweep_key k)) (\<lambda>prior. ret (prior = None)))"

text \<open>The pair of postings: credits from matured revenue, and the cash at par.\<close>

definition fee_postings :: "ctx \<Rightarrow> amount \<Rightarrow> amount \<Rightarrow> (unit_state, transaction) act" where
  "fee_postings c a cashUsd =
     sbind (fresh c ''txn'') (\<lambda>t1.
     sbind (revenueDrainLegs c a) (\<lambda>drain.
     sbind (lift (credit STORED_VALUE a)) (\<lambda>back.
     sbind (postEntry (unit_ledger c) \<lparr>txnId = t1, legs = drain @ [back],
       meta = [(''kind'', JStr ''treasury.fee_sweep''), (''amount'', JStr (encodeAmount a)), (''rateId'', JStr (rateId (c_par c)))]\<rparr>) (\<lambda>txn.
     sbind (fresh c ''txn'') (\<lambda>t2.
     sbind (lift (credit TRUST_CASH cashUsd)) (\<lambda>cash.
     sbind (postEntry (unit_ledger c) \<lparr>txnId = t2, legs = [debit USD_CLEARING cashUsd, cash],
       meta = [(''kind'', JStr ''treasury.fee_sweep.cash''), (''amount'', JStr (encodeAmount cashUsd)), (''rateId'', JStr (rateId (c_par c)))]\<rparr>) (\<lambda>_.
     ret txn)))))))"

definition sweep_txn :: "ctx \<Rightarrow> amount \<Rightarrow> string option \<Rightarrow> (unit_state, fee_sweep) act" where
  "sweep_txn c a key =
     sbind (sweep_claim c key) (\<lambda>won.
     if \<not> won then ret \<lparr>fs_swept = zero_amount CREDIT, fs_txn = None\<rparr>
     else
     sbind (lockAll (unit_ledger c) ([TRUST_CASH, USD_CLEARING] @ shardsOf REVENUE (shards c) @ [STORED_VALUE])) (\<lambda>_.
     sbind (sweepableCredit c) (\<lambda>sweepable.
     sbind (lift (assertWithinSweepable a sweepable)) (\<lambda>_.
     sbind (lift (convertFloor a (c_par c) USD)) (\<lambda>cashUsd.
     sbind (fee_postings c a cashUsd) (\<lambda>txn.
     sbind (case key of None \<Rightarrow> ret () | Some k \<Rightarrow> idem_record_act c (sweep_key k) txn) (\<lambda>_.
     sbind (fresh c ''evt'') (\<lambda>i.
     sbind (enqueue_event c \<lparr>eventId = i, eventType = ''economy.fees.swept'', eventVersion = 1, occurredAt = c_now c,
       eventSubject = txnId txn, eventData = JObj [(''swept'', JStr (encodeAmount a))], clientAudience = False\<rparr> None) (\<lambda>_.
     ret \<lparr>fs_swept = a, fs_txn = Some txn\<rparr>)))))))))"

definition sweepFees :: "ctx \<Rightarrow> amount \<Rightarrow> string option \<Rightarrow> unit_state \<Rightarrow> fee_sweep res \<times> unit_state" where
  "sweepFees c a key s =
     (if minor a \<le> 0 then (Inl (fault INVALID_AMOUNT), s) else transact (sweep_txn c a key) s)"

record fee_summary =
  sum_swept :: string
  sum_skipped :: bool
  sum_duplicate :: bool

definition realizeFees :: "ctx \<Rightarrow> int \<Rightarrow> unit_state \<Rightarrow> fee_summary res \<times> unit_state" where
  "realizeFees c now s = (case transact (sweepableCredit c) s of
     (Inl e, s1) \<Rightarrow> (Inl e, s1)
   | (Inr available, s1) \<Rightarrow>
       (if available \<le> 0
        then (Inr \<lparr>sum_swept = encodeAmount (zero_amount CREDIT), sum_skipped = True, sum_duplicate = False\<rparr>, s1)
        else (case toAmount CREDIT available of
          Inl e \<Rightarrow> (Inl e, s1)
        | Inr a \<Rightarrow> (case sweepFees c a (Some (''fees:'' @ int_text now)) s1 of
            (Inl e, s2) \<Rightarrow> (Inl e, s2)
          | (Inr r, s2) \<Rightarrow> (Inr \<lparr>sum_swept = encodeAmount (fs_swept r), sum_skipped = False,
              sum_duplicate = (fs_txn r = None)\<rparr>, s2)))))"

section \<open>What a sweep does to the backing\<close>

definition sum_where :: "(AccountRef \<Rightarrow> bool) \<Rightarrow> (AccountRef \<Rightarrow> int) \<Rightarrow> AccountRef set \<Rightarrow> int" where
  "sum_where P b F = (\<Sum>a\<in>F. if P a then b a else 0)"

lemma backing_reach:
  assumes "ledger_reach dig (u_ledger s)" "backingTotals (ledger_accounts s) (balance_read (u_ledger s)) = Inr t"
    and "finite F" "account ` set (all_legs (u_ledger s)) \<subseteq> F"
  shows "custodialCreditMinor t = sum_where isCustodialCredit (getz (balances (u_ledger s))) F"
    "trustCashMinor t = sum_where isTrustCashShard (getz (balances (u_ledger s))) F"
proof -
  let ?b = "getz (balances (u_ledger s))" and ?as = "ledger_accounts s"
  note ha = head_accounts [OF assms(1)]
  have s: "set ?as = account ` set (all_legs (u_ledger s))" "distinct ?as"
    using ha by (simp_all add: ledger_accounts_def sortedHeads_def) (metis distinct_map mset_eq_imp_distinct_iff mset_map mset_sort)
  have z: "?b a = 0" if "a \<notin> set ?as" for a
    using ledger_reach_books [OF assms(1)] that net_absent [of a "all_legs (u_ledger s)"] unfolding books_ok_def s(1) by simp
  have e: "(\<Sum>a\<leftarrow>?as. if P a then ?b a else 0) = sum_where P ?b F" for P
  proof -
    have "(\<Sum>a\<leftarrow>?as. if P a then ?b a else 0) = (\<Sum>a\<in>set ?as. if P a then ?b a else 0)"
      using s(2) by (rule sum_list_distinct_conv_sum_set)
    also have "\<dots> = sum_where P ?b F"
      unfolding sum_where_def using assms(3,4) s(1) z by (intro sum.mono_neutral_left) auto
    finally show ?thesis .
  qed
  show "custodialCreditMinor t = sum_where isCustodialCredit ?b F" "trustCashMinor t = sum_where isTrustCashShard ?b F"
    using backing_loop_sums [OF assms(2) [unfolded backingTotals_def]] e by (simp_all add: no_backing_def)
qed

lemma surplusCredit_Inr:
  assumes "surplusCredit c s = Inr (v, s')"
  shows "s' = s \<and> (\<exists>t w. backingTotals (ledger_accounts s) (balance_read (u_ledger s)) = Inr t \<and>
    usdToCredit (trustCashMinor t) (c_par c) = Inr w \<and> v = w - custodialCreditMinor t)"
  using assms by (auto simp: surplusCredit_def)

lemma matured_balance_reads: "matured_balance c a s = Inr (m, s') \<Longrightarrow> s' = s"
  by (auto simp: matured_balance_def on_ledger_Inr)

lemma maturedRevenue_Inr:
  assumes "maturedRevenueByShard c s = Inr (rows, s')"
  shows "s' = s \<and> map fst rows = shardsOf REVENUE (shards c)"
proof -
  have "smap (\<lambda>shard. sbind (matured_balance c shard) (\<lambda>m. ret (shard, minor m))) xs s = Inr (ys, s') \<Longrightarrow> s' = s \<and> map fst ys = xs" for xs ys
    by (induction xs arbitrary: ys) (auto dest!: matured_balance_reads)
  then show ?thesis using assms by (simp add: maturedRevenueByShard_def)
qed

lemma sweepable_Inr:
  assumes "sweepableCredit c s = Inr (v, s')"
  shows "s' = s \<and> (v = 0 \<or> (\<exists>t w. backingTotals (ledger_accounts s) (balance_read (u_ledger s)) = Inr t \<and>
    usdToCredit (trustCashMinor t) (c_par c) = Inr w \<and> v \<le> w - custodialCreditMinor t))"
  using assms by (fastforce simp: sweepableCredit_def Let_def split: if_splits dest!: surplusCredit_Inr maturedRevenue_Inr)

lemma drain_accounts: "drain_shards cur rows m = Inr ls \<Longrightarrow> account ` set ls \<subseteq> fst ` set rows"
proof (induction cur rows m arbitrary: ls rule: drain_shards.induct)
  case (2 cur shard m rest remaining)
  then show ?case by (auto simp: Let_def debit_def split: if_splits) blast+
qed simp

text \<open>The two postings of a sweep that posts.\<close>

lemma sweep_parts:
  assumes "sweep_txn c a key s = Inr (r, s')" "fs_txn r = Some txn"
  obtains t w cashUsd p1 t1 l1 p2 t2 where
    "backingTotals (ledger_accounts s) (balance_read (u_ledger s)) = Inr t" "usdToCredit (trustCashMinor t) (c_par c) = Inr w"
    "minor a \<le> w - custodialCreditMinor t \<or> minor a \<le> 0"
    "convertFloor a (c_par c) USD = Inr cashUsd"
    "postEntry (memory_ledger (c_digest c) (c_now c)) p1 (u_ledger s) = Inr (t1, l1)"
    "account ` set (legs p1) \<subseteq> insert STORED_VALUE (set (shardsOf REVENUE (shards c)))"
    "postEntry (memory_ledger (c_digest c) (c_now c)) p2 l1 = Inr (t2, u_ledger s')"
    "legs p2 = [debit USD_CLEARING cashUsd, \<lparr>account = TRUST_CASH, amount = \<lparr>currency = currency cashUsd, minor = - minor cashUsd\<rparr>\<rparr>]"
proof -
  have ev: "enqueue_event c e cid u = Inr (x, u') \<Longrightarrow> u_ledger u' = u_ledger u" for e cid u x u'
    by (auto simp: enqueue_event_def pendingOutbox_def)
  have rec: "(case key of None \<Rightarrow> ret () | Some k \<Rightarrow> idem_record_act c (sweep_key k) tx) u = Inr (x, u') \<Longrightarrow> u_ledger u' = u_ledger u" for tx u x u'
    by (cases key) (auto simp: idem_record_act_def)
  obtain s1 sw s2 cashUsd tx s3 where
    cl: "sweep_claim c key s = Inr (True, s1)" and sw: "sweepableCredit c s1 = Inr (sw, s2)"
    and le: "assertWithinSweepable a sw = Inr ()" and usd: "convertFloor a (c_par c) USD = Inr cashUsd"
    and fp: "fee_postings c a cashUsd s2 = Inr (tx, s3)" and l3: "u_ledger s' = u_ledger s3"
    using assms by (auto simp: sweep_txn_def split: if_splits dest!: ev rec)
  have l1: "u_ledger s1 = u_ledger s" using cl by (cases key) (auto simp: sweep_claim_def idem_claim_act_def split: prod.splits)
  note sa = sweepable_Inr [OF sw]
  obtain rows drain t1 u1 t2 u2 i j where
    rows: "map fst rows = shardsOf REVENUE (shards c)"
      "drain_shards (currency a) rows (minor a) = Inr drain"
    and p1: "postEntry (memory_ledger (c_digest c) (c_now c)) \<lparr>txnId = i, legs = drain @
        [\<lparr>account = STORED_VALUE, amount = \<lparr>currency = currency a, minor = - minor a\<rparr>\<rparr>],
        meta = [(''kind'', JStr ''treasury.fee_sweep''), (''amount'', JStr (encodeAmount a)), (''rateId'', JStr (rateId (c_par c)))]\<rparr>
        (u_ledger s2) = Inr (t1, u1)"
    and p2: "postEntry (memory_ledger (c_digest c) (c_now c)) \<lparr>txnId = j, legs = [debit USD_CLEARING cashUsd,
        \<lparr>account = TRUST_CASH, amount = \<lparr>currency = currency cashUsd, minor = - minor cashUsd\<rparr>\<rparr>],
        meta = [(''kind'', JStr ''treasury.fee_sweep.cash''), (''amount'', JStr (encodeAmount cashUsd)), (''rateId'', JStr (rateId (c_par c)))]\<rparr>
        u1 = Inr (t2, u2)" and u2: "u_ledger s3 = u2"
    using fp by (auto simp: fee_postings_def revenueDrainLegs_def on_ledger_Inr dest!: maturedRevenue_Inr)
  have ac: "account ` set drain \<subseteq> set (shardsOf REVENUE (shards c))"
    using drain_accounts [OF rows(2)] rows(1) by (metis image_set)
  have e: "u_ledger s2 = u_ledger s" using sa l1 by simp
  have cap: "minor a \<le> sw" using le by (auto simp: assertWithinSweepable_def split: if_splits)
  have tot: "\<exists>t w. backingTotals (ledger_accounts s1) (balance_read (u_ledger s1)) = Inr t \<and> usdToCredit (trustCashMinor t) (c_par c) = Inr w"
    using sw by (auto simp: sweepableCredit_def dest!: surplusCredit_Inr)
  have b: "backingTotals (ledger_accounts s1) (balance_read (u_ledger s1)) = backingTotals (ledger_accounts s) (balance_read (u_ledger s))"
    by (simp add: ledger_accounts_def l1)
  obtain t w where tw: "backingTotals (ledger_accounts s) (balance_read (u_ledger s)) = Inr t"
    "usdToCredit (trustCashMinor t) (c_par c) = Inr w" "minor a \<le> w - custodialCreditMinor t \<or> minor a \<le> 0"
    using sa cap b tot by force
  show ?thesis
    by (rule that [OF tw usd p1 [unfolded e] _ p2 [folded u2, folded l3]]) (use ac in auto)
qed

lemma sum_where_add: "sum_where P (\<lambda>a. b a + d a) F = sum_where P b F + sum_where P d F"
  by (simp add: sum_where_def flip: sum.distrib) (rule sum.cong, auto)

lemma sum_where_none: "(\<And>a. a \<in> account ` set ls \<Longrightarrow> \<not> P a) \<Longrightarrow> sum_where P (\<lambda>a. net a ls) F = 0"
  unfolding sum_where_def by (rule sum.neutral) (auto intro: net_absent)

lemma house_kinds:
  "\<not> isCustodialCredit STORED_VALUE" "\<not> isCustodialCredit USD_CLEARING" "\<not> isCustodialCredit TRUST_CASH"
  "\<not> isTrustCashShard STORED_VALUE" "\<not> isTrustCashShard USD_CLEARING" "isTrustCashShard TRUST_CASH"
  "isDebitNormal TRUST_CASH" "TRUST_CASH \<noteq> USD_CLEARING"
  by code_simp+

lemma revenue_kinds: "a \<in> set (shardsOf REVENUE n) \<Longrightarrow> \<not> isCustodialCredit a \<and> \<not> isTrustCashShard a"
proof -
  assume "a \<in> set (shardsOf REVENUE n)"
  then obtain k where "a = shardRef REVENUE k" by (auto simp: shardsOf_def)
  moreover have "REVENUE \<in> set SHARDED" "REVENUE \<noteq> TRUST_CASH" "map_of SYSTEM_TRAITS REVENUE = Some (CREDIT, False, HouseLiability)" by code_simp+
  ultimately show ?thesis by (simp add: isCustodialCredit_def isTrustCashShard_def classify_def)
qed

text \<open>What is taken at par never reaches into what the credits need.\<close>

lemma par_margin:
  fixes cust a trust r S :: int
  assumes "0 < r" "0 < S" "cust + a \<le> trust * S div r"
  shows "cust * r div S + a * r div S \<le> trust"
proof -
  have "(cust + a) * r \<le> trust * S div r * r" using assms by (simp add: mult_right_mono)
  also have "\<dots> \<le> trust * S" using assms(1) by (simp add: minus_mod_eq_div_mult [symmetric])
  finally have m: "(cust + a) * r \<le> trust * S" .
  have "cust * r div S * S + a * r div S * S \<le> cust * r + a * r"
    using assms(2) by (intro add_mono) (simp_all add: minus_mod_eq_div_mult [symmetric])
  then have "(cust * r div S + a * r div S) * S \<le> trust * S" using m by (simp add: distrib_right)
  then show ?thesis using assms(2) by simp
qed

lemma sweep_no_txn:
  assumes "sweep_txn c a key s = Inr (r, s')" "fs_txn r = None"
  shows "u_ledger s' = u_ledger s"
  using assms by (cases key) (auto simp: sweep_txn_def sweep_claim_def idem_claim_act_def split: if_splits prod.splits)

lemma sweep_backing:
  assumes "ledger_reach (c_digest c) (u_ledger s)" "0 < rate (c_par c)" "sweepFees c a key s = (Inr r, s')"
  shows "case fs_txn r of None \<Rightarrow> u_ledger s' = u_ledger s
    | Some t \<Rightarrow> ledger_reach (c_digest c) (u_ledger s') \<and> (\<forall>p. measureBacking c s' = Inr p \<longrightarrow> bp_backed p)"
proof (cases "fs_txn r")
  case None
  then show ?thesis using assms(3) sweep_no_txn by (auto simp: sweepFees_def transact_def split: if_splits sum.splits)
next
  case (Some txn)
  have st: "sweep_txn c a key s = Inr (r, s')" "0 < minor a"
    using assms(3) by (auto simp: sweepFees_def transact_def split: if_splits sum.splits)
  obtain t w cashUsd p1 t1 l1 p2 t2 where
    t: "backingTotals (ledger_accounts s) (balance_read (u_ledger s)) = Inr t" "usdToCredit (trustCashMinor t) (c_par c) = Inr w"
    and cap: "minor a \<le> w - custodialCreditMinor t \<or> minor a \<le> 0"
    and usd: "convertFloor a (c_par c) USD = Inr cashUsd"
    and p1: "postEntry (memory_ledger (c_digest c) (c_now c)) p1 (u_ledger s) = Inr (t1, l1)"
      "account ` set (legs p1) \<subseteq> insert STORED_VALUE (set (shardsOf REVENUE (shards c)))"
    and p2: "postEntry (memory_ledger (c_digest c) (c_now c)) p2 l1 = Inr (t2, u_ledger s')"
      "legs p2 = [debit USD_CLEARING cashUsd, \<lparr>account = TRUST_CASH, amount = \<lparr>currency = currency cashUsd, minor = - minor cashUsd\<rparr>\<rparr>]"
    by (rule sweep_parts [OF st(1) Some])
  have reach: "ledger_reach (c_digest c) (u_ledger s')" by (rule lr_post [OF lr_post [OF assms(1) p1(1)] p2(1)])
  have "bp_backed p" if p: "measureBacking c s' = Inr p" for p
  proof -
    obtain t' req where t': "backingTotals (ledger_accounts s') (balance_read (u_ledger s')) = Inr t'"
      and req: "backingRequiredMinor (custodialCreditMinor t') (c_par c) = Inr req"
      and bp: "bp_backed p \<longleftrightarrow> backingShortfallMinor req (trustCashMinor t') = 0"
      using p by (auto simp: measureBacking_def Let_def)
    let ?b = "getz (balances (u_ledger s))" and ?b' = "getz (balances (u_ledger s'))"
    let ?F = "insert TRUST_CASH (account ` set (all_legs (u_ledger s)) \<union> account ` set (all_legs (u_ledger s')))"
    have bal: "?b' = (\<lambda>x. ?b x + (net x (legs p1) + net x (legs p2)))"
      using mem.postEntry_spec(1) [OF p1(1)] mem.postEntry_spec(1) [OF p2(1)] by (simp add: fun_eq_iff)
    have f: "finite ?F" "account ` set (all_legs (u_ledger s)) \<subseteq> ?F" "account ` set (all_legs (u_ledger s')) \<subseteq> ?F" by auto
    note s0 = backing_reach [OF assms(1) t(1) f(1,2)] and s1 = backing_reach [OF reach t' f(1,3)]
    have c0: "sum_where isCustodialCredit (\<lambda>x. net x (legs p1)) ?F = 0" "sum_where isCustodialCredit (\<lambda>x. net x (legs p2)) ?F = 0"
      "sum_where isTrustCashShard (\<lambda>x. net x (legs p1)) ?F = 0"
      using p1(2) house_kinds revenue_kinds by (intro sum_where_none; force simp: p2(2) debit_def)+
    have "sum_where isTrustCashShard (\<lambda>x. net x (legs p2)) ?F = (\<Sum>x\<in>{TRUST_CASH}. - minor cashUsd)"
      unfolding sum_where_def using house_kinds
      by (intro sum.mono_neutral_cong_right) (auto simp: p2(2) debit_def moved_def)
    then have "custodialCreditMinor t' = custodialCreditMinor t" "trustCashMinor t' = trustCashMinor t - minor cashUsd"
      using s0 s1 c0 unfolding bal sum_where_add by simp_all
    moreover have "minor cashUsd = minor a * rate (c_par c) div 10 ^ scale (c_par c)"
      using usd by (auto simp: convertFloor_value Let_def split: if_splits)
    moreover have "req = custodialCreditMinor t' * rate (c_par c) div 10 ^ scale (c_par c)"
      using req by (auto simp: backingRequiredMinor_def convertFloor_value Let_def split: if_splits)
    moreover have "w = trustCashMinor t * 10 ^ scale (c_par c) div rate (c_par c)"
      using t(2) assms(2) by (auto simp: usdToCredit_def mulDiv_Floor checkI64_def split: if_splits)
    ultimately have "req + minor cashUsd \<le> trustCashMinor t"
      using par_margin [OF assms(2), of "10 ^ scale (c_par c)" "custodialCreditMinor t" "minor a" "trustCashMinor t"] cap st(2) by simp
    then show ?thesis using \<open>trustCashMinor t' = trustCashMinor t - minor cashUsd\<close> by (simp add: bp backingShortfallMinor_def)
  qed
  then show ?thesis using Some reach by simp
qed

section \<open>A concrete sweep\<close>

text \<open>A lot does not show the links of its posting.\<close>

lemma timelineOf_links:
  assumes "map (\<lambda>r. r\<lparr>links := []\<rparr>) (plog s) = plog t" "lotIndex s = lotIndex t" "\<forall>ps \<in> snd ` set (lotIndex s). \<forall>i \<in> set ps. i < length (plog s)"
  shows "timelineOf s = timelineOf t"
proof -
  have lp: "lotsOfPosting (r\<lparr>links := []\<rparr>) a = lotsOfPosting r a" for r :: stored and a
    by (simp add: lotsOfPosting_def lot_of_def)
  have tl: "timeline_loop a off lim sk yd (map (\<lambda>r. r\<lparr>links := []\<rparr>) rows) = timeline_loop a off lim sk yd rows" for a off lim sk yd rows
    by (induction rows arbitrary: sk yd) (auto simp: lp split: prod.split)
  have rows: "map ((!) (plog t)) ps = map (\<lambda>r. r\<lparr>links := []\<rparr>) (map ((!) (plog s)) ps)" if "\<forall>i \<in> set ps. i < length (plog s)" for ps
    using that by (simp flip: assms(1))
  show ?thesis
  proof (intro ext)
    fix a d lim off
    show "timelineOf s a d lim off = timelineOf t a d lim off"
    proof (cases "map_of (lotIndex s) a")
      case None then show ?thesis using assms(2) by (simp add: timelineOf_def)
    next
      case (Some ps)
      then have "\<forall>i \<in> set ps. i < length (plog s)" using assms(3) by (force dest: map_of_SomeD)
      note r = rows [OF this]
      have m: "map_of (lotIndex t) a = Some ps" using Some assms(2) by simp
      show ?thesis unfolding timelineOf_def Some m option.case r Let_def
        by (cases d) (simp_all only: tl rev_map if_True if_False)
    qed
  qed
qed

definition demo_cash :: posting where
  "demo_cash = \<lparr>txnId = ''t1'', legs =
     [debit TRUST_CASH \<lparr>currency = USD, minor = 100\<rparr>, \<lparr>account = USD_CLEARING, amount = \<lparr>currency = USD, minor = - 100\<rparr>\<rparr>], meta = []\<rparr>"

definition demo_fees :: posting where
  "demo_fees = \<lparr>txnId = ''t2'', legs =
     [debit STORED_VALUE \<lparr>currency = CREDIT, minor = 500\<rparr>, \<lparr>account = REVENUE, amount = \<lparr>currency = CREDIT, minor = - 500\<rparr>\<rparr>], meta = []\<rparr>"

definition demo_rows :: "ledger_state" where
  "demo_rows = empty_ledger\<lparr>plog :=
     [\<lparr>txnId = ''t1'', legs = legs demo_cash, meta = [], postedAt = 1, links = [], pseq = 1\<rparr>,
      \<lparr>txnId = ''t2'', legs = legs demo_fees, meta = [], postedAt = 1, links = [], pseq = 2\<rparr>],
     lotIndex := [(TRUST_CASH, [0]), (STORED_VALUE, [1]), (REVENUE, [1])]\<rparr>"

lemma demo_matured: "maturedBalance (timelineOf demo_rows) 500 REVENUE 10000000000000 demo_config = Some (Inr \<lparr>currency = CREDIT, minor = 500\<rparr>)"
  by code_simp

lemma demo_fee_ledger:
  obtains l where "ledger_reach demo_digest l" "timelineOf l = timelineOf demo_rows"
    "getz (balances l) = (\<lambda>a. net a (legs demo_cash) + net a (legs demo_fees))" "\<forall>a. \<bar>getz (balances l) a\<bar> \<le> 500"
    "account ` set (all_legs l) = {TRUST_CASH, USD_CLEARING, STORED_VALUE, REVENUE}"
proof -
  have e: "\<forall>a. \<bar>getz (balances empty_ledger) a\<bar> \<le> 0" by (simp add: empty_ledger_def)
  have f: "list_all (\<lambda>l. \<not> isUserGuarded (account l)) (legs demo_cash)" "refusal empty_ledger (filter (\<lambda>l. minor (amount l) \<noteq> 0) (legs demo_cash)) = None"
    "dropZeroLegs demo_cash = demo_cash" "lottedAccounts (legs demo_cash) = [TRUST_CASH]" "(\<Sum>l\<leftarrow>legs demo_cash. \<bar>moved l\<bar>) = 200"
    "list_all (\<lambda>l. \<not> isUserGuarded (account l)) (legs demo_fees)" "refusal empty_ledger (filter (\<lambda>l. minor (amount l) \<noteq> 0) (legs demo_fees)) = None"
    "dropZeroLegs demo_fees = demo_fees" "lottedAccounts (legs demo_fees) = [STORED_VALUE, REVENUE]" "(\<Sum>l\<leftarrow>legs demo_fees. \<bar>moved l\<bar>) = 1000"
    by code_simp+
  have m: "\<exists>cm. canonicalMeta (JObj (meta demo_cash)) = Inr cm" "\<exists>cm. canonicalMeta (JObj (meta demo_fees)) = Inr cm"
    by (simp_all add: demo_cash_def demo_fees_def)
  obtain t1 l1 where l1: "postEntry (memory_ledger demo_digest 1) demo_cash empty_ledger = Inr (t1, l1)"
    using house_posting_total [where dig' = demo_digest and dig = demo_digest and now = 1, OF lr_empty e m(1) f(1,2)] f(5) by (auto simp: I64_MAX_def)
  have r1: "ledger_reach demo_digest l1" using lr_post [OF lr_empty l1] .
  have d: "isDebitNormal TRUST_CASH" "isDebitNormal USD_CLEARING" "isDebitNormal STORED_VALUE" "\<not> isDebitNormal REVENUE" by code_simp+
  have n: "\<bar>net a (legs demo_cash)\<bar> \<le> 100" "\<bar>net a (legs demo_fees)\<bar> \<le> 500"
     "net a (legs demo_cash) = 0 \<or> net a (legs demo_fees) = 0" for a
    using d by (auto simp: demo_cash_def demo_fees_def debit_def moved_def system_ids)
  have b1: "getz (balances l1) a = net a (legs demo_cash)" for a
    using mem.postEntry_spec(1) [OF l1, of a] by (simp add: empty_ledger_def)
  then have "\<forall>a. \<bar>getz (balances l1) a\<bar> \<le> 100" using n(1) by simp
  from house_posting_total [where dig = demo_digest and now = 1, OF r1 this m(2) f(6,7)] obtain t2 l where l: "postEntry (memory_ledger demo_digest 1) demo_fees l1 = Inr (t2, l)"
    using f(10) by (auto simp: I64_MAX_def)
  have r: "ledger_reach demo_digest l" using lr_post [OF r1 l] .
  have b: "getz (balances l) a = net a (legs demo_cash) + net a (legs demo_fees)" for a
    using mem.postEntry_spec(1) [OF l, of a] b1 by simp
  have "\<bar>getz (balances l) a\<bar> \<le> 500" for a using n [of a] b [of a] by auto
  moreover have "timelineOf l = timelineOf demo_rows"
  proof (rule timelineOf_links)
    note c1 = commit_after [OF l1 f(3)] and c2 = commit_after [OF l f(8)]
    show "map (\<lambda>r. r\<lparr>links := []\<rparr>) (plog l) = plog demo_rows"
      using c1(1,3) c2(1) by (auto simp: demo_rows_def demo_cash_def demo_fees_def empty_ledger_def)
    have pl: "length (plog l) = 2" "length (plog l1) = 1" using c1(1) c2(1) by (auto simp: empty_ledger_def)
    show i: "lotIndex l = lotIndex demo_rows"
      using c1(2) c2(2) f(4,9) pl(2) by (simp add: demo_rows_def empty_ledger_def push_lot_def system_ids)
    show "\<forall>ps \<in> snd ` set (lotIndex l). \<forall>i \<in> set ps. i < length (plog l)"
      by (simp add: i pl demo_rows_def)
  qed
  moreover have "getz (balances l) = (\<lambda>a. net a (legs demo_cash) + net a (legs demo_fees))" using b by (simp add: fun_eq_iff)
  moreover have "all_legs l = legs demo_cash @ legs demo_fees"
    using commit_after(1) [OF l1 f(3)] commit_after(1) [OF l f(8)] by (auto simp: all_legs_def empty_ledger_def)
  then have "account ` set (all_legs l) = {TRUST_CASH, USD_CLEARING, STORED_VALUE, REVENUE}"
    by (simp add: demo_cash_def demo_fees_def debit_def)
  ultimately show ?thesis using that r by blast
qed


abbreviation demo_fee :: amount where
  "demo_fee \<equiv> \<lparr>currency = CREDIT, minor = 500\<rparr>"

abbreviation sweep_ctx :: ctx where
  "sweep_ctx \<equiv> demo_ctx 10000000000000"

lemma demo_sweepable:
  assumes "ledger_reach demo_digest l" "timelineOf l = timelineOf demo_rows"
    "getz (balances l) = (\<lambda>a. net a (legs demo_cash) + net a (legs demo_fees))"
    "account ` set (all_legs l) = {TRUST_CASH, USD_CLEARING, STORED_VALUE, REVENUE}" "u_ledger s = l"
  shows "sweepableCredit sweep_ctx s = Inr (500, s)" "maturedRevenueByShard sweep_ctx s = Inr ([(REVENUE, 500)], s)"
proof -
  let ?F = "{TRUST_CASH, USD_CLEARING, STORED_VALUE, REVENUE}"
  have i: "\<forall>a. in_i64 (getz (balances l) a)" using ledger_reach_books [OF assms(1)] unfolding books_ok_def by blast
  then obtain t where t: "backingTotals (ledger_accounts s) (balance_read (u_ledger s)) = Inr t"
    using backing_loop_total [OF i, of "ledger_accounts s" no_backing] unfolding backingTotals_def assms(5) by blast
  note br = backing_reach [OF _ t, of demo_digest ?F, unfolded assms(5), OF assms(1)]
  have k: "isCustodialCredit TRUST_CASH = False" "isCustodialCredit USD_CLEARING = False" "isCustodialCredit STORED_VALUE = False"
    "isCustodialCredit REVENUE = False" "isTrustCashShard TRUST_CASH" "isTrustCashShard USD_CLEARING = False"
    "isTrustCashShard STORED_VALUE = False" "isTrustCashShard REVENUE = False" by code_simp+
  have n: "net TRUST_CASH (legs demo_cash) + net TRUST_CASH (legs demo_fees) = 100"
    "net REVENUE (legs demo_cash) + net REVENUE (legs demo_fees) = 500" by code_simp+
  have "TRUST_CASH \<noteq> USD_CLEARING" "TRUST_CASH \<noteq> STORED_VALUE" "TRUST_CASH \<noteq> REVENUE" by (simp_all add: system_ids)
  then have "custodialCreditMinor t = 0" "trustCashMinor t = 100"
    using br assms(4) n(1) k by (simp_all add: sum_where_def assms(3) sum.insert_if)
  moreover have "usdToCredit 100 (c_par sweep_ctx) = Inr 10000" by code_simp
  ultimately have su: "surplusCredit sweep_ctx s = Inr (10000, s)"
    using t by (simp add: surplusCredit_def sbind_def gets_def lift_def ret_def)
  have c: "c_now sweep_ctx = 10000000000000" "c_config sweep_ctx = demo_config" by (simp_all add: demo_ctx_def)
  have "matured_balance sweep_ctx REVENUE s = Inr (\<lparr>currency = CREDIT, minor = 500\<rparr>, s)"
  proof -
    have "currencyOf REVENUE = CREDIT" by code_simp
    then have "l_balance (unit_ledger sweep_ctx) REVENUE s = Inr (\<lparr>currency = CREDIT, minor = 500\<rparr>, s)"
      using i n(2) assms(3,5) by (simp add: on_ledger_Inr) (metis)
    then show ?thesis using assms(2,5) c demo_matured by (simp add: matured_balance_def sbind_def gets_def lift_def)
  qed
  moreover have "shardsOf REVENUE (shards sweep_ctx) = [REVENUE]" by code_simp
  ultimately show m: "maturedRevenueByShard sweep_ctx s = Inr ([(REVENUE, 500)], s)"
    by (simp add: maturedRevenueByShard_def sbind_def ret_def)
  show "sweepableCredit sweep_ctx s = Inr (500, s)"
    using su m by (simp add: sweepableCredit_def sbind_def ret_def)
qed

lemma demo_sweep:
  assumes "ledger_reach demo_digest l" "timelineOf l = timelineOf demo_rows"
    "getz (balances l) = (\<lambda>a. net a (legs demo_cash) + net a (legs demo_fees))"
    "\<forall>a. \<bar>getz (balances l) a\<bar> \<le> 500"
    "account ` set (all_legs l) = {TRUST_CASH, USD_CLEARING, STORED_VALUE, REVENUE}"
  shows "\<exists>r s'. sweepFees sweep_ctx demo_fee None (empty_unit\<lparr>u_ledger := l\<rparr>) = (Inr r, s') \<and> fs_txn r \<noteq> None"
proof -
  let ?s = "empty_unit\<lparr>u_ledger := l\<rparr>" and ?c = sweep_ctx
  let ?u = "\<lparr>currency = USD, minor = 5\<rparr>"
  let ?p1 = "\<lparr>txnId = c_ids ?c ''txn'' (u_drawn ?s), legs = [debit REVENUE demo_fee] @ [\<lparr>account = STORED_VALUE, amount = \<lparr>currency = CREDIT, minor = - 500\<rparr>\<rparr>],
       meta = [(''kind'', JStr ''treasury.fee_sweep''), (''amount'', JStr (encodeAmount demo_fee)), (''rateId'', JStr (rateId (c_par ?c)))]\<rparr>"
  let ?p2 = "\<lparr>txnId = c_ids ?c ''txn'' (u_drawn ?s + 1), legs = [debit USD_CLEARING ?u, \<lparr>account = TRUST_CASH, amount = \<lparr>currency = USD, minor = - 5\<rparr>\<rparr>],
       meta = [(''kind'', JStr ''treasury.fee_sweep.cash''), (''amount'', JStr (encodeAmount ?u)), (''rateId'', JStr (rateId (c_par ?c)))]\<rparr>"
  have d: "c_digest ?c = demo_digest" by (simp add: demo_ctx_def)
  have f: "list_all (\<lambda>l. \<not> isUserGuarded (account l)) [debit REVENUE demo_fee, \<lparr>account = STORED_VALUE, amount = \<lparr>currency = CREDIT, minor = - 500\<rparr>\<rparr>]"
    "refusal empty_ledger (filter (\<lambda>l. minor (amount l) \<noteq> 0) [debit REVENUE demo_fee, \<lparr>account = STORED_VALUE, amount = \<lparr>currency = CREDIT, minor = - 500\<rparr>\<rparr>]) = None"
    "(\<Sum>l\<leftarrow>[debit REVENUE demo_fee, \<lparr>account = STORED_VALUE, amount = \<lparr>currency = CREDIT, minor = - 500\<rparr>\<rparr>]. \<bar>moved l\<bar>) = 1000"
    "list_all (\<lambda>l. \<not> isUserGuarded (account l)) [debit USD_CLEARING ?u, \<lparr>account = TRUST_CASH, amount = \<lparr>currency = USD, minor = - 5\<rparr>\<rparr>]"
    "refusal empty_ledger (filter (\<lambda>l. minor (amount l) \<noteq> 0) [debit USD_CLEARING ?u, \<lparr>account = TRUST_CASH, amount = \<lparr>currency = USD, minor = - 5\<rparr>\<rparr>]) = None"
    "(\<Sum>l\<leftarrow>[debit USD_CLEARING ?u, \<lparr>account = TRUST_CASH, amount = \<lparr>currency = USD, minor = - 5\<rparr>\<rparr>]. \<bar>moved l\<bar>) = 10"
    by code_simp+
  have lp: "legs ?p1 = [debit REVENUE demo_fee, \<lparr>account = STORED_VALUE, amount = \<lparr>currency = CREDIT, minor = - 500\<rparr>\<rparr>]" "legs ?p2 = [debit USD_CLEARING ?u, \<lparr>account = TRUST_CASH, amount = \<lparr>currency = USD, minor = - 5\<rparr>\<rparr>]" by simp_all
  have m: "\<exists>cm. canonicalMeta (JObj (meta ?p1)) = Inr cm" "\<exists>cm. canonicalMeta (JObj (meta ?p2)) = Inr cm"
    by (rule hashable_flat, simp)+
  obtain t1 l1 where l1: "postEntry (memory_ledger demo_digest (c_now ?c)) ?p1 l = Inr (t1, l1)"
    using house_posting_total [where dig = demo_digest and now = "c_now ?c", OF assms(1,4) m(1), unfolded lp, OF f(1,2)] f(3)
    by (auto simp: I64_MAX_def)
  have r1: "ledger_reach demo_digest l1" using lr_post [OF assms(1) l1] .
  have nb: "\<bar>net a (legs ?p1)\<bar> \<le> 500" for a by (auto simp: debit_def moved_def system_ids)
  have "\<bar>getz (balances l1) a\<bar> \<le> 1000" for a
    using mem.postEntry_spec(1) [OF l1, of a] assms(4) nb [of a] by (smt (verit))
  then obtain t2 l2 where l2: "postEntry (memory_ledger demo_digest (c_now ?c)) ?p2 l1 = Inr (t2, l2)"
    using house_posting_total [where dig = demo_digest and now = "c_now ?c" and B = 1000, OF r1 _ m(2), unfolded lp, OF _ f(4,5)] f(6)
    by (auto simp: I64_MAX_def)
  have sw: "sweepableCredit ?c ?s = Inr (500, ?s)"
    "maturedRevenueByShard ?c (?s\<lparr>u_drawn := u_drawn ?s + 1\<rparr>) = Inr ([(REVENUE, 500)], ?s\<lparr>u_drawn := u_drawn ?s + 1\<rparr>)"
    using demo_sweepable [OF assms(1-3,5)] by simp_all
  have g: "assertWithinSweepable demo_fee 500 = Inr ()" "convertFloor demo_fee (c_par ?c) USD = Inr ?u"
    "drain_shards CREDIT [(REVENUE, 500)] 500 = Inr [debit REVENUE demo_fee]" "credit STORED_VALUE demo_fee = Inr \<lparr>account = STORED_VALUE, amount = \<lparr>currency = CREDIT, minor = - 500\<rparr>\<rparr>"
    "credit TRUST_CASH ?u = Inr \<lparr>account = TRUST_CASH, amount = \<lparr>currency = USD, minor = - 5\<rparr>\<rparr>" by code_simp+
  let ?s2 = "?s\<lparr>u_drawn := u_drawn ?s + 1, u_ledger := l1\<rparr>"
  have q1: "postEntry (unit_ledger ?c) ?p1 (?s\<lparr>u_drawn := u_drawn ?s + 1\<rparr>) = Inr (t1, ?s\<lparr>u_drawn := u_drawn ?s + 1, u_ledger := l1\<rparr>)"
    using l1 d by (simp add: on_ledger_Inr)
  have q2: "postEntry (unit_ledger ?c) ?p2 (?s2\<lparr>u_drawn := u_drawn ?s2 + 1\<rparr>) = Inr (t2, ?s2\<lparr>u_drawn := u_drawn ?s2 + 1, u_ledger := l2\<rparr>)"
    using l2 d by (simp add: on_ledger_Inr)
  have rd: "revenueDrainLegs ?c demo_fee (?s\<lparr>u_drawn := u_drawn ?s + 1\<rparr>) = Inr ([debit REVENUE demo_fee], ?s\<lparr>u_drawn := u_drawn ?s + 1\<rparr>)"
    using g(3) sw(2) by (simp add: revenueDrainLegs_def sbind_def lift_def toAmount_ok)
  have rb: "sbind (revenueDrainLegs ?c demo_fee) h (?s\<lparr>u_drawn := u_drawn ?s + 1\<rparr>) = h [debit REVENUE demo_fee] (?s\<lparr>u_drawn := u_drawn ?s + 1\<rparr>)" for h
    using rd by (rule act_bind)
  have pb1: "sbind (postEntry (unit_ledger ?c) ?p1) h (?s\<lparr>u_drawn := u_drawn ?s + 1\<rparr>) = h t1 (?s\<lparr>u_drawn := u_drawn ?s + 1, u_ledger := l1\<rparr>)" for h
    using q1 by (rule act_bind)
  have pb2: "sbind (postEntry (unit_ledger ?c) ?p2) h (?s2\<lparr>u_drawn := u_drawn ?s2 + 1\<rparr>) = h t2 (?s2\<lparr>u_drawn := u_drawn ?s2 + 1, u_ledger := l2\<rparr>)" for h
    using q2 by (rule act_bind)
  have fp: "fee_postings ?c demo_fee ?u ?s = Inr (t1, ?s2\<lparr>u_drawn := u_drawn ?s2 + 1, u_ledger := l2\<rparr>)"
    unfolding fee_postings_def fresh_bind rb lift_bind [OF g(4)] pb1 fresh_bind lift_bind [OF g(5)]
    using pb2 [of "\<lambda>_. ret t1"] by (simp add: ret_def)
  obtain s4 where ev: "sweep_txn ?c demo_fee None ?s = Inr (\<lparr>fs_swept = demo_fee, fs_txn = Some t1\<rparr>, s4)"
    using sw(1) g(1,2) fp by (auto simp: sweep_txn_def sweep_claim_def sbind_def ret_def lift_def fresh_def enqueue_event_def
        pendingOutbox_def modify_def)
  then show ?thesis by (simp add: sweepFees_def transact_def)
qed

section \<open>Properties\<close>

text \<open>
  (C13) A fee sweep never touches the users' backing. On a reached ledger and at a positive par rate, a
  sweep that comes back either posted nothing (a repeated key) or left the credits of users backed:
  the backing check, if it completes, finds the trust cash at or above what the users' spendable
  credits need at par. Only the surplus above that can be taken, whatever the roundings were.
\<close>

theorem fee_sweep_keeps_backing:
  assumes "ledger_reach (c_digest c) (u_ledger s)" "0 < rate (c_par c)" "sweepFees c a key s = (Inr r, s')"
  shows "case fs_txn r of None \<Rightarrow> u_ledger s' = u_ledger s
    | Some t \<Rightarrow> ledger_reach (c_digest c) (u_ledger s') \<and> (\<forall>p. measureBacking c s' = Inr p \<longrightarrow> bp_backed p)"
  by (rule sweep_backing [OF assms])

theorem fee_sweep_keeps_backing_witness:
  "\<exists>s r s'. sweepFees sweep_ctx demo_fee None s = (Inr r, s') \<and> fs_txn r \<noteq> None \<and>
     (\<forall>p. measureBacking sweep_ctx s' = Inr p \<longrightarrow> bp_backed p)"
proof -
  obtain l where l: "ledger_reach demo_digest l" "timelineOf l = timelineOf demo_rows"
    "getz (balances l) = (\<lambda>a. net a (legs demo_cash) + net a (legs demo_fees))" "\<forall>a. \<bar>getz (balances l) a\<bar> \<le> 500"
    "account ` set (all_legs l) = {TRUST_CASH, USD_CLEARING, STORED_VALUE, REVENUE}"
    by (rule demo_fee_ledger)
  obtain r s' where r: "sweepFees sweep_ctx demo_fee None (empty_unit\<lparr>u_ledger := l\<rparr>) = (Inr r, s')" "fs_txn r \<noteq> None"
    using demo_sweep [OF l] by blast
  have "ledger_reach (c_digest sweep_ctx) (u_ledger (empty_unit\<lparr>u_ledger := l\<rparr>))" "0 < rate (c_par sweep_ctx)"
    using l(1) by (simp_all add: demo_ctx_def demo_rate_def)
  from fee_sweep_keeps_backing [OF this r(1)] r show ?thesis by (auto split: option.splits)
qed

end
