(* ===== verification/Reconcile.thy ===== *)
theory Reconcile
  imports Money
begin

text \<open>
  src/reconcile.ts and the job of src/worker/reconcile.ts: the records of the processor are paired with
  those of the ledger by kind and match key, and what does not pair up is reported. A record is inside
  a half-open window. The feed that pulls both sides is a parameter; logs and meters are left out.
\<close>

section \<open>Records and reports\<close>

datatype reconcile_kind = Buy | Payout

record processor_record =
  prKind :: reconcile_kind
  prKey :: string
  prAmount :: amount
  prRef :: string
  settledAt :: int

record ledger_record =
  lrKind :: reconcile_kind
  lrKey :: string
  lrAmount :: amount
  lrTxn :: string
  lrPostedAt :: int

datatype discrepancy_kind = ProcessorOrphan | LedgerOrphan | AmountDrift

record discrepancy =
  dcKind :: discrepancy_kind
  dcKey :: string
  dcRecord :: reconcile_kind
  processorAmount :: "string option"
  ledgerAmount :: "string option"

record window_range =
  rgFrom :: int
  rgTo :: int

record reconcile_report =
  rpWindow :: window_range
  rpReconciled :: bool
  rpMatched :: nat
  rpProcessorCount :: nat
  rpLedgerCount :: nat
  rpProcessorOrphans :: nat
  rpLedgerOrphans :: nat
  rpAmountDrifts :: nat
  rpDiscrepancies :: "discrepancy list"

record reconcile_inputs =
  inProcessor :: "processor_record list"
  inLedger :: "ledger_record list"

section \<open>Matching primitives\<close>

definition record_kind_text :: "reconcile_kind \<Rightarrow> string" where
  "record_kind_text k = (case k of Buy \<Rightarrow> ''buy'' | Payout \<Rightarrow> ''payout'')"

definition discrepancy_text :: "discrepancy_kind \<Rightarrow> string" where
  "discrepancy_text k = (case k of ProcessorOrphan \<Rightarrow> ''processor_orphan'' | LedgerOrphan \<Rightarrow> ''ledger_orphan''
     | AmountDrift \<Rightarrow> ''amount_drift'')"

definition withinWindow :: "'r list \<Rightarrow> window_range \<Rightarrow> ('r \<Rightarrow> int) \<Rightarrow> 'r list" where
  "withinWindow rs w at = filter (\<lambda>r. at r \<ge> rgFrom w \<and> at r < rgTo w) rs"

definition keyOf :: "reconcile_kind \<Rightarrow> string \<Rightarrow> string" where
  "keyOf k matchKey = record_kind_text k @ '':'' @ matchKey"

definition index_step :: "ledger_record \<Rightarrow> (string \<times> ledger_record list) list \<Rightarrow> (string \<times> ledger_record list) list" where
  "index_step r index = (let key = keyOf (lrKind r) (lrKey r) in
     case map_of index key of
       None \<Rightarrow> AList.update key [r] index
     | Some bucket \<Rightarrow> AList.update key (bucket @ [r]) index)"

definition indexByKey :: "ledger_record list \<Rightarrow> (string \<times> ledger_record list) list" where
  "indexByKey ledger = fold index_step ledger []"

definition sameAmount :: "amount \<Rightarrow> amount \<Rightarrow> bool" where
  "sameAmount a b = (if currency a \<noteq> currency b then False else compare a b = Inr 0)"

definition processorOrphan :: "processor_record \<Rightarrow> discrepancy" where
  "processorOrphan r = \<lparr>dcKind = ProcessorOrphan, dcKey = prKey r, dcRecord = prKind r,
     processorAmount = Some (encodeAmount (prAmount r)), ledgerAmount = None\<rparr>"

definition ledgerOrphan :: "ledger_record \<Rightarrow> discrepancy" where
  "ledgerOrphan r = \<lparr>dcKind = LedgerOrphan, dcKey = lrKey r, dcRecord = lrKind r,
     processorAmount = None, ledgerAmount = Some (encodeAmount (lrAmount r))\<rparr>"

definition amountDrift :: "processor_record \<Rightarrow> ledger_record \<Rightarrow> discrepancy" where
  "amountDrift p l = \<lparr>dcKind = AmountDrift, dcKey = prKey p, dcRecord = prKind p,
     processorAmount = Some (encodeAmount (prAmount p)), ledgerAmount = Some (encodeAmount (lrAmount l))\<rparr>"

section \<open>The two passes\<close>

text \<open>\<open>index.get(key)?.shift()\<close>: the oldest record of the bucket, which loses it.\<close>

definition shift_bucket ::
    "string \<Rightarrow> (string \<times> ledger_record list) list \<Rightarrow> ledger_record option \<times> (string \<times> ledger_record list) list" where
  "shift_bucket key index = (case map_of index key of
     None \<Rightarrow> (None, index)
   | Some [] \<Rightarrow> (None, index)
   | Some (l # ls) \<Rightarrow> (Some l, AList.update key ls index))"

fun matchProcessorSide ::
    "processor_record list \<Rightarrow> (string \<times> ledger_record list) list \<Rightarrow> discrepancy list \<Rightarrow> nat \<Rightarrow>
     nat \<times> (string \<times> ledger_record list) list \<times> discrepancy list" where
  "matchProcessorSide [] index ds matched = (matched, index, ds)"
| "matchProcessorSide (r # rs) index ds matched =
     (case shift_bucket (keyOf (prKind r) (prKey r)) index of
        (None, index1) \<Rightarrow> matchProcessorSide rs index1 (ds @ [processorOrphan r]) matched
      | (Some l, index1) \<Rightarrow>
          (if sameAmount (prAmount r) (lrAmount l) then matchProcessorSide rs index1 ds (matched + 1)
           else matchProcessorSide rs index1 (ds @ [amountDrift r l]) matched))"

definition collectLedgerOrphans :: "(string \<times> ledger_record list) list \<Rightarrow> discrepancy list \<Rightarrow> discrepancy list" where
  "collectLedgerOrphans remaining ds = ds @ concat (map (\<lambda>(key, bucket). map ledgerOrphan bucket) remaining)"

definition matchSides :: "processor_record list \<Rightarrow> ledger_record list \<Rightarrow> nat \<times> discrepancy list" where
  "matchSides processor ledger =
     (case matchProcessorSide processor (indexByKey ledger) [] 0 of
        (matched, index, ds) \<Rightarrow> (matched, collectLedgerOrphans index ds))"

section \<open>The report\<close>

definition countKind :: "discrepancy list \<Rightarrow> discrepancy_kind \<Rightarrow> nat" where
  "countKind ds k = length (filter (\<lambda>d. dcKind d = k) ds)"

text \<open>The chain of \<open>byCodeUnit\<close> comparisons is the lexicographic order of the three texts.\<close>

definition byDiscrepancy :: "discrepancy \<Rightarrow> string list" where
  "byDiscrepancy d = [discrepancy_text (dcKind d), dcKey d, record_kind_text (dcRecord d)]"

definition assertAccountedFor :: "nat \<Rightarrow> nat \<Rightarrow> nat \<Rightarrow> nat \<Rightarrow> nat \<Rightarrow> nat \<Rightarrow> unit res" where
  "assertAccountedFor matched drifts porphans lorphans pcount lcount =
     ensure (matched + drifts + porphans = pcount \<and> matched + drifts + lorphans = lcount)
       (HostError ''reconcile: internal accounting mismatch'')"

definition report ::
    "window_range \<Rightarrow> processor_record list \<Rightarrow> ledger_record list \<Rightarrow> nat \<times> discrepancy list \<Rightarrow> reconcile_report res" where
  "report w processor ledger m =
     (let ds = sort_key byDiscrepancy (snd m);
          porphans = countKind ds ProcessorOrphan;
          lorphans = countKind ds LedgerOrphan;
          drifts = countKind ds AmountDrift
      in rbind (assertAccountedFor (fst m) drifts porphans lorphans (length processor) (length ledger)) (\<lambda>_.
           Inr \<lparr>rpWindow = w, rpReconciled = (ds = []), rpMatched = fst m, rpProcessorCount = length processor,
             rpLedgerCount = length ledger, rpProcessorOrphans = porphans, rpLedgerOrphans = lorphans,
             rpAmountDrifts = drifts, rpDiscrepancies = ds\<rparr>))"

definition reconcile :: "window_range \<Rightarrow> reconcile_inputs \<Rightarrow> reconcile_report res" where
  "reconcile w inputs =
     (let processor = withinWindow (inProcessor inputs) w settledAt;
          ledger = withinWindow (inLedger inputs) w lrPostedAt
      in report w processor ledger (matchSides processor ledger))"

section \<open>The job\<close>

record reconcile_tally =
  rtReconciled :: "reconcile_report list"
  rtDrifted :: "reconcile_report list"
  rtFailed :: "(window_range \<times> error_code \<times> bool) list"

definition record_report :: "reconcile_report \<Rightarrow> reconcile_tally \<Rightarrow> reconcile_tally" where
  "record_report r t = (if rpReconciled r then t\<lparr>rtReconciled := rtReconciled t @ [r]\<rparr>
     else t\<lparr>rtDrifted := rtDrifted t @ [r]\<rparr>)"

definition reconcileOne ::
    "(window_range \<Rightarrow> reconcile_inputs res) \<Rightarrow> window_range \<Rightarrow> reconcile_tally \<Rightarrow> reconcile_tally" where
  "reconcileOne pull w t =
     (case rbind (case pull w of Inl e \<Rightarrow> Inl (normalizePortError e) | Inr i \<Rightarrow> Inr i) (reconcile w) of
        Inr r \<Rightarrow> record_report r t
      | Inl e \<Rightarrow> (case normalizeError e of EconomyError c retryable \<Rightarrow> t\<lparr>rtFailed := rtFailed t @ [(w, c, retryable)]\<rparr>
                | HostError _ \<Rightarrow> t))"

definition reconcileDueWindows ::
    "(window_range \<Rightarrow> reconcile_inputs res) \<Rightarrow> window_range list \<Rightarrow> reconcile_tally" where
  "reconcileDueWindows pull ws =
     foldl (\<lambda>t w. reconcileOne pull w t) \<lparr>rtReconciled = [], rtDrifted = [], rtFailed = []\<rparr> ws"

section \<open>What a reconciliation promises\<close>

text \<open>The reference: the two sides of one key, paired in their order.\<close>

fun key_differences :: "processor_record list \<Rightarrow> ledger_record list \<Rightarrow> discrepancy list" where
  "key_differences [] ls = map ledgerOrphan ls"
| "key_differences (p # ps) [] = processorOrphan p # key_differences ps []"
| "key_differences (p # ps) (l # ls) =
     (if prAmount p = lrAmount l then [] else [amountDrift p l]) @ key_differences ps ls"

fun key_matches :: "processor_record list \<Rightarrow> ledger_record list \<Rightarrow> nat" where
  "key_matches (p # ps) (l # ls) = (if prAmount p = lrAmount l then 1 else 0) + key_matches ps ls"
| "key_matches ps ls = 0"

definition p_of :: "reconcile_kind \<Rightarrow> string \<Rightarrow> processor_record list \<Rightarrow> processor_record list" where
  "p_of k key ps = filter (\<lambda>r. prKind r = k \<and> prKey r = key) ps"

definition l_of :: "reconcile_kind \<Rightarrow> string \<Rightarrow> ledger_record list \<Rightarrow> ledger_record list" where
  "l_of k key ls = filter (\<lambda>r. lrKind r = k \<and> lrKey r = key) ls"

definition d_of :: "reconcile_kind \<Rightarrow> string \<Rightarrow> discrepancy list \<Rightarrow> discrepancy list" where
  "d_of k key ds = filter (\<lambda>d. dcRecord d = k \<and> dcKey d = key) ds"

lemmas of_defs = p_of_def l_of_def d_of_def

lemma keyOf_inject [simp]: "keyOf k a = keyOf k' b \<longleftrightarrow> k = k' \<and> a = b"
  by (cases k; cases k') (auto simp: keyOf_def record_kind_text_def)

lemma sameAmount_eq [simp]: "sameAmount a b \<longleftrightarrow> a = b"
  by (cases a; cases b) (auto simp: sameAmount_def compare_def assertSameCurrency_def split: if_splits)

lemma orphan_sel [simp]:
  "dcKind (processorOrphan r) = ProcessorOrphan" "dcKey (processorOrphan r) = prKey r" "dcRecord (processorOrphan r) = prKind r"
  "dcKind (ledgerOrphan l) = LedgerOrphan" "dcKey (ledgerOrphan l) = lrKey l" "dcRecord (ledgerOrphan l) = lrKind l"
  "dcKind (amountDrift r l) = AmountDrift" "dcKey (amountDrift r l) = prKey r" "dcRecord (amountDrift r l) = prKind r"
  by (simp_all add: processorOrphan_def ledgerOrphan_def amountDrift_def)

text \<open>An index holds each key once, and under it records of that key.\<close>

definition bucket :: "(string \<times> ledger_record list) list \<Rightarrow> string \<Rightarrow> ledger_record list" where
  "bucket index key = (case map_of index key of None \<Rightarrow> [] | Some ls \<Rightarrow> ls)"

definition index_ok :: "(string \<times> ledger_record list) list \<Rightarrow> bool" where
  "index_ok index \<longleftrightarrow> distinct (map fst index) \<and> (\<forall>(key, ls) \<in> set index. \<forall>l \<in> set ls. keyOf (lrKind l) (lrKey l) = key)"

lemma bucket_update [simp]: "bucket (AList.update k v m) j = (if j = k then v else bucket m j)"
  by (simp add: bucket_def)

lemma index_ok_update:
  assumes "index_ok m" "\<forall>l \<in> set ls. keyOf (lrKind l) (lrKey l) = key"
  shows "index_ok (AList.update key ls m)"
proof -
  have "set (AList.update key ls m) \<subseteq> insert (key, ls) (set m)" by (induction m) auto
  then have "\<forall>(k, xs) \<in> set (AList.update key ls m). \<forall>l \<in> set xs. keyOf (lrKind l) (lrKey l) = k"
    using assms unfolding index_ok_def by blast
  then show ?thesis using assms(1) by (simp add: index_ok_def distinct_update)
qed

lemma bucket_keys: "index_ok m \<Longrightarrow> l \<in> set (bucket m key) \<Longrightarrow> keyOf (lrKind l) (lrKey l) = key"
  by (auto simp: index_ok_def bucket_def split: option.splits dest!: map_of_SomeD)

lemma indexByKey_spec: "index_ok (indexByKey ls) \<and> bucket (indexByKey ls) (keyOf k key) = l_of k key ls"
proof -
  have "index_ok m \<Longrightarrow> index_ok (fold index_step ls m) \<and>
      bucket (fold index_step ls m) (keyOf k key) = bucket m (keyOf k key) @ l_of k key ls" for m
  proof (induction ls arbitrary: m)
    case (Cons l ls)
    let ?j = "keyOf (lrKind l) (lrKey l)"
    have e: "index_step l m = AList.update ?j (bucket m ?j @ [l]) m"
      by (simp add: index_step_def bucket_def Let_def split: option.split)
    have "index_ok (index_step l m)" unfolding e
      using Cons.prems by (intro index_ok_update) (auto dest!: bucket_keys [OF Cons.prems])
    then show ?case using Cons.IH [of "index_step l m"] e by (auto simp: l_of_def)
  qed (simp add: l_of_def)
  from this [of "[]"] show ?thesis by (simp add: indexByKey_def index_ok_def bucket_def)
qed

lemma shift_bucket_spec:
  "shift_bucket key m = (case bucket m key of [] \<Rightarrow> (None, m) | l # ls \<Rightarrow> (Some l, AList.update key ls m))"
  by (auto simp: shift_bucket_def bucket_def split: option.splits list.splits)

lemma leftover: "index_ok m \<Longrightarrow> mset (d_of k key (collectLedgerOrphans m [])) = mset (map ledgerOrphan (bucket m (keyOf k key)))"
proof (induction m)
  case Nil then show ?case by (simp add: collectLedgerOrphans_def bucket_def d_of_def)
next
  case (Cons e m)
  obtain j ls where e: "e = (j, ls)" by (cases e)
  have ok: "index_ok m" "\<forall>l \<in> set ls. keyOf (lrKind l) (lrKey l) = j" "j \<notin> fst ` set m"
    using Cons.prems by (auto simp: index_ok_def e)
  have "d_of k key (map ledgerOrphan ls) = (if j = keyOf k key then map ledgerOrphan ls else [])"
    using ok(2) by (induction ls) (auto simp: d_of_def split: if_splits)
  moreover have "j = keyOf k key \<Longrightarrow> bucket m (keyOf k key) = []"
    using ok(3) by (auto simp: bucket_def split: option.splits dest!: map_of_SomeD) (force)
  ultimately show ?case using Cons.IH [OF ok(1)]
    by (simp add: collectLedgerOrphans_def e d_of_def bucket_def split: if_splits)
qed

definition held :: "(string \<times> ledger_record list) list \<Rightarrow> nat" where
  "held m = (\<Sum>(key, ls)\<leftarrow>m. length ls)"

lemma held_update: "distinct (map fst m) \<Longrightarrow> held (AList.update key ls m) + length (bucket m key) = held m + length ls"
proof (induction m)
  case (Cons e m)
  obtain j xs where e: "e = (j, xs)" by (cases e)
  show ?case
  proof (cases "j = key")
    case True
    then show ?thesis using Cons.prems by (simp add: e held_def bucket_def)
  next
    case False
    then show ?thesis using Cons by (simp add: e held_def bucket_def)
  qed
qed (simp add: held_def bucket_def)

text \<open>The loop over the processor side.\<close>

lemma held_shift: "index_ok m \<Longrightarrow> bucket m key = l # ls \<Longrightarrow> held (AList.update key ls m) + 1 = held m"
  using held_update [of m key ls] by (simp add: index_ok_def)

lemma matchProcessorSide_spec:
  assumes "index_ok m" "matchProcessorSide ps m ds n = (n', m', ds')"
  shows "\<exists>es. ds' = ds @ es \<and> index_ok m' \<and>
     (\<forall>k key. mset (d_of k key es) + mset (map ledgerOrphan (bucket m' (keyOf k key))) =
        mset (key_differences (p_of k key ps) (bucket m (keyOf k key)))) \<and>
     n' + length es = n + length ps \<and> countKind es LedgerOrphan = 0 \<and>
     n' + countKind es AmountDrift + held m' = n + held m"
  using assms
proof (induction ps arbitrary: m ds n)
  case Nil then show ?case by (auto simp: of_defs countKind_def)
next
  case (Cons r ps)
  let ?j = "keyOf (prKind r) (prKey r)"
  show ?case
  proof (cases "bucket m ?j")
    case Nil
    then have "matchProcessorSide ps m (ds @ [processorOrphan r]) n = (n', m', ds')"
      using Cons.prems(2) by (simp add: shift_bucket_spec)
    from Cons.IH [OF Cons.prems(1) this] obtain es where es: "ds' = ds @ processorOrphan r # es" "index_ok m'"
      "\<And>k key. mset (d_of k key es) + mset (map ledgerOrphan (bucket m' (keyOf k key))) =
        mset (key_differences (p_of k key ps) (bucket m (keyOf k key)))"
      "n' + length es = n + length ps" "countKind es LedgerOrphan = 0" "n' + countKind es AmountDrift + held m' = n + held m"
      by auto
    have "mset (d_of k key (processorOrphan r # es)) + mset (map ledgerOrphan (bucket m' (keyOf k key))) =
        mset (key_differences (p_of k key (r # ps)) (bucket m (keyOf k key)))" for k key
    proof (cases "prKind r = k \<and> prKey r = key")
      case True
      then have "bucket m (keyOf k key) = []" using Nil by auto
      then show ?thesis using es(3) [of k key] True by (simp add: of_defs)
    next
      case False
      then show ?thesis using es(3) [of k key] by (auto simp: of_defs)
    qed
    then show ?thesis using es by (intro exI [of _ "processorOrphan r # es"]) (simp add: countKind_def)
  next
    case (Cons l ls)
    let ?m = "AList.update ?j ls m" and ?d = "if prAmount r = lrAmount l then [] else [amountDrift r l]"
    have ok: "index_ok ?m"
    proof (rule index_ok_update [OF Cons.prems(1)])
      show "\<forall>l \<in> set ls. keyOf (lrKind l) (lrKey l) = ?j"
        using bucket_keys [OF Cons.prems(1), of _ ?j] unfolding Cons by (metis list.set_intros(2))
    qed
    have "matchProcessorSide ps ?m (ds @ ?d) (if prAmount r = lrAmount l then n + 1 else n) = (n', m', ds')"
      using Cons.prems(2) Cons by (auto simp: shift_bucket_spec split: if_splits)
    from Cons.IH [OF ok this] obtain es where es: "ds' = ds @ ?d @ es" "index_ok m'"
      "\<And>k key. mset (d_of k key es) + mset (map ledgerOrphan (bucket m' (keyOf k key))) =
        mset (key_differences (p_of k key ps) (bucket ?m (keyOf k key)))"
      "n' + length es = (if prAmount r = lrAmount l then n + 1 else n) + length ps" "countKind es LedgerOrphan = 0"
      "n' + countKind es AmountDrift + held m' = (if prAmount r = lrAmount l then n + 1 else n) + held ?m"
      by auto
    have "mset (d_of k key (?d @ es)) + mset (map ledgerOrphan (bucket m' (keyOf k key))) =
        mset (key_differences (p_of k key (r # ps)) (bucket m (keyOf k key)))" for k key
    proof (cases "prKind r = k \<and> prKey r = key")
      case True
      then show ?thesis using es(3) [of k key] Cons by (auto simp: of_defs)
    next
      case False
      then show ?thesis using es(3) [of k key] by (auto simp: of_defs)
    qed
    moreover have "held ?m + 1 = held m" using held_shift [OF Cons.prems(1) Cons] .
    ultimately show ?thesis
      using es by (intro exI [of _ "?d @ es"]) (auto simp: countKind_def split: if_splits)
  qed
qed

lemma key_differences_Nil: "key_differences ps ls = [] \<longleftrightarrow> map prAmount ps = map lrAmount ls"
  by (induction ps ls rule: key_differences.induct) auto

lemma d_of_Nil: "(\<forall>k key. d_of k key ds = []) \<longleftrightarrow> ds = []"
  by (cases ds) (auto simp: d_of_def)

lemma kinds_add_up: "countKind ds ProcessorOrphan + countKind ds LedgerOrphan + countKind ds AmountDrift = length ds"
proof (induction ds)
  case (Cons d ds)
  then show ?case by (cases "dcKind d") (auto simp: countKind_def)
qed (simp add: countKind_def)

lemma countKind_sort [simp]: "countKind (sort_key f ds) k = countKind ds k"
  unfolding countKind_def by (metis filter_sort length_sort)

lemma mset_d_of_sort: "mset (d_of k key (sort_key f ds)) = mset (d_of k key ds)"
  by (simp add: d_of_def)

lemma held_orphans: "countKind (collectLedgerOrphans m []) LedgerOrphan = held m \<and> length (collectLedgerOrphans m []) = held m"
  by (induction m) (auto simp: collectLedgerOrphans_def held_def countKind_def comp_def)

lemma held_index: "held (indexByKey ls) = length ls"
proof -
  have "index_ok m \<Longrightarrow> index_ok (fold index_step ls m) \<and> held (fold index_step ls m) = held m + length ls" for m
  proof (induction ls arbitrary: m)
    case (Cons l ls)
    let ?j = "keyOf (lrKind l) (lrKey l)"
    have e: "index_step l m = AList.update ?j (bucket m ?j @ [l]) m"
      by (simp add: index_step_def bucket_def Let_def split: option.split)
    have "held (index_step l m) = held m + 1"
      using held_update [of m ?j "bucket m ?j @ [l]"] Cons.prems by (simp add: e index_ok_def)
    moreover have "index_ok (index_step l m)" unfolding e
      using Cons.prems by (intro index_ok_update) (auto dest!: bucket_keys [OF Cons.prems])
    ultimately show ?case using Cons.IH [of "index_step l m"] by simp
  qed simp
  from this [of "[]"] show ?thesis by (simp add: indexByKey_def index_ok_def held_def)
qed

lemma matchSides_spec:
  assumes "matchSides ps ls = (n, ds)"
  shows "mset (d_of k key ds) = mset (key_differences (p_of k key ps) (l_of k key ls))"
    "n + countKind ds AmountDrift + countKind ds ProcessorOrphan = length ps"
    "n + countKind ds AmountDrift + countKind ds LedgerOrphan = length ls"
proof -
  obtain m es where m: "matchProcessorSide ps (indexByKey ls) [] 0 = (n, m, es)" "ds = collectLedgerOrphans m es"
    using assms by (auto simp: matchSides_def split: prod.splits)
  note ix = indexByKey_spec [of ls]
  from matchProcessorSide_spec [OF conjunct1 [OF ix] m(1)]
  have s: "index_ok m" "mset (d_of k key es) + mset (map ledgerOrphan (bucket m (keyOf k key))) =
      mset (key_differences (p_of k key ps) (l_of k key ls))"
    "n + length es = length ps" "countKind es LedgerOrphan = 0" "n + countKind es AmountDrift + held m = length ls"
    using ix by (simp_all add: held_index)
  have d: "ds = es @ collectLedgerOrphans m []" by (simp add: m(2) collectLedgerOrphans_def)
  have c: "countKind ds j = countKind es j + countKind (collectLedgerOrphans m []) j" for j
    by (simp add: d countKind_def)
  have z: "countKind (collectLedgerOrphans m []) LedgerOrphan = held m"
    "countKind (collectLedgerOrphans m []) ProcessorOrphan = 0" "countKind (collectLedgerOrphans m []) AmountDrift = 0"
    using held_orphans [of m] kinds_add_up [of "collectLedgerOrphans m []"] by simp_all
  have "d_of k key ds = d_of k key es @ d_of k key (collectLedgerOrphans m [])" by (simp add: d d_of_def)
  then show "mset (d_of k key ds) = mset (key_differences (p_of k key ps) (l_of k key ls))"
    using s(2) leftover [OF s(1), of k key] by simp
  show "n + countKind ds AmountDrift + countKind ds ProcessorOrphan = length ps"
    using c z s(3,4) kinds_add_up [of es] by simp
  show "n + countKind ds AmountDrift + countKind ds LedgerOrphan = length ls"
    using c z s(4,5) by simp
qed

section \<open>Properties\<close>

text \<open>
  (C16) A reconciliation accounts for every record. It never trips its own accounting check; under each
  kind and match key the discrepancies are those of pairing the two sides in their order, so a surplus
  record is an orphan and a differing pair a drift; the window reconciles exactly when the amounts of
  both sides agree under every key; and the counts rebuild both sides.
\<close>

theorem reconcile_pairs_by_key:
  "\<exists>r. reconcile w i = Inr r \<and>
     (\<forall>k key. mset (d_of k key (rpDiscrepancies r)) =
        mset (key_differences (p_of k key (withinWindow (inProcessor i) w settledAt)) (l_of k key (withinWindow (inLedger i) w lrPostedAt)))) \<and>
     (rpReconciled r \<longleftrightarrow> (\<forall>k key. map prAmount (p_of k key (withinWindow (inProcessor i) w settledAt)) =
        map lrAmount (l_of k key (withinWindow (inLedger i) w lrPostedAt)))) \<and>
     rpMatched r + rpAmountDrifts r + rpProcessorOrphans r = length (withinWindow (inProcessor i) w settledAt) \<and>
     rpMatched r + rpAmountDrifts r + rpLedgerOrphans r = length (withinWindow (inLedger i) w lrPostedAt)"
proof -
  let ?P = "withinWindow (inProcessor i) w settledAt" and ?L = "withinWindow (inLedger i) w lrPostedAt"
  obtain n ds where m: "matchSides ?P ?L = (n, ds)" by (cases "matchSides ?P ?L")
  note s = matchSides_spec [OF m]
  let ?r = "\<lparr>rpWindow = w, rpReconciled = (sort_key byDiscrepancy ds = []), rpMatched = n, rpProcessorCount = length ?P,
    rpLedgerCount = length ?L, rpProcessorOrphans = countKind ds ProcessorOrphan, rpLedgerOrphans = countKind ds LedgerOrphan,
    rpAmountDrifts = countKind ds AmountDrift, rpDiscrepancies = sort_key byDiscrepancy ds\<rparr>"
  have "reconcile w i = Inr ?r"
    using s(2,3) m by (simp add: reconcile_def report_def assertAccountedFor_def Let_def)
  moreover have "(sort_key byDiscrepancy ds = []) \<longleftrightarrow> (\<forall>k key. d_of k key ds = [])"
    unfolding d_of_Nil by (metis length_0_conv length_sort)
  moreover have "d_of k key ds = [] \<longleftrightarrow> key_differences (p_of k key ?P) (l_of k key ?L) = []" for k key
    using s(1) [of k key] by (metis mset_zero_iff)
  ultimately show ?thesis
    using s by (intro exI [of _ ?r]) (simp add: mset_d_of_sort key_differences_Nil)
qed

end
