(* ===== verification/Audits.thy ===== *)
theory Audits
  imports Integrity Sweeps
begin

text \<open>
  The jobs that keep the history provable: sealing and re-verifying checkpoints
  (src/worker/checkpoint.ts), the rolling re-proof of stored links (src/worker/reproof.ts) and the
  archive mover (src/worker/archive.ts). They run over a vault: the checkpoint store, the in-memory
  ledger and what the cold store accepted. The digest, the signer, the sink and the anchor are
  parameters; a fault leaves what was written before it. Logs and meters are left out.
\<close>

record vault =
  v_cps :: checkpoint_store
  v_ledger :: ledger_state
  v_cold :: "archived list"

section \<open>Sealing\<close>

record checkpoint_tally =
  ck_sealed :: "checkpoint option"
  ck_skipped :: bool
  ck_deadLettered :: "error_code list"
  ck_retrying :: "error_code list"

definition ledger_isEmpty :: "ledger_state \<Rightarrow> bool" where
  "ledger_isEmpty s \<longleftrightarrow> sortedHeads (heads s) = []"

text \<open>The anchor is best effort: what it answers changes nothing.\<close>

definition publishAnchor :: "(checkpoint \<Rightarrow> unit res) option \<Rightarrow> checkpoint \<Rightarrow> bool option" where
  "publishAnchor anchor cp = map_option (\<lambda>publish. publish cp = Inr ()) anchor"

definition driveSeal :: "digest \<Rightarrow> signer \<Rightarrow> int \<Rightarrow> string \<Rightarrow> vault \<Rightarrow> checkpoint option res \<times> vault" where
  "driveSeal dig sg now newId v =
     (if ledger_isEmpty (v_ledger v) then (Inr None, v)
      else case recordCheckpoint dig sg now newId (mem_reads (v_ledger v)) (v_cps v) of
             Inl e \<Rightarrow> (Inl e, v)
           | Inr (cp, cps) \<Rightarrow> (Inr (Some cp), v\<lparr>v_cps := cps\<rparr>))"

definition sealCheckpoint :: "digest \<Rightarrow> signer \<Rightarrow> int \<Rightarrow> string \<Rightarrow> vault \<Rightarrow> checkpoint_tally \<times> vault" where
  "sealCheckpoint dig sg now newId v = (case driveSeal dig sg now newId v of
     (Inl e, v1) \<Rightarrow> (case normalizeError e of n \<Rightarrow>
        (\<lparr>ck_sealed = None, ck_skipped = False,
          ck_deadLettered = (if err_retryable n then [] else [err_code n]),
          ck_retrying = (if err_retryable n then [err_code n] else [])\<rparr>, v1))
   | (Inr sealed, v1) \<Rightarrow>
       (\<lparr>ck_sealed = sealed, ck_skipped = (sealed = None), ck_deadLettered = [], ck_retrying = []\<rparr>, v1))"

datatype seal_outcome = OutSealed | OutSkipped | OutRetrying | OutDeadLettered

definition sealOutcome :: "checkpoint_tally \<Rightarrow> seal_outcome" where
  "sealOutcome t = (if ck_sealed t \<noteq> None then OutSealed
     else if ck_skipped t then OutSkipped
     else if ck_retrying t \<noteq> [] then OutRetrying else OutDeadLettered)"

section \<open>Re-verifying\<close>

record verify_tally =
  vt_verified :: "string option"
  vt_skipped :: bool
  vt_mismatch :: bool
  vt_deadLettered :: "error_code list"
  vt_retrying :: "error_code list"

definition driveVerify :: "digest \<Rightarrow> signer \<Rightarrow> vault \<Rightarrow> verify_tally \<Rightarrow> verify_tally res" where
  "driveVerify dig sg v t = (case cp_latest (v_cps v) of
     None \<Rightarrow> Inr (t\<lparr>vt_skipped := True\<rparr>)
   | Some latest \<Rightarrow> rbind (verifyCheckpoint dig sg (mem_reads (v_ledger v)) latest) (\<lambda>ok.
       Inr (t\<lparr>vt_verified := Some (cpId latest), vt_mismatch := \<not> ok\<rparr>)))"

definition reverifyCheckpoint :: "digest \<Rightarrow> signer \<Rightarrow> vault \<Rightarrow> verify_tally" where
  "reverifyCheckpoint dig sg v =
     (let t = \<lparr>vt_verified = None, vt_skipped = False, vt_mismatch = False, vt_deadLettered = [], vt_retrying = []\<rparr>
      in case driveVerify dig sg v t of
           Inr t1 \<Rightarrow> t1
         | Inl e \<Rightarrow> (let n = normalizeError e in
             if err_retryable n then t\<lparr>vt_retrying := [err_code n]\<rparr> else t\<lparr>vt_deadLettered := [err_code n]\<rparr>))"

section \<open>The rolling re-proof\<close>

record reproof_summary =
  rs_checked :: nat
  rs_cursor :: "nat option"
  rs_rotatedAt :: "int option"

definition reproveStoredChains :: "digest \<Rightarrow> int \<Rightarrow> nat \<Rightarrow> vault \<Rightarrow> reproof_summary res \<times> vault" where
  "reproveStoredChains dig now limit v =
     (let st = (case cpReproof (v_cps v) of Some r \<Rightarrow> r | None \<Rightarrow> \<lparr>rpCursor = None, rpRotatedAt = None\<rparr>);
          page = linksPageOf (plog (v_ledger v)) (rpCursor st) limit
      in case reproveLinks dig (fst page) of
           Inl e \<Rightarrow> (Inl e, v)
         | Inr (Some _) \<Rightarrow> (Inl (fault_retryable CHAIN_BROKEN False), v)
         | Inr None \<Rightarrow>
             (let rotated = (if snd page = None then Some now else rpRotatedAt st)
              in (Inr \<lparr>rs_checked = length (fst page), rs_cursor = snd page, rs_rotatedAt = rotated\<rparr>,
                  v\<lparr>v_cps := cp_putReproof \<lparr>rpCursor = snd page, rpRotatedAt = rotated\<rparr> (v_cps v)\<rparr>)))"

section \<open>The archive mover\<close>

record archive_env =
  ae_digest :: digest
  ae_signer :: signer
  ae_sink :: "archived list \<Rightarrow> unit res"
  ae_olderThan :: int
  ae_limit :: nat
  ae_now :: int

record archive_summary =
  as_moved :: nat
  as_throughSeq :: "nat option"
  as_finished :: bool
  as_skipped :: bool
  as_reason :: "string option"

type_synonym archive_rows = "(AccountRef \<times> (string \<times> int)) list"

definition authenticateSeal :: "archive_env \<Rightarrow> checkpoint_store \<Rightarrow> checkpoint \<Rightarrow> unit res" where
  "authenticateSeal e cps cp =
     (let leaves = cp_sealHeads cps in
      rbind (merkleSumRoot (ae_digest e) leaves) (\<lambda>root.
      rbind (if toHex (fst root) \<noteq> cpRoot cp \<or> length leaves \<noteq> cpCount cp then Inr False
             else rbind (sumRootPayload root) (\<lambda>payl. rbind (fromHex (cpSignature cp)) (\<lambda>sig.
               Inr (sg_verify (ae_signer e) payl sig)))) (\<lambda>ok.
        ensure ok (fault_retryable CHAIN_BROKEN False))))"

definition sealedPrefix :: "archived list \<Rightarrow> int \<Rightarrow> archived list" where
  "sealedPrefix ps sealAt = takeWhile (\<lambda>p. \<not> postedAt (aposting p) > sealAt) ps"

definition eligibleCheckpoint :: "archive_env \<Rightarrow> checkpoint_store \<Rightarrow> archive_summary + checkpoint" where
  "eligibleCheckpoint e cps =
     (let none_yet = \<lparr>as_moved = 0, as_throughSeq = None, as_finished = False, as_skipped = True,
            as_reason = Some ''no v2 sum-carrying checkpoint to archive under''\<rparr>
      in case cp_latest cps of
           None \<Rightarrow> Inl none_yet
         | Some cp \<Rightarrow>
             (if cpVersion cp \<noteq> 2 then Inl none_yet
              else if ae_now e - cpAt cp < ae_olderThan e
              then Inl \<lparr>as_moved = 0, as_throughSeq = None, as_finished = True, as_skipped = False,
                as_reason = Some (''the latest checkpoint is '' @ int_text (ae_now e - cpAt cp) @
                  ''ms old; archival waits for one older than the checkpointOlderThanMs bound ('' @
                  int_text (ae_olderThan e) @ ''ms)'')\<rparr>
              else Inr cp))"

definition resumeBoundary :: "archive_env \<Rightarrow> checkpoint_store \<Rightarrow> (archive_state option \<times> archive_rows) res" where
  "resumeBoundary e cps = (case cpArchive cps of
     None \<Rightarrow> Inr (None, [])
   | Some prior \<Rightarrow>
       (let rows = cp_archiveHeads cps
        in rbind (verifyArchiveHeads (ae_digest e) (ae_signer e) rows prior) (\<lambda>ok.
           if \<not> ok then Inl (fault_retryable CHAIN_BROKEN False)
           else Inr (Some prior, fold (\<lambda>(a, h, v). AList.update a (h, v)) rows []))))"

definition archived_link :: "transaction \<Rightarrow> link \<Rightarrow> stored_link" where
  "archived_link t lk = \<lparr>kaccount = laccount lk, ktxnId = txnId t, klegs = legs t, kmeta = meta t,
     kprev = prevHash lk, khash = lhash lk\<rparr>"

definition raw_total :: "AccountRef \<Rightarrow> leg list \<Rightarrow> int" where
  "raw_total a ls = (\<Sum>l\<leftarrow>filter (\<lambda>l. account l = a) ls. minor (amount l))"

fun verify_links :: "transaction \<Rightarrow> link list \<Rightarrow> archive_rows \<Rightarrow> archive_rows res" where
  "verify_links t [] hs = Inr hs"
| "verify_links t (lk # lks) hs =
     (if prevHash lk \<noteq> (case map_of hs (laccount lk) of Some (h, v) \<Rightarrow> h | None \<Rightarrow> GENESIS_HEX)
      then Inl (fault_retryable CHAIN_BROKEN False)
      else verify_links t lks (AList.update (laccount lk)
             (lhash lk, (case map_of hs (laccount lk) of Some (h, v) \<Rightarrow> v | None \<Rightarrow> 0) + raw_total (laccount lk) (legs t)) hs))"

fun verify_postings :: "archived list \<Rightarrow> archive_rows \<Rightarrow> archive_rows res" where
  "verify_postings [] hs = Inr hs"
| "verify_postings (p # ps) hs = rbind (verify_links (aposting p) (links (aposting p)) hs) (verify_postings ps)"

definition verifyPage :: "archive_env \<Rightarrow> archived list \<Rightarrow> archive_rows \<Rightarrow> archive_rows res" where
  "verifyPage e eligible hs =
     rbind (verify_postings eligible hs) (\<lambda>hs1.
     rbind (reproveLinks (ae_digest e) (concat (map (\<lambda>p. map (archived_link (aposting p)) (links (aposting p))) eligible))) (\<lambda>broken.
       if broken \<noteq> None then Inl (fault_retryable CHAIN_BROKEN False) else Inr hs1))"

text \<open>The new boundary is signed and stored before anything is pruned.\<close>

definition seal_boundary ::
    "archive_env \<Rightarrow> archive_rows \<Rightarrow> nat \<Rightarrow> nat option \<Rightarrow> string \<Rightarrow> checkpoint_store \<Rightarrow> checkpoint_store res" where
  "seal_boundary e hs through cursor cpid cps =
     (let rows = map (\<lambda>(a, h, v). (a, h, v)) hs in
      rbind (merkleSumRoot (ae_digest e) rows) (\<lambda>root.
      rbind (ensure (snd root = 0) (fault_retryable LEDGER_UNBALANCED False)) (\<lambda>_.
      rbind (archivePayload root) (\<lambda>payl.
        Inr (cp_putArchiveBoundary \<lparr>arThroughSeq = through, arCursor = cursor, arRoot = toHex (fst root),
               arSignature = toHex (sg_sign (ae_signer e) payl), arCheckpointId = cpid, arAt = ae_now e\<rparr> rows cps)))))"

definition sealAndPrune ::
    "archive_env \<Rightarrow> archive_rows \<Rightarrow> archived list \<Rightarrow> nat option \<Rightarrow> string \<Rightarrow> vault \<Rightarrow> unit res \<times> vault" where
  "sealAndPrune e hs eligible cursor cpid v =
     (case seal_boundary e hs (aseq (last eligible)) cursor cpid (v_cps v) of
        Inl err \<Rightarrow> (Inl err, v)
      | Inr cps \<Rightarrow> (Inr (), v\<lparr>v_cps := cps,
          v_ledger := pruneFromLog (v_ledger v) (map (\<lambda>p. txnId (aposting p)) eligible)\<rparr>))"

lemma plog_prune: "plog (pruneFromLog s ids) = filter (\<lambda>row. txnId row \<notin> set ids) (plog s)"
proof -
  have "length (filter P xs) = length xs \<Longrightarrow> filter P xs = xs" for P and xs :: "stored list"
    by (metis filter_id_conv length_filter_less nat_neq_iff)
  from this [of "\<lambda>row. txnId row \<notin> set ids" "plog s"] show ?thesis
    by (cases "length (filter (\<lambda>row. txnId row \<notin> set ids) (plog s)) = length (plog s)")
      (simp_all add: pruneFromLog_def Let_def rebuildColumns_def)
qed

lemma archivePageOf_rows:
  "archivePageOf lg cursor limit = (page, nxt) \<Longrightarrow>
     \<exists>rows. page = map (\<lambda>row. \<lparr>aposting = transaction.truncate row, aseq = pseq row\<rparr>) rows \<and> set rows \<subseteq> set lg"
  by (auto simp: archivePageOf_def page_of_def Let_def dest!: in_set_takeD)

lemma sealedPrefix_page: "set (sealedPrefix ps t) \<subseteq> set ps"
  using set_takeWhileD by (fastforce simp: sealedPrefix_def)

lemma archive_shrinks:
  assumes "archivePageOf (plog (v_ledger v)) cursor limit = (page, nxt)" "sealedPrefix page t \<noteq> []"
    "sealAndPrune e hs (sealedPrefix page t) c i v1 = (Inr u, v2)" "v_ledger v1 = v_ledger v"
  shows "length (plog (v_ledger v2)) < length (plog (v_ledger v))"
proof -
  obtain rows where r: "page = map (\<lambda>row. \<lparr>aposting = transaction.truncate row, aseq = pseq row\<rparr>) rows" "set rows \<subseteq> set (plog (v_ledger v))"
    using archivePageOf_rows [OF assms(1)] by blast
  obtain p where p: "p \<in> set (sealedPrefix page t)" using assms(2) by (cases "sealedPrefix page t") auto
  then obtain row where row: "row \<in> set (plog (v_ledger v))" "aposting p = transaction.truncate row"
    using subsetD [OF sealedPrefix_page p] r by auto
  have "txnId row \<in> set (map (\<lambda>p. txnId (aposting p)) (sealedPrefix page t))"
    using p row(2) by (force simp: transaction.defs)
  then show ?thesis
    using assms(3,4) row(1) length_filter_less [of row "plog (v_ledger v)"]
    by (auto simp: sealAndPrune_def plog_prune split: sum.splits)
qed

text \<open>
  The loop of \<open>archiveSealedPrefix\<close>. It ends because a pass that goes on has pruned at least one row.
\<close>

function archive_loop ::
    "archive_env \<Rightarrow> checkpoint \<Rightarrow> archive_rows \<Rightarrow> nat option \<Rightarrow> archive_summary \<Rightarrow> vault \<Rightarrow> archive_summary res \<times> vault" where
  "archive_loop e cp hs cursor summary v =
     (case archivePageOf (plog (v_ledger v)) cursor (ae_limit e) of (page, nxt) \<Rightarrow>
        (if sealedPrefix page (cpAt cp) = [] then (Inr (summary\<lparr>as_finished := True\<rparr>), v)
         else case verifyPage e (sealedPrefix page (cpAt cp)) hs of
                Inl err \<Rightarrow> (Inl err, v)
              | Inr hs1 \<Rightarrow>
         (case ae_sink e (sealedPrefix page (cpAt cp)) of
            Inl err \<Rightarrow> (Inl err, v)
          | Inr _ \<Rightarrow>
         (case sealAndPrune e hs1 (sealedPrefix page (cpAt cp))
                 (if nxt = None \<or> length (sealedPrefix page (cpAt cp)) < length page then None
                  else Some (aseq (last (sealedPrefix page (cpAt cp)))))
                 (cpId cp) (v\<lparr>v_cold := v_cold v @ sealedPrefix page (cpAt cp)\<rparr>) of
            (Inl err, v2) \<Rightarrow> (Inl err, v2)
          | (Inr _, v2) \<Rightarrow>
              (if nxt = None \<or> length (sealedPrefix page (cpAt cp)) < length page
               then (Inr (summary\<lparr>as_moved := as_moved summary + length (sealedPrefix page (cpAt cp)),
                       as_throughSeq := Some (aseq (last (sealedPrefix page (cpAt cp)))), as_finished := True\<rparr>), v2)
               else archive_loop e cp hs1 (Some (aseq (last (sealedPrefix page (cpAt cp)))))
                      (summary\<lparr>as_moved := as_moved summary + length (sealedPrefix page (cpAt cp)),
                       as_throughSeq := Some (aseq (last (sealedPrefix page (cpAt cp))))\<rparr>) v2)))))"
  by pat_completeness auto

termination archive_loop
proof (relation "measure (\<lambda>(e, cp, hs, cursor, summary, v). length (plog (v_ledger v)))", goal_cases)
  case 1 show ?case by simp
next
  case prems: 2
  from prems show ?case by (auto simp: archive_shrinks [OF sym _ sym])
qed

declare archive_loop.simps [simp del]

definition archiveSealedPrefix :: "archive_env \<Rightarrow> vault \<Rightarrow> archive_summary res \<times> vault" where
  "archiveSealedPrefix e v = (case eligibleCheckpoint e (v_cps v) of
     Inl summary \<Rightarrow> (Inr summary, v)
   | Inr cp \<Rightarrow> (case rbind (authenticateSeal e (v_cps v) cp) (\<lambda>_. resumeBoundary e (v_cps v)) of
       Inl err \<Rightarrow> (Inl err, v)
     | Inr (prior, hs) \<Rightarrow>
         archive_loop e cp hs
           (case prior of None \<Rightarrow> None | Some st \<Rightarrow>
              (case arCursor st of Some c \<Rightarrow> Some c | None \<Rightarrow> Some (arThroughSeq st)))
           \<lparr>as_moved = 0, as_throughSeq = map_option arThroughSeq prior, as_finished = False, as_skipped = False, as_reason = None\<rparr>
           v))"

section \<open>Every vault stays provable\<close>

text \<open>
  A vault's history: everything ever posted to its ledger, pruned or not. Posting, sealing, re-proving
  and archiving (whether it ends well or faults) are the steps.
\<close>

definition new_vault :: vault where
  "new_vault = \<lparr>v_cps = empty_checkpoints, v_ledger = empty_ledger, v_cold = []\<rparr>"

inductive vault_reach :: "digest \<Rightarrow> signer \<Rightarrow> stored list \<Rightarrow> vault \<Rightarrow> bool" for dig sg where
  vr_new: "vault_reach dig sg [] new_vault"
| vr_post: "vault_reach dig sg hist v \<Longrightarrow> postEntry (memory_ledger dig now) p (v_ledger v) = Inr (t, l) \<Longrightarrow>
    txnId p \<notin> txnId ` set hist \<Longrightarrow> vault_reach dig sg (hist @ [last (plog l)]) (v\<lparr>v_ledger := l\<rparr>)"
| vr_seal: "vault_reach dig sg hist v \<Longrightarrow> vault_reach dig sg hist (snd (sealCheckpoint dig sg now i v))"
| vr_reprove: "vault_reach dig sg hist v \<Longrightarrow> vault_reach dig sg hist (snd (reproveStoredChains dig now limit v))"
| vr_archive: "vault_reach dig sg hist v \<Longrightarrow> ae_digest e = dig \<Longrightarrow> ae_signer e = sg \<Longrightarrow>
    vault_reach dig sg hist (snd (archiveSealedPrefix e v))"

definition archive_row :: "stored \<Rightarrow> archived" where
  "archive_row row = \<lparr>aposting = transaction.truncate row, aseq = pseq row\<rparr>"

abbreviation chain_of :: "AccountRef \<Rightarrow> stored list \<Rightarrow> stored_link list" where
  "chain_of a rows \<equiv> lineageOf rows a None"

definition end_option :: "stored_link list \<Rightarrow> string option" where
  "end_option ks = (if ks = [] then None else Some (khash (last ks)))"

definition heads_of :: "stored list \<Rightarrow> archive_rows \<Rightarrow> bool" where
  "heads_of rows hs \<longleftrightarrow> distinct (map fst hs) \<and> (\<forall>a. map_option fst (map_of hs a) = end_option (chain_of a rows))"

definition boundary_ok :: "digest \<Rightarrow> signer \<Rightarrow> stored list \<Rightarrow> nat \<Rightarrow> checkpoint_store \<Rightarrow> bool" where
  "boundary_ok dig sg hist m cps \<longleftrightarrow> heads_of (take m hist) (cpArchiveHeads cps) \<and>
     (case cpArchive cps of
        None \<Rightarrow> m = 0 \<and> cpArchiveHeads cps = []
      | Some st \<Rightarrow> 0 < m \<and> arThroughSeq st = pseq (hist ! (m - 1)) \<and>
          (case arCursor st of None \<Rightarrow> True | Some c \<Rightarrow> c = arThroughSeq st) \<and>
          verifyArchiveHeads dig sg (cp_archiveHeads cps) st = Inr True)"

definition hist_ok :: "digest \<Rightarrow> stored list \<Rightarrow> ledger_state \<Rightarrow> bool" where
  "hist_ok dig hist l \<longleftrightarrow>
     sorted_wrt (<) (map pseq hist) \<and> (\<forall>row \<in> set hist. pseq row \<le> seqno l) \<and>
     distinct (map txnId hist) \<and> (\<forall>row \<in> set hist. distinct (map laccount (links row))) \<and>
     (\<forall>a. replays dig a GENESIS_HEX (chain_of a hist)) \<and>
     (\<forall>a. end_of GENESIS_HEX (chain_of a hist) = (case map_of (heads l) a of Some h \<Rightarrow> h | None \<Rightarrow> GENESIS_HEX)) \<and>
     (\<forall>a. getz (balances l) a = net a (concat (map legs hist)))"

definition vault_ok :: "digest \<Rightarrow> signer \<Rightarrow> stored list \<Rightarrow> nat \<Rightarrow> vault \<Rightarrow> bool" where
  "vault_ok dig sg hist m v \<longleftrightarrow> hist_ok dig hist (v_ledger v) \<and> m \<le> length hist \<and>
     plog (v_ledger v) = drop m hist \<and> boundary_ok dig sg hist m (v_cps v) \<and>
     set (map archive_row (take m hist)) \<subseteq> set (v_cold v)"

lemma chain_of_append: "chain_of a (xs @ ys) = chain_of a xs @ chain_of a ys"
proof (induction ys rule: rev_induct)
  case (snoc y ys)
  then show ?case using lineage_snoc [of "xs @ ys" y a] lineage_snoc [of ys y a] by simp
qed (simp add: lineageOf_def)

lemma replays_append: "replays dig a prev (xs @ ys) \<longleftrightarrow> replays dig a prev xs \<and> replays dig a (end_of prev xs) ys"
  by (induction xs arbitrary: prev) (auto simp: end_of_def)

text \<open>Past its first link, with the anchor seen, the walk is the plain one.\<close>

lemma recompute_walk_seen: "recompute_walk dig a anchor prev True False ks = Inr None \<longleftrightarrow> replays dig a prev ks"
  by (induction ks arbitrary: prev) auto

lemma anchored_walk:
  assumes "replays dig a GENESIS_HEX (xs @ ys)"
  shows "recompute_walk dig a (end_option xs) GENESIS_HEX (end_option xs = None) True ys = Inr None"
proof (cases "xs = []")
  case True
  then show ?thesis using assms by (simp add: end_option_def recompute_walk_replays)
next
  case False
  then have "replays dig a (khash (last xs)) ys" using assms by (simp add: replays_append end_of_def)
  then show ?thesis using False by (cases ys) (simp_all add: end_option_def recompute_walk_seen)
qed

text \<open>What signing a boundary and storing it does.\<close>

lemma fold_over_prefix:
  "distinct (map fst (pre @ hs)) \<Longrightarrow> map fst hs = map fst m @ zs \<Longrightarrow>
     fold (\<lambda>(a, h, v). AList.update a (h, v)) hs (pre @ m) = pre @ hs"
proof (induction hs arbitrary: pre m zs)
  case (Cons e hs)
  obtain a x where e: "e = (a, x)" by (cases e)
  have n: "a \<notin> fst ` set pre" using Cons.prems(1) by (auto simp: e)
  have u: "AList.update a x (pre @ m') = pre @ AList.update a x m'" for m'
    using n by (induction pre) auto
  show ?case
  proof (cases m)
    case Nil
    have "fold (\<lambda>(a, h, v). AList.update a (h, v)) hs ((pre @ [e]) @ []) = (pre @ [e]) @ hs"
      by (rule Cons.IH [of "pre @ [e]" "[]" "map fst hs"]) (use Cons.prems(1) in simp_all)
    then show ?thesis using u [of "[]"] Nil by (simp add: e)
  next
    case (Cons d m')
    have k: "fst d = a" "map fst hs = map fst m' @ zs" using Cons.prems(2) Cons by (simp_all add: e)
    have "fold (\<lambda>(a, h, v). AList.update a (h, v)) hs ((pre @ [e]) @ m') = (pre @ [e]) @ hs"
      by (rule Cons.IH [OF _ k(2)]) (use Cons.prems(1) in simp)
    then show ?thesis using u [of "d # m'"] Cons k(1) by (cases d) (simp add: e)
  qed
qed simp

lemma seal_boundary_Inr:
  assumes "seal_boundary e hs through cursor cpid cps = Inr cps'" "distinct (map fst hs)"
    and "map fst hs = map fst (cpArchiveHeads cps) @ zs" "\<forall>m. sg_verify (ae_signer e) m (sg_sign (ae_signer e) m)"
  shows "cpArchiveHeads cps' = hs"
    "\<exists>st. cpArchive cps' = Some st \<and> arThroughSeq st = through \<and> arCursor st = cursor \<and>
       verifyArchiveHeads (ae_digest e) (ae_signer e) (cp_archiveHeads cps') st = Inr True"
proof -
  obtain root payl where r: "merkleSumRoot (ae_digest e) (map (\<lambda>(a, h, v). (a, h, v)) hs) = Inr root" "archivePayload root = Inr payl"
    "cps' = cp_putArchiveBoundary \<lparr>arThroughSeq = through, arCursor = cursor, arRoot = toHex (fst root),
       arSignature = toHex (sg_sign (ae_signer e) payl), arCheckpointId = cpid, arAt = ae_now e\<rparr> (map (\<lambda>(a, h, v). (a, h, v)) hs) cps"
    using assms(1) by (auto simp: seal_boundary_def Let_def)
  show h: "cpArchiveHeads cps' = hs"
    using fold_over_prefix [of "[]" hs "cpArchiveHeads cps" zs] assms(2,3) r(3)
    by (simp add: cp_putArchiveBoundary_def)
  then have "cp_archiveHeads cps' = map (\<lambda>(a, h, v). (a, h, v)) hs" by (simp add: cp_archiveHeads_def)
  then show "\<exists>st. cpArchive cps' = Some st \<and> arThroughSeq st = through \<and> arCursor st = cursor \<and>
       verifyArchiveHeads (ae_digest e) (ae_signer e) (cp_archiveHeads cps') st = Inr True"
    using r assms(4) by (simp add: cp_putArchiveBoundary_def verifyArchiveHeads_def fromHex_iff_toHex)
qed

lemma archive_row_sel [simp]:
  "aposting (archive_row row) = transaction.truncate row" "aseq (archive_row row) = pseq row"
  "links (transaction.truncate row) = links row" "txnId (transaction.truncate row) = txnId row"
  "legs (transaction.truncate row) = legs row"
  by (simp_all add: archive_row_def transaction.defs)

text \<open>Verifying a page advances the heads to the end of the page.\<close>

lemma verify_links_Inr:
  assumes "verify_links t lks hs = Inr hs'" "distinct (map laccount lks)"
  shows "\<exists>zs. map fst hs' = map fst hs @ zs" "distinct (map fst hs) \<Longrightarrow> distinct (map fst hs')"
    "map_option fst (map_of hs' a) = (case find (\<lambda>lk. laccount lk = a) lks of None \<Rightarrow> map_option fst (map_of hs a) | Some lk \<Rightarrow> Some (lhash lk))"
proof -
  have k: "\<exists>zs. map fst (AList.update k v m) = map fst m @ zs" for k v and m :: archive_rows
    by (induction m) auto
  have o: "find (\<lambda>lk. laccount lk = a) lks = None \<longleftrightarrow> a \<notin> laccount ` set lks" for lks
    by (auto simp: find_None_iff)
  have "(\<exists>zs. map fst hs' = map fst hs @ zs) \<and> (distinct (map fst hs) \<longrightarrow> distinct (map fst hs')) \<and>
    map_option fst (map_of hs' a) = (case find (\<lambda>lk. laccount lk = a) lks of None \<Rightarrow> map_option fst (map_of hs a) | Some lk \<Rightarrow> Some (lhash lk))"
    using assms
  proof (induction lks arbitrary: hs)
    case (Cons lk lks)
    let ?v = "(lhash lk, (case map_of hs (laccount lk) of Some (h, v) \<Rightarrow> v | None \<Rightarrow> 0) + raw_total (laccount lk) (legs t))"
    let ?hs = "AList.update (laccount lk) ?v hs"
    have v: "verify_links t lks ?hs = Inr hs'" using Cons.prems(1) by (simp split: if_splits)
    have d: "distinct (map laccount lks)" using Cons.prems(2) by simp
    have "laccount lk = a \<Longrightarrow> find (\<lambda>lk. laccount lk = a) lks = None" using Cons.prems(2) o by auto
    moreover obtain zs where "map fst ?hs = map fst hs @ zs" using k by blast
    ultimately show ?case using Cons.IH [OF v d] distinct_update [of hs "laccount lk" ?v] by (auto split: option.split)
  qed simp
  then show "\<exists>zs. map fst hs' = map fst hs @ zs" "distinct (map fst hs) \<Longrightarrow> distinct (map fst hs')"
    "map_option fst (map_of hs' a) = (case find (\<lambda>lk. laccount lk = a) lks of None \<Rightarrow> map_option fst (map_of hs a) | Some lk \<Rightarrow> Some (lhash lk))"
    by blast+
qed

lemma verify_postings_Inr:
  assumes "verify_postings (map archive_row rows) hs = Inr hs'" "heads_of old hs" "\<forall>row \<in> set rows. distinct (map laccount (links row))"
  shows "heads_of (old @ rows) hs' \<and> (\<exists>zs. map fst hs' = map fst hs @ zs)"
  using assms
proof (induction rows arbitrary: hs old)
  case (Cons row rows)
  obtain hs1 where h: "verify_links (transaction.truncate row) (links row) hs = Inr hs1" "verify_postings (map archive_row rows) hs1 = Inr hs'"
    using Cons.prems(1) by auto
  have d: "distinct (map laccount (links row))" using Cons.prems(3) by simp
  note v = verify_links_Inr [OF h(1) d]
  have "heads_of (old @ [row]) hs1"
    using Cons.prems(2) v(2,3) by (auto simp: heads_of_def lineage_snoc end_option_def link_of_def split: option.splits)
  from Cons.IH [OF h(2) this] Cons.prems(3) v(1) show ?case by auto
qed simp

text \<open>The page after the boundary is the next stretch of the history.\<close>

definition cursor_at :: "stored list \<Rightarrow> nat \<Rightarrow> nat option" where
  "cursor_at hist m = (if m = 0 then None else Some (pseq (hist ! (m - 1))))"

lemma page_after:
  assumes "sorted_wrt (<) (map pseq hist)" "m \<le> length hist"
    "archivePageOf (drop m hist) (cursor_at hist m) limit = (page, nxt)"
  obtains k where "sealedPrefix page t = map archive_row (take k (drop m hist))" "m + k \<le> length hist"
    "k = length (sealedPrefix page t)"
proof -
  have "filter (\<lambda>row. case cursor_at hist m of None \<Rightarrow> True | Some c \<Rightarrow> pseq row > c) (drop m hist) = drop m hist"
  proof (cases "m = 0")
    case False
    have "pseq (hist ! (m - 1)) < pseq row" if "row \<in> set (drop m hist)" for row
    proof -
      obtain i where i: "i < length hist - m" "row = hist ! (m + i)" using \<open>row \<in> set (drop m hist)\<close>
        by (auto simp: in_set_conv_nth)
      then show ?thesis using sorted_wrt_nth_less [OF assms(1), of "m - 1" "m + i"] False by simp
    qed
    then show ?thesis using False by (simp add: cursor_at_def filter_id_conv)
  qed (simp add: cursor_at_def)
  then have p: "page = map archive_row (take limit (drop m hist))"
    using assms(3) by (auto simp: archivePageOf_def page_of_def Let_def archive_row_def)
  let ?k = "length (sealedPrefix page t)"
  have l: "?k \<le> length page" by (simp add: sealedPrefix_def length_takeWhile_le)
  have "sealedPrefix page t = take ?k page" unfolding sealedPrefix_def by (rule takeWhile_eq_take)
  also have "\<dots> = map archive_row (take ?k (drop m hist))" using l by (auto simp: p take_map min_def split: if_splits)
  finally have "sealedPrefix page t = map archive_row (take ?k (drop m hist))" .
  moreover have "?k \<le> length hist - m" using l by (simp add: p)
  then have "m + ?k \<le> length hist" using assms(2) by linarith
  ultimately show ?thesis using that by blast
qed

lemma prune_after:
  assumes "distinct (map txnId hist)"
  shows "filter (\<lambda>row. txnId row \<notin> set (map (\<lambda>p. txnId (aposting p)) (map archive_row (take k (drop m hist))))) (drop m hist) = drop (m + k) hist"
proof -
  let ?xs = "take k (drop m hist)" and ?ys = "drop (m + k) hist"
  have e: "drop m hist = ?xs @ ?ys" by (metis append_take_drop_id drop_drop add.commute)
  have d: "distinct (map txnId (?xs @ ?ys))" unfolding e [symmetric] drop_map [symmetric] using assms by (rule distinct_drop)
  have "filter (\<lambda>row. txnId row \<notin> txnId ` set ?xs) (?xs @ ?ys) = ?ys"
    using d by (force simp: filter_id_conv filter_empty_conv)
  then show ?thesis by (simp add: e [symmetric] image_image)
qed

lemma history_prune: "hist_ok dig hist (pruneFromLog l ids) = hist_ok dig hist l"
proof -
  have "heads (pruneFromLog l ids) = heads l" "seqno (pruneFromLog l ids) = seqno l" "balances (pruneFromLog l ids) = balances l"
    by (simp_all add: pruneFromLog_def Let_def rebuildColumns_def)
  then show ?thesis by (simp add: hist_ok_def)
qed

definition loop_ok :: "stored list \<Rightarrow> nat \<Rightarrow> checkpoint_store \<Rightarrow> archive_rows \<Rightarrow> nat option \<Rightarrow> bool" where
  "loop_ok hist m cps hs cursor \<longleftrightarrow> heads_of (take m hist) hs \<and>
     (\<exists>zs. map fst hs = map fst (cpArchiveHeads cps) @ zs) \<and> cursor = cursor_at hist m"

lemma archive_pass:
  assumes "vault_ok (ae_digest e) (ae_signer e) hist m v" "loop_ok hist m (v_cps v) hs cursor"
    "\<forall>m. sg_verify (ae_signer e) m (sg_sign (ae_signer e) m)"
    "archivePageOf (plog (v_ledger v)) cursor limit = (page, nxt)" "sealedPrefix page t \<noteq> []"
    "verifyPage e (sealedPrefix page t) hs = Inr hs1"
    "sealAndPrune e hs1 (sealedPrefix page t) c cpid (v\<lparr>v_cold := v_cold v @ sealedPrefix page t\<rparr>) = (r, v2)"
    "c = None \<or> c = Some (aseq (last (sealedPrefix page t)))"
  shows "case r of Inl _ \<Rightarrow> vault_ok (ae_digest e) (ae_signer e) hist m v2
    | Inr _ \<Rightarrow> \<exists>m'. vault_ok (ae_digest e) (ae_signer e) hist m' v2 \<and>
        loop_ok hist m' (v_cps v2) hs1 (Some (aseq (last (sealedPrefix page t))))"
proof (cases "seal_boundary e hs1 (aseq (last (sealedPrefix page t))) c cpid (v_cps v)")
  case (Inl err)
  then have "r = Inl err" "v2 = v\<lparr>v_cold := v_cold v @ sealedPrefix page t\<rparr>" using assms(7) by (auto simp: sealAndPrune_def)
  then show ?thesis using assms(1) by (simp add: vault_ok_def le_supI1 subset_trans [OF _ Un_upper1])
next
  case (Inr cps')
  note ok = assms(1) [unfolded vault_ok_def] and lo = assms(2) [unfolded loop_ok_def]
  have h: "sorted_wrt (<) (map pseq hist)" "distinct (map txnId hist)" "\<forall>row \<in> set hist. distinct (map laccount (links row))"
    using ok by (simp_all add: hist_ok_def)
  obtain k where k: "sealedPrefix page t = map archive_row (take k (drop m hist))" "m + k \<le> length hist"
    "k = length (sealedPrefix page t)"
    by (rule page_after [OF h(1)]) (use ok lo assms(4) in auto)
  have k0: "0 < k" using assms(5) k(3) by simp
  have lst: "aseq (last (sealedPrefix page t)) = pseq (hist ! (m + k - 1))"
  proof -
    have "last (take k (drop m hist)) = hist ! (m + k - 1)" "take k (drop m hist) \<noteq> []"
      using k0 k(2) by (simp_all add: last_conv_nth)
    then show ?thesis unfolding k(1) by (simp add: last_map)
  qed
  have vp: "verify_postings (map archive_row (take k (drop m hist))) hs = Inr hs1"
    using assms(6) by (auto simp: verifyPage_def k(1) split: if_splits)
  have "\<forall>row \<in> set (take k (drop m hist)). distinct (map laccount (links row))"
    using h(3) by (meson in_set_dropD in_set_takeD)
  from verify_postings_Inr [OF vp conjunct1 [OF lo] this] obtain zs where
    hs1: "heads_of (take (m + k) hist) hs1" "map fst hs1 = map fst hs @ zs" by (auto simp: take_add)
  obtain zs0 where zs0: "map fst hs = map fst (cpArchiveHeads (v_cps v)) @ zs0" using lo by blast
  have d: "distinct (map fst hs1)" using hs1(1) by (simp add: heads_of_def)
  have x: "map fst hs1 = map fst (cpArchiveHeads (v_cps v)) @ zs0 @ zs" using hs1(2) zs0 by simp
  note sb = seal_boundary_Inr [OF Inr d x assms(3)]
  have r: "r = Inr ()" "v2 = v\<lparr>v_cold := v_cold v @ sealedPrefix page t, v_cps := cps',
      v_ledger := pruneFromLog (v_ledger v) (map (\<lambda>p. txnId (aposting p)) (sealedPrefix page t))\<rparr>"
    using assms(7) Inr by (auto simp: sealAndPrune_def)
  have "boundary_ok (ae_digest e) (ae_signer e) hist (m + k) cps'"
    using sb hs1(1) assms(8) k0 lst by (auto simp: boundary_ok_def split: option.splits)
  moreover have "plog (v_ledger v2) = drop (m + k) hist"
    using ok prune_after [OF h(2), of k m] by (simp add: r(2) plog_prune k(1))
  moreover have "set (map archive_row (take (m + k) hist)) \<subseteq> set (v_cold v2)"
    using ok by (auto simp: r(2) k(1) take_add)
  ultimately have "vault_ok (ae_digest e) (ae_signer e) hist (m + k) v2"
    using ok k(2) by (simp add: vault_ok_def r(2) history_prune)
  moreover have "loop_ok hist (m + k) (v_cps v2) hs1 (Some (aseq (last (sealedPrefix page t))))"
    using hs1(1) sb(1) k0 lst by (simp add: loop_ok_def r(2) cursor_at_def)
  ultimately show ?thesis using r(1) by auto
qed

lemma archive_loop_ok:
  assumes "vault_ok (ae_digest e) (ae_signer e) hist m v" "loop_ok hist m (v_cps v) hs cursor"
    "\<forall>m. sg_verify (ae_signer e) m (sg_sign (ae_signer e) m)"
  shows "\<exists>m'. vault_ok (ae_digest e) (ae_signer e) hist m' (snd (archive_loop e cp hs cursor summary v))"
  using assms
proof (induction e cp hs cursor summary v arbitrary: m rule: archive_loop.induct)
  case (1 e cp hs cursor summary v)
  obtain page nxt where pg: "archivePageOf (plog (v_ledger v)) cursor (ae_limit e) = (page, nxt)" by fastforce
  let ?el = "sealedPrefix page (cpAt cp)"
  let ?part = "nxt = None \<or> length ?el < length page"
  let ?c = "if ?part then None else Some (aseq (last ?el))"
  have stay: "\<exists>m'. vault_ok (ae_digest e) (ae_signer e) hist m' v" using "1.prems"(1) by blast
  show ?case
  proof (cases "?el = []")
    case True
    then show ?thesis using stay by (simp add: archive_loop.simps [of e cp hs] pg)
  next
    case el: False
    show ?thesis
    proof (cases "verifyPage e ?el hs")
      case (Inl err)
      then show ?thesis using stay el by (simp add: archive_loop.simps [of e cp hs] pg)
    next
      case vp: (Inr hs1)
      show ?thesis
      proof (cases "ae_sink e ?el")
        case (Inl err)
        then show ?thesis using stay el vp by (simp add: archive_loop.simps [of e cp hs] pg)
      next
        case sk: (Inr u)
        obtain r v2 where sp: "sealAndPrune e hs1 ?el ?c (cpId cp) (v\<lparr>v_cold := v_cold v @ ?el\<rparr>) = (r, v2)" by fastforce
        have c: "?c = None \<or> ?c = Some (aseq (last ?el))" by simp
        note ps = archive_pass [OF "1.prems" pg el vp sp c]
        show ?thesis
        proof (cases r)
          case (Inl err)
          then show ?thesis using ps el vp sk sp by (auto simp: archive_loop.simps [of e cp hs] pg)
        next
          case (Inr u2)
          then obtain m' where m': "vault_ok (ae_digest e) (ae_signer e) hist m' v2" "loop_ok hist m' (v_cps v2) hs1 (Some (aseq (last ?el)))"
            using ps by auto
          show ?thesis
          proof (cases ?part)
            case True
            then show ?thesis using m'(1) el vp sk sp Inr by (auto simp: archive_loop.simps [of e cp hs] pg)
          next
            case False
            from "1.IH" [OF pg [symmetric] el vp sk sp [unfolded Inr, symmetric] refl False m' "1.prems"(3)] show ?thesis
              using el vp sk sp Inr False by (auto simp: archive_loop.simps [of e cp hs] pg)
          qed
        qed
      qed
    qed
  qed
qed

lemma resume_cursor:
  assumes "vault_ok dig sg hist m v"
  shows "(case cpArchive (v_cps v) of None \<Rightarrow> None | Some st \<Rightarrow>
      (case arCursor st of Some c \<Rightarrow> Some c | None \<Rightarrow> Some (arThroughSeq st))) = cursor_at hist m"
  using assms by (auto simp: vault_ok_def boundary_ok_def cursor_at_def split: option.splits)

lemma archive_keeps:
  assumes "vault_ok dig sg hist m v" "ae_digest e = dig" "ae_signer e = sg" "\<forall>m. sg_verify sg m (sg_sign sg m)"
  shows "\<exists>m'. vault_ok dig sg hist m' (snd (archiveSealedPrefix e v))"
proof (cases "eligibleCheckpoint e (v_cps v)")
  case (Inl summary)
  then show ?thesis using assms(1) by (auto simp: archiveSealedPrefix_def)
next
  case cp: (Inr cp)
  show ?thesis
  proof (cases "rbind (authenticateSeal e (v_cps v) cp) (\<lambda>_. resumeBoundary e (v_cps v))")
    case (Inl err)
    then show ?thesis using assms(1) cp by (auto simp: archiveSealedPrefix_def)
  next
    case (Inr x)
    obtain prior hs where x: "x = (prior, hs)" by fastforce
    have rb: "resumeBoundary e (v_cps v) = Inr (prior, hs)" using Inr by (auto simp: x)
    have b: "boundary_ok dig sg hist m (v_cps v)" using assms(1) by (simp add: vault_ok_def)
    have d: "distinct (map fst (cpArchiveHeads (v_cps v)))" using b by (simp add: boundary_ok_def heads_of_def)
    have p: "prior = cpArchive (v_cps v)" "hs = cpArchiveHeads (v_cps v)"
      using rb b fold_over_prefix [of "[]" "cpArchiveHeads (v_cps v)" "[]" "map fst (cpArchiveHeads (v_cps v))"] d
      by (auto simp: resumeBoundary_def Let_def cp_archiveHeads_def boundary_ok_def split: option.splits if_splits)
    have "loop_ok hist m (v_cps v) hs (cursor_at hist m)"
      using b p(2) by (simp add: loop_ok_def boundary_ok_def)
    from archive_loop_ok [of e hist m v, unfolded assms(2,3), OF assms(1) this assms(4)] show ?thesis
      using cp Inr resume_cursor [OF assms(1)] by (simp add: archiveSealedPrefix_def x p(1))
  qed
qed

lemma history_post:
  assumes "hist_ok dig hist l" "postEntry (memory_ledger dig now) p l = Inr (t, l')" "txnId p \<notin> txnId ` set hist"
  shows "hist_ok dig (hist @ [last (plog l')]) l' \<and> plog l' = plog l @ [last (plog l')]"
proof -
  obtain lks st where adv: "advanceChain dig l (dropZeroLegs p) = Inr lks" and
    st: "st = \<lparr>txnId = txnId p, legs = legs (dropZeroLegs p), meta = meta p, postedAt = now, links = lks,
       pseq = seqno l + 1\<rparr>" and
    c: "commitPosting (l\<lparr>seqno := seqno l + 1\<rparr>) st = Inr l'"
    by (rule postEntry_commit [OF assms(2)])
  have q: "plog l' = plog l @ [st]" "seqno l' = seqno l + 1"
    "heads l' = fold (\<lambda>lk. AList.update (laccount lk) (lhash lk)) lks (heads l)"
    "\<And>a. getz (balances l') a = getz (balances l) a + net a (legs st)"
    using commitPosting_Inr(1,3,4,8) [OF c] by (simp_all add: st)
  have f: "txnId st = txnId (dropZeroLegs p)" "legs st = legs (dropZeroLegs p)" "meta st = meta (dropZeroLegs p)" "links st = lks"
    by (simp_all add: st dropZeroLegs_sel)
  have h: "replays dig a GENESIS_HEX (chain_of a hist)"
    "end_of GENESIS_HEX (chain_of a hist) = (case map_of (heads l) a of Some h \<Rightarrow> h | None \<Rightarrow> GENESIS_HEX)" for a
    using assms(1) by (simp_all add: hist_ok_def)
  note cs = chain_step [OF adv f h]
  have "\<forall>row \<in> set hist. pseq row < pseq st" using assms(1) by (auto simp: hist_ok_def st)
  then have "hist_ok dig (hist @ [st]) l'"
    using assms(1,3) cs q f(4) by (auto simp: hist_ok_def sorted_wrt_append st)
  then show ?thesis using q(1) by simp
qed

lemma seal_cps:
  "cpArchive (v_cps (snd (sealCheckpoint dig sg now i v))) = cpArchive (v_cps v)"
  "cpArchiveHeads (v_cps (snd (sealCheckpoint dig sg now i v))) = cpArchiveHeads (v_cps v)"
  "v_ledger (snd (sealCheckpoint dig sg now i v)) = v_ledger v" "v_cold (snd (sealCheckpoint dig sg now i v)) = v_cold v"
proof -
  have "recordCheckpoint dig sg now i r cps = Inr (cp, cps') \<Longrightarrow> cpArchive cps' = cpArchive cps \<and> cpArchiveHeads cps' = cpArchiveHeads cps" for r cps cp cps'
    by (auto simp: recordCheckpoint_def Let_def cp_put_def cp_putSealHeads_def split: if_splits seal_plan.splits)
  then show "cpArchive (v_cps (snd (sealCheckpoint dig sg now i v))) = cpArchive (v_cps v)"
    "cpArchiveHeads (v_cps (snd (sealCheckpoint dig sg now i v))) = cpArchiveHeads (v_cps v)"
    "v_ledger (snd (sealCheckpoint dig sg now i v)) = v_ledger v" "v_cold (snd (sealCheckpoint dig sg now i v)) = v_cold v"
    by (auto simp: sealCheckpoint_def driveSeal_def split: sum.splits if_splits)
qed

lemma reprove_cps:
  "cpArchive (v_cps (snd (reproveStoredChains dig now limit v))) = cpArchive (v_cps v)"
  "cpArchiveHeads (v_cps (snd (reproveStoredChains dig now limit v))) = cpArchiveHeads (v_cps v)"
  "v_ledger (snd (reproveStoredChains dig now limit v)) = v_ledger v" "v_cold (snd (reproveStoredChains dig now limit v)) = v_cold v"
  by (auto simp: reproveStoredChains_def Let_def cp_putReproof_def split: sum.splits option.splits)

lemma vault_ok_cong:
  assumes "cpArchive (v_cps v') = cpArchive (v_cps v)" "cpArchiveHeads (v_cps v') = cpArchiveHeads (v_cps v)"
    "v_ledger v' = v_ledger v" "v_cold v' = v_cold v"
  shows "vault_ok dig sg hist m v' = vault_ok dig sg hist m v"
  unfolding vault_ok_def boundary_ok_def cp_archiveHeads_def assms ..

lemma vault_reach_ok:
  "vault_reach dig sg hist v \<Longrightarrow> \<forall>m. sg_verify sg m (sg_sign sg m) \<Longrightarrow> \<exists>m. vault_ok dig sg hist m v"
proof (induction rule: vault_reach.induct)
  case vr_new
  have "vault_ok dig sg [] 0 new_vault"
    by (simp add: vault_ok_def new_vault_def hist_ok_def empty_ledger_def empty_checkpoints_def boundary_ok_def heads_of_def
        end_option_def end_of_def lineageOf_def)
  then show ?case by blast
next
  case (vr_post hist v now p t l)
  then obtain m where m: "vault_ok dig sg hist m v" by blast
  have "hist_ok dig hist (v_ledger v)" using m by (simp add: vault_ok_def)
  from history_post [OF this vr_post.hyps(2,3)] m have "vault_ok dig sg (hist @ [last (plog l)]) m (v\<lparr>v_ledger := l\<rparr>)"
    by (auto simp: vault_ok_def boundary_ok_def nth_append split: option.splits)
  then show ?case by blast
next
  case (vr_seal hist v now i)
  then show ?case using vault_ok_cong [OF seal_cps] by blast
next
  case (vr_reprove hist v now limit)
  then show ?case using vault_ok_cong [OF reprove_cps] by blast
next
  case (vr_archive hist v e)
  then show ?case using archive_keeps by blast
qed

lemma anchors_fold:
  "distinct (map fst xs) \<Longrightarrow> map_of (fold (\<lambda>(a, h, v). AList.update a h) xs ys) a =
     (case map_of (xs :: archive_rows) a of None \<Rightarrow> map_of ys a | Some x \<Rightarrow> Some (fst x))"
proof (induction xs arbitrary: ys)
  case (Cons e xs)
  obtain b h v where e: "e = (b, h, v)" by (cases e) auto
  have "a = b \<Longrightarrow> map_of xs a = None" using Cons.prems by (auto simp: e map_of_eq_None_iff)
  then show ?case using Cons.IH [of "AList.update b h ys"] Cons.prems by (auto simp: e split: option.split)
qed simp

lemma vault_boundary:
  assumes "vault_ok dig sg hist m v"
  obtains bnd where "loadArchiveBoundary dig sg (v_cps v) = Inr bnd"
    "\<And>a. recomputeAccount dig (mem_reads (v_ledger v)) bnd a = Inr None"
proof -
  have b: "boundary_ok dig sg hist m (v_cps v)" and l: "plog (v_ledger v) = drop m hist"
    and h: "\<And>a. replays dig a GENESIS_HEX (chain_of a (take m hist) @ chain_of a (drop m hist))"
    using assms chain_of_append [of "take m hist" "drop m hist"] by (auto simp: vault_ok_def hist_ok_def)
  note w = anchored_walk [OF h]
  show ?thesis
  proof (cases "cpArchive (v_cps v)")
    case None
    then have "m = 0" using b by (simp add: boundary_ok_def)
    then have "recomputeAccount dig (mem_reads (v_ledger v)) None a = Inr None" for a
      using w [of a] l by (simp add: recomputeAccount_def mem_reads_def end_option_def lineageOf_def)
    then show ?thesis using that [of None] None by (simp add: loadArchiveBoundary_def)
  next
    case (Some st)
    let ?hs = "cpArchiveHeads (v_cps v)"
    have d: "heads_of (take m hist) ?hs" "verifyArchiveHeads dig sg (cp_archiveHeads (v_cps v)) st = Inr True"
      using b Some by (simp_all add: boundary_ok_def)
    obtain sums where bnd: "loadArchiveBoundary dig sg (v_cps v) =
        Inr (Some \<lparr>anchors = fold (\<lambda>(a, h, v). AList.update a h) (cp_archiveHeads (v_cps v)) [], rawSums = sums, bstate = st\<rparr>)"
      using Some d(2) by (auto simp: loadArchiveBoundary_def Let_def)
    have "map_of (fold (\<lambda>(a, h, v). AList.update a h) ?hs []) a = map_option fst (map_of ?hs a)" for a
      using anchors_fold [of ?hs "[]" a] d(1) by (cases "map_of ?hs a") (simp_all add: heads_of_def)
    then have "map_of (fold (\<lambda>(a, h, v). AList.update a h) (cp_archiveHeads (v_cps v)) []) a = end_option (chain_of a (take m hist))" for a
      using d(1) by (simp add: heads_of_def cp_archiveHeads_def)
    then show ?thesis using that [OF bnd] w l by (simp add: recomputeAccount_def mem_reads_def)
  qed
qed

lemma vault_provable:
  assumes "vault_reach dig sg hist v" "\<forall>m. sg_verify sg m (sg_sign sg m)"
  shows "\<exists>bnd n. loadArchiveBoundary dig sg (v_cps v) = Inr bnd \<and>
     proveChain dig (mem_reads (v_ledger v)) bnd = Inr \<lparr>intact = True, firstBreak = None, chainCount = length (heads (v_ledger v))\<rparr> \<and>
     plog (v_ledger v) = drop n hist \<and> set (map archive_row (take n hist)) \<subseteq> set (v_cold v) \<and>
     (\<forall>a. getz (balances (v_ledger v)) a = net a (concat (map legs hist)))"
proof -
  obtain m where m: "vault_ok dig sg hist m v" using vault_reach_ok [OF assms] by blast
  obtain bnd where bnd: "loadArchiveBoundary dig sg (v_cps v) = Inr bnd"
    "\<And>a. recomputeAccount dig (mem_reads (v_ledger v)) bnd a = Inr None"
    by (rule vault_boundary [OF m]) blast
  have "first_break (recomputeAccount dig (mem_reads (v_ledger v)) bnd) as = Inr None" for as
    by (induction as) (simp_all add: bnd(2))
  then have "proveChain dig (mem_reads (v_ledger v)) bnd = Inr \<lparr>intact = True, firstBreak = None, chainCount = length (heads (v_ledger v))\<rparr>"
    by (simp add: proveChain_def mem_reads_def sortedHeads_def)
  then show ?thesis using m bnd(1) unfolding vault_ok_def hist_ok_def by blast
qed

section \<open>A vault that archived\<close>

definition flat_digest :: digest where
  "flat_digest bytes = replicate 32 7"

definition arc_posting :: posting where
  "arc_posting = \<lparr>txnId = ''t'', legs = [debit USD_CLEARING \<lparr>currency = USD, minor = 100\<rparr>,
     \<lparr>account = TRUST_CASH, amount = \<lparr>currency = USD, minor = - 100\<rparr>\<rparr>], meta = []\<rparr>"

definition arc_env :: archive_env where
  "arc_env = \<lparr>ae_digest = flat_digest, ae_signer = demo_signer, ae_sink = (\<lambda>_. Inr ()), ae_olderThan = 10, ae_limit = 5, ae_now = 100\<rparr>"

definition flat_hex :: string where
  "flat_hex = ''0707070707070707070707070707070707070707070707070707070707070707''"

definition arc_row :: stored where
  "arc_row = \<lparr>txnId = ''t'', legs = legs arc_posting, meta = [], postedAt = 1,
     links = [\<lparr>laccount = USD_CLEARING, prevHash = GENESIS_HEX, lhash = flat_hex\<rparr>,
       \<lparr>laccount = TRUST_CASH, prevHash = GENESIS_HEX, lhash = flat_hex\<rparr>], pseq = 1\<rparr>"

definition arc_ledger :: ledger_state where
  "arc_ledger = \<lparr>plog = [arc_row],
     balances = [(USD_CLEARING, 100), (TRUST_CASH, - 100)], heads = [(USD_CLEARING, flat_hex), (TRUST_CASH, flat_hex)],
     registered = SYSTEM, lotIndex = [(USD_CLEARING, [0])],
     columns = [((USD_CLEARING, USD), [100]), ((TRUST_CASH, USD), [- 100])], seqno = 1, ljournal = None\<rparr>"

lemma arc_posted: "\<exists>t. postEntry (memory_ledger flat_digest 1) arc_posting empty_ledger = Inr (t, arc_ledger)"
proof -
  have "case postEntry (memory_ledger flat_digest 1) arc_posting empty_ledger of Inr (t, l) \<Rightarrow> l = arc_ledger | _ \<Rightarrow> False"
    by code_simp
  then show ?thesis by (auto split: sum.splits)
qed

lemma flat_root:
  assumes "sort_key fst leaves = [(a, h, v), (b, k, - v)]" "in_i64 v" "in_i64 (- v)"
  shows "merkleSumRoot flat_digest leaves = Inr (replicate 32 7, 0)"
proof -
  obtain x y z where "toInt64BE v = Inr x" "toInt64BE (- v) = Inr y" "toInt64BE 0 = Inr z"
    using toInt64BE_total [of v] toInt64BE_total [of "- v"] toInt64BE_total [of 0] assms(2,3)
    by (auto simp: in_i64_def I64_MIN_def I64_MAX_def)
  then have "rmap (sum_leaf flat_digest) (sort_key fst leaves) = Inr [(replicate 32 7, v), (replicate 32 7, - v)]"
    "sum_node flat_digest (replicate 32 7, v) (replicate 32 7, - v) = Inr (replicate 32 7, 0)"
    by (simp_all add: assms(1) sum_leaf_def sumLeafPreimage_def sum_node_def sumNodePreimage_def flat_digest_def)
  then show ?thesis
    by (simp add: merkleSumRoot_def reduce_levels.simps [of _ "[_, _]"] reduce_levels.simps [of _ "[_]"])
qed

lemma arc_sums:
  "headSumsOf arc_ledger = [(TRUST_CASH, flat_hex, - 100), (USD_CLEARING, flat_hex, 100)]"
  "sort_key fst (headSumsOf arc_ledger) = [(TRUST_CASH, flat_hex, - 100), (USD_CLEARING, flat_hex, 100)]"
  "sort_key fst [(USD_CLEARING, flat_hex, 100::int), (TRUST_CASH, flat_hex, - 100)] = [(TRUST_CASH, flat_hex, - 100), (USD_CLEARING, flat_hex, 100)]"
  by code_simp+

abbreviation arc_leaves :: "seal_head list" where
  "arc_leaves \<equiv> [(TRUST_CASH, flat_hex, - 100), (USD_CLEARING, flat_hex, 100)]"

lemma arc_root:
  "merkleSumRoot flat_digest arc_leaves = Inr (replicate 32 7, 0)"
  "merkleSumRoot flat_digest [(USD_CLEARING, flat_hex, 100), (TRUST_CASH, flat_hex, - 100)] = Inr (replicate 32 7, 0)"
  using flat_root [of _ TRUST_CASH flat_hex "- 100" USD_CLEARING flat_hex] arc_sums
  by (simp_all add: in_i64_def I64_MIN_def I64_MAX_def)

definition arc_cps :: "byte list \<Rightarrow> checkpoint_store" where
  "arc_cps payl = \<lparr>cpRows = [\<lparr>cpId = ''c'', cpRoot = toHex (replicate 32 7), cpSignature = toHex payl,
       cpCount = 2, cpAt = 5, cpVersion = 2, cpSum = Some (int_text 0), cpKid = None\<rparr>],
     cpHeads = [(TRUST_CASH, flat_hex, - 100), (USD_CLEARING, flat_hex, 100)],
     cpArchiveHeads = [], cpReproof = None, cpArchive = None\<rparr>"

abbreviation arc_vault :: "byte list \<Rightarrow> vault" where
  "arc_vault payl \<equiv> \<lparr>v_cps = arc_cps payl, v_ledger = arc_ledger, v_cold = []\<rparr>"

lemma arc_payload: obtains payl where "sumRootPayload (replicate 32 7, 0) = Inr payl"
  using toInt64BE_total [of 0] by (auto simp: sumRootPayload_def in_i64_def I64_MIN_def I64_MAX_def)

lemma arc_reach: "ledger_reach flat_digest arc_ledger"
  using arc_posted lr_post [OF lr_empty] by blast

lemma arc_recorded:
  assumes "sumRootPayload (replicate 32 7, 0) = Inr payl"
  shows "recordCheckpoint flat_digest demo_signer 5 ''c'' (mem_reads arc_ledger) empty_checkpoints =
    Inr (hd (cpRows (arc_cps payl)), arc_cps payl)"
proof -
  have "TRUST_CASH \<noteq> USD_CLEARING" by code_simp
  then show ?thesis
    using assms arc_root(1) proveChain_reach [OF arc_reach]
    by (simp add: recordCheckpoint_def loadArchiveBoundary_def empty_checkpoints_def mergeArchiveSums_def planSeal_def
        cp_sealHeads_def cp_latest_def mem_reads_def arc_sums arc_cps_def demo_signer_def cp_put_def cp_putSealHeads_def Let_def)
qed

lemma arc_sealed:
  assumes "sumRootPayload (replicate 32 7, 0) = Inr payl"
  shows "snd (sealCheckpoint flat_digest demo_signer 5 ''c'' (new_vault\<lparr>v_ledger := arc_ledger\<rparr>)) = arc_vault payl"
proof -
  have "\<not> ledger_isEmpty arc_ledger" by (simp add: ledger_isEmpty_def sortedHeads_def arc_ledger_def)
  then show ?thesis
    using arc_recorded [OF assms] by (simp add: sealCheckpoint_def driveSeal_def new_vault_def)
qed

lemma arc_archived:
  assumes "sumRootPayload (replicate 32 7, 0) = Inr payl"
  shows "\<exists>sm v. archiveSealedPrefix arc_env (arc_vault payl) = (Inr sm, v) \<and> as_moved sm = 1 \<and> plog (v_ledger v) = []"
proof -
  let ?e = arc_env
  have n: "TRUST_CASH \<noteq> USD_CLEARING" by code_simp
  have e: "ae_digest ?e = flat_digest" "ae_signer ?e = demo_signer" "ae_limit ?e = 5" "ae_now ?e = 100" "ae_olderThan ?e = 10"
    "ae_sink ?e x = Inr ()" for x
    by (simp_all add: arc_env_def)
  have "eligibleCheckpoint ?e (arc_cps payl) = Inr (hd (cpRows (arc_cps payl)))"
    by (simp add: eligibleCheckpoint_def cp_latest_def arc_cps_def e)
  moreover have "authenticateSeal ?e (arc_cps payl) (hd (cpRows (arc_cps payl))) = Inr ()"
    using assms arc_root(1) by (simp add: authenticateSeal_def e cp_sealHeads_def arc_cps_def demo_signer_def fromHex_iff_toHex) blast
  moreover have "resumeBoundary ?e (arc_cps payl) = Inr (None, [])" by (simp add: resumeBoundary_def arc_cps_def)
  moreover have pg: "archivePageOf (plog arc_ledger) None 5 = ([archive_row arc_row], None)"
    by (simp add: archivePageOf_def page_of_def arc_ledger_def archive_row_def)
  moreover have el: "sealedPrefix [archive_row arc_row] 5 = [archive_row arc_row]"
    by (simp add: sealedPrefix_def archive_row_def arc_row_def transaction.defs)
  moreover have "reproveLinks flat_digest (map (archived_link (transaction.truncate arc_row)) (links arc_row)) = Inr None"
    by code_simp
  then have vp: "verifyPage ?e [archive_row arc_row] [] = Inr [(USD_CLEARING, flat_hex, 100), (TRUST_CASH, flat_hex, - 100)]"
    using n by (simp add: verifyPage_def e arc_row_def raw_total_def arc_posting_def debit_def)
  moreover obtain p2 where "archivePayload (replicate 32 7, 0) = Inr p2" using assms by (simp add: archivePayload_def)
  then obtain cps where "seal_boundary ?e [(USD_CLEARING, flat_hex, 100), (TRUST_CASH, flat_hex, - 100)] 1 None ''c'' (arc_cps payl) = Inr cps"
    using arc_root(2) by (simp add: seal_boundary_def e)
  moreover have "aseq (archive_row arc_row) = 1" "txnId arc_row = ''t''" by (simp_all add: arc_row_def)
  ultimately show ?thesis
    using plog_prune [of arc_ledger "[''t'']"]
    by (simp add: archiveSealedPrefix_def archive_loop.simps e arc_cps_def sealAndPrune_def arc_ledger_def)
qed

section \<open>Properties\<close>

text \<open>
  (C14) Archiving never weakens the proof. Through any sequence of postings, seals, re-proofs and archive
  runs, ended or faulted, with a signer that accepts its own signatures: the stored boundary
  authenticates, the prover finds every remaining chain intact against it, the ledger holds a suffix of
  everything ever posted with the rest in the cold store, and every balance still counts all of it.
\<close>

theorem archive_stays_provable:
  assumes "vault_reach dig sg hist v" "\<forall>m. sg_verify sg m (sg_sign sg m)"
  shows "\<exists>bnd n. loadArchiveBoundary dig sg (v_cps v) = Inr bnd \<and>
     proveChain dig (mem_reads (v_ledger v)) bnd = Inr \<lparr>intact = True, firstBreak = None, chainCount = length (heads (v_ledger v))\<rparr> \<and>
     plog (v_ledger v) = drop n hist \<and> set (map archive_row (take n hist)) \<subseteq> set (v_cold v) \<and>
     (\<forall>a. getz (balances (v_ledger v)) a = net a (concat (map legs hist)))"
  by (rule vault_provable [OF assms])

theorem archive_stays_provable_witness:
  "\<exists>payl sm v bnd. archiveSealedPrefix arc_env (arc_vault payl) = (Inr sm, v) \<and> as_moved sm = 1 \<and>
     plog (v_ledger v) = [] \<and> loadArchiveBoundary flat_digest demo_signer (v_cps v) = Inr bnd \<and>
     proveChain flat_digest (mem_reads (v_ledger v)) bnd = Inr \<lparr>intact = True, firstBreak = None, chainCount = length (heads (v_ledger v))\<rparr>"
proof -
  obtain payl where payl: "sumRootPayload (replicate 32 7, 0) = Inr payl" by (rule arc_payload)
  obtain sm v where r: "archiveSealedPrefix arc_env (arc_vault payl) = (Inr sm, v)" "as_moved sm = 1" "plog (v_ledger v) = []"
    using arc_archived [OF payl] by blast
  obtain t where "postEntry (memory_ledger flat_digest 1) arc_posting (v_ledger new_vault) = Inr (t, arc_ledger)"
    using arc_posted by (auto simp: new_vault_def)
  from vr_post [OF vr_new this] have "vault_reach flat_digest demo_signer [arc_row] (new_vault\<lparr>v_ledger := arc_ledger\<rparr>)"
    by (simp add: arc_ledger_def)
  from vr_seal [OF this, of 5 "''c''"] have "vault_reach flat_digest demo_signer [arc_row] (arc_vault payl)"
    by (simp add: arc_sealed [OF payl])
  from vr_archive [OF this, of arc_env] r(1) have "vault_reach flat_digest demo_signer [arc_row] v"
    by (simp add: arc_env_def)
  moreover have "\<forall>m. sg_verify demo_signer m (sg_sign demo_signer m)" by (simp add: demo_signer_def)
  ultimately show ?thesis using archive_stays_provable r by blast
qed

end
