(* ===== verification/Webhooks.thy ===== *)
theory Webhooks
  imports History
begin

text \<open>
  src/webhooks.ts: a verified callback of a provider becomes one row of the inbox, whose operation the
  apply job submits later. The verification of the raw request is the server's and stands before it;
  the meter is left out. A purchase's provenance is not in the operation here: the type of \<open>topUp\<close>
  has no such field and its handler reads none.
\<close>

section \<open>Events and the operations they become\<close>

record webhook_base =
  wbProvider :: string
  wbEventId :: string

datatype webhook_event =
    Purchase webhook_base string amount string "string option"
  | PayoutSettled webhook_base string string "amount option"
  | PayoutFailed webhook_base string string "string option" "string option"
  | Dispute webhook_base string amount "string option" "string option"

fun event_base :: "webhook_event \<Rightarrow> webhook_base" where
  "event_base (Purchase b userId a source sku) = b"
| "event_base (PayoutSettled b sid ref a) = b"
| "event_base (PayoutFailed b sid userId ref reason) = b"
| "event_base (Dispute b userId a orderId reason) = b"

definition webhookIdempotencyKey :: "string \<Rightarrow> string" where
  "webhookIdempotencyKey evid = ''whk:'' @ evid"

definition webhook_operation :: "webhook_base \<Rightarrow> payload \<Rightarrow> operation" where
  "webhook_operation b p = \<lparr>idempotencyKey = webhookIdempotencyKey (wbEventId b),
     actor = SystemActor (''webhook:'' @ wbProvider b), payload = p\<rparr>"

definition toTopUp :: "webhook_base \<Rightarrow> string \<Rightarrow> amount \<Rightarrow> string \<Rightarrow> operation" where
  "toTopUp b userId a source = webhook_operation b (TopUp userId a source)"

definition toSettlePayout :: "webhook_base \<Rightarrow> string \<Rightarrow> string \<Rightarrow> amount option \<Rightarrow> operation" where
  "toSettlePayout b sid ref a = webhook_operation b (SettlePayout sid ref a)"

definition toReversePayout :: "webhook_base \<Rightarrow> string \<Rightarrow> string \<Rightarrow> string option \<Rightarrow> operation" where
  "toReversePayout b sid userId reason = webhook_operation b (ReversePayout userId sid
     (case reason of Some r \<Rightarrow> r | None \<Rightarrow> ''payout.provider_failed'') True)"

definition toClawback :: "webhook_base \<Rightarrow> string \<Rightarrow> amount \<Rightarrow> string option \<Rightarrow> string option \<Rightarrow> operation" where
  "toClawback b userId a orderId reason = webhook_operation b (Clawback userId a orderId None reason)"

fun toOperation :: "webhook_event \<Rightarrow> operation" where
  "toOperation (Purchase b userId a source sku) = toTopUp b userId a source"
| "toOperation (PayoutSettled b sid ref a) = toSettlePayout b sid ref a"
| "toOperation (PayoutFailed b sid userId ref reason) = toReversePayout b sid userId reason"
| "toOperation (Dispute b userId a orderId reason) = toClawback b userId a orderId reason"

section \<open>Accepting a callback\<close>

record webhook_receipt =
  wr_duplicate :: bool
  wr_entry :: inbox_message

definition inbound_row :: "ctx \<Rightarrow> webhook_event \<Rightarrow> nat \<Rightarrow> inbox_message" where
  "inbound_row c e drawn = \<lparr>inId = c_ids c ''ibx'' drawn, inKey = wbEventId (event_base e), inOperation = toOperation e,
     inStatus = InPending, inAttempts = 0, inReceivedAt = c_now c, inReason = None\<rparr>"

definition handleWebhook :: "ctx \<Rightarrow> webhook_event \<Rightarrow> unit_state \<Rightarrow> webhook_receipt \<times> unit_state" where
  "handleWebhook c e s =
     (let row = inbound_row c e (u_drawn s);
          res = inbox_enqueueInbound row (u_inbox s)
      in (\<lparr>wr_duplicate = (inId (fst res) \<noteq> inId row), wr_entry = fst res\<rparr>,
          s\<lparr>u_drawn := u_drawn s + 1, u_inbox := snd res\<rparr>))"

definition handlePurchaseWebhook ::
    "ctx \<Rightarrow> webhook_base \<Rightarrow> string \<Rightarrow> amount \<Rightarrow> string \<Rightarrow> string option \<Rightarrow> unit_state \<Rightarrow> webhook_receipt \<times> unit_state" where
  "handlePurchaseWebhook c b userId a source sku = handleWebhook c (Purchase b userId a source sku)"

section \<open>The body of a purchase\<close>

definition malformedEvent :: err where
  "malformedEvent = fault MALFORMED_OPERATION"

definition requireString :: "json option \<Rightarrow> string res" where
  "requireString v = (case v of Some (JStr t) \<Rightarrow> Inr t | _ \<Rightarrow> Inl malformedEvent)"

definition decodeAmountField :: "json option \<Rightarrow> amount res" where
  "decodeAmountField v = (case v of
     Some (JStr t) \<Rightarrow> (if CHR '':'' \<in> set t then decodeAmountWire t else Inl malformedEvent)
   | _ \<Rightarrow> Inl malformedEvent)"

text \<open>What \<open>typeof\<close> calls an object: an array is one too, with none of the fields.\<close>

definition object_rows :: "json \<Rightarrow> (string \<times> json) list option" where
  "object_rows body = (case body of JObj kvs \<Rightarrow> Some kvs | JArr _ \<Rightarrow> Some [] | _ \<Rightarrow> None)"

definition decodeWebhookEvent :: "string \<Rightarrow> json \<Rightarrow> webhook_event res" where
  "decodeWebhookEvent provider body = (case object_rows body of
     None \<Rightarrow> Inl malformedEvent
   | Some kvs \<Rightarrow>
       rbind (requireString (map_of kvs ''eventId'')) (\<lambda>evid.
       rbind (requireString (map_of kvs ''userId'')) (\<lambda>userId.
       rbind (requireString (map_of kvs ''source'')) (\<lambda>source.
       rbind (decodeAmountField (map_of kvs ''amount'')) (\<lambda>a.
       rbind (case map_of kvs ''sku'' of None \<Rightarrow> Inr None | Some JUndef \<Rightarrow> Inr None
              | v \<Rightarrow> rbind (requireString v) (\<lambda>t. Inr (Some t))) (\<lambda>sku.
         Inr (Purchase \<lparr>wbProvider = provider, wbEventId = evid\<rparr> userId a source sku)))))))"

section \<open>At most once\<close>






text \<open>A redelivery finds the row of the first delivery and stores nothing.\<close>

lemma redelivery:
  assumes "handleWebhook c e s = (r, s1)" "wbEventId (event_base e') = wbEventId (event_base e)"
    "\<forall>j \<in> snd ` set (inByKey (u_inbox s)). map_of (inRows (u_inbox s)) j \<noteq> None"
    "c_ids c' ''ibx'' (u_drawn s1) \<noteq> inId (wr_entry r)"
  shows "handleWebhook c' e' s1 = (\<lparr>wr_duplicate = True, wr_entry = wr_entry r\<rparr>, s1\<lparr>u_drawn := u_drawn s1 + 1\<rparr>)"
  using assms
  by (auto simp: handleWebhook_def Let_def inbox_enqueueInbound_def inbound_row_def split: option.splits dest: map_of_SomeD)

section \<open>Properties\<close>




end
