(* ===== verification/Instance.thy ===== *)
theory Instance
  imports Netting Treasury
begin

text \<open>
  The instance economy of src/instance.ts: a lane over one netting session, which grants ownership at
  once and settles the money at the end of its epoch, and the manager that hands lanes out per scope.
  A lane is an object of the process: what it did before a fault stays, so its steps return the state
  with a fault. The writer queue makes every entry point one step. Meters, logs and the timer of
  \<open>start\<close> are left out.
\<close>

section \<open>The lane\<close>

record purchase_product =
  pdSku :: string
  pdKind :: string
  pdExpiresAt :: "jsnum option"

record instance_purchase =
  ipBuyer :: string
  ipPrice :: amount
  ipRecipients :: "recipient list"
  ipProduct :: purchase_product
  ipOrderId :: "string option"

datatype purchase_outcome = PurchaseAccepted string nat | PurchaseRejected string string

record lane =
  ln_capMinor :: "int option"
  ln_prefund :: "int option"
  ln_orderSeq :: nat
  ln_accepted :: nat
  ln_rejected :: nat
  ln_settleReport :: "settle_report option"
  ln_settledEmitted :: bool
  ln_funded :: "string list"
  ln_outcomes :: "(string \<times> purchase_outcome) list"
  ln_spent :: "(string \<times> int) list"
  ln_granted :: "(string \<times> (string \<times> string)) list"
  ln_immatureHeld :: "(string \<times> int) list"

record lane_state =
  la_net :: net_state
  la_lane :: lane

definition open_lane :: "int option \<Rightarrow> int option \<Rightarrow> lane" where
  "open_lane cap prefund = \<lparr>ln_capMinor = cap, ln_prefund = prefund, ln_orderSeq = 0, ln_accepted = 0, ln_rejected = 0,
     ln_settleReport = None, ln_settledEmitted = False, ln_funded = [], ln_outcomes = [], ln_spent = [], ln_granted = [],
     ln_immatureHeld = []\<rparr>"

definition PRODUCT_KINDS :: "string list" where
  "PRODUCT_KINDS = [''permanent'', ''temporary'', ''instant'']"

definition on_net :: "(net_state, 'a) step \<Rightarrow> (lane_state, 'a) step" where
  "on_net m = (\<lambda>s. case m (la_net s) of (r, n) \<Rightarrow> (r, s\<lparr>la_net := n\<rparr>))"

definition on_lane :: "(lane \<Rightarrow> lane) \<Rightarrow> lane_state \<Rightarrow> lane_state" where
  "on_lane f = la_lane_update f"

definition lane_session :: "lane_state \<Rightarrow> string" where
  "lane_session s = ns_id (nw_session (la_net s))"

definition on_ents :: "(ent_store \<Rightarrow> ent_store) \<Rightarrow> lane_state \<Rightarrow> lane_state" where
  "on_ents f = la_net_update (nw_unit_update (u_ents_update f))"

section \<open>Checks on a purchase\<close>

definition validate :: "instance_purchase \<Rightarrow> unit res" where
  "validate i =
     rbind (ensure (currency (ipPrice i) = CREDIT \<and> 0 < minor (ipPrice i)) (fault INVALID_AMOUNT)) (\<lambda>_.
     rbind (ensure (\<not> blank (pdSku (ipProduct i))) malformed) (\<lambda>_.
     rbind (ensure (pdKind (ipProduct i) \<in> set PRODUCT_KINDS) malformed) (\<lambda>_.
     rbind (ensure ((pdKind (ipProduct i) = ''temporary'') = (pdExpiresAt (ipProduct i) \<noteq> None)) malformed) (\<lambda>_.
       assertRecipientShares (ipRecipients i) (ipBuyer i)))))"

definition order_prefix :: "lane_state \<Rightarrow> string" where
  "order_prefix s = ''sess:'' @ lane_session s @ '':''"

definition orderIdOf :: "instance_purchase \<Rightarrow> (lane_state, string) step" where
  "orderIdOf i = (\<lambda>s. case ipOrderId i of
     None \<Rightarrow> (Inr (order_prefix s @ nat_text (ln_orderSeq (la_lane s))), on_lane (ln_orderSeq_update (\<lambda>n. n + 1)) s)
   | Some oid \<Rightarrow> (if starts_with (order_prefix s) oid then (Inr oid, s) else (Inl malformed, s)))"

definition overCap :: "string \<Rightarrow> int \<Rightarrow> lane \<Rightarrow> bool" where
  "overCap buyer price x = (case ln_capMinor x of None \<Rightarrow> False | Some cap \<Rightarrow> getz (ln_spent x) buyer + price > cap)"

definition debit_from :: "instance_purchase \<Rightarrow> lane_state \<Rightarrow> AccountRef" where
  "debit_from i s = (if ln_prefund (la_lane s) = None then spendable (ipBuyer i)
     else sessionEscrow (ipBuyer i) (lane_session s))"

definition legsOf :: "ctx \<Rightarrow> instance_purchase \<Rightarrow> lane_state \<Rightarrow> leg list res" where
  "legsOf c i s =
     rbind (c_pricing c \<lparr>fprice = ipPrice i, frecipients = ipRecipients i, ffeeBps = platformFeeBps (c_config c),
         fbuyerId = Some (ipBuyer i), fsku = Some (pdSku (ipProduct i))\<rparr>) (\<lambda>split.
       Inr (debit (debit_from i s) (ipPrice i) # filter (\<lambda>l. minor (amount l) \<noteq> 0) split))"

section \<open>Funding and holds\<close>

definition prefund_posting :: "string \<Rightarrow> string \<Rightarrow> amount \<Rightarrow> leg \<Rightarrow> posting" where
  "prefund_posting sid buyer a into =
     \<lparr>txnId = ''esc_fund_'' @ sid @ ''_'' @ buyer, legs = [debit (spendable buyer) a, into],
      meta = [(''kind'', JStr ''prefund''), (''sessionId'', JStr sid), (''userId'', JStr buyer)]\<rparr>"

definition mark_funded :: "string \<Rightarrow> lane_state \<Rightarrow> lane_state" where
  "mark_funded buyer = on_lane (ln_funded_update (\<lambda>fs. if buyer \<in> set fs then fs else fs @ [buyer]))"

definition ensurePrefunded :: "ctx \<Rightarrow> string \<Rightarrow> int \<Rightarrow> (lane_state, bool) step" where
  "ensurePrefunded c buyer need = (\<lambda>s.
     let sid = lane_session s in
     if buyer \<in> set (ln_funded (la_lane s)) then (Inr True, s)
     else if on_books (nw_unit (la_net s)) (''esc_fund_'' @ sid @ ''_'' @ buyer) then (Inr True, mark_funded buyer s)
     else andthen (on_net (on_unit (matured_balance c (spendable buyer)))) (\<lambda>m.
       if minor m < need then finish False
       else andthen (on_net (on_unit
              (sbind (lift (toAmount CREDIT need)) (\<lambda>a.
               sbind (lift (credit (sessionEscrow buyer sid) a)) (\<lambda>into.
                 postEntry (unit_ledger c) (prefund_posting sid buyer a into)))))) (\<lambda>_ s.
              (Inr True, mark_funded buyer s))) s)"

text \<open>The hold is written down before the registry takes it.\<close>

definition holdImmature :: "ctx \<Rightarrow> string \<Rightarrow> (lane_state, unit) step" where
  "holdImmature c buyer = (\<lambda>s.
     if map_of (ln_immatureHeld (la_lane s)) buyer \<noteq> None then (Inr (), s)
     else andthen (on_net (on_unit (l_balance (unit_ledger c) (spendable buyer)))) (\<lambda>live.
          andthen (on_net (on_unit (matured_balance c (spendable buyer)))) (\<lambda>matured s.
            let immature = minor live - minor matured;
                s1 = on_lane (ln_immatureHeld_update (AList.update buyer immature)) s
            in if immature > 0 then (Inr (), s1\<lparr>la_net := snd (reserve_add (spendable buyer) (- immature) (la_net s1))\<rparr>)
               else (Inr (), s1))) s)"

definition release_hold :: "string \<times> int \<Rightarrow> lane_state \<Rightarrow> lane_state" where
  "release_hold held s = (case held of (buyer, immature) \<Rightarrow>
     let s1 = (if immature > 0 then s\<lparr>la_net := snd (reserve_add (spendable buyer) immature (la_net s))\<rparr> else s)
     in on_lane (ln_immatureHeld_update (AList.delete buyer)) s1)"

definition releaseImmatureHolds :: "lane_state \<Rightarrow> lane_state" where
  "releaseImmatureHolds s = fold release_hold (ln_immatureHeld (la_lane s)) s"

section \<open>Purchases\<close>

definition settled_outcome :: "purchase_outcome \<Rightarrow> (lane_state, purchase_outcome) step" where
  "settled_outcome out = (\<lambda>s.
     let oid = (case out of PurchaseAccepted oid _ \<Rightarrow> oid | PurchaseRejected oid _ \<Rightarrow> oid)
     in (Inr out, on_lane (ln_outcomes_update (AList.update oid out)) s))"

definition reject_purchase :: "string \<Rightarrow> string \<Rightarrow> (lane_state, purchase_outcome) step" where
  "reject_purchase oid reason = (\<lambda>s.
     settled_outcome (PurchaseRejected oid reason) (on_lane (ln_rejected_update (\<lambda>n. n + 1)) s))"

definition grant_attrs :: "string \<Rightarrow> purchase_product \<Rightarrow> ent_attrs" where
  "grant_attrs oid p = \<lparr>quantity = None, eversion = None,
     eexpiresAt = (if pdKind p = ''temporary'' then pdExpiresAt p else None), esource = Some (''sale:'' @ oid)\<rparr>"

definition count_accepted :: "instance_purchase \<Rightarrow> string \<Rightarrow> bool \<Rightarrow> lane \<Rightarrow> lane" where
  "count_accepted i oid grants x =
     (let x1 = (if grants then x\<lparr>ln_granted := AList.update oid (ipBuyer i, pdSku (ipProduct i)) (ln_granted x)\<rparr> else x)
      in x1\<lparr>ln_accepted := ln_accepted x1 + 1,
           ln_spent := AList.update (ipBuyer i) (getz (ln_spent x1) (ipBuyer i) + minor (ipPrice i)) (ln_spent x1)\<rparr>)"

text \<open>The grant comes first; a refused movement takes it back, a fault of the session does not.\<close>

definition offer :: "ctx \<Rightarrow> instance_purchase \<Rightarrow> string \<Rightarrow> (lane_state, purchase_outcome) step" where
  "offer c i oid = (\<lambda>s.
     let grants = (pdKind (ipProduct i) \<noteq> ''instant'');
         sku = pdSku (ipProduct i);
         s1 = (if grants then on_ents (ent_grant (ipBuyer i) sku (grant_attrs oid (ipProduct i))) s else s)
     in case legsOf c i s1 of
          Inl e \<Rightarrow> (Inl e, s1)
        | Inr ls \<Rightarrow> andthen (on_net (record_movement c oid ls)) (\<lambda>out s2.
            case out of
              Refused reason \<Rightarrow>
                reject_purchase oid reason (if grants then on_ents (ent_revoke (ipBuyer i) sku) s2 else s2)
            | Accepted n \<Rightarrow>
                settled_outcome (PurchaseAccepted oid n) (on_lane (count_accepted i oid grants) s2)) s1)"

definition hold_funds :: "ctx \<Rightarrow> instance_purchase \<Rightarrow> (lane_state, bool) step" where
  "hold_funds c i = (\<lambda>s. case ln_prefund (la_lane s) of
     None \<Rightarrow> andthen (holdImmature c (ipBuyer i)) (\<lambda>_. finish True) s
   | Some need \<Rightarrow> ensurePrefunded c (ipBuyer i) need s)"

definition runPurchase :: "ctx \<Rightarrow> instance_purchase \<Rightarrow> (lane_state, purchase_outcome) step" where
  "runPurchase c i = (\<lambda>s. case validate i of Inl e \<Rightarrow> (Inl e, s) | Inr _ \<Rightarrow>
     andthen (orderIdOf i) (\<lambda>oid s1.
       case map_of (ln_outcomes (la_lane s1)) oid of Some out \<Rightarrow> (Inr out, s1) | None \<Rightarrow>
       andthen (hold_funds c i) (\<lambda>held s2.
         if \<not> held then reject_purchase oid ''INSUFFICIENT_FUNDS'' s2
         else if overCap (ipBuyer i) (minor (ipPrice i)) (la_lane s2) then reject_purchase oid ''RISK_DENIED'' s2
         else offer c i oid s2) s1) s)"

definition lane_pending :: "string \<Rightarrow> (AccountRef \<times> int) list \<Rightarrow> amount res" where
  "lane_pending userId resv = (let natural = reservation_pending (spendable userId) resv
     in toAmount CREDIT (if natural < 0 then - natural else 0))"

definition spentOf :: "string \<Rightarrow> lane \<Rightarrow> amount res" where
  "spentOf userId x = toAmount CREDIT (getz (ln_spent x) userId)"

section \<open>Settling a lane\<close>

record instance_report =
  ir_report :: settle_report
  ir_revoked :: "(string \<times> string \<times> string) list"

text \<open>A movement the replay refused moved no money, so its grant is taken back.\<close>

fun revoke_refused ::
    "(string \<times> (string \<times> string)) list \<Rightarrow> (string \<times> string) list \<Rightarrow> lane_state \<Rightarrow> (string \<times> string \<times> string) list \<times> lane_state" where
  "revoke_refused granted [] s = ([], s)"
| "revoke_refused granted ((oid, reason) # rs) s = (case map_of granted oid of
     None \<Rightarrow> revoke_refused granted rs s
   | Some (buyer, sku) \<Rightarrow>
       (case revoke_refused granted rs (on_ents (ent_revoke buyer sku) s) of (xs, s1) \<Rightarrow> ((buyer, sku, oid) # xs, s1)))"

fun refund_funded :: "ctx \<Rightarrow> string \<Rightarrow> string list \<Rightarrow> (lane_state, unit) step" where
  "refund_funded c sid [] s = (Inr (), s)"
| "refund_funded c sid (b # bs) s =
     (case refundEscrowRemainder c sid b (nw_unit (la_net s)) of
        (Inl e, u) \<Rightarrow> (Inl e, s\<lparr>la_net := (la_net s)\<lparr>nw_unit := u\<rparr>\<rparr>)
      | (Inr _, u) \<Rightarrow> refund_funded c sid bs (s\<lparr>la_net := (la_net s)\<lparr>nw_unit := u\<rparr>\<rparr>))"

definition refundRemainders :: "ctx \<Rightarrow> (lane_state, unit) step" where
  "refundRemainders c = (\<lambda>s. if ln_prefund (la_lane s) = None then (Inr (), s)
     else refund_funded c (lane_session s) (ln_funded (la_lane s)) s)"

definition mode_text :: "settle_mode \<Rightarrow> string" where
  "mode_text m = (case m of Netted \<Rightarrow> ''netted'' | Replayed \<Rightarrow> ''replayed'')"

definition emitSettled :: "ctx \<Rightarrow> settle_report \<Rightarrow> nat \<Rightarrow> (lane_state, unit) step" where
  "emitSettled c r revoked = (\<lambda>s. on_net (on_unit (sbind (fresh c ''evt'') (\<lambda>i.
     enqueue_event c \<lparr>eventId = i, eventType = ''economy.instance.settled'', eventVersion = 1, occurredAt = c_now c,
       eventSubject = lane_session s,
       eventData = JObj [(''sessionId'', JStr (lane_session s)), (''mode'', JStr (mode_text (sr_mode r))),
         (''netted'', JNum (int (sr_netted r))), (''postings'', JNum (int (sr_postings r))),
         (''rejected'', JNum (int (length (sr_rejected r)))), (''revoked'', JNum (int revoked))],
       clientAudience = False\<rparr> None))) s)"

text \<open>The session is asked once and its report kept.\<close>

definition ask_session :: "ctx \<Rightarrow> (lane_state, settle_report) step" where
  "ask_session c = (\<lambda>s. case ln_settleReport (la_lane s) of
     Some r \<Rightarrow> (Inr r, s)
   | None \<Rightarrow> andthen (on_net (settle c)) (\<lambda>r s1. (Inr r, on_lane (ln_settleReport_update (\<lambda>_. Some r)) s1)) s)"

definition runSettle :: "ctx \<Rightarrow> (lane_state, instance_report) step" where
  "runSettle c = andthen (ask_session c) (\<lambda>r s1.
     case revoke_refused (ln_granted (la_lane s1)) (sr_rejected r) s1 of (revoked, s2) \<Rightarrow>
     andthen (refundRemainders c) (\<lambda>_ s3.
       if ln_settledEmitted (la_lane s3) then (Inr \<lparr>ir_report = r, ir_revoked = revoked\<rparr>, s3)
       else andthen (emitSettled c r (length revoked)) (\<lambda>_ s4.
              (Inr \<lparr>ir_report = r, ir_revoked = revoked\<rparr>, on_lane (ln_settledEmitted_update (\<lambda>_. True)) s4)) s3)
       (releaseImmatureHolds s2))"

section \<open>The manager\<close>

record scope_lane =
  sl_session :: session
  sl_lane :: lane
  sl_openedAt :: int

record manager =
  mg_world :: net_world
  mg_lanes :: "(string \<times> scope_lane) list"
  mg_epochs :: "(string \<times> nat) list"

text \<open>The options of the manager and of its lanes, and the nonce its epoch ids carry.\<close>

record manager_options =
  mo_maxBatch :: nat
  mo_chunkWidth :: nat
  mo_shared :: bool
  mo_cap :: "int option"
  mo_prefund :: "int option"
  mo_maxMovements :: "nat option"
  mo_maxAgeMs :: "int option"
  mo_nonce :: string

definition DEFAULT_EPOCH_MAX_AGE_MS :: int where
  "DEFAULT_EPOCH_MAX_AGE_MS = 60000"

definition laneFor :: "ctx \<Rightarrow> manager_options \<Rightarrow> string \<Rightarrow> manager \<Rightarrow> scope_lane \<times> manager" where
  "laneFor c o2 scope m = (case map_of (mg_lanes m) scope of
     Some sl \<Rightarrow> (sl, m)
   | None \<Rightarrow> (case mint_epoch (mo_nonce o2) scope (mg_epochs m) of (sid, epochs) \<Rightarrow>
       (let sl = \<lparr>sl_session = open_session sid (mo_maxBatch o2) (mo_chunkWidth o2) (mo_shared o2),
                   sl_lane = open_lane (mo_cap o2) (mo_prefund o2), sl_openedAt = c_now c\<rparr>
        in (sl, m\<lparr>mg_epochs := epochs, mg_lanes := AList.update scope sl (mg_lanes m)\<rparr>))))"

text \<open>A lane's state put together from its handle and the shared world, and taken apart again.\<close>

definition lane_in :: "manager \<Rightarrow> scope_lane \<Rightarrow> lane_state" where
  "lane_in m sl = \<lparr>la_net = \<lparr>nw_unit = nw_unit (mg_world m), nw_moves = nw_moves (mg_world m), nw_resv = nw_resv (mg_world m),
     nw_session = sl_session sl\<rparr>, la_lane = sl_lane sl\<rparr>"

definition lane_out :: "string \<Rightarrow> scope_lane \<Rightarrow> lane_state \<Rightarrow> manager \<Rightarrow> manager" where
  "lane_out scope sl s m = m\<lparr>mg_world := net_world.truncate (la_net s),
     mg_lanes := AList.update scope (sl\<lparr>sl_session := nw_session (la_net s), sl_lane := la_lane s\<rparr>) (mg_lanes m)\<rparr>"

definition purchase_in :: "ctx \<Rightarrow> manager_options \<Rightarrow> string \<Rightarrow> instance_purchase \<Rightarrow> (manager, purchase_outcome) step" where
  "purchase_in c o2 scope i = (\<lambda>m. case laneFor c o2 scope m of (sl, m1) \<Rightarrow>
     case runPurchase c i (lane_in m1 sl) of (r, s) \<Rightarrow> (r, lane_out scope sl s m1))"

text \<open>A settle that faults keeps its lane.\<close>

definition rotate_scope :: "ctx \<Rightarrow> string \<Rightarrow> (manager, instance_report option) step" where
  "rotate_scope c scope = (\<lambda>m. case map_of (mg_lanes m) scope of
     None \<Rightarrow> (Inr None, m)
   | Some sl \<Rightarrow> (case runSettle c (lane_in m sl) of
       (Inl e, s) \<Rightarrow> (Inl e, lane_out scope sl s m)
     | (Inr r, s) \<Rightarrow> (Inr (Some r), (lane_out scope sl s m)\<lparr>mg_lanes := AList.delete scope (mg_lanes m)\<rparr>)))"

record sweep_report =
  sw_settled :: "(string \<times> instance_report) list"
  sw_failed :: "(string \<times> error_code) list"

definition rotate_one :: "ctx \<Rightarrow> string \<Rightarrow> sweep_report \<times> manager \<Rightarrow> sweep_report \<times> manager" where
  "rotate_one c scope st = (case st of (rep, m) \<Rightarrow> (case rotate_scope c scope m of
     (Inr None, m1) \<Rightarrow> (rep, m1)
   | (Inr (Some r), m1) \<Rightarrow> (rep\<lparr>sw_settled := sw_settled rep @ [(scope, r)]\<rparr>, m1)
   | (Inl e, m1) \<Rightarrow> (rep\<lparr>sw_failed := sw_failed rep @ [(scope, err_code (normalizeError e))]\<rparr>, m1)))"

definition rotateAll :: "ctx \<Rightarrow> string list \<Rightarrow> manager \<Rightarrow> sweep_report \<times> manager" where
  "rotateAll c scopes m = fold (rotate_one c) scopes (\<lparr>sw_settled = [], sw_failed = []\<rparr>, m)"

definition due_scopes :: "ctx \<Rightarrow> manager_options \<Rightarrow> manager \<Rightarrow> string list" where
  "due_scopes c o2 m = map fst (filter (\<lambda>(scope, sl).
     ln_accepted (sl_lane sl) \<ge> (case mo_maxMovements o2 of Some n \<Rightarrow> n | None \<Rightarrow> 512) \<or>
     c_now c - sl_openedAt sl \<ge> (case mo_maxAgeMs o2 of Some t \<Rightarrow> t | None \<Rightarrow> DEFAULT_EPOCH_MAX_AGE_MS)) (mg_lanes m))"

definition sweep_scopes :: "ctx \<Rightarrow> manager_options \<Rightarrow> manager \<Rightarrow> sweep_report \<times> manager" where
  "sweep_scopes c o2 m = rotateAll c (due_scopes c o2 m) m"

definition settleAll :: "ctx \<Rightarrow> manager \<Rightarrow> sweep_report \<times> manager" where
  "settleAll c m = rotateAll c (map fst (mg_lanes m)) m"

definition manager_stats :: "manager \<Rightarrow> nat \<times> nat \<times> nat" where
  "manager_stats m = (length (mg_lanes m), \<Sum>(k, sl)\<leftarrow>mg_lanes m. ln_accepted (sl_lane sl), \<Sum>(k, sl)\<leftarrow>mg_lanes m. ln_rejected (sl_lane sl))"

section \<open>What a lane does to ownership\<close>

abbreviation ents :: "lane_state \<Rightarrow> ent_store" where
  "ents s \<equiv> u_ents (nw_unit (la_net s))"

lemma on_lane_ents [simp]: "ents (on_lane f s) = ents s" "la_net (on_lane f s) = la_net s"
  by (simp_all add: on_lane_def)

lemma on_ents_ents [simp]: "ents (on_ents f s) = f (ents s)" "nw_session (la_net (on_ents f s)) = nw_session (la_net s)"
  by (simp_all add: on_ents_def)

lemma revoked_not_owned: "\<not> ent_owns now u sku (ent_revoke u sku es)"
  by (auto simp: ent_owns_def ent_revoke_def split: option.splits)

text \<open>
  A refused purchase of something the buyer already owned ends without the ownership: the grant
  overwrote the earlier one and the refusal takes the row back.
\<close>

lemma refused_purchase_drops_ownership:
  assumes "offer c i oid s = (Inr (PurchaseRejected oid reason), s')" "pdKind (ipProduct i) \<noteq> ''instant''"
  shows "\<not> ent_owns now (ipBuyer i) (pdSku (ipProduct i)) (ents s')"
  using assms
  by (auto simp: offer_def Let_def andthen_def on_net_def reject_purchase_def settled_outcome_def revoked_not_owned
      split: sum.splits prod.splits movement_outcome.splits)

text \<open>On a settled session the purchase faults with the ownership already granted.\<close>

lemma settled_purchase_keeps_grant:
  assumes "ns_settled (nw_session (la_net s))" "pdKind (ipProduct i) = ''permanent''" "legsOf c i s = Inr ls"
  shows "\<exists>s'. offer c i oid s = (Inl (fault SESSION_SETTLED), s') \<and> ent_owns now (ipBuyer i) (pdSku (ipProduct i)) (ents s')"
proof -
  let ?s1 = "on_ents (ent_grant (ipBuyer i) (pdSku (ipProduct i)) (grant_attrs oid (ipProduct i))) s"
  have "lane_session ?s1 = lane_session s" "la_lane ?s1 = la_lane s" by (simp_all add: lane_session_def on_ents_def)
  then have "legsOf c i ?s1 = legsOf c i s" unfolding legsOf_def debit_from_def by presburger
  then have "legsOf c i ?s1 = Inr ls" using assms(3) by (rule trans)
  then have "offer c i oid s = (Inl (fault SESSION_SETTLED), ?s1)"
    using assms(1,2) by (simp add: offer_def Let_def andthen_def on_net_def record_movement_def)
  moreover have "ent_owns now (ipBuyer i) (pdSku (ipProduct i)) (ents ?s1)"
    using assms(2) by (simp add: ent_owns_def ent_grant_def grant_attrs_def)
  ultimately show ?thesis by blast
qed





section \<open>An order is decided once\<close>

lemma reserve_add_id [simp]: "nw_session (snd (reserve_add a d s)) = nw_session s"
  by (simp add: reserve_add_def split: prod.splits)

lemma unwind_session [simp]: "nw_session (unwind applied s) = nw_session s"
proof -
  have "nw_session (fold (\<lambda>(a, d) s. snd (reserve_add a (- d) s)) xs s) = nw_session s" for xs
    by (induction xs arbitrary: s) auto
  then show ?thesis by (simp add: unwind_def)
qed

lemma openingBalance_id: "openingBalance a s = (r, s') \<Longrightarrow> ns_id (nw_session s') = ns_id (nw_session s)"
  by (auto simp: openingBalance_def upd_session_def split: option.splits sum.splits)

lemma reserve_loop_id: "reserve_loop ls applied s = (r, s') \<Longrightarrow> ns_id (nw_session s') = ns_id (nw_session s)"
proof (induction ls applied s rule: reserve_loop.induct)
  case (2 l ls applied s)
  have add: "reserve_add (account l) d s = (h, s1) \<Longrightarrow> nw_session s1 = nw_session s" for d h s1
    using reserve_add_id [of "account l" d s] by simp
  show ?case
    using 2 by (auto split: if_splits sum.splits prod.splits dest!: add openingBalance_id simp: Let_def)
qed simp

lemma reserve_id: "reserve ls s = (r, s') \<Longrightarrow> ns_id (nw_session s') = ns_id (nw_session s)"
  by (auto simp: reserve_def split: sum.splits if_splits dest: reserve_loop_id)

lemma record_movement_id: "record_movement c k ls s = (r, s') \<Longrightarrow> ns_id (nw_session s') = ns_id (nw_session s)"
  by (auto simp: record_movement_def andthen_def Let_def flush_def finish_def remember_def upd_session_def accept_def
      split: if_splits sum.splits prod.splits option.splits dest!: reserve_id)


lemma on_unit_session: "on_unit m s = (r, s') \<Longrightarrow> nw_session s' = nw_session s"
  by (auto simp: on_unit_def split: prod.splits)

lemma lane_session_upd [simp]:
  "lane_session (on_lane f s) = lane_session s" "lane_session (on_ents g s) = lane_session s"
  "lane_session (s\<lparr>la_net := snd (reserve_add a d (la_net s))\<rparr>) = lane_session s"
  by (simp_all add: lane_session_def on_lane_def)

lemma hold_id: "hold_funds c i s = (r, s') \<Longrightarrow> lane_session s' = lane_session s"
  by (auto simp: hold_funds_def holdImmature_def ensurePrefunded_def Let_def andthen_def on_net_def mark_funded_def
      finish_def lane_session_def on_lane_def split: option.splits sum.splits prod.splits if_splits dest!: on_unit_session)

lemma offer_outcome:
  assumes "offer c i oid s = (Inr out, s')"
  shows "lane_session s' = lane_session s \<and> map_of (ln_outcomes (la_lane s')) oid = Some out"
  using assms
  by (auto simp: offer_def Let_def andthen_def on_net_def reject_purchase_def settled_outcome_def lane_session_def on_lane_def
      split: sum.splits prod.splits movement_outcome.splits if_splits dest!: record_movement_id)

lemma order_id_prefix: "orderIdOf i s = (Inr oid, s') \<Longrightarrow>
    starts_with (order_prefix s') oid \<and> lane_session s' = lane_session s \<and> (ipOrderId i = None \<or> ipOrderId i = Some oid)"
  by (auto simp: orderIdOf_def order_prefix_def starts_with_def split: option.splits if_splits)

lemma purchase_outcome:
  assumes "runPurchase c i s = (Inr out, s')"
  obtains oid where "map_of (ln_outcomes (la_lane s')) oid = Some out" "starts_with (order_prefix s') oid"
    "ipOrderId i = None \<or> ipOrderId i = Some oid"
proof -
  have v: "validate i = Inr ()" using assms by (simp add: runPurchase_def split: sum.splits)
  obtain oid s1 where o1: "orderIdOf i s = (Inr oid, s1)"
    using assms v by (auto simp: runPurchase_def andthen_def split: sum.splits prod.splits)
  note p = order_id_prefix [OF o1]
  show ?thesis
  proof (cases "map_of (ln_outcomes (la_lane s1)) oid")
    case (Some x) then show ?thesis using assms v o1 p that [of oid] by (simp add: runPurchase_def andthen_def)
  next
    case None
    obtain h s2 where h: "hold_funds c i s1 = (Inr h, s2)"
      using assms v o1 None by (auto simp: runPurchase_def andthen_def split: sum.splits prod.splits)
    have fin: "lane_session s' = lane_session s2 \<and> map_of (ln_outcomes (la_lane s')) oid = Some out"
      using assms v o1 None h
      by (auto simp: runPurchase_def andthen_def reject_purchase_def settled_outcome_def on_lane_def lane_session_def
          split: if_splits dest!: offer_outcome)
    then have "order_prefix s' = order_prefix s1" using hold_id [OF h] by (simp add: order_prefix_def)
    then show ?thesis using p fin that [of oid] by simp
  qed
qed










end
