(* ===== verification/Export.thy ===== *)
theory Export
  imports Audits
begin

text \<open>
  The ledger export: the file src/economy.ts writes (\<open>exportLedger\<close>), the wire form of its links
  (src/adapters/http-wire.ts), and the verification of a file without a store (src/verify-export.ts).
  A line is what JSON reads from it. The casts of the parser have no check; a row of another shape than
  they declare is a TypeError here. The digest and the signature check of a public key are parameters.
\<close>

section \<open>Lines\<close>

text \<open>
  What reading the JSON text of a value gives back: a field that is undefined is gone, an undefined
  element is null, and a bigint (raw, or in an amount) makes the writer throw.
\<close>

definition type_error :: err where
  "type_error = HostError ''TypeError''"

fun json_carry :: "json \<Rightarrow> json res" where
  "json_carry (JArr xs) = rbind (rmap (\<lambda>x. if x = JUndef then Inr JNull else json_carry x) xs) (\<lambda>ys. Inr (JArr ys))"
| "json_carry (JObj kvs) =
     rbind (rmap (\<lambda>kv. rbind (json_carry (snd kv)) (\<lambda>v. Inr (fst kv, v))) (filter (\<lambda>kv. snd kv \<noteq> JUndef) kvs))
       (\<lambda>ys. Inr (JObj ys))"
| "json_carry (JBigint i) = Inl type_error"
| "json_carry (JAmount a) = Inl type_error"
| "json_carry v = Inr v"

datatype export_line = BlankLine | NoJsonLine | JsonLine json

definition write_line :: "json \<Rightarrow> export_line res" where
  "write_line v = rbind (json_carry v) (\<lambda>w. Inr (JsonLine w))"

definition EXPORT_FORMAT :: string where
  "EXPORT_FORMAT = ''economy-lab/ledger-export''"

text \<open>A property read: nothing on null or undefined, undefined where there is no such field.\<close>

definition jfield :: "string \<Rightarrow> json \<Rightarrow> json res" where
  "jfield k v = (case v of
     JObj kvs \<Rightarrow> Inr (case map_of kvs k of Some w \<Rightarrow> w | None \<Rightarrow> JUndef)
   | JNull \<Rightarrow> Inl type_error | JUndef \<Rightarrow> Inl type_error
   | _ \<Rightarrow> Inr JUndef)"

definition str_field :: "string \<Rightarrow> json \<Rightarrow> string res" where
  "str_field k v = rbind (jfield k v) (\<lambda>w. case w of JStr s \<Rightarrow> Inr s | _ \<Rightarrow> Inl type_error)"

definition int_field :: "string \<Rightarrow> json \<Rightarrow> int res" where
  "int_field k v = rbind (jfield k v) (\<lambda>w. case w of JNum n \<Rightarrow> Inr n | _ \<Rightarrow> Inl type_error)"

definition nullable_field :: "string \<Rightarrow> json \<Rightarrow> string option res" where
  "nullable_field k v = rbind (jfield k v) (\<lambda>w. case w of JStr s \<Rightarrow> Inr (Some s) | JNull \<Rightarrow> Inr None | _ \<Rightarrow> Inl type_error)"

section \<open>The wire form of a link\<close>

definition encodeLeg :: "leg \<Rightarrow> json" where
  "encodeLeg l = JObj [(''account'', JStr (account l)), (''amount'', JStr (encodeAmount (amount l)))]"

definition decodeLeg :: "json \<Rightarrow> leg res" where
  "decodeLeg w = rbind (str_field ''account'' w) (\<lambda>a. rbind (str_field ''amount'' w) (\<lambda>t.
     rbind (decodeAmountWire t) (\<lambda>m. Inr \<lparr>account = a, amount = m\<rparr>)))"

definition encode_storedLink :: "stored_link \<Rightarrow> json" where
  "encode_storedLink k = JObj [(''txnId'', JStr (ktxnId k)), (''legs'', JArr (map encodeLeg (klegs k))), (''meta'', JObj (kmeta k)),
     (''prevHash'', JStr (kprev k)), (''hash'', JStr (khash k))]"

definition decode_storedLink :: "AccountRef \<Rightarrow> json \<Rightarrow> stored_link res" where
  "decode_storedLink a w =
     rbind (str_field ''txnId'' w) (\<lambda>t. rbind (jfield ''legs'' w) (\<lambda>ls. rbind (jfield ''meta'' w) (\<lambda>m.
     rbind (str_field ''prevHash'' w) (\<lambda>p. rbind (str_field ''hash'' w) (\<lambda>h.
     case (ls, m) of
       (JArr xs, JObj kvs) \<Rightarrow> rbind (rmap decodeLeg xs) (\<lambda>legs.
         Inr \<lparr>kaccount = a, ktxnId = t, klegs = legs, kmeta = kvs, kprev = p, khash = h\<rparr>)
     | _ \<Rightarrow> Inl type_error)))))"

section \<open>Writing the file\<close>

definition nullable :: "string option \<Rightarrow> json" where
  "nullable x = (case x of None \<Rightarrow> JNull | Some s \<Rightarrow> JStr s)"

definition checkpoint_json :: "checkpoint \<Rightarrow> json" where
  "checkpoint_json c = JObj [(''id'', JStr (cpId c)), (''root'', JStr (cpRoot c)), (''signature'', JStr (cpSignature c)),
     (''count'', JNum (int (cpCount c))), (''at'', JNum (cpAt c)), (''v'', JNum (int (cpVersion c))),
     (''sum'', nullable (cpSum c)), (''kid'', nullable (cpKid c))]"

definition link_json :: "AccountRef \<Rightarrow> stored_link \<Rightarrow> json" where
  "link_json a k = JObj [(''type'', JStr ''link''), (''account'', JStr a), (''link'', encode_storedLink k)]"

definition exportLedger :: "'a ledger_data_scheme \<Rightarrow> checkpoint_store \<Rightarrow> export_line list res" where
  "exportLedger s cps =
     rbind (write_line (JObj [(''format'', JStr EXPORT_FORMAT), (''v'', JNum 1)])) (\<lambda>header.
     rbind (rmap (\<lambda>a. rmap (\<lambda>k. write_line (link_json a k)) (lineageOf (plog s) a None)) (map fst (sortedHeads (heads s)))) (\<lambda>links.
     rbind (case cp_latest cps of
              None \<Rightarrow> Inr []
            | Some c \<Rightarrow> rbind (write_line (JObj [(''type'', JStr ''checkpoint''), (''checkpoint'', checkpoint_json c)])) (\<lambda>l. Inr [l])) (\<lambda>tail.
       Inr (header # concat links @ tail))))"

section \<open>Reading it\<close>

record parsed_export =
  px_lineage :: "(AccountRef \<times> stored_link list) list"
  px_checkpoint :: "checkpoint option"

definition parse_checkpoint :: "json \<Rightarrow> checkpoint res" where
  "parse_checkpoint w =
     rbind (str_field ''id'' w) (\<lambda>i. rbind (str_field ''root'' w) (\<lambda>r. rbind (str_field ''signature'' w) (\<lambda>g.
     rbind (int_field ''count'' w) (\<lambda>n. rbind (int_field ''at'' w) (\<lambda>t. rbind (int_field ''v'' w) (\<lambda>v.
     rbind (nullable_field ''sum'' w) (\<lambda>sm. rbind (nullable_field ''kid'' w) (\<lambda>kid.
       Inr \<lparr>cpId = i, cpRoot = r, cpSignature = g, cpCount = nat n, cpAt = t, cpVersion = nat v, cpSum = sm, cpKid = kid\<rparr>))))))))"

definition add_link :: "AccountRef \<Rightarrow> stored_link \<Rightarrow> parsed_export \<Rightarrow> parsed_export" where
  "add_link a k p = p\<lparr>px_lineage := AList.update a
     ((case map_of (px_lineage p) a of Some ks \<Rightarrow> ks | None \<Rightarrow> []) @ [k]) (px_lineage p)\<rparr>"

definition parse_row :: "json \<Rightarrow> parsed_export \<Rightarrow> parsed_export res" where
  "parse_row row p = rbind (jfield ''type'' row) (\<lambda>t.
     if t = JStr ''link'' then
       rbind (str_field ''account'' row) (\<lambda>a. rbind (jfield ''link'' row) (\<lambda>w. rbind (decode_storedLink a w) (\<lambda>k.
         Inr (add_link a k p))))
     else if t = JStr ''checkpoint'' then
       rbind (jfield ''checkpoint'' row) (\<lambda>w. rbind (parse_checkpoint w) (\<lambda>c. Inr (p\<lparr>px_checkpoint := Some c\<rparr>)))
     else Inl (HostError ''Error''))"

fun parse_lines :: "bool \<Rightarrow> parsed_export \<Rightarrow> export_line list \<Rightarrow> parsed_export res" where
  "parse_lines sawHeader p [] = (if sawHeader then Inr p else Inl (HostError ''Error''))"
| "parse_lines sawHeader p (BlankLine # ls) = parse_lines sawHeader p ls"
| "parse_lines sawHeader p (NoJsonLine # ls) = Inl (HostError ''SyntaxError'')"
| "parse_lines sawHeader p (JsonLine row # ls) =
     (if sawHeader then rbind (parse_row row p) (\<lambda>q. parse_lines True q ls)
      else rbind (jfield ''format'' row) (\<lambda>f.
        if f = JStr EXPORT_FORMAT then parse_lines True p ls else Inl (HostError ''Error'')))"

definition parseExport :: "export_line list \<Rightarrow> parsed_export res" where
  "parseExport ls = parse_lines False \<lparr>px_lineage = [], px_checkpoint = None\<rparr> ls"

section \<open>The ledger behind a file\<close>

definition own_raw :: "AccountRef \<Rightarrow> stored_link list \<Rightarrow> int" where
  "own_raw a ks = (\<Sum>k\<leftarrow>ks. \<Sum>l\<leftarrow>klegs k. if account l = a then minor (amount l) else 0)"

text \<open>The members the provers walk; the file serves no other.\<close>

definition fileLedger :: "parsed_export \<Rightarrow> chain_reads" where
  "fileLedger p = \<lparr>cr_heads = map (\<lambda>(a, ks). (a, khash (last ks))) (px_lineage p),
     cr_headSums = map (\<lambda>(a, ks). (a, khash (last ks), own_raw a ks)) (px_lineage p),
     cr_lineage = (\<lambda>a _. case map_of (px_lineage p) a of Some ks \<Rightarrow> ks | None \<Rightarrow> []),
     cr_posting = (\<lambda>_. None), cr_links = (\<lambda>_. [])\<rparr>"

section \<open>Verifying it\<close>

text \<open>A signature passes when one of the keys accepts it; the signer never signs.\<close>

definition verifyOnlySigner :: "(byte list \<Rightarrow> byte list \<Rightarrow> byte list \<Rightarrow> bool) \<Rightarrow> string list \<Rightarrow> signer res" where
  "verifyOnlySigner ed keys = rbind (rmap fromHex keys) (\<lambda>raw.
     Inr \<lparr>sg_sign = (\<lambda>_. []), sg_verify = (\<lambda>payl sig. list_ex (\<lambda>k. ed k payl sig) raw), sg_kid = None\<rparr>)"

record verify_report =
  vrIntact :: bool
  vrFirstBreak :: "chain_break option"
  vrAccounts :: nat
  vrPresent :: bool
  vrId :: "string option"
  vrKid :: "string option"
  vrSignatureChecked :: bool
  vrVerified :: "bool option"

definition verifyExport ::
    "(byte list \<Rightarrow> byte list \<Rightarrow> byte list \<Rightarrow> bool) \<Rightarrow> digest \<Rightarrow> export_line list \<Rightarrow> string list \<Rightarrow> verify_report res" where
  "verifyExport ed dig ls keys =
     rbind (parseExport ls) (\<lambda>p.
     rbind (proveChain dig (fileLedger p) None) (\<lambda>chain.
     let rep = \<lparr>vrIntact = intact chain, vrFirstBreak = firstBreak chain, vrAccounts = chainCount chain,
           vrPresent = (px_checkpoint p \<noteq> None), vrId = None, vrKid = None, vrSignatureChecked = False, vrVerified = None\<rparr>
     in case px_checkpoint p of
          None \<Rightarrow> Inr rep
        | Some c \<Rightarrow>
            (let rep1 = rep\<lparr>vrId := Some (cpId c), vrKid := cpKid c\<rparr>
             in if keys = [] then Inr rep1
                else rbind (verifyOnlySigner ed keys) (\<lambda>sg. rbind (verifyCheckpoint dig sg (fileLedger p) c) (\<lambda>ok.
                  Inr (rep1\<lparr>vrSignatureChecked := True, vrVerified := Some ok\<rparr>))))))"

section \<open>What a plain value carries\<close>

fun plain_json :: "json \<Rightarrow> bool" where
  "plain_json (JArr xs) = list_all plain_json xs"
| "plain_json (JObj kvs) = list_all (\<lambda>kv. plain_json (snd kv)) kvs"
| "plain_json JUndef = False"
| "plain_json (JBigint i) = False"
| "plain_json (JAmount a) = False"
| "plain_json v = True"

lemma rmap_id: "(\<And>x. x \<in> set xs \<Longrightarrow> f x = Inr x) \<Longrightarrow> rmap f xs = Inr xs"
  by (induction xs) auto

lemma plain_defined: "plain_json v \<Longrightarrow> v \<noteq> JUndef"
  by auto

lemma json_carry_plain [simp]: "plain_json v \<Longrightarrow> json_carry v = Inr v"
proof (induction v rule: plain_json.induct)
  case (1 xs)
  then have "rmap (\<lambda>x. if x = JUndef then Inr JNull else json_carry x) xs = Inr xs"
    by (intro rmap_id) (auto simp: list_all_iff dest: plain_defined)
  then show ?case by simp
next
  case (2 kvs)
  have f: "filter (\<lambda>kv. snd kv \<noteq> JUndef) kvs = kvs"
    using 2(2) by (auto simp: filter_id_conv list_all_iff dest: plain_defined)
  have "rmap (\<lambda>kv. rbind (json_carry (snd kv)) (\<lambda>v. Inr (fst kv, v))) kvs = Inr kvs"
    using 2 by (intro rmap_id) (auto simp: list_all_iff)
  then show ?case using f by simp
qed auto

section \<open>A link and a checkpoint round trip\<close>

lemma jfield_obj [simp]: "jfield k (JObj kvs) = Inr (case map_of kvs k of Some w \<Rightarrow> w | None \<Rightarrow> JUndef)"
  by (simp add: jfield_def)

lemma decodeLeg_encode: "in_i64 (minor (amount l)) \<Longrightarrow> decodeLeg (encodeLeg l) = Inr l"
  by (simp add: decodeLeg_def encodeLeg_def str_field_def decodeAmountWire_encode)

lemma decode_storedLink_encode:
  assumes "\<forall>l \<in> set (klegs k). in_i64 (minor (amount l))" "kaccount k = a"
  shows "decode_storedLink a (encode_storedLink k) = Inr k"
proof -
  have "rmap decodeLeg (map encodeLeg ls) = Inr ls" if "\<forall>l \<in> set ls. in_i64 (minor (amount l))" for ls
    using that by (induction ls) (auto simp: decodeLeg_encode)
  then have "rmap decodeLeg (map encodeLeg (klegs k)) = Inr (klegs k)" using assms(1) by blast
  then show ?thesis
    using assms(2) by (simp add: decode_storedLink_def encode_storedLink_def str_field_def)
qed

lemma parse_checkpoint_json: "parse_checkpoint (checkpoint_json c) = Inr c"
  by (simp add: parse_checkpoint_def checkpoint_json_def str_field_def int_field_def nullable_field_def nullable_def
      split: option.splits)

text \<open>The links of a ledger as a file carries them: plain metadata, amounts of the ledger's size.\<close>

definition wire_link :: "AccountRef \<Rightarrow> stored_link \<Rightarrow> bool" where
  "wire_link a k \<longleftrightarrow> kaccount k = a \<and> plain_json (JObj (kmeta k)) \<and> (\<forall>l \<in> set (klegs k). in_i64 (minor (amount l)))"

lemma write_link: "wire_link a k \<Longrightarrow> write_line (link_json a k) = Inr (JsonLine (link_json a k))"
proof -
  assume w: "wire_link a k"
  have "plain_json (link_json a k)"
    using w by (simp add: wire_link_def link_json_def encode_storedLink_def encodeLeg_def list_all_iff)
  then show ?thesis by (simp add: write_line_def)
qed

lemma parse_link: "wire_link a k \<Longrightarrow> parse_row (link_json a k) p = Inr (add_link a k p)"
  by (simp add: parse_row_def link_json_def str_field_def wire_link_def decode_storedLink_encode)

section \<open>Reading back what was written\<close>

lemma parse_account:
  assumes "\<forall>k \<in> set ks. wire_link a k"
  shows "parse_lines True p (map (\<lambda>k. JsonLine (link_json a k)) ks @ ls) = parse_lines True (fold (add_link a) ks p) ls"
  using assms by (induction ks arbitrary: p) (simp_all add: parse_link)

lemma add_links_again:
  assumes "map_of (px_lineage p) a = Some js"
  shows "map_of (px_lineage (fold (add_link a) ks p)) a = Some (js @ ks) \<and>
    px_lineage (fold (add_link a) ks p) = (if ks = [] then px_lineage p else AList.update a (js @ ks) (px_lineage p)) \<and>
    px_checkpoint (fold (add_link a) ks p) = px_checkpoint p"
  using assms
proof (induction ks arbitrary: p js)
  case (Cons k ks)
  have m: "map_of (px_lineage (add_link a k p)) a = Some (js @ [k])" using Cons.prems by (simp add: add_link_def)
  have u: "AList.update a w (AList.update a v xs) = AList.update a w xs" for v w and xs :: "(AccountRef \<times> stored_link list) list"
    by (induction xs) auto
  show ?case using Cons.IH [OF m] Cons.prems by (auto simp: add_link_def u)
qed simp

lemma add_links_new:
  assumes "a \<notin> fst ` set (px_lineage p)" "ks \<noteq> []"
  shows "fold (add_link a) ks p = p\<lparr>px_lineage := px_lineage p @ [(a, ks)]\<rparr>"
proof -
  obtain k ks' where ks: "ks = k # ks'" using assms(2) by (cases ks) auto
  have n: "map_of (px_lineage p) a = None" using assms(1) by (simp add: map_of_eq_None_iff)
  have u: "AList.update a v xs = xs @ [(a, v)]" if "a \<notin> fst ` set xs" for v and xs :: "(AccountRef \<times> stored_link list) list"
    using that by (induction xs) auto
  have w: "AList.update a v (xs @ [(a, v')]) = xs @ [(a, v)]" if "a \<notin> fst ` set xs" for v v' and xs :: "(AccountRef \<times> stored_link list) list"
    using that by (induction xs) auto
  let ?q = "add_link a k p"
  have q: "px_lineage ?q = px_lineage p @ [(a, [k])]" "px_checkpoint ?q = px_checkpoint p"
    using n assms(1) by (simp_all add: add_link_def u)
  have "map_of (px_lineage ?q) a = Some [k]" using n by (simp add: q map_add_def)
  from add_links_again [OF this, of ks'] show ?thesis
    using assms(1) by (auto simp: ks q w intro!: parsed_export.equality)
qed

lemma parse_accounts:
  assumes "\<forall>a \<in> set as. f a \<noteq> [] \<and> (\<forall>k \<in> set (f a). wire_link a k)" "distinct as" "set as \<inter> fst ` set (px_lineage p) = {}"
  shows "parse_lines True p (concat (map (\<lambda>a. map (\<lambda>k. JsonLine (link_json a k)) (f a)) as) @ ls) =
    parse_lines True (p\<lparr>px_lineage := px_lineage p @ map (\<lambda>a. (a, f a)) as\<rparr>) ls"
  using assms
proof (induction as arbitrary: p)
  case (Cons a as)
  have "parse_lines True p (concat (map (\<lambda>a. map (\<lambda>k. JsonLine (link_json a k)) (f a)) (a # as)) @ ls) =
      parse_lines True (p\<lparr>px_lineage := px_lineage p @ [(a, f a)]\<rparr>) (concat (map (\<lambda>a. map (\<lambda>k. JsonLine (link_json a k)) (f a)) as) @ ls)"
    using Cons.prems parse_account [of "f a" a p] add_links_new [of a p "f a"] by simp
  also have "\<dots> = parse_lines True (p\<lparr>px_lineage := px_lineage p @ map (\<lambda>a. (a, f a)) (a # as)\<rparr>) ls"
    using Cons.IH [of "p\<lparr>px_lineage := px_lineage p @ [(a, f a)]\<rparr>"] Cons.prems by auto
  finally show ?case .
qed simp

definition file_of :: "'a ledger_data_scheme \<Rightarrow> checkpoint_store \<Rightarrow> parsed_export" where
  "file_of s cps = \<lparr>px_lineage = map (\<lambda>(a, h). (a, lineageOf (plog s) a None)) (sortedHeads (heads s)),
     px_checkpoint = cp_latest cps\<rparr>"

lemma export_parse:
  assumes "\<forall>(a, h) \<in> set (heads s). lineageOf (plog s) a None \<noteq> [] \<and> (\<forall>k \<in> set (lineageOf (plog s) a None). wire_link a k)"
    and "distinct (map fst (heads s))"
  shows "\<exists>ls. exportLedger s cps = Inr ls \<and> parseExport ls = Inr (file_of s cps)"
proof -
  let ?as = "map fst (sortedHeads (heads s))"
  let ?f = "\<lambda>a. lineageOf (plog s) a None"
  let ?body = "\<lambda>a. map (\<lambda>k. JsonLine (link_json a k)) (?f a)"
  have as: "\<forall>a \<in> set ?as. ?f a \<noteq> [] \<and> (\<forall>k \<in> set (?f a). wire_link a k)"
    using assms(1) by (auto simp: sortedHeads_def)
  have d: "distinct ?as" using assms(2) by (simp add: sortedHeads_def distinct_map distinct_sort)
  have l: "rmap (\<lambda>k. write_line (link_json a k)) (?f a) = Inr (?body a)" if "a \<in> set ?as" for a
    using as that by (auto simp: rmap_Inr_iff list_all2_conv_all_nth write_link)
  then have links: "rmap (\<lambda>a. rmap (\<lambda>k. write_line (link_json a k)) (?f a)) ?as = Inr (map ?body ?as)"
    by (auto simp: rmap_Inr_iff list_all2_conv_all_nth)
  define tl' where "tl' = (case cp_latest cps of None \<Rightarrow> []
    | Some c \<Rightarrow> [JsonLine (JObj [(''type'', JStr ''checkpoint''), (''checkpoint'', checkpoint_json c)])])"
  have pc: "plain_json (checkpoint_json c)" for c
    by (auto simp: checkpoint_json_def nullable_def split: option.splits)
  have write_header: "write_line (JObj [(''format'', JStr EXPORT_FORMAT), (''v'', JNum 1)]) =
      Inr (JsonLine (JObj [(''format'', JStr EXPORT_FORMAT), (''v'', JNum 1)]))" by (simp add: write_line_def)
  have write_tail: "write_line (JObj [(''type'', JStr ''checkpoint''), (''checkpoint'', checkpoint_json c)]) =
      Inr (JsonLine (JObj [(''type'', JStr ''checkpoint''), (''checkpoint'', checkpoint_json c)]))" for c
    using pc [of c] plain_defined [OF pc [of c]] by (simp add: write_line_def)
  have e: "exportLedger s cps = Inr (JsonLine (JObj [(''format'', JStr EXPORT_FORMAT), (''v'', JNum 1)]) # concat (map ?body ?as) @ tl')"
    using pc plain_defined
    by (auto simp: exportLedger_def links tl'_def write_header write_tail split: option.splits)
  have t: "parse_lines True p tl' = Inr (p\<lparr>px_checkpoint := cp_latest cps\<rparr>)" if "px_checkpoint p = None" for p
    using that by (auto simp: tl'_def parse_row_def parse_checkpoint_json split: option.splits intro!: parsed_export.equality)
  have "parseExport (JsonLine (JObj [(''format'', JStr EXPORT_FORMAT), (''v'', JNum 1)]) # concat (map ?body ?as) @ tl') =
      Inr (file_of s cps)"
    using parse_accounts [of ?as ?f "\<lparr>px_lineage = [], px_checkpoint = None\<rparr>" tl'] as d
    by (simp add: parseExport_def t file_of_def comp_def case_prod_unfold)
  then show ?thesis using e by blast
qed


section \<open>The file of a reached ledger\<close>

definition plain_metas :: "'a ledger_data_scheme \<Rightarrow> bool" where
  "plain_metas s \<longleftrightarrow> (\<forall>row \<in> set (plog s). plain_json (JObj (meta row)))"

lemma lineage_members:
  "k \<in> set (lineage_from a since True lg) \<Longrightarrow> \<exists>row \<in> set lg. \<exists>lk. find (\<lambda>lk. laccount lk = a) (links row) = Some lk \<and> k = link_of row lk"
  by (induction lg) (auto split: option.splits)

lemma lineage_nonempty:
  "row \<in> set lg \<Longrightarrow> a \<in> laccount ` set (links row) \<Longrightarrow> lineage_from a since True lg \<noteq> []"
  by (induction lg) (auto simp: find_None_iff split: option.splits)

text \<open>An account's own legs are all in its lineage.\<close>

lemma lineage_own:
  assumes "\<forall>row \<in> set lg. row_linked dig row"
  shows "own_raw a (lineage_from a since True lg) = (\<Sum>row\<leftarrow>lg. \<Sum>l\<leftarrow>legs row. if account l = a then minor (amount l) else 0)"
  using assms
proof (induction lg)
  case (Cons row lg)
  have z: "(\<Sum>l\<leftarrow>ls. if account l = a then minor (amount l) else 0) = 0" if "a \<notin> account ` set ls" for ls
    using that by (induction ls) auto
  show ?case
  proof (cases "find (\<lambda>lk. laccount lk = a) (links row)")
    case None
    then have "a \<notin> laccount ` set (links row)" by (auto simp: find_None_iff)
    then have "a \<notin> account ` set (legs row)" using Cons.prems by (simp add: row_linked_def)
    then show ?thesis using Cons None z by simp
  next
    case (Some lk) then show ?thesis using Cons by (simp add: own_raw_def link_of_def)
  qed
qed (simp add: own_raw_def)

lemma getz_head_sums:
  "getz (foldl (\<lambda>m row. foldl (\<lambda>m l. bump (account l) (minor (amount l)) m) m (legs row)) m lg) a =
     getz m a + (\<Sum>row\<leftarrow>lg. \<Sum>l\<leftarrow>legs row. if account l = a then minor (amount l) else 0)"
  by (induction lg arbitrary: m) (simp_all add: getz_foldl_bump)

text \<open>What a ledger holds when its file can carry it: metadata without undefined fields, amounts of 64 bits.\<close>

definition wire_ready :: "'a ledger_data_scheme \<Rightarrow> bool" where
  "wire_ready s \<longleftrightarrow> (\<forall>row \<in> set (plog s). plain_json (JObj (meta row)) \<and> (\<forall>l \<in> set (legs row). in_i64 (minor (amount l))))"

lemma export_reach:
  assumes "ledger_reach dig s" "wire_ready s"
  shows "\<exists>ls. exportLedger s cps = Inr ls \<and> parseExport ls = Inr (file_of s cps)"
proof (rule export_parse)
  note h = head_accounts [OF assms(1)]
  show "distinct (map fst (heads s))" using h by blast
  show "\<forall>(a, h) \<in> set (heads s). lineageOf (plog s) a None \<noteq> [] \<and> (\<forall>k \<in> set (lineageOf (plog s) a None). wire_link a k)"
  proof (clarify, intro conjI ballI)
    fix a x assume "(a, x) \<in> set (heads s)"
    then have "a \<in> account ` set (all_legs s)" using h by force
    then obtain row where row: "row \<in> set (plog s)" "a \<in> account ` set (legs row)" by (auto simp: all_legs_def)
    then have "a \<in> laccount ` set (links row)" using ledger_reach_linked [OF assms(1)] by (auto simp: row_linked_def)
    then show "lineageOf (plog s) a None \<noteq> []" using lineage_nonempty row(1) by (simp add: lineageOf_def)
  next
    fix a x k assume "k \<in> set (lineageOf (plog s) a None)"
    then obtain row lk where k: "row \<in> set (plog s)" "find (\<lambda>lk. laccount lk = a) (links row) = Some lk" "k = link_of row lk"
      using lineage_members [of k a None "plog s"] by (auto simp: lineageOf_def)
    then show "wire_link a k" using assms(2) find_in [OF k(2)] by (auto simp: wire_link_def link_of_def wire_ready_def)
  qed
qed

lemma file_reads:
  assumes "ledger_reach dig s"
  shows "cr_heads (fileLedger (file_of s cps)) = cr_heads (mem_reads s)"
    "cr_headSums (fileLedger (file_of s cps)) = cr_headSums (mem_reads s)"
    "cr_lineage (fileLedger (file_of s cps)) a None = cr_lineage (mem_reads s) a None"
proof -
  note h = head_accounts [OF assms]
  have d: "distinct (map fst (sortedHeads (heads s)))" using h by (simp add: sortedHeads_def distinct_map distinct_sort)
  have e: "lineageOf (plog s) b None \<noteq> [] \<and> khash (last (lineageOf (plog s) b None)) = x" if "(b, x) \<in> set (heads s)" for b x
  proof -
    have "b \<in> account ` set (all_legs s)" using h that by force
    then obtain row where row: "row \<in> set (plog s)" "b \<in> account ` set (legs row)" by (auto simp: all_legs_def)
    then have "b \<in> laccount ` set (links row)" using ledger_reach_linked [OF assms] by (auto simp: row_linked_def)
    then have "lineageOf (plog s) b None \<noteq> []" using lineage_nonempty row(1) by (simp add: lineageOf_def)
    moreover have "map_of (heads s) b = Some x" using h that by simp
    ultimately show ?thesis using ledger_reach_chains [OF assms, of b] by (simp add: chain_ok_def end_of_def)
  qed
  then show "cr_heads (fileLedger (file_of s cps)) = cr_heads (mem_reads s)"
    by (auto simp: fileLedger_def file_of_def mem_reads_def comp_def case_prod_unfold sortedHeads_def intro!: map_idI)
  have own: "own_raw b (lineageOf (plog s) b None) =
      getz (foldl (\<lambda>m row. foldl (\<lambda>m l. bump (account l) (minor (amount l)) m) m (legs row)) [] (plog s)) b" for b
    using lineage_own [OF ledger_reach_linked [OF assms], of b None] by (simp add: lineageOf_def getz_head_sums)
  show "cr_headSums (fileLedger (file_of s cps)) = cr_headSums (mem_reads s)"
    using e own by (auto simp: fileLedger_def file_of_def mem_reads_def headSumsOf_def Let_def sortedHeads_def)
  have "lineageOf (plog s) a None = []" if "a \<notin> fst ` set (heads s)"
  proof -
    have "a \<notin> account ` set (all_legs s)" using that h by simp
    then have "\<forall>row \<in> set (plog s). a \<notin> account ` set (legs row)" by (auto simp: all_legs_def)
    then have "\<forall>row \<in> set (plog s). a \<notin> laccount ` set (links row)"
      using ledger_reach_linked [OF assms] unfolding row_linked_def by simp
    then have "\<forall>row \<in> set (plog s). find (\<lambda>lk. laccount lk = a) (links row) = None" by (auto simp: find_None_iff)
    then have "lineage_from a None True lg = []" if "set lg \<subseteq> set (plog s)" for lg
      using that by (induction lg) auto
    then show ?thesis by (simp add: lineageOf_def)
  qed
  moreover have "map_of (map (\<lambda>(a, h). (a, lineageOf (plog s) a None)) hs) a =
      (if a \<in> fst ` set hs then Some (lineageOf (plog s) a None) else None)" for hs :: "(AccountRef \<times> string) list"
    by (induction hs) auto
  ultimately show "cr_lineage (fileLedger (file_of s cps)) a None = cr_lineage (mem_reads s) a None"
    by (auto simp: fileLedger_def file_of_def mem_reads_def sortedHeads_def)
qed


text \<open>The provers read a file as they read its ledger.\<close>

lemma prove_file:
  assumes "cr_heads r = cr_heads r'" "\<And>a. cr_lineage r a None = cr_lineage r' a None"
  shows "proveChain dig r None = proveChain dig r' None"
proof -
  have "recomputeAccount dig r None = recomputeAccount dig r' None" by (rule ext) (simp add: recomputeAccount_def assms(2))
  then show ?thesis by (simp add: proveChain_def assms(1))
qed

lemma verify_file:
  "cr_heads r = cr_heads r' \<Longrightarrow> cr_headSums r = cr_headSums r' \<Longrightarrow> verifyCheckpoint dig sg r c = verifyCheckpoint dig sg r' c"
  by (simp add: verifyCheckpoint_def)

text \<open>
  (C7) An export verifies without its store. Take any ledger its postings reached, whose metadata holds
  no undefined field, sealed by a signer whose public key is among the keys given: the export is
  written, parsing it gives back the heads, the head sums and every lineage of the ledger and the
  checkpoint, and the offline verification finds every chain intact and the seal verified.
\<close>

theorem export_verifies_offline:
  assumes "ledger_reach dig s" "wire_ready s"
    and "recordCheckpoint dig sg now i (mem_reads s) cps = Inr (cp, cps')" "cpArchive cps = None"
    and "rmap fromHex keys = Inr raws" "\<forall>p. list_ex (\<lambda>k. ed k p (sg_sign sg p)) raws" "keys \<noteq> []"
  shows "\<exists>ls parsed. exportLedger s cps' = Inr ls \<and> parseExport ls = Inr parsed \<and>
    cr_heads (fileLedger parsed) = cr_heads (mem_reads s) \<and> cr_headSums (fileLedger parsed) = cr_headSums (mem_reads s) \<and>
    (\<forall>a. cr_lineage (fileLedger parsed) a None = lineageOf (plog s) a None) \<and> px_checkpoint parsed = Some cp \<and>
    verifyExport ed dig ls keys = Inr \<lparr>vrIntact = True, vrFirstBreak = None, vrAccounts = length (heads s), vrPresent = True,
      vrId = Some (cpId cp), vrKid = cpKid cp, vrSignatureChecked = True, vrVerified = Some True\<rparr>"
proof -
  obtain ls where ls: "exportLedger s cps' = Inr ls" "parseExport ls = Inr (file_of s cps')"
    using export_reach [OF assms(1,2)] by blast
  note fr = file_reads [OF assms(1), where cps = cps']
  let ?sg = "\<lparr>sg_sign = (\<lambda>_. []), sg_verify = (\<lambda>p g. list_ex (\<lambda>k. ed k p g) raws), sg_kid = None\<rparr>"
  have v: "verifyCheckpoint dig ?sg (mem_reads s) cp = Inr True" "cp_latest cps' = Some cp"
    using sealed_verifies [OF assms(3,4), of ?sg] assms(6) by auto
  have pc: "px_checkpoint (file_of s cps') = Some cp" by (simp add: file_of_def v(2))
  have "verifyExport ed dig ls keys = Inr \<lparr>vrIntact = True, vrFirstBreak = None, vrAccounts = length (heads s), vrPresent = True,
      vrId = Some (cpId cp), vrKid = cpKid cp, vrSignatureChecked = True, vrVerified = Some True\<rparr>"
    using assms(5,7) v(1)
    by (simp add: verifyExport_def ls(2) pc prove_file [OF fr(1) fr(3)] proveChain_reach [OF assms(1)] verifyOnlySigner_def
        verify_file [OF fr(1,2)] Let_def)
  then show ?thesis using ls fr pc by (auto simp: mem_reads_def)
qed

lemma arc_wire: "wire_ready arc_ledger"
  by (simp add: wire_ready_def arc_ledger_def arc_row_def arc_posting_def debit_def in_i64_def I64_MIN_def I64_MAX_def)

theorem export_verifies_offline_witness:
  "\<exists>cps ls parsed. exportLedger arc_ledger cps = Inr ls \<and> parseExport ls = Inr parsed \<and> length (px_lineage parsed) = 2 \<and>
     verifyExport (\<lambda>k p g. k = [0] \<and> g = p) flat_digest ls [''07'', ''00''] = Inr \<lparr>vrIntact = True, vrFirstBreak = None,
       vrAccounts = 2, vrPresent = True, vrId = Some ''c'', vrKid = None, vrSignatureChecked = True, vrVerified = Some True\<rparr>"
proof -
  obtain payl where payl: "sumRootPayload (replicate 32 7, 0) = Inr payl" by (rule arc_payload)
  let ?cp = "hd (cpRows (arc_cps payl))"
  let ?ed = "\<lambda>k p g. k = [0] \<and> g = (p :: byte list)"
  have a: "cpArchive empty_checkpoints = None" by (simp add: empty_checkpoints_def)
  have k: "rmap fromHex [''07'', ''00''] = Inr [[7], [0]]" by code_simp
  have sg: "\<forall>p. list_ex (\<lambda>k. ?ed k p (sg_sign demo_signer p)) [[7], [0 :: byte]]" by (simp add: demo_signer_def)
  obtain ls parsed where r: "exportLedger arc_ledger (arc_cps payl) = Inr ls" "parseExport ls = Inr parsed"
    "cr_heads (fileLedger parsed) = cr_heads (mem_reads arc_ledger)"
    "verifyExport (\<lambda>k p g. k = [0] \<and> g = p) flat_digest ls [''07'', ''00''] = Inr \<lparr>vrIntact = True, vrFirstBreak = None,
       vrAccounts = length (heads arc_ledger), vrPresent = True, vrId = Some (cpId ?cp), vrKid = cpKid ?cp,
       vrSignatureChecked = True, vrVerified = Some True\<rparr>"
    using export_verifies_offline [where ed = ?ed, OF arc_reach arc_wire arc_recorded [OF payl] a k sg] by auto
  have "length (cr_heads (fileLedger parsed)) = 2" by (simp add: r(3) mem_reads_def sortedHeads_def arc_ledger_def)
  then have "length (px_lineage parsed) = 2" by (simp add: fileLedger_def)
  moreover have "length (heads arc_ledger) = 2" "cpId ?cp = ''c''" "cpKid ?cp = None"
    by (simp_all add: arc_cps_def arc_ledger_def)
  ultimately show ?thesis using r by (intro exI [of _ "arc_cps payl"] exI [of _ ls] exI [of _ parsed]) simp
qed

end
