(* ===== verification/Reads.thy ===== *)
theory Reads
  imports Audits Netting
begin

text \<open>
  The reads of src/economy.ts that watch the ledger: the health report with its fold (the lighter twin
  of src/integrity.ts), the capacity report with its advisories, and the balance cache with the
  in-memory cache of src/adapters/memory-cache.ts. On every ledger its postings reached the two provers
  give one report.
\<close>

section \<open>The health report\<close>

record health_fold = backing_totals +
  hf_signed :: "(currency \<times> int) list"
  hf_negative :: bool
  hf_chain :: bool
  hf_drift :: "drift_row list"

definition empty_health :: health_fold where
  "empty_health = \<lparr>custodialCreditMinor = 0, trustCashMinor = 0, hf_signed = [], hf_negative = False, hf_chain = True, hf_drift = []\<rparr>"

text \<open>A shape check only: 64 lowercase hex digits.\<close>

definition isWellFormedHead :: "string \<Rightarrow> bool" where
  "isWellFormedHead h \<longleftrightarrow> length h = 64 \<and> list_all (\<lambda>c. c \<in> set ''0123456789abcdef'') h"

definition MAX_SAFE_INTEGER :: int where
  "MAX_SAFE_INTEGER = 9007199254740991"

text \<open>From the least safe integer up to the greatest, which is excluded.\<close>

definition deriveBalanceMinor :: "'a ledger_data_scheme \<Rightarrow> AccountRef \<Rightarrow> int res" where
  "deriveBalanceMinor s a =
     rbind (buildStatement (plog s) a (- MAX_SAFE_INTEGER) MAX_SAFE_INTEGER) (\<lambda>es. Inr (\<Sum>e\<leftarrow>es. minor (entryAmount e)))"

definition baselineOf :: "boundary option \<Rightarrow> AccountRef \<Rightarrow> int" where
  "baselineOf bnd a = (case bnd of None \<Rightarrow> 0 | Some b \<Rightarrow> (case map_of (rawSums b) a of
     None \<Rightarrow> 0 | Some raw \<Rightarrow> raw * (if isDebitNormal a then 1 else - 1)))"

definition foldAccount :: "AccountRef \<Rightarrow> amount \<Rightarrow> int \<Rightarrow> health_fold \<Rightarrow> health_fold res" where
  "foldAccount a held_now derived_minor f =
     (let cur = currencyOf a; sign = (if isDebitNormal a then 1 else - 1)
      in rbind (pushIfDrifted a held_now derived_minor (hf_drift f)) (\<lambda>rows.
         let t = foldBackingAccount a (minor held_now) (backing_totals.truncate f)
         in Inr (f\<lparr>custodialCreditMinor := custodialCreditMinor t, trustCashMinor := trustCashMinor t,
              hf_signed := bump cur (derived_minor * sign) (hf_signed f), hf_drift := rows,
              hf_negative := (hf_negative f \<or> isWalletAccount a \<and> isNegative held_now)\<rparr>)))"

fun health_heads ::
    "'a ledger_data_scheme \<Rightarrow> boundary option \<Rightarrow> (AccountRef \<times> string) list \<Rightarrow> health_fold \<Rightarrow> health_fold res" where
  "health_heads s bnd [] f = Inr f"
| "health_heads s bnd ((a, head) # hs) f =
     rbind (balance_read s a) (\<lambda>held_now.
     rbind (deriveBalanceMinor s a) (\<lambda>own.
     rbind (foldAccount a held_now (baselineOf bnd a + own) f) (\<lambda>f1.
       health_heads s bnd hs (if isWellFormedHead head then f1 else f1\<lparr>hf_chain := False\<rparr>))))"

text \<open>The accounts whose postings are all archived.\<close>

fun health_archived ::
    "'a ledger_data_scheme \<Rightarrow> boundary option \<Rightarrow> AccountRef list \<Rightarrow> AccountRef list \<Rightarrow> health_fold \<Rightarrow> health_fold res" where
  "health_archived s bnd seen [] f = Inr f"
| "health_archived s bnd seen (a # as) f =
     (if a \<in> set seen then health_archived s bnd seen as f
      else rbind (balance_read s a) (\<lambda>held_now. rbind (foldAccount a held_now (baselineOf bnd a) f) (health_archived s bnd seen as)))"

definition healthFold :: "'a ledger_data_scheme \<Rightarrow> boundary option \<Rightarrow> health_fold res" where
  "healthFold s bnd =
     (let hs = sortedHeads (heads s)
      in rbind (health_heads s bnd hs empty_health) (\<lambda>f.
           case bnd of None \<Rightarrow> Inr f | Some b \<Rightarrow> health_archived s bnd (map fst hs) (map fst (rawSums b)) f))"

definition healthReport ::
    "digest \<Rightarrow> signer \<Rightarrow> rate \<Rightarrow> checkpoint_store \<Rightarrow> 'a ledger_data_scheme \<Rightarrow> prove_report res" where
  "healthReport dig sg par cps s =
     rbind (loadArchiveBoundary dig sg cps) (\<lambda>bnd.
     rbind (healthFold s bnd) (\<lambda>f.
     rbind (backingRequiredMinor (custodialCreditMinor f) par) (\<lambda>required.
     let short = backingShortfallMinor required (trustCashMinor f)
     in rbind (toAmount USD short) (\<lambda>u.
          Inr \<lparr>conserved = everyCurrencyBalances (hf_signed f), backed = (short = 0), noOverdraft = (\<not> hf_negative f),
            chainIntact = hf_chain f, consistent = (hf_drift f = []), driftRows = hf_drift f, shortfallUsd = u\<rparr>))))"

section \<open>What a reached ledger folds to\<close>

text \<open>Every running total of an account fitted: a commit checks each step.\<close>

lemma prefixes_append: "prefixes_fit x (vs @ ws) \<longleftrightarrow> prefixes_fit x vs \<and> prefixes_fit (x + sum_list vs) ws"
  by (induction vs arbitrary: x) (simp_all add: add.assoc)

lemma next_prefixes:
  "next_balances bals ls m = Inr r \<Longrightarrow> prefixes_fit (running bals m a) (map moved (filter (\<lambda>l. account l = a) ls))"
proof (induction ls arbitrary: m r)
  case (Cons l ls)
  from Cons.prems obtain r' where r: "in_i64 (running bals m (account l) + moved l)"
    "next_balances bals ls (AList.update (account l) (running bals m (account l) + moved l) m) = Inr r'"
    by (auto simp: balanceDelta_moved running_def Let_def)
  show ?case using Cons.IH [OF r(2)] r(1) by (cases "account l = a") (auto simp: running_def)
qed simp

lemma net_own_moves: "net a ls = sum_list (map moved (filter (\<lambda>l. account l = a) ls))"
  by (induction ls) auto

text \<open>The columns are the moves of each account, in order, and each account's running totals fit.\<close>

definition columns_ok :: "'a ledger_data_scheme \<Rightarrow> bool" where
  "columns_ok s \<longleftrightarrow> no_empty (columns s) \<and>
     (\<forall>a c. lview (columns s) (a, c) = map moved (filter (\<lambda>l. account l = a \<and> currency (amount l) = c) (all_legs s))) \<and>
     (\<forall>a. prefixes_fit 0 (map moved (filter (\<lambda>l. account l = a) (all_legs s)))) \<and>
     fst ` set (balances s) = account ` set (all_legs s)"

lemma columns_reach: "ledger_reach dig s \<Longrightarrow> columns_ok s"
proof (induction rule: ledger_reach.induct)
  case lr_empty then show ?case by (simp add: columns_ok_def empty_ledger_def all_legs_def no_empty_def lview_def)
next
  case (lr_begin s j) then show ?case by (simp add: columns_ok_def all_legs_def)
next
  case (lr_commit s) then show ?case by (simp add: columns_ok_def all_legs_def)
next
  case (lr_post s now p t s')
  note b = ledger_reach_books [OF lr_post.hyps(1)]
  show ?case
  proof (rule postEntry_commit [OF lr_post.hyps(2)])
    fix lks st
    assume c: "commitPosting (s\<lparr>seqno := seqno s + 1\<rparr>) st = Inr s'"
    note ci = commitPosting_Inr [OF c]
    have al: "all_legs s' = all_legs s @ legs st" using ci(1) by (simp add: all_legs_def)
    have cols: "lview (fold (\<lambda>l. appendDelta (account l) \<lparr>currency = currency (amount l), minor = moved l\<rparr>) ls m) (a, cur) =
        lview m (a, cur) @ map moved (filter (\<lambda>l. account l = a \<and> currency (amount l) = cur) ls) \<and>
        (no_empty m \<longrightarrow> no_empty (fold (\<lambda>l. appendDelta (account l) \<lparr>currency = currency (amount l), minor = moved l\<rparr>) ls m))" for ls m a cur
      by (induction ls arbitrary: m) auto
    obtain r where r: "next_balances (balances s) (legs st) [] = Inr r"
      using c by (auto simp: commitPosting_def Let_def)
    have pf: "prefixes_fit (getz (balances s) a) (map moved (filter (\<lambda>l. account l = a) (legs st)))" for a
      using next_prefixes [OF r, of a] by (simp add: running_def)
    have g: "getz (balances s) a = sum_list (map moved (filter (\<lambda>l. account l = a) (all_legs s)))" for a
      using b net_own_moves [of a "all_legs s"] by (simp add: books_ok_def)
    show "columns_ok s'"
      using lr_post.IH cols [of "legs st" "columns s"] pf ci(5,9)
      by (auto simp: columns_ok_def al prefixes_append g)
  qed
qed

lemma wallet_guarded: "isWalletAccount a \<Longrightarrow> isUserGuarded a"
proof -
  assume w: "isWalletAccount a"
  have "list_all (\<lambda>k. starts_with ''platform:'' k) (map fst SYSTEM_TRAITS)" by code_simp
  then have "baseOf a \<notin> fst ` set SYSTEM_TRAITS"
    using w by (auto simp: isWalletAccount_def baseOf_def list_all_iff)
  then have "map_of SYSTEM_TRAITS (baseOf a) = None" by (simp add: map_of_eq_None_iff)
  then show ?thesis using w by (simp add: isUserGuarded_def classify_def isWalletAccount_def Let_def)
qed

section \<open>The capacity report\<close>

definition historySizePostings :: nat where "historySizePostings = 10000000"
definition reproofMaxAgeMs :: int where "reproofMaxAgeMs = 24 * 60 * 60000"
definition checkpointMaxAgeMs :: int where "checkpointMaxAgeMs = 60 * 60000"
definition accrualMaxPendingAgeMs :: int where "accrualMaxPendingAgeMs = 60 * 60000"
definition tableRows :: nat where "tableRows = 10000000"
definition enumerationCap :: nat where "enumerationCap = 10000"

text \<open>The walk stops at the cap.\<close>

definition countCapped :: "'a list \<Rightarrow> nat \<times> bool" where
  "countCapped xs = (if length xs \<ge> enumerationCap then (enumerationCap, True) else (length xs, False))"

text \<open>An advisory is a fact with its gauge; its sentence is for people.\<close>

datatype advisory =
    HistoryHolds nat
  | ReproofOld int
  | CheckpointOld int
  | AccrualPending int
  | TableHolds string nat

record capacity_report =
  cy_historySize :: nat
  cy_rotatedAt :: "int option"
  cy_reproofAge :: "int option"
  cy_checkpointAt :: "int option"
  cy_checkpointCount :: "nat option"
  cy_checkpointAge :: "int option"
  cy_pendingMinor :: string
  cy_oldestPendingAge :: "int option"
  cy_sessions :: "nat \<times> bool"
  cy_reservations :: "nat \<times> bool"
  cy_tables :: "(string \<times> nat) list"
  cy_advisories :: "advisory list"

definition accrual_gauges :: "int \<Rightarrow> accrual_store \<Rightarrow> int \<times> int option" where
  "accrual_gauges now st =
     (let rows = filter (\<lambda>r. accStatus r = AccPending) (map snd (accRows st))
      in ((\<Sum>r\<leftarrow>rows. if minor (accAmount r) > 0 then minor (accAmount r) else 0),
          if rows = [] then None else Some (now - Min (set (map accRecordedAt rows)))))"

definition tableSizesOf :: "net_world \<Rightarrow> (string \<times> nat) list" where
  "tableSizesOf x = [(''movements'', length (mvLog (nw_moves x))), (''idempotency'', length (idemAt (u_idem (nw_unit x)))),
     (''sales'', length (u_sales (nw_unit x))), (''outbox'', length (outRows (u_outbox (nw_unit x)))),
     (''sagas'', length (sagaRows (u_sagas (nw_unit x)))), (''accruals'', length (accRows (u_accruals (nw_unit x))))]"

definition past :: "int \<Rightarrow> int option \<Rightarrow> int \<Rightarrow> (int \<Rightarrow> advisory) \<Rightarrow> advisory list" where
  "past now since limit adv = (case since of Some t \<Rightarrow> (if now - t > limit then [adv (now - t)] else []) | None \<Rightarrow> [])"

definition capacityAdvisories ::
    "int \<Rightarrow> nat \<Rightarrow> int option \<Rightarrow> int option \<Rightarrow> int option \<Rightarrow> (string \<times> nat) list \<Rightarrow> advisory list" where
  "capacityAdvisories now hist rotated sealed oldest tables =
     (if hist \<ge> historySizePostings then [HistoryHolds hist] else []) @
     past now rotated reproofMaxAgeMs ReproofOld @
     past now sealed checkpointMaxAgeMs CheckpointOld @
     (case oldest of Some t \<Rightarrow> (if t > accrualMaxPendingAgeMs then [AccrualPending t] else []) | None \<Rightarrow> []) @
     map (\<lambda>(t, n). TableHolds t n) (filter (\<lambda>(t, n). n \<ge> tableRows) tables)"

definition capacityReport :: "int \<Rightarrow> checkpoint_store \<Rightarrow> net_world \<Rightarrow> capacity_report" where
  "capacityReport now cps x =
     (let hist = historySize (u_ledger (nw_unit x));
          rotated = (case cpReproof cps of None \<Rightarrow> None | Some st \<Rightarrow> rpRotatedAt st);
          latest = cp_latest cps;
          sealed = map_option cpAt latest;
          tables = tableSizesOf x
      in case accrual_gauges now (u_accruals (nw_unit x)) of (pend, oldest) \<Rightarrow>
        \<lparr>cy_historySize = hist, cy_rotatedAt = rotated, cy_reproofAge = map_option (\<lambda>t. now - t) rotated,
         cy_checkpointAt = sealed, cy_checkpointCount = map_option cpCount latest,
         cy_checkpointAge = map_option (\<lambda>t. now - t) sealed, cy_pendingMinor = int_text pend, cy_oldestPendingAge = oldest,
         cy_sessions = countCapped (mv_sessionIds (nw_moves x)), cy_reservations = countCapped (reservation_entries (nw_resv x)),
         cy_tables = tables, cy_advisories = capacityAdvisories now hist rotated sealed oldest tables\<rparr>)"

section \<open>The balance cache\<close>

text \<open>A cache port over a state of its own; any call may throw.\<close>

record 'c cache_port =
  pc_get :: "string \<Rightarrow> 'c \<Rightarrow> string option res \<times> 'c"
  pc_set :: "string \<Rightarrow> string \<Rightarrow> 'c \<Rightarrow> unit res \<times> 'c"
  pc_invalidate :: "string \<Rightarrow> 'c \<Rightarrow> unit res \<times> 'c"

definition cacheKey :: "AccountRef \<Rightarrow> string" where
  "cacheKey a = ''bal:'' @ a"

definition bestEffortCache :: "'a \<Rightarrow> 'a res \<Rightarrow> 'a" where
  "bestEffortCache fallback r = (case r of Inl _ \<Rightarrow> fallback | Inr x \<Rightarrow> x)"

definition cachedRow :: "'c cache_port option \<Rightarrow> 'a ledger_data_scheme \<Rightarrow> AccountRef \<Rightarrow> 'c \<Rightarrow> amount res \<times> 'c" where
  "cachedRow port s a c = (case port of None \<Rightarrow> (balance_read s a, c) | Some p \<Rightarrow>
     (case pc_get p (cacheKey a) c of (got, c1) \<Rightarrow> (case bestEffortCache None got of
        Some text \<Rightarrow> (decodeAmountWire text, c1)
      | None \<Rightarrow> (case balance_read s a of
          Inl e \<Rightarrow> (Inl e, c1)
        | Inr b \<Rightarrow> (Inr b, snd (pc_set p (cacheKey a) (encodeAmount b) c1))))))"

fun cached_sum :: "'c cache_port option \<Rightarrow> 'a ledger_data_scheme \<Rightarrow> AccountRef list \<Rightarrow> int \<Rightarrow> 'c \<Rightarrow> int res \<times> 'c" where
  "cached_sum port s [] acc c = (Inr acc, c)"
| "cached_sum port s (a # as) acc c = (case cachedRow port s a c of
     (Inl e, c1) \<Rightarrow> (Inl e, c1)
   | (Inr b, c1) \<Rightarrow> cached_sum port s as (acc + minor b) c1)"

definition cachedBalance ::
    "nat \<Rightarrow> 'c cache_port option \<Rightarrow> 'a ledger_data_scheme \<Rightarrow> AccountRef \<Rightarrow> 'c \<Rightarrow> amount res \<times> 'c" where
  "cachedBalance n port s a c =
     (if n > 1 \<and> isShardedBase a
      then (case cached_sum port s (shardsOf a n) 0 c of (r, c1) \<Rightarrow> (rbind r (toAmount (currencyOf a)), c1))
      else cachedRow port s a c)"

definition invalidate_all :: "'c cache_port \<Rightarrow> AccountRef list \<Rightarrow> 'c \<Rightarrow> 'c" where
  "invalidate_all p as c = fold (\<lambda>a c. snd (pc_invalidate p (cacheKey a) c)) as c"

definition invalidateCache :: "ctx \<Rightarrow> 'c cache_port option \<Rightarrow> operation \<Rightarrow> outcome \<Rightarrow> 'c \<Rightarrow> 'c" where
  "invalidateCache cx port opn out c = (case port of None \<Rightarrow> c | Some p \<Rightarrow> (case out of
     Committed _ \<Rightarrow> invalidate_all p (remdups (accountsOf opn (shards cx) (accrualDrain (c_config cx)))) c
   | _ \<Rightarrow> c))"

text \<open>The in-process cache: a map of entries that may expire.\<close>

record cache_entry =
  ce_value :: string
  ce_expiresAt :: "int option"

definition cache_get :: "int \<Rightarrow> string \<Rightarrow> (string \<times> cache_entry) list \<Rightarrow> string option res \<times> (string \<times> cache_entry) list" where
  "cache_get now k m = (case map_of m k of
     None \<Rightarrow> (Inr None, m)
   | Some e \<Rightarrow> (case ce_expiresAt e of
       Some t \<Rightarrow> (if now \<ge> t then (Inr None, AList.delete k m) else (Inr (Some (ce_value e)), m))
     | None \<Rightarrow> (Inr (Some (ce_value e)), m)))"

definition cache_set :: "int \<Rightarrow> int option \<Rightarrow> string \<Rightarrow> string \<Rightarrow> (string \<times> cache_entry) list \<Rightarrow> unit res \<times> (string \<times> cache_entry) list" where
  "cache_set now ttl k v m = (Inr (), AList.update k \<lparr>ce_value = v, ce_expiresAt = map_option (\<lambda>t. now + t) ttl\<rparr> m)"

definition memoryCache :: "int \<Rightarrow> (string \<times> cache_entry) list cache_port" where
  "memoryCache now = \<lparr>pc_get = cache_get now, pc_set = cache_set now None, pc_invalidate = (\<lambda>k m. (Inr (), AList.delete k m))\<rparr>"

text \<open>
  What the reads rely on in a cache: a get shows the entry and keeps every other, a set and an
  invalidate touch only their key. A cache may also forget: any entry may be gone at any time.
\<close>

definition only_fewer :: "('c \<Rightarrow> string \<Rightarrow> string option) \<Rightarrow> 'c \<Rightarrow> 'c \<Rightarrow> bool" where
  "only_fewer view c c' \<longleftrightarrow> (\<forall>k. view c' k = None \<or> view c' k = view c k)"

locale read_cache =
  fixes port :: "'c cache_port" and view :: "'c \<Rightarrow> string \<Rightarrow> string option"
  assumes get_shows: "pc_get port k c = (r, c') \<Longrightarrow> bestEffortCache None r \<in> {None, view c k} \<and> only_fewer view c c'"
    and set_shows: "pc_set port k v c = (u, c') \<Longrightarrow> view c' j = None \<or> view c' j = (if j = k then Some v else view c j)"
    and invalidate_shows: "pc_invalidate port k c = (u, c') \<Longrightarrow> view c' k = None \<and> only_fewer view c c'"
begin

text \<open>Every entry is the balance the ledger holds.\<close>

definition coherent :: "'a ledger_data_scheme \<Rightarrow> 'c \<Rightarrow> bool" where
  "coherent s c \<longleftrightarrow> (\<forall>a t. view c (cacheKey a) = Some t \<longrightarrow>
     t = encodeAmount \<lparr>currency = currencyOf a, minor = getz (balances s) a\<rparr>)"

lemma coherent_shows: "coherent s c \<Longrightarrow> only_fewer view c c' \<Longrightarrow> coherent s c'"
  unfolding coherent_def only_fewer_def by (metis option.distinct(1))

lemma row_exact:
  assumes "coherent s c" "in_i64 (getz (balances s) a)" "cachedRow (Some port) s a c = (r, c')"
  shows "r = Inr \<lparr>currency = currencyOf a, minor = getz (balances s) a\<rparr> \<and> coherent s c'"
proof -
  obtain got c1 where g: "pc_get port (cacheKey a) c = (got, c1)" by force
  have gs: "bestEffortCache None got \<in> {None, view c (cacheKey a)}" "only_fewer view c c1" using get_shows [OF g] by auto
  have c1: "coherent s c1" using coherent_shows [OF assms(1) gs(2)] .
  show ?thesis
  proof (cases "bestEffortCache None got")
    case None
    obtain u c2 where p: "pc_set port (cacheKey a) (encodeAmount \<lparr>currency = currencyOf a, minor = getz (balances s) a\<rparr>) c1 = (u, c2)"
      by force
    have "coherent s c2"
      unfolding coherent_def
    proof (intro allI impI)
      fix b t assume t: "view c2 (cacheKey b) = Some t"
      show "t = encodeAmount \<lparr>currency = currencyOf b, minor = getz (balances s) b\<rparr>"
      proof (cases "b = a")
        case True then show ?thesis using set_shows [OF p, of "cacheKey b"] t by simp
      next
        case False
        then have "view c1 (cacheKey b) = Some t" using set_shows [OF p, of "cacheKey b"] t by (simp add: cacheKey_def)
        then show ?thesis using c1 by (simp add: coherent_def)
      qed
    qed
    moreover have "balance_read s a = Inr \<lparr>currency = currencyOf a, minor = getz (balances s) a\<rparr>"
      using assms(2) by (simp add: balance_read_def)
    ultimately show ?thesis using assms(3) g None p by (simp add: cachedRow_def)
  next
    case (Some t)
    then have "t = encodeAmount \<lparr>currency = currencyOf a, minor = getz (balances s) a\<rparr>"
      using gs(1) assms(1) by (auto simp: coherent_def)
    then show ?thesis using assms(2,3) g Some c1 by (simp add: cachedRow_def decodeAmountWire_encode)
  qed
qed

text \<open>Dropping every account whose balance moved keeps the cache coherent.\<close>

lemma invalidate_coherent:
  assumes "coherent s c" "\<forall>a. a \<notin> set as \<longrightarrow> getz (balances s') a = getz (balances s) a"
  shows "coherent s' (invalidate_all port as c)"
proof -
  have d: "only_fewer view c (fold (\<lambda>a c. snd (pc_invalidate port (cacheKey a) c)) xs c) \<and>
      (\<forall>a \<in> set xs. view (fold (\<lambda>a c. snd (pc_invalidate port (cacheKey a) c)) xs c) (cacheKey a) = None)" for xs
  proof (induction xs rule: rev_induct)
    case (snoc x xs)
    let ?c = "fold (\<lambda>a c. snd (pc_invalidate port (cacheKey a) c)) xs c"
    obtain u c2 where i: "pc_invalidate port (cacheKey x) ?c = (u, c2)" by force
    note iv = invalidate_shows [OF i]
    show ?case using snoc iv by (auto simp: i only_fewer_def) (metis option.distinct(1))+
  qed (simp add: only_fewer_def)
  show ?thesis
    unfolding coherent_def invalidate_all_def
  proof (intro allI impI)
    fix a t assume t: "view (fold (\<lambda>a c. snd (pc_invalidate port (cacheKey a) c)) as c) (cacheKey a) = Some t"
    then have "a \<notin> set as" using d [of as] by auto
    moreover have "view c (cacheKey a) = Some t" using d [of as] t unfolding only_fewer_def by (metis option.distinct(1))
    ultimately show "t = encodeAmount \<lparr>currency = currencyOf a, minor = getz (balances s') a\<rparr>"
      using assms by (auto simp: coherent_def)
  qed
qed

end

definition cache_view :: "int \<Rightarrow> (string \<times> cache_entry) list \<Rightarrow> string \<Rightarrow> string option" where
  "cache_view now m k = (case map_of m k of None \<Rightarrow> None
     | Some e \<Rightarrow> (case ce_expiresAt e of Some t \<Rightarrow> (if now \<ge> t then None else Some (ce_value e)) | None \<Rightarrow> Some (ce_value e)))"

interpretation mc: read_cache "memoryCache now" "cache_view now"
  by unfold_locales
    (auto simp: memoryCache_def cache_get_def cache_set_def cache_view_def bestEffortCache_def only_fewer_def
      split: option.splits if_splits)

text \<open>
  A refund and a reversal lock, and so invalidate, three platform accounts; the wallets they move keep
  their cached entry, and a read after the commit returns the balance of before.
\<close>

lemma refund_leaves_cached_wallet:
  assumes "(\<exists>i r. payload opn = Refund i r) \<or> (\<exists>i r. payload opn = Reverse i r)" "isWalletAccount a"
    and "map_of m (cacheKey a) = Some \<lparr>ce_value = text, ce_expiresAt = None\<rparr>"
  shows "cachedRow (Some (memoryCache now)) s a (invalidateCache cx (Some (memoryCache now)) opn (Committed t) m) =
    (decodeAmountWire text, invalidateCache cx (Some (memoryCache now)) opn (Committed t) m)"
proof -
  have "list_all (\<lambda>b. \<not> isWalletAccount b) REVERSAL_CONTRAS" by code_simp
  then have "a \<notin> set (accountsOf opn (shards cx) (accrualDrain (c_config cx)))"
    using assms(1,2) by (auto simp: accountsOf_def list_all_iff)
  then have "map_of (fold (\<lambda>a c. snd (pc_invalidate (memoryCache now) (cacheKey a) c))
      (remdups (accountsOf opn (shards cx) (accrualDrain (c_config cx)))) m) (cacheKey a) = map_of m (cacheKey a)"
  proof -
    assume "a \<notin> set (accountsOf opn (shards cx) (accrualDrain (c_config cx)))"
    moreover have "a \<notin> set xs \<Longrightarrow> map_of (fold (\<lambda>a c. snd (pc_invalidate (memoryCache now) (cacheKey a) c)) xs m) (cacheKey a) =
        map_of m (cacheKey a)" for xs m
      by (induction xs arbitrary: m) (auto simp: memoryCache_def cacheKey_def delete_conv')
    ultimately show ?thesis by simp
  qed
  then show ?thesis
    using assms(3) by (simp add: cachedRow_def invalidateCache_def invalidate_all_def memoryCache_def cache_get_def bestEffortCache_def)
qed

section \<open>Both folds give one result\<close>

text \<open>What a reached ledger derives for an account that has a head.\<close>

lemma derived_reach:
  assumes "ledger_reach dig s" "a \<in> account ` set (all_legs s)"
  shows "derivedBalancesOf w s a = Inr [\<lparr>currency = currencyOf a, minor = getz (balances s) a\<rparr>]"
proof -
  note c = columns_reach [OF assms(1)] and b = ledger_reach_books [OF assms(1)]
  let ?vs = "map moved (filter (\<lambda>l. account l = a) (all_legs s))"
  have cur: "\<forall>l \<in> set (all_legs s). currency (amount l) = currencyOf (account l) \<and> in_i64 (moved l)"
    using b by (auto simp: books_ok_def all_legs_def)
  have v: "lview (columns s) (a, x) = (if x = currencyOf a then ?vs else [])" for x
  proof -
    have "filter (\<lambda>l. account l = a \<and> currency (amount l) = x) (all_legs s) =
        (if x = currencyOf a then filter (\<lambda>l. account l = a) (all_legs s) else [])"
      using cur by (auto intro!: filter_cong simp: filter_empty_conv)
    then show ?thesis using c by (simp add: columns_ok_def)
  qed
  have ne: "?vs \<noteq> []" using assms(2) by (auto simp: filter_empty_conv)
  have m: "map_of (columns s) (a, x) = (if x = currencyOf a then Some ?vs else None)" for x
    using no_empty_map_of [of "columns s" "(a, x)"] c v ne by (simp add: columns_ok_def)
  have f: "foldColumn w ?vs = Inr (getz (balances s) a)"
  proof -
    have "list_all in_i64 ?vs" using cur by (auto simp: list_all_iff)
    moreover have "prefixes_fit 0 ?vs" using c by (simp add: columns_ok_def)
    ultimately have "foldColumn w ?vs = Inr (sum_list ?vs)" by (rule foldColumn_sum)
    then show ?thesis using b net_own_moves [of a "all_legs s"] by (simp add: books_ok_def)
  qed
  have i: "in_i64 (getz (balances s) a)" using b unfolding books_ok_def by blast
  show ?thesis using f i by (cases "currencyOf a") (simp_all add: derivedBalancesOf_def m)
qed

lemma statement_reach:
  assumes "ledger_reach dig s" "\<forall>row \<in> set (plog s). - MAX_SAFE_INTEGER \<le> postedAt row \<and> postedAt row < MAX_SAFE_INTEGER"
  shows "deriveBalanceMinor s a = Inr (getz (balances s) a)"
proof -
  note b = ledger_reach_books [OF assms(1)]
  have m: "\<forall>l \<in> set (all_legs s). in_i64 (moved l)" using b by (auto simp: books_ok_def all_legs_def)
  have r: "rmap (\<lambda>l. rbind (balanceDelta l) (\<lambda>d. Inr \<lparr>entryTxn = t, entryAmount = d, entryAt = p\<rparr>)) ls =
      Inr (map (\<lambda>l. \<lparr>entryTxn = t, entryAmount = \<lparr>currency = currency (amount l), minor = moved l\<rparr>, entryAt = p\<rparr>) ls)"
    if "\<forall>l \<in> set ls. in_i64 (moved l)" for t p ls
    using that by (induction ls) (simp_all add: balanceDelta_moved)
  have f: "filter (\<lambda>row. \<not> (postedAt row < - MAX_SAFE_INTEGER \<or> postedAt row \<ge> MAX_SAFE_INTEGER)) (plog s) = plog s"
    using assms(2) by (auto simp: filter_id_conv)
  let ?es = "\<lambda>row. map (\<lambda>l. \<lparr>entryTxn = txnId row, entryAmount = \<lparr>currency = currency (amount l), minor = moved l\<rparr>, entryAt = postedAt row\<rparr>)
      (filter (\<lambda>l. account l = a) (legs row))"
  have rows: "rmap (\<lambda>row. rmap (\<lambda>l. rbind (balanceDelta l) (\<lambda>d. Inr \<lparr>entryTxn = txnId row, entryAmount = d, entryAt = postedAt row\<rparr>))
      (filter (\<lambda>l. account l = a) (legs row))) lg = Inr (map ?es lg)"
    if "set lg \<subseteq> set (plog s)" for lg
    using that m by (induction lg) (auto simp: r all_legs_def)
  have st: "buildStatement (plog s) a (- MAX_SAFE_INTEGER) MAX_SAFE_INTEGER = Inr (concat (map ?es (plog s)))"
    unfolding buildStatement_def f by (simp add: rows)
  have n: "(\<Sum>l\<leftarrow>filter (\<lambda>l. account l = a) ls. moved l) = net a ls" for ls
    by (induction ls) auto
  have "(\<Sum>e\<leftarrow>concat (map ?es lg). minor (entryAmount e)) = net a (concat (map legs lg))" for lg :: "stored list"
    by (induction lg) (simp_all add: comp_def n)
  then have "(\<Sum>e\<leftarrow>concat (map ?es (plog s)). minor (entryAmount e)) = getz (balances s) a"
    using b by (simp add: books_ok_def all_legs_def)
  then show ?thesis unfolding deriveBalanceMinor_def st by simp
qed

text \<open>One account's part of the signed sums.\<close>

definition signed_part :: "'a ledger_data_scheme \<Rightarrow> AccountRef \<Rightarrow> int" where
  "signed_part s a = getz (balances s) a * (if isDebitNormal a then 1 else - 1)"

definition custody :: "'a ledger_data_scheme \<Rightarrow> int" where
  "custody s = (\<Sum>(a, b)\<leftarrow>heads s. if isCustodialCredit a then getz (balances s) a else 0)"

definition trust_cash :: "'a ledger_data_scheme \<Rightarrow> int" where
  "trust_cash s = (\<Sum>(a, b)\<leftarrow>heads s. if isTrustCashShard a then getz (balances s) a else 0)"

definition part :: "'a ledger_data_scheme \<Rightarrow> (AccountRef \<Rightarrow> bool) \<Rightarrow> AccountRef list \<Rightarrow> int" where
  "part s P as = (\<Sum>a\<leftarrow>as. if P a then getz (balances s) a else 0)"

lemma balance_read_reach:
  assumes "ledger_reach dig s"
  shows "balance_read s a = Inr \<lparr>currency = currencyOf a, minor = getz (balances s) a\<rparr>"
    "isWalletAccount a \<Longrightarrow> 0 \<le> getz (balances s) a"
  using ledger_reach_books [OF assms] wallet_guarded [of a] by (auto simp: balance_read_def books_ok_def)

lemma fold_heads_reach:
  assumes "ledger_reach dig s" "set as \<subseteq> account ` set (all_legs s)"
  shows "fold_heads (balance_read s) (derivedBalancesOf w s) [] as f =
    Inr (f\<lparr>custodialCreditMinor := custodialCreditMinor f + part s isCustodialCredit as,
      trustCashMinor := trustCashMinor f + part s isTrustCashShard as,
      signedByCurrency := foldl (\<lambda>m a. bump (currencyOf a) (signed_part s a) m) (signedByCurrency f) as\<rparr>)"
  using assms(2)
proof (induction as arbitrary: f)
  case (Cons a as)
  note r = balance_read_reach [OF assms(1), of a]
  have ng: "(isWalletAccount a \<and> getz (balances s) a < 0) = False" using r(2) by auto
  have "getz [] a = (0 :: int)" by (simp add: getz_def)
  then show ?case
    using Cons derived_reach [OF assms(1), of a w]
    by (simp add: accumulateLegs_def r(1) pushIfDrifted_def fold_backing_def foldBackingAccount_def part_def signed_part_def ng
        backing_totals.defs Let_def algebra_simps)
qed (simp add: part_def)

lemma fold_balances_seen: "set as \<subseteq> set seen \<Longrightarrow> fold_balances bo base seen as f = Inr f"
  by (induction as) auto


lemma health_heads_reach:
  assumes "ledger_reach dig s" "\<forall>row \<in> set (plog s). - MAX_SAFE_INTEGER \<le> postedAt row \<and> postedAt row < MAX_SAFE_INTEGER"
    and "\<forall>(a, h) \<in> set hs. isWellFormedHead h"
  shows "health_heads s None hs f =
    Inr (f\<lparr>custodialCreditMinor := custodialCreditMinor f + part s isCustodialCredit (map fst hs),
      trustCashMinor := trustCashMinor f + part s isTrustCashShard (map fst hs),
      hf_signed := foldl (\<lambda>m a. bump (currencyOf a) (signed_part s a) m) (hf_signed f) (map fst hs)\<rparr>)"
  using assms(3)
proof (induction hs arbitrary: f)
  case (Cons ah hs)
  obtain a h where ah: "ah = (a, h)" by force
  note r = balance_read_reach [OF assms(1), of a]
  have ng: "(isWalletAccount a \<and> getz (balances s) a < 0) = False" using r(2) by auto
  show ?case
    using Cons statement_reach [OF assms(1,2), of a]
    by (simp add: ah r(1) foldAccount_def pushIfDrifted_def foldBackingAccount_def part_def signed_part_def ng isNegative_def
        baselineOf_def backing_totals.defs Let_def algebra_simps)
qed (simp add: part_def)

lemma sum_by_account:
  assumes "distinct as" "account ` set ls \<subseteq> set as"
  shows "(\<Sum>a\<leftarrow>as. if P a then \<Sum>l\<leftarrow>ls. if account l = a then (f l :: int) else 0 else 0) =
    (\<Sum>l\<leftarrow>ls. if P (account l) then f l else 0)"
  using assms(2)
proof (induction ls)
  case Nil
  then show ?case by (induction as) auto
next
  case (Cons l ls)
  have one: "(\<Sum>a\<leftarrow>as. if P a then (if account l = a then f l else 0) else 0) = (if P (account l) then f l else 0)"
    if "distinct as" "account l \<in> set as" for as
    using that
  proof (induction as)
    case (Cons b bs)
    have z: "account l \<notin> set bs \<Longrightarrow> (\<Sum>a\<leftarrow>bs. if P a then (if account l = a then f l else 0) else 0) = 0"
      by (induction bs) auto
    show ?case using Cons z by auto
  qed simp
  have split: "(\<Sum>a\<leftarrow>as. if P a then u a + v a else 0) = (\<Sum>a\<leftarrow>as. if P a then u a else 0) + (\<Sum>a\<leftarrow>as. if P a then v a else (0::int))"
    for u v as by (induction as) auto
  have "(\<Sum>a\<leftarrow>as. if P a then \<Sum>l\<leftarrow>l # ls. if account l = a then f l else 0 else 0) =
      (\<Sum>a\<leftarrow>as. if P a then (if account l = a then f l else 0) else 0) +
      (\<Sum>a\<leftarrow>as. if P a then \<Sum>l\<leftarrow>ls. if account l = a then f l else 0 else 0)"
    unfolding list.map sum_list.Cons split ..
  then show ?case using Cons one [OF assms(1)] by simp
qed

lemma signed_part_own:
  assumes "ledger_reach dig s"
  shows "signed_part s a = (\<Sum>l\<leftarrow>all_legs s. if account l = a then minor (amount l) else 0)"
proof -
  have "net a ls * (if isDebitNormal a then 1 else - 1) = (\<Sum>l\<leftarrow>ls. if account l = a then minor (amount l) else 0)" for ls
    by (induction ls) (auto simp: moved_def algebra_simps)
  then show ?thesis using ledger_reach_books [OF assms] by (simp add: signed_part_def books_ok_def)
qed

text \<open>The signed sums a fold collects are zero in every currency.\<close>

lemma signed_zero:
  assumes "ledger_reach dig s" "distinct as" "account ` set (all_legs s) \<subseteq> set as"
  shows "everyCurrencyBalances (foldl (\<lambda>m a. bump (currencyOf a) (signed_part s a) m) [] as)"
proof -
  let ?m = "foldl (\<lambda>m a. bump (currencyOf a) (signed_part s a) m) [] as"
  have b: "\<forall>l \<in> set (all_legs s). currency (amount l) = currencyOf (account l)"
    using ledger_reach_books [OF assms(1)] by (auto simp: books_ok_def all_legs_def)
  have c: "(\<Sum>l\<leftarrow>ls. if currencyOf (account l) = c then minor (amount l) else 0) = cur_sum c ls"
    if "\<forall>l \<in> set ls. currency (amount l) = currencyOf (account l)" for ls c
    using that by (induction ls) auto
  have z: "getz ?m c = 0" for c
    using sum_by_account [OF assms(2,3), of "\<lambda>a. currencyOf a = c" "\<lambda>l. minor (amount l)"] c [OF b, of c]
      books_conserved [OF ledger_reach_books [OF assms(1)], of c]
    by (simp add: getz_foldl_bump signed_part_own [OF assms(1)] getz_def [of "[]"])
  have d: "distinct (map fst ?m)" by (simp add: distinct_foldl_bump)
  have "v = 0" if "(c, v) \<in> set ?m" for c v
    using z [of c] d that by (simp add: getz_def)
  then show ?thesis by (auto simp: everyCurrencyBalances_def list_all_iff)
qed

lemma heads_are_digests: "ledger_reach dig s \<Longrightarrow> map_of (heads s) a = Some h \<Longrightarrow> \<exists>m. h = toHex (dig m)"
proof (induction arbitrary: a h rule: ledger_reach.induct)
  case lr_empty then show ?case by (simp add: empty_ledger_def)
next
  case (lr_post s now p t s')
  show ?case
  proof (rule postEntry_commit [OF lr_post.hyps(2)])
    fix lks st
    assume adv: "advanceChain dig s (dropZeroLegs p) = Inr lks" and
      st: "st = \<lparr>txnId = txnId p, legs = legs (dropZeroLegs p), meta = meta p, postedAt = now, links = lks, pseq = seqno s + 1\<rparr>" and
      c: "commitPosting (s\<lparr>seqno := seqno s + 1\<rparr>) st = Inr s'"
    have "map_of (heads s) a = Some h \<or> (\<exists>lk \<in> set lks. lhash lk = h)"
      using commitPosting_Inr(8) [OF c] lr_post.prems by (auto simp: st dest: heads_fold)
    moreover have "\<exists>m. h = toHex (dig m)" if lk: "lk \<in> set lks" "lhash lk = h" for lk
    proof -
      obtain i where i: "i < length lks" "lk = lks ! i" using lk(1) by (auto simp: in_set_conv_nth)
      with list_all2_nthD2 [OF advanceChain_Inr [OF adv] i(1)]
      obtain b prev where "chainHash dig prev (txnId (dropZeroLegs p)) b (legs (dropZeroLegs p)) (meta (dropZeroLegs p)) = Inr (lhash lk)" by auto
      then show ?thesis using lk(2) unfolding chainHash_def rbind_Inr_iff by (metis sum.inject(2))
    qed
    ultimately show ?thesis using lr_post.IH by blast
  qed
qed simp_all

lemma hex_shape: "length bs = 32 \<Longrightarrow> isWellFormedHead (toHex bs)"
proof -
  assume l: "length bs = 32"
  have "list_all (\<lambda>n. hex_char n \<in> set ''0123456789abcdef'') [0..<16]" by code_simp
  then have d: "hex_char n \<in> set ''0123456789abcdef''" if "n < 16" for n
    using that unfolding list_all_iff by (metis atLeastLessThan_iff le0 set_upt)
  have "list_all (\<lambda>c. c \<in> set ''0123456789abcdef'') (HEX b)" for b :: byte
    using d [OF nibble_bounds(1) [of b]] d [OF nibble_bounds(2) [of b]]
    by (simp only: HEX_digits list.pred_inject simp_thms)
  then have "list_all (\<lambda>c. c \<in> set ''0123456789abcdef'') (toHex bs)"
    unfolding toHex_def list_all_iff by auto
  moreover have "length (toHex bs) = 64" using l by (simp add: length_toHex)
  ultimately show ?thesis unfolding isWellFormedHead_def by blast
qed

lemma heads_well_formed:
  assumes "ledger_reach dig s" "\<forall>m. length (dig m) = 32"
  shows "\<forall>(a, h) \<in> set (sortedHeads (heads s)). isWellFormedHead h"
proof (clarsimp simp: sortedHeads_def)
  fix a h assume "(a, h) \<in> set (heads s)"
  then have "map_of (heads s) a = Some h" using head_accounts [OF assms(1)] by simp
  then show "isWellFormedHead h" using heads_are_digests [OF assms(1)] assms(2) hex_shape by auto
qed

text \<open>The one report of a reached ledger, or the fault of an amount past 64 bits.\<close>

definition honest_report :: "rate \<Rightarrow> 'a ledger_data_scheme \<Rightarrow> prove_report res" where
  "honest_report par s =
     rbind (backingRequiredMinor (part s isCustodialCredit (map fst (sortedHeads (heads s)))) par) (\<lambda>required.
     let short = backingShortfallMinor required (part s isTrustCashShard (map fst (sortedHeads (heads s))))
     in rbind (toAmount USD short) (\<lambda>u.
          Inr \<lparr>conserved = True, backed = (short = 0), noOverdraft = True, chainIntact = True, consistent = True,
            driftRows = [], shortfallUsd = u\<rparr>))"

lemma both_provers:
  assumes "ledger_reach dig s" "cpArchive cps = None" "\<forall>m. length (dig m) = 32"
    and "\<forall>row \<in> set (plog s). - MAX_SAFE_INTEGER \<le> postedAt row \<and> postedAt row < MAX_SAFE_INTEGER"
  shows "healthReport dig sg par cps s = honest_report par s" "proveEconomy dig (Some sg) par w cps s = honest_report par s"
proof -
  let ?hs = "sortedHeads (heads s)" and ?as = "map fst (sortedHeads (heads s))"
  note h = head_accounts [OF assms(1)]
  have as: "set ?as = account ` set (all_legs s)" using h by (simp add: sortedHeads_def image_set [symmetric])
  have d: "distinct ?as" using h by (simp add: sortedHeads_def distinct_map distinct_sort)
  have z: "everyCurrencyBalances (foldl (\<lambda>m a. bump (currencyOf a) (signed_part s a) m) [] ?as)"
    using signed_zero [OF assms(1) d] as by simp
  have seen: "set (balanceAccounts s) \<subseteq> set ?as"
    using columns_reach [OF assms(1)] as by (simp add: balanceAccounts_def columns_ok_def)
  show "healthReport dig sg par cps s = honest_report par s"
    using health_heads_reach [OF assms(1,4) heads_well_formed [OF assms(1,3)], of empty_health] z
    by (simp add: healthReport_def loadArchiveBoundary_def assms(2) healthFold_def empty_health_def honest_report_def Let_def)
  have f: "foldLedger w s [] = fold_heads (balance_read s) (derivedBalancesOf w s) [] ?as empty_fold"
    using fold_balances_seen [OF seen] fold_heads_reach [OF assms(1), of ?as w empty_fold] as by (simp add: foldLedger_def Let_def)
  show "proveEconomy dig (Some sg) par w cps s = honest_report par s"
    using fold_heads_reach [OF assms(1), of ?as w empty_fold] as z proveChain_reach [OF assms(1)]
    by (simp add: proveEconomy_def proveBoundary_def loadArchiveBoundary_def assms(2) balanceBaselines_def f empty_fold_def
        honest_report_def Let_def)
qed


section \<open>Properties\<close>

text \<open>
  (C8) The two provers agree, and neither raises a false alarm. On every ledger its postings reached,
  with nothing archived and a digest of 32 bytes, the light health report and the thorough proof are
  one and the same result; a report it gives says conserved, no overdraft, every chain intact and no
  drift, and it says backed exactly when the trust cash covers the custodial credits at par.
\<close>

theorem provers_agree:
  assumes "ledger_reach dig s" "cpArchive cps = None" "\<forall>m. length (dig m) = 32"
    and "\<forall>row \<in> set (plog s). - MAX_SAFE_INTEGER \<le> postedAt row \<and> postedAt row < MAX_SAFE_INTEGER"
  shows "proveEconomy dig (Some sg) par w cps s = healthReport dig sg par cps s \<and>
    (\<forall>r. healthReport dig sg par cps s = Inr r \<longrightarrow>
       conserved r \<and> noOverdraft r \<and> chainIntact r \<and> consistent r \<and> driftRows r = [] \<and>
       (\<exists>required. backingRequiredMinor (part s isCustodialCredit (map fst (sortedHeads (heads s)))) par = Inr required \<and>
          (backed r \<longleftrightarrow> required \<le> part s isTrustCashShard (map fst (sortedHeads (heads s))))))"
proof -
  note b = both_provers [OF assms, of sg par]
  show ?thesis unfolding b by (auto simp: honest_report_def Let_def backingShortfallMinor_def)
qed

theorem provers_agree_witness:
  "\<exists>r. healthReport flat_digest demo_signer demo_rate empty_checkpoints arc_ledger = Inr r \<and> consistent r \<and> chainIntact r \<and>
     \<not> backed r \<and> minor (shortfallUsd r) = 100 \<and>
     proveEconomy flat_digest (Some demo_signer) demo_rate True empty_checkpoints arc_ledger = Inr r"
proof -
  have e: "case honest_report demo_rate arc_ledger of Inr r \<Rightarrow> \<not> backed r \<and> minor (shortfallUsd r) = 100 | _ \<Rightarrow> False" by code_simp
  have a: "cpArchive empty_checkpoints = None" by (simp add: empty_checkpoints_def)
  have d: "\<forall>m. length (flat_digest m) = 32" by (simp add: flat_digest_def)
  have t: "\<forall>row \<in> set (plog arc_ledger). - MAX_SAFE_INTEGER \<le> postedAt row \<and> postedAt row < MAX_SAFE_INTEGER"
    by (simp add: arc_ledger_def arc_row_def MAX_SAFE_INTEGER_def)
  obtain r where r: "healthReport flat_digest demo_signer demo_rate empty_checkpoints arc_ledger = Inr r"
    "\<not> backed r" "minor (shortfallUsd r) = 100"
    using e both_provers(1) [OF arc_reach a d t, of demo_signer demo_rate] by (auto split: sum.splits)
  with provers_agree [OF arc_reach a d t, of demo_signer demo_rate True] show ?thesis by auto
qed

end
