(* ===== verification/Supervisor.thy ===== *)
theory Supervisor
  imports Stores
begin

text \<open>
  The ops supervisor: the signal buffer of src/ops/runtime.ts, the twelve detectors of src/ops/detect.ts
  and the tick of src/ops/supervisor.ts over them. The host is a world of its own: the feed, the sagas
  and the levers are functions of it, and a lever may change it or throw. Ticks never overlap. The
  advisory sentences are for people and left out; signal values are whole numbers; the audit sink,
  the pager and the saga reads do not throw, and the records are what a tick returns. The properties at
  the end: the attempts of every lever are charged and capped, and containment takes the levers away.
\<close>

section \<open>Signals\<close>

record signal =
  sgAt :: int
  sgMeter :: bool
  sgName :: string
  sgValue :: int
  sgTags :: "(string \<times> string) list"

definition DEFAULT_CAPACITY :: nat where
  "DEFAULT_CAPACITY = 10000"

text \<open>The bounded buffer: the oldest signals go once it is full.\<close>

definition record_signal :: "nat \<Rightarrow> signal \<Rightarrow> signal list \<Rightarrow> signal list" where
  "record_signal capacity g buf = (let b = buf @ [g] in drop (length b - capacity) b)"

definition buffer_meter :: "nat \<Rightarrow> int \<Rightarrow> string \<Rightarrow> int \<Rightarrow> (string \<times> string) list \<Rightarrow> signal list \<Rightarrow> signal list" where
  "buffer_meter capacity now name v tags = record_signal capacity \<lparr>sgAt = now, sgMeter = True, sgName = name, sgValue = v, sgTags = tags\<rparr>"

definition buffer_log :: "nat \<Rightarrow> int \<Rightarrow> string \<Rightarrow> string \<Rightarrow> signal list \<Rightarrow> signal list" where
  "buffer_log capacity now level event =
     record_signal capacity \<lparr>sgAt = now, sgMeter = False, sgName = event, sgValue = 1, sgTags = [(''level'', level)]\<rparr>"

text \<open>\<open>since t\<close>; no time at all is the minus infinity the marks start from.\<close>

definition since :: "signal list \<Rightarrow> int option \<Rightarrow> signal list" where
  "since buf t = (case t of None \<Rightarrow> buf | Some x \<Rightarrow> filter (\<lambda>g. sgAt g \<ge> x) buf)"

definition after :: "signal list \<Rightarrow> int option \<Rightarrow> signal list" where
  "after buf t = since buf (map_option (\<lambda>x. x + 1) t)"

definition latest_at :: "int option \<Rightarrow> signal list \<Rightarrow> int option" where
  "latest_at t gs = fold (\<lambda>g m. case m of None \<Rightarrow> Some (sgAt g) | Some x \<Rightarrow> Some (max x (sgAt g))) gs t"

definition total_value :: "signal list \<Rightarrow> int" where
  "total_value gs = (\<Sum>g\<leftarrow>gs. sgValue g)"

definition tallyByTag :: "signal list \<Rightarrow> string \<Rightarrow> (string \<times> int) list" where
  "tallyByTag gs tag = foldl (\<lambda>m g. bump (case map_of (sgTags g) tag of Some t \<Rightarrow> t | None \<Rightarrow> ''unknown'') (sgValue g) m) [] gs"

definition newestMeter :: "signal list \<Rightarrow> string \<Rightarrow> signal option" where
  "newestMeter gs name = find (\<lambda>g. sgMeter g \<and> sgName g = name) (rev gs)"

definition first_seen :: "'a list \<Rightarrow> 'a list" where
  "first_seen xs = rev (remdups (rev xs))"

section \<open>Detectors\<close>

definition detectDeadlockStorm :: "signal list \<Rightarrow> int \<Rightarrow> string \<Rightarrow> int \<Rightarrow> int \<Rightarrow> int option" where
  "detectDeadlockStorm buf now metric windowMs threshold =
     (let n = total_value (filter (\<lambda>g. sgMeter g \<and> sgName g = metric) (since buf (Some (now - windowMs))))
      in if n < threshold then None else Some n)"

definition detectStuckSagas :: "saga list \<Rightarrow> int \<Rightarrow> int \<Rightarrow> (saga \<times> int) list" where
  "detectStuckSagas sagas now ageMs =
     map (\<lambda>x. (x, now - sagaUpdatedAt x))
       (filter (\<lambda>x. sagaState x \<notin> {SETTLED, FAILED} \<and> now - sagaUpdatedAt x \<ge> ageMs) sagas)"

definition MIN_SAFE :: int where
  "MIN_SAFE = - 9007199254740991"

definition detectEngineStall :: "signal list \<Rightarrow> int \<Rightarrow> int \<Rightarrow> (nat \<times> int) option" where
  "detectEngineStall buf now graceMs =
     (let gs = since buf (Some MIN_SAFE);
          lastDone = latest_at (Some MIN_SAFE) (filter (\<lambda>g. sgMeter g \<and> sgName g = ''engine.pool.acquire_ms'') gs);
          pending = filter (\<lambda>g. sgMeter g \<and> sgName g = ''engine.pool.acquire'' \<and> Some (sgAt g) \<noteq> lastDone \<and> sgAt g > the lastDone) gs
      in if pending = [] then None
         else (let waited = now - sgAt (hd pending) in if waited < graceMs then None else Some (length pending, waited)))"

definition isMismatch :: "signal \<Rightarrow> bool" where
  "isMismatch g \<longleftrightarrow> (if sgMeter g then sgName g = ''worker.checkpoint.verify'' \<and> map_of (sgTags g) ''outcome'' = Some ''mismatch''
     else sgName g = ''worker.checkpoint.mismatch'')"

definition detectIntegrityMismatches :: "signal list \<Rightarrow> int option \<Rightarrow> signal list" where
  "detectIntegrityMismatches buf handled = filter isMismatch (after buf handled)"

definition BREACH_METRICS :: "string list" where
  "BREACH_METRICS = [''worker.treasury.breach'', ''worker.treasury.float_breach'']"

definition detectTreasuryBreaches :: "signal list \<Rightarrow> int option \<Rightarrow> (nat \<times> string list \<times> int option) option" where
  "detectTreasuryBreaches buf handled =
     (let hits = filter (\<lambda>g. sgMeter g \<and> sgName g \<in> set BREACH_METRICS) (after buf handled)
      in if hits = [] then None else Some (length hits, first_seen (map sgName hits), latest_at handled hits))"

definition detectVelocityAnomaly :: "signal list \<Rightarrow> int \<Rightarrow> int \<Rightarrow> int \<Rightarrow> (int \<times> (string \<times> int) list \<times> int) option" where
  "detectVelocityAnomaly buf now windowMs threshold =
     (let hits = filter (\<lambda>g. sgMeter g \<and> sgName g = ''economy.submit'' \<and> map_of (sgTags g) ''status'' = Some ''rejected'' \<and>
            map_of (sgTags g) ''reason'' = Some ''RISK_DENIED'') (since buf (Some (now - windowMs)));
          n = total_value hits
      in if n < threshold then None
         else Some (n, tallyByTag hits ''kind'', (2 * (n * 60000) + windowMs) div (2 * windowMs)))"

definition detectSilences :: "signal list \<Rightarrow> int \<Rightarrow> (string \<times> int) list \<Rightarrow> int \<Rightarrow> (string \<times> int) list" where
  "detectSilences buf now watchdogs startedAt =
     List.map_filter (\<lambda>(name, everyMs).
       (let seen = latest_at (Some startedAt) (filter (\<lambda>g. sgName g = name) (since buf (Some MIN_SAFE)));
            silent = now - the seen
        in if silent \<le> everyMs * 2 then None else Some (name, silent))) watchdogs"

definition detectRetryExhaustion :: "signal list \<Rightarrow> int \<Rightarrow> int \<Rightarrow> int \<Rightarrow> (int \<times> (string \<times> int) list) option" where
  "detectRetryExhaustion buf now windowMs threshold =
     (let hits = filter (\<lambda>g. sgMeter g \<and> sgName g = ''engine.retry'' \<and> map_of (sgTags g) ''outcome'' = Some ''exhausted'')
            (since buf (Some (now - windowMs)))
      in if total_value hits < threshold then None else Some (total_value hits, tallyByTag hits ''engine''))"

definition detectOutboxBacklog :: "signal list \<Rightarrow> int \<Rightarrow> (int \<times> int) option" where
  "detectOutboxBacklog buf ageMs =
     (let gs = since buf (Some MIN_SAFE) in
      case newestMeter gs ''worker.relay.backlog_age_ms'' of
        None \<Rightarrow> None
      | Some g \<Rightarrow> (if sgValue g < ageMs then None
          else Some (sgValue g, case newestMeter gs ''worker.relay.backlog'' of None \<Rightarrow> 0 | Some d \<Rightarrow> sgValue d)))"

definition detectWebhookReplayStorm ::
    "signal list \<Rightarrow> int \<Rightarrow> int \<Rightarrow> int \<Rightarrow> (int \<times> (string \<times> int) list \<times> (string \<times> int) list) option" where
  "detectWebhookReplayStorm buf now windowMs threshold =
     (let hits = filter (\<lambda>g. sgMeter g \<and> sgName g = ''economy.webhook.duplicate'') (since buf (Some (now - windowMs)))
      in if total_value hits < threshold then None
         else Some (total_value hits, tallyByTag hits ''provider'', tallyByTag hits ''layer''))"

definition detectSlowSeal :: "signal list \<Rightarrow> int \<Rightarrow> int \<Rightarrow> int \<Rightarrow> (int \<times> nat) option" where
  "detectSlowSeal buf now thresholdMs windowMs =
     (let gs = filter (\<lambda>g. sgMeter g \<and> sgName g = ''worker.checkpoint.seal_ms'' \<and> map_of (sgTags g) ''outcome'' = Some ''sealed'')
            (since buf (Some (now - windowMs)));
          slowest = fold (\<lambda>g m. max m (sgValue g)) gs 0
      in if gs = [] \<or> slowest < thresholdMs then None else Some (slowest, length gs))"

definition detectInboxDeadLetters :: "signal list \<Rightarrow> int option \<Rightarrow> nat \<Rightarrow> (nat \<times> int option) option" where
  "detectInboxDeadLetters buf handled threshold =
     (let hits = filter (\<lambda>g. \<not> sgMeter g \<and> sgName g = ''worker.inbox.dead_lettered'') (after buf handled)
      in if length hits < threshold then None else Some (length hits, latest_at handled hits))"

section \<open>Records, configuration, ports and state\<close>

datatype audit_phase = Detected | Decided | Acted | Verified | Escalated

record audit_record =
  auAt :: int
  auSignature :: string
  auTier :: nat
  auPhase :: audit_phase
  auSubject :: "string option"
  auDetail :: "(string \<times> json) list"

record supervisor_config =
  sc_stuckSagaAgeMs :: int
  sc_actionCooldownMs :: int
  sc_maxActionAttempts :: nat
  sc_deadlockMetric :: string
  sc_deadlockWindowMs :: int
  sc_deadlockThreshold :: int
  sc_stallGraceMs :: int
  sc_anomalyWindowMs :: int
  sc_anomalyThreshold :: int
  sc_anomalyEscalationThreshold :: int
  sc_retryExhaustionWindowMs :: int
  sc_retryExhaustionThreshold :: int
  sc_outboxBacklogAgeMs :: int
  sc_webhookReplayWindowMs :: int
  sc_webhookReplayThreshold :: int
  sc_sealLatencyMs :: int
  sc_sealLatencyWindowMs :: int
  sc_inboxDeadLetterThreshold :: nat
  sc_inboxReviveLimit :: nat
  sc_watchdogs :: "(string \<times> int) list"

definition defaultSupervisorConfig :: supervisor_config where
  "defaultSupervisorConfig = \<lparr>sc_stuckSagaAgeMs = 300000, sc_actionCooldownMs = 60000, sc_maxActionAttempts = 3,
     sc_deadlockMetric = ''engine.retry'', sc_deadlockWindowMs = 60000, sc_deadlockThreshold = 20, sc_stallGraceMs = 10000,
     sc_anomalyWindowMs = 300000, sc_anomalyThreshold = 20, sc_anomalyEscalationThreshold = 100,
     sc_retryExhaustionWindowMs = 300000, sc_retryExhaustionThreshold = 5, sc_outboxBacklogAgeMs = 300000,
     sc_webhookReplayWindowMs = 60000, sc_webhookReplayThreshold = 20, sc_sealLatencyMs = 5000,
     sc_sealLatencyWindowMs = 300000, sc_inboxDeadLetterThreshold = 1, sc_inboxReviveLimit = 10, sc_watchdogs = []\<rparr>"

text \<open>What the host injects. The last four are optional.\<close>

record 'w ports =
  sp_signals :: "'w \<Rightarrow> signal list"
  sp_sagas :: "'w \<Rightarrow> saga list"
  sp_load :: "string \<Rightarrow> 'w \<Rightarrow> saga option"
  sp_runSweep :: "int \<Rightarrow> 'w \<Rightarrow> unit res \<times> 'w"
  sp_prove :: "('w \<Rightarrow> json res \<times> 'w) option"
  sp_pauseWorker :: "('w \<Rightarrow> unit res \<times> 'w) option"
  sp_runRelay :: "(int \<Rightarrow> 'w \<Rightarrow> unit res \<times> 'w) option"
  sp_reviveInbox :: "(nat \<Rightarrow> 'w \<Rightarrow> string list res \<times> 'w) option"

record action_state =
  acAttempts :: nat
  acLastActedAt :: "int option"
  acEscalated :: bool

definition idleAction :: action_state where
  "idleAction = \<lparr>acAttempts = 0, acLastActedAt = None, acEscalated = False\<rparr>"

record supervisor_state =
  st_perSaga :: "(string \<times> action_state) list"
  st_stormReportedAt :: "int option"
  st_mismatchHandledUpTo :: "int option"
  st_stallEscalated :: bool
  st_breachHandledUpTo :: "int option"
  st_anomalyReportedAt :: "int option"
  st_silenceEscalated :: "(string \<times> bool) list"
  st_watchStartedAt :: "int option"
  st_exhaustionReportedAt :: "int option"
  st_replayStormReportedAt :: "int option"
  st_sealSlowReportedAt :: "int option"
  st_containment :: bool
  st_outboxAction :: action_state
  st_outboxVerify :: "(int \<times> int) option"
  st_inboxAction :: action_state
  st_inboxHandledUpTo :: "int option"

definition initialState :: supervisor_state where
  "initialState = \<lparr>st_perSaga = [], st_stormReportedAt = None, st_mismatchHandledUpTo = None, st_stallEscalated = False,
     st_breachHandledUpTo = None, st_anomalyReportedAt = None, st_silenceEscalated = [], st_watchStartedAt = None,
     st_exhaustionReportedAt = None, st_replayStormReportedAt = None, st_sealSlowReportedAt = None, st_containment = False,
     st_outboxAction = idleAction, st_outboxVerify = None, st_inboxAction = idleAction, st_inboxHandledUpTo = None\<rparr>"

text \<open>A tick in progress: the world, the state and the records emitted, oldest first.\<close>

record 'w tick_state =
  tk_world :: 'w
  tk_sup :: supervisor_state
  tk_out :: "audit_record list"

definition emit :: "audit_record list \<Rightarrow> 'w tick_state \<Rightarrow> 'w tick_state" where
  "emit rs = tk_out_update (\<lambda>out. out @ rs)"

definition upd_sup :: "(supervisor_state \<Rightarrow> supervisor_state) \<Rightarrow> 'w tick_state \<Rightarrow> 'w tick_state" where
  "upd_sup f = tk_sup_update f"

definition audit_entry :: "int \<Rightarrow> string \<Rightarrow> nat \<Rightarrow> audit_phase \<Rightarrow> string option \<Rightarrow> (string \<times> json) list \<Rightarrow> audit_record" where
  "audit_entry now sig tier phase subject detail =
     \<lparr>auAt = now, auSignature = sig, auTier = tier, auPhase = phase, auSubject = subject, auDetail = detail\<rparr>"

definition tally_json :: "(string \<times> int) list \<Rightarrow> json" where
  "tally_json m = JObj (map (\<lambda>(k, n). (k, JNum n)) m)"

definition within :: "int \<Rightarrow> int option \<Rightarrow> int \<Rightarrow> bool" where
  "within now since_at windowMs = (case since_at of None \<Rightarrow> False | Some t \<Rightarrow> now - t < windowMs)"

definition failure_of :: "'a res \<Rightarrow> (string \<times> json) list" where
  "failure_of r = (case r of Inl e \<Rightarrow> [(''failure'', JStr (case e of EconomyError c _ \<Rightarrow> ''EconomyError'' | HostError m \<Rightarrow> m))] | Inr _ \<Rightarrow> [])"


section \<open>The passes that report\<close>

definition runProver :: "'w ports \<Rightarrow> 'w \<Rightarrow> json \<times> 'w" where
  "runProver p x = (case sp_prove p of
     None \<Rightarrow> (JNull, x)
   | Some prove \<Rightarrow> (case prove x of
       (Inr v, y) \<Rightarrow> (v, y)
     | (Inl e, y) \<Rightarrow> (JObj [(''proverFailed'', snd (hd (failure_of (Inl e :: unit res))))], y)))"

text \<open>
  Containment: the prover runs once, the latch is set, the worker is paused if there is a pause. The
  pause is skipped when the host has none.
\<close>

definition runIntegrityPass :: "'w ports \<Rightarrow> int \<Rightarrow> 'w tick_state \<Rightarrow> 'w tick_state" where
  "runIntegrityPass p now t =
     (let found = detectIntegrityMismatches (sp_signals p (tk_world t)) (st_mismatchHandledUpTo (tk_sup t))
      in if found = [] then t
         else (case runProver p (tk_world t) of (proof, x) \<Rightarrow>
           (let rec = audit_entry now ''integrity-mismatch'' 3;
                t1 = upd_sup (st_containment_update (\<lambda>_. True)) (emit
                  [rec Detected None [(''signals'', JNum (int (length found))),
                     (''channels'', JArr (map JStr (first_seen (map (\<lambda>g. if sgMeter g then ''meter'' else ''log'') found))))],
                   rec Escalated None [(''proof'', proof)]] (t\<lparr>tk_world := x\<rparr>));
                t2 = (case sp_pauseWorker p of None \<Rightarrow> t1
                  | Some pause \<Rightarrow> (case pause (tk_world t1) of (r, y) \<Rightarrow>
                      emit [rec Acted None ((''action'', JStr ''pause'') # failure_of r)] (t1\<lparr>tk_world := y\<rparr>)))
            in upd_sup (\<lambda>s. s\<lparr>st_mismatchHandledUpTo := latest_at (st_mismatchHandledUpTo s) found\<rparr>) t2)))"

definition runStallPass :: "'w ports \<Rightarrow> supervisor_config \<Rightarrow> int \<Rightarrow> 'w tick_state \<Rightarrow> 'w tick_state" where
  "runStallPass p cfg now t = (case detectEngineStall (sp_signals p (tk_world t)) now (sc_stallGraceMs cfg) of
     None \<Rightarrow> upd_sup (st_stallEscalated_update (\<lambda>_. False)) t
   | Some (pending, waited) \<Rightarrow>
       (if st_stallEscalated (tk_sup t) then t
        else (let d = [(''pending'', JNum (int pending)), (''oldestWaitMs'', JNum waited)]
          in emit [audit_entry now ''engine-stall'' 3 Detected None d, audit_entry now ''engine-stall'' 3 Escalated None d]
               (upd_sup (st_stallEscalated_update (\<lambda>_. True)) t))))"

definition runTreasuryPass :: "'w ports \<Rightarrow> int \<Rightarrow> 'w tick_state \<Rightarrow> 'w tick_state" where
  "runTreasuryPass p now t =
     (case detectTreasuryBreaches (sp_signals p (tk_world t)) (st_breachHandledUpTo (tk_sup t)) of
        None \<Rightarrow> t
      | Some (n, channels, newest) \<Rightarrow>
          (let d = [(''breaches'', JNum (int n)), (''channels'', JArr (map JStr channels))]
           in emit [audit_entry now ''treasury-breach'' 3 Detected None d, audit_entry now ''treasury-breach'' 3 Escalated None d]
                (upd_sup (st_breachHandledUpTo_update (\<lambda>_. newest)) t)))"

definition silence_finding :: "int \<Rightarrow> string \<times> int \<Rightarrow> 'w tick_state \<Rightarrow> 'w tick_state" where
  "silence_finding now f t = (case f of (name, silent) \<Rightarrow>
     if map_of (st_silenceEscalated (tk_sup t)) name = Some True then t
     else (let d = [(''silentForMs'', JNum silent)]
       in emit [audit_entry now ''signal-silence'' 3 Detected (Some name) d, audit_entry now ''signal-silence'' 3 Escalated (Some name) d]
            (upd_sup (st_silenceEscalated_update (AList.update name True)) t)))"

definition runSilencePass :: "'w ports \<Rightarrow> supervisor_config \<Rightarrow> int \<Rightarrow> 'w tick_state \<Rightarrow> 'w tick_state" where
  "runSilencePass p cfg now t =
     (let found = detectSilences (sp_signals p (tk_world t)) now (sc_watchdogs cfg)
            (case st_watchStartedAt (tk_sup t) of Some x \<Rightarrow> x | None \<Rightarrow> now);
          t1 = upd_sup (st_silenceEscalated_update (map (\<lambda>(name, flagged). (name, flagged \<and> name \<in> fst ` set found)))) t
      in fold (silence_finding now) found t1)"

definition runStormPass :: "'w ports \<Rightarrow> supervisor_config \<Rightarrow> int \<Rightarrow> 'w tick_state \<Rightarrow> 'w tick_state" where
  "runStormPass p cfg now t =
     (if within now (st_stormReportedAt (tk_sup t)) (sc_deadlockWindowMs cfg) then t
      else (case detectDeadlockStorm (sp_signals p (tk_world t)) now (sc_deadlockMetric cfg) (sc_deadlockWindowMs cfg) (sc_deadlockThreshold cfg) of
        None \<Rightarrow> t
      | Some n \<Rightarrow> upd_sup (st_stormReportedAt_update (\<lambda>_. Some now)) (emit
          [audit_entry now ''deadlock-storm'' 3 Detected None [(''retries'', JNum n), (''windowMs'', JNum (sc_deadlockWindowMs cfg))],
           audit_entry now ''deadlock-storm'' 3 Decided None [(''decision'', JStr ''advise'')]] t)))"

definition runRetryExhaustionPass :: "'w ports \<Rightarrow> supervisor_config \<Rightarrow> int \<Rightarrow> 'w tick_state \<Rightarrow> 'w tick_state" where
  "runRetryExhaustionPass p cfg now t =
     (if within now (st_exhaustionReportedAt (tk_sup t)) (sc_retryExhaustionWindowMs cfg) then t
      else (case detectRetryExhaustion (sp_signals p (tk_world t)) now (sc_retryExhaustionWindowMs cfg) (sc_retryExhaustionThreshold cfg) of
        None \<Rightarrow> t
      | Some (n, by) \<Rightarrow>
          (let d = [(''exhausted'', JNum n), (''byEngine'', tally_json by)]
           in emit [audit_entry now ''retry-exhaustion'' 3 Detected None (d @ [(''windowMs'', JNum (sc_retryExhaustionWindowMs cfg))]),
                audit_entry now ''retry-exhaustion'' 3 Escalated None d]
                (upd_sup (st_exhaustionReportedAt_update (\<lambda>_. Some now)) t))))"

definition runReplayStormPass :: "'w ports \<Rightarrow> supervisor_config \<Rightarrow> int \<Rightarrow> 'w tick_state \<Rightarrow> 'w tick_state" where
  "runReplayStormPass p cfg now t =
     (if within now (st_replayStormReportedAt (tk_sup t)) (sc_webhookReplayWindowMs cfg) then t
      else (case detectWebhookReplayStorm (sp_signals p (tk_world t)) now (sc_webhookReplayWindowMs cfg) (sc_webhookReplayThreshold cfg) of
        None \<Rightarrow> t
      | Some (n, prov, layer) \<Rightarrow> emit
          [audit_entry now ''webhook-replay-storm'' 3 Detected None [(''duplicates'', JNum n), (''byProvider'', tally_json prov),
             (''byLayer'', tally_json layer), (''windowMs'', JNum (sc_webhookReplayWindowMs cfg))],
           audit_entry now ''webhook-replay-storm'' 3 Decided None [(''decision'', JStr ''advise'')]]
          (upd_sup (st_replayStormReportedAt_update (\<lambda>_. Some now)) t)))"

definition runSealLatencyPass :: "'w ports \<Rightarrow> supervisor_config \<Rightarrow> int \<Rightarrow> 'w tick_state \<Rightarrow> 'w tick_state" where
  "runSealLatencyPass p cfg now t =
     (if within now (st_sealSlowReportedAt (tk_sup t)) (sc_sealLatencyWindowMs cfg) then t
      else (case detectSlowSeal (sp_signals p (tk_world t)) now (sc_sealLatencyMs cfg) (sc_sealLatencyWindowMs cfg) of
        None \<Rightarrow> t
      | Some (slowest, n) \<Rightarrow> emit
          [audit_entry now ''checkpoint-seal-slow'' 3 Detected None [(''maxMs'', JNum slowest), (''samples'', JNum (int n)),
             (''windowMs'', JNum (sc_sealLatencyWindowMs cfg))],
           audit_entry now ''checkpoint-seal-slow'' 3 Decided None [(''decision'', JStr ''advise'')]]
          (upd_sup (st_sealSlowReportedAt_update (\<lambda>_. Some now)) t)))"

definition runVelocityPass :: "'w ports \<Rightarrow> supervisor_config \<Rightarrow> int \<Rightarrow> 'w tick_state \<Rightarrow> 'w tick_state" where
  "runVelocityPass p cfg now t =
     (if within now (st_anomalyReportedAt (tk_sup t)) (sc_anomalyWindowMs cfg) then t
      else (case detectVelocityAnomaly (sp_signals p (tk_world t)) now (sc_anomalyWindowMs cfg) (sc_anomalyThreshold cfg) of
        None \<Rightarrow> t
      | Some (n, kinds, perMin) \<Rightarrow>
          (let d = [(''rejections'', JNum n), (''byKind'', tally_json kinds), (''ratePerMin'', JNum perMin)]
           in upd_sup (st_anomalyReportedAt_update (\<lambda>_. Some now)) (emit
             [audit_entry now ''velocity-anomaly'' 3 Detected None (d @ [(''windowMs'', JNum (sc_anomalyWindowMs cfg))]),
              (if n \<ge> sc_anomalyEscalationThreshold cfg then audit_entry now ''velocity-anomaly'' 3 Escalated None d
               else audit_entry now ''velocity-anomaly'' 3 Decided None [(''decision'', JStr ''advise'')])] t))))"

section \<open>The passes that act\<close>

text \<open>What keeps a lever from being pulled; the last case asks for a hand-off instead.\<close>

datatype suppression = ByContainment | ByEscalation | HandOff | ByCooldown

definition decideSuppression :: "supervisor_config \<Rightarrow> int \<Rightarrow> supervisor_state \<Rightarrow> action_state \<Rightarrow> suppression option" where
  "decideSuppression cfg now s ac =
     (if st_containment s then Some ByContainment
      else if acEscalated ac then Some ByEscalation
      else if acAttempts ac \<ge> sc_maxActionAttempts cfg then Some HandOff
      else if within now (acLastActedAt ac) (sc_actionCooldownMs cfg) then Some ByCooldown
      else None)"

definition reason_text :: "suppression \<Rightarrow> string" where
  "reason_text r = (case r of ByContainment \<Rightarrow> ''containment'' | ByEscalation \<Rightarrow> ''escalated'' | HandOff \<Rightarrow> ''escalate''
     | ByCooldown \<Rightarrow> ''cooldown'')"

definition suppressed_detail :: "string \<Rightarrow> (string \<times> json) list" where
  "suppressed_detail why = [(''decision'', JStr ''suppressed''), (''reason'', JStr why)]"

definition tried :: "int \<Rightarrow> action_state \<Rightarrow> action_state" where
  "tried now ac = ac\<lparr>acAttempts := acAttempts ac + 1, acLastActedAt := Some now\<rparr>"

definition saga_text :: "saga_state \<Rightarrow> string" where
  "saga_text x = (case x of REQUESTED \<Rightarrow> ''REQUESTED'' | RESERVED \<Rightarrow> ''RESERVED'' | SUBMITTED \<Rightarrow> ''SUBMITTED''
     | SETTLED \<Rightarrow> ''SETTLED'' | FAILED \<Rightarrow> ''FAILED'')"

definition stuckRecord :: "int \<Rightarrow> audit_phase \<Rightarrow> string \<Rightarrow> (string \<times> json) list \<Rightarrow> audit_record" where
  "stuckRecord now phase i = audit_entry now ''stuck-saga'' 1 phase (Some i)"

definition action_of :: "string \<Rightarrow> supervisor_state \<Rightarrow> action_state" where
  "action_of i s = (case map_of (st_perSaga s) i of Some ac \<Rightarrow> ac | None \<Rightarrow> idleAction)"

definition decide_saga :: "supervisor_config \<Rightarrow> int \<Rightarrow> saga \<times> int \<Rightarrow> saga list \<times> 'w tick_state \<Rightarrow> saga list \<times> 'w tick_state" where
  "decide_saga cfg now f acc = (case (f, acc) of ((x, age), (todo, t)) \<Rightarrow>
     (let i = sagaId x; ac = action_of i (tk_sup t);
          t1 = upd_sup (st_perSaga_update (AList.update i ac)) (emit
            [stuckRecord now Detected i [(''state'', JStr (saga_text (sagaState x))), (''ageMs'', JNum age)]] t)
      in case decideSuppression cfg now (tk_sup t) ac of
           None \<Rightarrow> (todo @ [x], emit [stuckRecord now Decided i [(''decision'', JStr ''act''), (''action'', JStr ''sweep'')]] t1)
         | Some HandOff \<Rightarrow> (todo, emit [stuckRecord now Escalated i [(''attempts'', JNum (int (acAttempts ac))),
               (''state'', JStr (saga_text (sagaState x)))]]
             (upd_sup (st_perSaga_update (AList.update i (ac\<lparr>acEscalated := True\<rparr>))) t1))
         | Some why \<Rightarrow> (todo, emit [stuckRecord now Decided i (suppressed_detail (reason_text why))] t1)))"

definition verify_saga :: "'w ports \<Rightarrow> int \<Rightarrow> saga \<Rightarrow> 'w tick_state \<Rightarrow> 'w tick_state" where
  "verify_saga p now x t = (case map_of (st_perSaga (tk_sup t)) (sagaId x) of
     None \<Rightarrow> t
   | Some ac \<Rightarrow>
       (let found = sp_load p (sagaId x) (tk_world t);
            progressed = (case found of None \<Rightarrow> False
              | Some y \<Rightarrow> sagaState y \<noteq> sagaState x \<or> sagaUpdatedAt y \<noteq> sagaUpdatedAt x)
        in emit [stuckRecord now Verified (sagaId x)
             [(''outcome'', JStr (if progressed then ''progressed'' else ''unchanged'')), (''from'', JStr (saga_text (sagaState x))),
              (''to'', case found of None \<Rightarrow> JNull | Some y \<Rightarrow> JStr (saga_text (sagaState y))), (''attempts'', JNum (int (acAttempts ac + 1)))]]
             (upd_sup (st_perSaga_update (AList.update (sagaId x) (tried now ac))) t)))"

definition actOnStuckSagas :: "'w ports \<Rightarrow> int \<Rightarrow> saga list \<Rightarrow> 'w tick_state \<Rightarrow> 'w tick_state" where
  "actOnStuckSagas p now todo t = (case sp_runSweep p now (tk_world t) of (r, y) \<Rightarrow>
     fold (verify_saga p now) todo (emit [audit_entry now ''stuck-saga'' 1 Acted None
       ([(''action'', JStr ''sweep''), (''sagas'', JArr (map (\<lambda>x. JStr (sagaId x)) todo))] @ failure_of r)] (t\<lparr>tk_world := y\<rparr>)))"

definition runStuckSagaPass :: "'w ports \<Rightarrow> supervisor_config \<Rightarrow> int \<Rightarrow> 'w tick_state \<Rightarrow> 'w tick_state" where
  "runStuckSagaPass p cfg now t =
     (case fold (decide_saga cfg now) (detectStuckSagas (sp_sagas p (tk_world t)) now (sc_stuckSagaAgeMs cfg)) ([], t) of
        (todo, t1) \<Rightarrow> if todo = [] then t1 else actOnStuckSagas p now todo t1)"

definition backlogRecord :: "int \<Rightarrow> audit_phase \<Rightarrow> (string \<times> json) list \<Rightarrow> audit_record" where
  "backlogRecord now phase = audit_entry now ''outbox-backlog'' 1 phase None"

definition verifyOutboxRedrive :: "'w ports \<Rightarrow> int \<Rightarrow> 'w tick_state \<Rightarrow> 'w tick_state" where
  "verifyOutboxRedrive p now t = (case st_outboxVerify (tk_sup t) of
     None \<Rightarrow> t
   | Some (actedAt, age) \<Rightarrow>
       (case newestMeter (since (sp_signals p (tk_world t)) (Some (actedAt + 1))) ''worker.relay.backlog_age_ms'' of
          None \<Rightarrow> t
        | Some g \<Rightarrow> upd_sup (st_outboxVerify_update (\<lambda>_. None)) (emit [backlogRecord now Verified
            [(''outcome'', JStr (if sgValue g < age then ''drained'' else ''unchanged'')), (''ageMs'', JNum (sgValue g)),
             (''ageAtAction'', JNum age)]] t)))"

definition runOutboxBacklogPass :: "'w ports \<Rightarrow> supervisor_config \<Rightarrow> int \<Rightarrow> 'w tick_state \<Rightarrow> 'w tick_state" where
  "runOutboxBacklogPass p cfg now t0 =
     (let t = verifyOutboxRedrive p now t0 in
      case detectOutboxBacklog (sp_signals p (tk_world t)) (sc_outboxBacklogAgeMs cfg) of
        None \<Rightarrow> t
      | Some (age, pending) \<Rightarrow>
          (let t1 = emit [backlogRecord now Detected [(''ageMs'', JNum age), (''pending'', JNum pending)]] t;
               ac = st_outboxAction (tk_sup t1)
           in case decideSuppression cfg now (tk_sup t1) ac of
                Some HandOff \<Rightarrow> emit [backlogRecord now Escalated [(''attempts'', JNum (int (acAttempts ac))), (''ageMs'', JNum age),
                    (''pending'', JNum pending)]] (upd_sup (st_outboxAction_update (\<lambda>_. ac\<lparr>acEscalated := True\<rparr>)) t1)
              | Some why \<Rightarrow> emit [backlogRecord now Decided (suppressed_detail (reason_text why))] t1
              | None \<Rightarrow>
                  (let lever = (case sp_runRelay p of Some f \<Rightarrow> f | None \<Rightarrow> sp_runSweep p);
                       name = (case sp_runRelay p of Some _ \<Rightarrow> ''redriveRelay'' | None \<Rightarrow> ''sweep'')
                   in case lever now (tk_world t1) of (r, y) \<Rightarrow>
                      upd_sup (\<lambda>s. s\<lparr>st_outboxAction := tried now ac, st_outboxVerify := Some (now, age)\<rparr>) (emit
                        [backlogRecord now Decided [(''decision'', JStr ''act''), (''action'', JStr name)],
                         backlogRecord now Acted ((''action'', JStr name) # failure_of r)] (t1\<lparr>tk_world := y\<rparr>)))))"

definition inboxRecord :: "int \<Rightarrow> audit_phase \<Rightarrow> (string \<times> json) list \<Rightarrow> audit_record" where
  "inboxRecord now phase = audit_entry now ''inbox-dead-letter'' 1 phase None"

definition runInboxDeadLetterPass :: "'w ports \<Rightarrow> supervisor_config \<Rightarrow> int \<Rightarrow> 'w tick_state \<Rightarrow> 'w tick_state" where
  "runInboxDeadLetterPass p cfg now t =
     (case detectInboxDeadLetters (sp_signals p (tk_world t)) (st_inboxHandledUpTo (tk_sup t)) (sc_inboxDeadLetterThreshold cfg) of
        None \<Rightarrow> t
      | Some (n, newest) \<Rightarrow>
          (let t1 = emit [inboxRecord now Detected [(''deadLettered'', JNum (int n))]]
                 (upd_sup (st_inboxHandledUpTo_update (\<lambda>_. newest)) t);
               ac = st_inboxAction (tk_sup t1)
           in case sp_reviveInbox p of
                None \<Rightarrow> emit [inboxRecord now Decided (suppressed_detail ''no-lever'')] t1
              | Some revive \<Rightarrow>
                  (case decideSuppression cfg now (tk_sup t1) ac of
                     Some HandOff \<Rightarrow> emit [inboxRecord now Escalated [(''attempts'', JNum (int (acAttempts ac))),
                         (''deadLettered'', JNum (int n))]] (upd_sup (st_inboxAction_update (\<lambda>_. ac\<lparr>acEscalated := True\<rparr>)) t1)
                   | Some why \<Rightarrow> emit [inboxRecord now Decided (suppressed_detail (reason_text why))] t1
                   | None \<Rightarrow>
                       (case revive (sc_inboxReviveLimit cfg) (tk_world t1) of (r, y) \<Rightarrow>
                         (let ids = (case r of Inl _ \<Rightarrow> [] | Inr xs \<Rightarrow> xs)
                          in emit [inboxRecord now Decided [(''decision'', JStr ''act''), (''action'', JStr ''reviveInbox''),
                                 (''limit'', JNum (int (sc_inboxReviveLimit cfg)))],
                               inboxRecord now Acted ([(''action'', JStr ''reviveInbox''), (''revived'', JArr (map JStr ids))] @ failure_of r),
                               inboxRecord now Verified [(''outcome'', JStr (if ids \<noteq> [] then ''revived'' else ''empty'')),
                                 (''revived'', JNum (int (length ids)))]]
                               (upd_sup (st_inboxAction_update (\<lambda>_. tried now ac)) (t1\<lparr>tk_world := y\<rparr>)))))))"

section \<open>The tick\<close>

text \<open>The passes that report and touch nothing but their own marks, in the order of the tick.\<close>

definition report_passes :: "'w ports \<Rightarrow> supervisor_config \<Rightarrow> int \<Rightarrow> 'w tick_state \<Rightarrow> 'w tick_state" where
  "report_passes p cfg now t =
     runVelocityPass p cfg now (runSealLatencyPass p cfg now (runReplayStormPass p cfg now (runRetryExhaustionPass p cfg now
       (runStormPass p cfg now (runSilencePass p cfg now (runTreasuryPass p now (runStallPass p cfg now t)))))))"

definition tick :: "'w ports \<Rightarrow> supervisor_config \<Rightarrow> int \<Rightarrow> 'w \<Rightarrow> supervisor_state \<Rightarrow> audit_record list \<times> supervisor_state \<times> 'w" where
  "tick p cfg now x s =
     (let s0 = s\<lparr>st_watchStartedAt := Some (case st_watchStartedAt s of Some w0 \<Rightarrow> w0 | None \<Rightarrow> now)\<rparr>;
          t1 = report_passes p cfg now (runIntegrityPass p now \<lparr>tk_world = x, tk_sup = s0, tk_out = []\<rparr>);
          t2 = runInboxDeadLetterPass p cfg now (runOutboxBacklogPass p cfg now (runStuckSagaPass p cfg now t1))
      in (tk_out t2, tk_sup t2, tk_world t2))"

section \<open>Containment\<close>

text \<open>The same host with other levers, where it has them.\<close>

definition with_levers ::
    "(int \<Rightarrow> 'w \<Rightarrow> unit res \<times> 'w) \<Rightarrow> (int \<Rightarrow> 'w \<Rightarrow> unit res \<times> 'w) \<Rightarrow> (nat \<Rightarrow> 'w \<Rightarrow> string list res \<times> 'w) \<Rightarrow> 'w ports \<Rightarrow> 'w ports" where
  "with_levers sweep relay revive p = p\<lparr>sp_runSweep := sweep, sp_runRelay := map_option (\<lambda>_. relay) (sp_runRelay p),
     sp_reviveInbox := map_option (\<lambda>_. revive) (sp_reviveInbox p)\<rparr>"

lemma with_levers_sel [simp]:
  "sp_signals (with_levers a b d p) = sp_signals p" "sp_sagas (with_levers a b d p) = sp_sagas p"
  "sp_load (with_levers a b d p) = sp_load p" "sp_prove (with_levers a b d p) = sp_prove p"
  "sp_pauseWorker (with_levers a b d p) = sp_pauseWorker p"
  "sp_reviveInbox (with_levers a b d p) = map_option (\<lambda>_. d) (sp_reviveInbox p)"
  by (simp_all add: with_levers_def)

lemma emit_sel [simp]:
  "tk_world (emit rs t) = tk_world t" "tk_sup (emit rs t) = tk_sup t" "tk_out (emit rs t) = tk_out t @ rs"
  by (simp_all add: emit_def)

lemma upd_sup_sel [simp]:
  "tk_world (upd_sup f t) = tk_world t" "tk_sup (upd_sup f t) = f (tk_sup t)" "tk_out (upd_sup f t) = tk_out t"
  by (simp_all add: upd_sup_def)

text \<open>What a pass that only reports keeps.\<close>

definition levers_named :: "string list" where
  "levers_named = [''stuck-saga'', ''outbox-backlog'', ''inbox-dead-letter'']"

definition quiet :: "'w tick_state \<Rightarrow> 'w tick_state \<Rightarrow> bool" where
  "quiet t t' \<longleftrightarrow> (\<exists>rs. tk_out t' = tk_out t @ rs \<and> (\<forall>r \<in> set rs. auSignature r \<notin> set levers_named)) \<and>
     st_perSaga (tk_sup t') = st_perSaga (tk_sup t) \<and> st_outboxAction (tk_sup t') = st_outboxAction (tk_sup t) \<and>
     st_inboxAction (tk_sup t') = st_inboxAction (tk_sup t)"

lemma quiet_refl [simp]: "quiet t t"
  by (simp add: quiet_def)

lemma quiet_trans: "quiet t u \<Longrightarrow> quiet u v \<Longrightarrow> quiet t v"
  unfolding quiet_def by (elim conjE exE) (simp, blast)

lemma entry_sel [simp]: "auSignature (audit_entry n s k ph sj d) = s" "auPhase (audit_entry n s k ph sj d) = ph"
    "auSubject (audit_entry n s k ph sj d) = sj"
  by (simp_all add: audit_entry_def)

definition unlatched :: "'w tick_state \<Rightarrow> 'w tick_state \<Rightarrow> bool" where
  "unlatched t t' \<longleftrightarrow> st_containment (tk_sup t') = st_containment (tk_sup t) \<and> tk_world t' = tk_world t \<and>
     st_mismatchHandledUpTo (tk_sup t') = st_mismatchHandledUpTo (tk_sup t) \<and>
     (\<exists>rs. tk_out t' = tk_out t @ rs \<and> (\<forall>r \<in> set rs. auSignature r \<noteq> ''integrity-mismatch''))"

lemma contained_refl [simp]: "unlatched t t"
  by (simp add: unlatched_def)

lemma contained_trans: "unlatched t u \<Longrightarrow> unlatched u v \<Longrightarrow> unlatched t v"
  unfolding unlatched_def by (elim conjE exE) (simp, blast)

lemmas pass_defs = runStallPass_def runTreasuryPass_def runStormPass_def runRetryExhaustionPass_def
  runReplayStormPass_def runSealLatencyPass_def runVelocityPass_def

lemma report_pass:
  "quiet t (runStallPass p cfg now t) \<and> unlatched t (runStallPass p cfg now t)"
  "quiet t (runTreasuryPass p now t) \<and> unlatched t (runTreasuryPass p now t)"
  "quiet t (runStormPass p cfg now t) \<and> unlatched t (runStormPass p cfg now t)"
  "quiet t (runRetryExhaustionPass p cfg now t) \<and> unlatched t (runRetryExhaustionPass p cfg now t)"
  "quiet t (runReplayStormPass p cfg now t) \<and> unlatched t (runReplayStormPass p cfg now t)"
  "quiet t (runSealLatencyPass p cfg now t) \<and> unlatched t (runSealLatencyPass p cfg now t)"
  "quiet t (runVelocityPass p cfg now t) \<and> unlatched t (runVelocityPass p cfg now t)"
  by (simp_all add: pass_defs quiet_def unlatched_def levers_named_def Let_def split: option.splits prod.splits)

lemma silence_pass: "quiet t (runSilencePass p cfg now t) \<and> unlatched t (runSilencePass p cfg now t)"
proof -
  have one: "quiet t (silence_finding now f t) \<and> unlatched t (silence_finding now f t)" for f and t :: "'a tick_state"
    by (cases f) (simp add: silence_finding_def quiet_def unlatched_def levers_named_def Let_def split: prod.splits)
  have "quiet t (fold (silence_finding now) fs t) \<and> unlatched t (fold (silence_finding now) fs t)" for fs and t :: "'a tick_state"
  proof (induction fs arbitrary: t)
    case (Cons f fs)
    then show ?case using one [of t f] Cons.IH [of "silence_finding now f t"] by (auto intro: quiet_trans contained_trans)
  qed simp
  moreover have "quiet t (upd_sup (st_silenceEscalated_update g) t) \<and> unlatched t (upd_sup (st_silenceEscalated_update g) t)" for g
    by (simp add: quiet_def unlatched_def)
  ultimately show ?thesis
    unfolding runSilencePass_def Let_def by (blast intro: quiet_trans contained_trans)
qed

definition qc :: "'w tick_state \<Rightarrow> 'w tick_state \<Rightarrow> bool" where
  "qc t t' \<longleftrightarrow> quiet t t' \<and> unlatched t t'"

lemma qc_trans: "qc t u \<Longrightarrow> qc u v \<Longrightarrow> qc t v"
  unfolding qc_def by (metis quiet_trans contained_trans)

lemma reports_quiet: "quiet t (report_passes p cfg now t) \<and> unlatched t (report_passes p cfg now t)"
proof -
  note r = report_pass [folded qc_def] and s = silence_pass [folded qc_def]
  have "qc t (report_passes p cfg now t)"
    unfolding report_passes_def
    by (rule qc_trans [OF _ r(7)], rule qc_trans [OF _ r(6)], rule qc_trans [OF _ r(5)], rule qc_trans [OF _ r(4)],
        rule qc_trans [OF _ r(3)], rule qc_trans [OF _ s], rule qc_trans [OF _ r(2)], rule r(1))
  then show ?thesis by (simp add: qc_def)
qed

lemma integrity_quiet: "quiet t (runIntegrityPass p now t)"
  by (simp add: runIntegrityPass_def quiet_def levers_named_def Let_def split: prod.splits option.splits)

lemma integrity_latches:
  "st_containment (tk_sup (runIntegrityPass p now t)) \<longleftrightarrow> st_containment (tk_sup t) \<or>
     detectIntegrityMismatches (sp_signals p (tk_world t)) (st_mismatchHandledUpTo (tk_sup t)) \<noteq> []"
  "detectIntegrityMismatches (sp_signals p (tk_world t)) (st_mismatchHandledUpTo (tk_sup t)) = [] \<Longrightarrow> runIntegrityPass p now t = t"
  by (simp_all add: runIntegrityPass_def Let_def split: prod.splits option.splits)

text \<open>Contained, the acting passes decide without their levers.\<close>

lemma decide_contained:
  "st_containment (tk_sup t) \<Longrightarrow> fold (decide_saga cfg now) fs (todo, t) = (todo', t') \<Longrightarrow> todo' = todo \<and> st_containment (tk_sup t')"
proof (induction fs arbitrary: t)
  case (Cons f fs)
  obtain u where u: "decide_saga cfg now f (todo, t) = (todo, u)" "st_containment (tk_sup u)"
    using Cons.prems(1) by (cases f) (auto simp: decide_saga_def decideSuppression_def Let_def)
  show ?case using Cons.IH [OF u(2)] Cons.prems(2) u(1) by simp
qed simp

lemma stuck_contained:
  assumes "st_containment (tk_sup t)"
  shows "runStuckSagaPass (with_levers a b d p) cfg now t = runStuckSagaPass p cfg now t"
    "st_containment (tk_sup (runStuckSagaPass p cfg now t))"
proof -
  obtain todo t1 where f: "fold (decide_saga cfg now) (detectStuckSagas (sp_sagas p (tk_world t)) now (sc_stuckSagaAgeMs cfg)) ([], t) = (todo, t1)"
    by force
  then have "todo = []" "st_containment (tk_sup t1)" using decide_contained [OF assms, of cfg now _ "[]"] by blast+
  then show "runStuckSagaPass (with_levers a b d p) cfg now t = runStuckSagaPass p cfg now t"
    "st_containment (tk_sup (runStuckSagaPass p cfg now t))"
    using f by (simp_all add: runStuckSagaPass_def)
qed

lemma suppressed_contained: "st_containment s \<Longrightarrow> decideSuppression cfg now s ac = Some ByContainment"
  by (simp add: decideSuppression_def)

lemma verify_outbox_contained: "st_containment (tk_sup (verifyOutboxRedrive p now t)) = st_containment (tk_sup t)"
  by (simp add: verifyOutboxRedrive_def split: option.split prod.split)

lemma outbox_contained:
  assumes "st_containment (tk_sup t)"
  shows "runOutboxBacklogPass (with_levers a b d p) cfg now t = runOutboxBacklogPass p cfg now t" (is ?A)
    "st_containment (tk_sup (runOutboxBacklogPass p cfg now t))" (is ?B)
proof -
  have v: "verifyOutboxRedrive (with_levers a b d p) now t = verifyOutboxRedrive p now t"
    by (simp add: verifyOutboxRedrive_def split: option.split)
  have c: "st_containment (tk_sup (verifyOutboxRedrive p now t))" using assms by (simp add: verify_outbox_contained)
  have "?A \<and> ?B"
  proof (cases "detectOutboxBacklog (sp_signals p (tk_world (verifyOutboxRedrive p now t))) (sc_outboxBacklogAgeMs cfg)")
    case None
    then show ?thesis using c by (simp add: runOutboxBacklogPass_def v Let_def)
  next
    case (Some f)
    then show ?thesis using c by (cases f) (simp add: runOutboxBacklogPass_def v Let_def suppressed_contained)
  qed
  then show ?A ?B by blast+
qed

lemma inbox_contained:
  assumes "st_containment (tk_sup t)"
  shows "runInboxDeadLetterPass (with_levers a b d p) cfg now t = runInboxDeadLetterPass p cfg now t" (is ?A)
    "st_containment (tk_sup (runInboxDeadLetterPass p cfg now t))" (is ?B)
proof -
  let ?d = "detectInboxDeadLetters (sp_signals p (tk_world t)) (st_inboxHandledUpTo (tk_sup t)) (sc_inboxDeadLetterThreshold cfg)"
  have "?A \<and> ?B"
  proof (cases ?d)
    case None
    then show ?thesis using assms by (simp add: runInboxDeadLetterPass_def)
  next
    case (Some f)
    then show ?thesis using assms
      by (cases f; cases "sp_reviveInbox p") (simp_all add: runInboxDeadLetterPass_def Let_def suppressed_contained)
  qed
  then show ?A ?B by blast+
qed

lemma levers_reports:
  "runStallPass (with_levers a b d p) cfg now t = runStallPass p cfg now t"
  "runTreasuryPass (with_levers a b d p) now t = runTreasuryPass p now t"
  "runStormPass (with_levers a b d p) cfg now t = runStormPass p cfg now t"
  "runRetryExhaustionPass (with_levers a b d p) cfg now t = runRetryExhaustionPass p cfg now t"
  "runReplayStormPass (with_levers a b d p) cfg now t = runReplayStormPass p cfg now t"
  "runSealLatencyPass (with_levers a b d p) cfg now t = runSealLatencyPass p cfg now t"
  "runVelocityPass (with_levers a b d p) cfg now t = runVelocityPass p cfg now t"
  "runSilencePass (with_levers a b d p) cfg now t = runSilencePass p cfg now t"
  "runIntegrityPass (with_levers a b d p) now t = runIntegrityPass p now t"
  by (simp_all only: pass_defs runSilencePass_def runIntegrityPass_def runProver_def with_levers_sel(1,4,5))

lemma levers_other: "report_passes (with_levers a b d p) cfg now t = report_passes p cfg now t"
  by (simp only: report_passes_def levers_reports)

lemma tick_contained:
  assumes "st_containment s \<or> detectIntegrityMismatches (sp_signals p x) (st_mismatchHandledUpTo s) \<noteq> []"
  shows "tick (with_levers a b d p) cfg now x s = tick p cfg now x s" "st_containment (fst (snd (tick p cfg now x s)))"
proof -
  let ?s0 = "s\<lparr>st_watchStartedAt := Some (case st_watchStartedAt s of Some w0 \<Rightarrow> w0 | None \<Rightarrow> now)\<rparr>"
  let ?t1 = "report_passes p cfg now (runIntegrityPass p now \<lparr>tk_world = x, tk_sup = ?s0, tk_out = []\<rparr>)"
  have c: "st_containment (tk_sup ?t1)"
    using reports_quiet [of "runIntegrityPass p now \<lparr>tk_world = x, tk_sup = ?s0, tk_out = []\<rparr>" p cfg now] assms
    by (simp add: unlatched_def integrity_latches(1))
  note st = stuck_contained [OF c]
  note ob = outbox_contained [OF st(2)]
  note ib = inbox_contained [OF ob(2)]
  show "tick (with_levers a b d p) cfg now x s = tick p cfg now x s"
    unfolding tick_def levers_other levers_reports Let_def st(1) ob(1) ib(1) ..
  show "st_containment (fst (snd (tick p cfg now x s)))"
    unfolding tick_def Let_def fst_conv snd_conv by (rule ib(2))
qed

section \<open>The budget of attempts\<close>

definition acted_on :: "string \<Rightarrow> audit_record list \<Rightarrow> nat" where
  "acted_on sig rs = length (filter (\<lambda>r. auSignature r = sig \<and> auPhase r = Acted) rs)"

definition verified_on :: "string \<Rightarrow> audit_record list \<Rightarrow> nat" where
  "verified_on i rs = length (filter (\<lambda>r. auSignature r = ''stuck-saga'' \<and> auPhase r = Verified \<and> auSubject r = Some i) rs)"

lemma counts_append [simp]:
  "acted_on sig (rs @ qs) = acted_on sig rs + acted_on sig qs" "verified_on i (rs @ qs) = verified_on i rs + verified_on i qs"
  "acted_on sig [] = 0" "verified_on i [] = 0"
  by (simp_all add: acted_on_def verified_on_def)

lemma counts_Cons:
  "acted_on sig (r # rs) = (if auSignature r = sig \<and> auPhase r = Acted then 1 else 0) + acted_on sig rs"
  "verified_on i (r # rs) =
     (if auSignature r = ''stuck-saga'' \<and> auPhase r = Verified \<and> auSubject r = Some i then 1 else 0) + verified_on i rs"
  by (simp_all add: acted_on_def verified_on_def)

text \<open>Between two moments the records of the levers are the attempts charged, and no charge passes the cap.\<close>

definition charged :: "nat \<Rightarrow> audit_record list \<Rightarrow> supervisor_state \<Rightarrow> supervisor_state \<Rightarrow> bool" where
  "charged m rs s s' \<longleftrightarrow>
     acted_on ''outbox-backlog'' rs + acAttempts (st_outboxAction s) = acAttempts (st_outboxAction s') \<and>
     acted_on ''inbox-dead-letter'' rs + acAttempts (st_inboxAction s) = acAttempts (st_inboxAction s') \<and>
     (\<forall>i. verified_on i rs + acAttempts (action_of i s) = acAttempts (action_of i s')) \<and>
     acAttempts (st_outboxAction s') \<le> max m (acAttempts (st_outboxAction s)) \<and>
     acAttempts (st_inboxAction s') \<le> max m (acAttempts (st_inboxAction s)) \<and>
     (\<forall>i. acAttempts (action_of i s') \<le> max m (acAttempts (action_of i s)))"

lemma charged_trans:
  assumes "charged m rs s u" "charged m qs u v"
  shows "charged m (rs @ qs) s v"
proof -
  have i: "verified_on i rs + acAttempts (action_of i s) = acAttempts (action_of i u)"
    "verified_on i qs + acAttempts (action_of i u) = acAttempts (action_of i v)"
    "acAttempts (action_of i u) \<le> max m (acAttempts (action_of i s))"
    "acAttempts (action_of i v) \<le> max m (acAttempts (action_of i u))" for i
    using assms unfolding charged_def by blast+
  have "verified_on i (rs @ qs) + acAttempts (action_of i s) = acAttempts (action_of i v)"
    "acAttempts (action_of i v) \<le> max m (acAttempts (action_of i s))" for i
    using i [of i] by simp_all
  then show ?thesis using assms unfolding charged_def counts_append by auto
qed

definition budget :: "nat \<Rightarrow> 'w tick_state \<Rightarrow> 'w tick_state \<Rightarrow> bool" where
  "budget m t t' \<longleftrightarrow> (\<exists>rs. tk_out t' = tk_out t @ rs \<and> charged m rs (tk_sup t) (tk_sup t'))"

lemma charged_refl: "charged m [] s s"
  by (simp add: charged_def)

lemma budget_refl: "budget m t t"
  using charged_refl by (auto simp: budget_def)

lemma budget_trans: "budget m t u \<Longrightarrow> budget m u v \<Longrightarrow> budget m t v"
  unfolding budget_def using charged_trans by (metis append.assoc)

lemma quiet_budget: "quiet t t' \<Longrightarrow> budget m t t'"
proof -
  assume "quiet t t'"
  then obtain rs where r: "tk_out t' = tk_out t @ rs" "\<forall>r \<in> set rs. auSignature r \<notin> set levers_named"
    "st_perSaga (tk_sup t') = st_perSaga (tk_sup t)" "st_outboxAction (tk_sup t') = st_outboxAction (tk_sup t)"
    "st_inboxAction (tk_sup t') = st_inboxAction (tk_sup t)"
    by (auto simp: quiet_def)
  have "acted_on ''outbox-backlog'' rs = 0" "acted_on ''inbox-dead-letter'' rs = 0" "verified_on i rs = 0" for i
    using r(2) by (auto simp: acted_on_def verified_on_def levers_named_def filter_empty_conv)
  then show ?thesis using r by (auto simp: budget_def charged_def action_of_def)
qed

lemma action_upd: "action_of j (st_perSaga_update (AList.update i ac) s) = (if j = i then ac else action_of j s)"
  by (simp add: action_of_def update_conv')

lemma suppression_free: "decideSuppression cfg now s ac = None \<Longrightarrow> acAttempts ac < sc_maxActionAttempts cfg"
  by (simp add: decideSuppression_def split: if_splits)

lemmas entry_counts = counts_Cons audit_entry_def stuckRecord_def backlogRecord_def inboxRecord_def

lemma decide_budget:
  assumes "decide_saga cfg now f (todo, t) = (todo', t')"
  shows "budget m t t'" "\<forall>i. acAttempts (action_of i (tk_sup t')) = acAttempts (action_of i (tk_sup t))"
    "todo' = todo \<or> (todo' = todo @ [fst f] \<and> acAttempts (action_of (sagaId (fst f)) (tk_sup t)) < sc_maxActionAttempts cfg)"
proof -
  obtain x age where f: "f = (x, age)" by force
  show "budget m t t'" "\<forall>i. acAttempts (action_of i (tk_sup t')) = acAttempts (action_of i (tk_sup t))"
    using assms unfolding f
    by (auto simp: decide_saga_def Let_def budget_def charged_def action_of_def update_conv' comp_def entry_counts
        split: option.splits suppression.splits if_splits)
  show "todo' = todo \<or> (todo' = todo @ [fst f] \<and> acAttempts (action_of (sagaId (fst f)) (tk_sup t)) < sc_maxActionAttempts cfg)"
    using assms unfolding f
    by (auto simp: decide_saga_def Let_def suppression_free split: option.splits suppression.splits)
qed

lemma decide_fold_budget:
  assumes "fold (decide_saga cfg now) fs (todo, t) = (todo', t')"
    "distinct (map sagaId todo @ map (sagaId \<circ> fst) fs)"
    "\<forall>x \<in> set todo. acAttempts (action_of (sagaId x) (tk_sup t)) < sc_maxActionAttempts cfg"
  shows "budget m t t' \<and> distinct (map sagaId todo') \<and>
    (\<forall>x \<in> set todo'. acAttempts (action_of (sagaId x) (tk_sup t')) < sc_maxActionAttempts cfg)"
  using assms
proof (induction fs arbitrary: todo t)
  case (Cons f fs)
  obtain td u where u: "decide_saga cfg now f (todo, t) = (td, u)" by force
  note d = decide_budget [OF u]
  have "map sagaId todo @ map (sagaId \<circ> fst) (f # fs) = map sagaId (todo @ [fst f]) @ map (sagaId \<circ> fst) fs" by simp
  then have q: "distinct (map sagaId (todo @ [fst f]) @ map (sagaId \<circ> fst) fs)" using Cons.prems(2) by (simp only:)
  have q': "distinct (map sagaId todo @ map (sagaId \<circ> fst) fs)" using q by (simp only: map_append distinct_append set_append) auto
  have D: "distinct (map sagaId td @ map (sagaId \<circ> fst) fs)" using d(3) q q' by (elim disjE conjE) (simp_all only:)
  have A: "\<forall>x \<in> set td. acAttempts (action_of (sagaId x) (tk_sup u)) < sc_maxActionAttempts cfg"
    using d(2,3) Cons.prems(3) by auto
  have F: "fold (decide_saga cfg now) fs (td, u) = (todo', t')" using Cons.prems(1) u by simp
  show ?case using Cons.IH [OF F D A] budget_trans [OF d(1)] by blast
qed (simp add: budget_refl)

lemma verify_saga_budget:
  assumes "acAttempts (action_of (sagaId x) (tk_sup t)) < m"
  shows "budget m t (verify_saga p now x t)"
    "i \<noteq> sagaId x \<Longrightarrow> action_of i (tk_sup (verify_saga p now x t)) = action_of i (tk_sup t)"
proof -
  show "budget m t (verify_saga p now x t)"
  proof (cases "map_of (st_perSaga (tk_sup t)) (sagaId x)")
    case None
    then show ?thesis by (simp add: verify_saga_def budget_refl)
  next
    case (Some ac)
    then have "action_of (sagaId x) (tk_sup t) = ac" by (simp add: action_of_def)
    then show ?thesis using assms Some
      by (auto simp: verify_saga_def Let_def budget_def charged_def action_upd entry_counts tried_def)
  qed
  show "i \<noteq> sagaId x \<Longrightarrow> action_of i (tk_sup (verify_saga p now x t)) = action_of i (tk_sup t)"
    by (simp add: verify_saga_def Let_def action_upd split: option.split)
qed

lemma verify_fold_budget:
  assumes "distinct (map sagaId xs)" "\<forall>x \<in> set xs. acAttempts (action_of (sagaId x) (tk_sup t)) < m"
  shows "budget m t (fold (verify_saga p now) xs t)"
  using assms
proof (induction xs arbitrary: t)
  case (Cons x xs)
  have a: "acAttempts (action_of (sagaId x) (tk_sup t)) < m" using Cons.prems(2) by simp
  have "\<forall>y \<in> set xs. acAttempts (action_of (sagaId y) (tk_sup (verify_saga p now x t))) < m"
  proof
    fix y assume y: "y \<in> set xs"
    have "sagaId y \<noteq> sagaId x"
    proof
      assume e: "sagaId y = sagaId x"
      have "sagaId x \<in> set (map sagaId xs)" using y e [symmetric] by simp
      then show False using Cons.prems(1) by simp
    qed
    then show "acAttempts (action_of (sagaId y) (tk_sup (verify_saga p now x t))) < m"
      using verify_saga_budget(2) [OF a] Cons.prems(2) y by simp
  qed
  then have "budget m (verify_saga p now x t) (fold (verify_saga p now) xs (verify_saga p now x t))"
    using Cons.IH Cons.prems(1) by simp
  then show ?case using budget_trans [OF verify_saga_budget(1) [OF a]] by simp
qed (simp add: budget_refl)

lemma emit_budget:
  assumes "\<forall>r \<in> set rs. auSignature r = ''stuck-saga'' \<and> auPhase r \<noteq> Verified"
  shows "budget m t (emit rs (t\<lparr>tk_world := y\<rparr>))"
proof -
  have "acted_on ''outbox-backlog'' rs = 0" "acted_on ''inbox-dead-letter'' rs = 0" "verified_on i rs = 0" for i
    using assms by (auto simp: acted_on_def verified_on_def filter_empty_conv)
  then show ?thesis by (auto simp: budget_def charged_def)
qed

lemma stuck_budget:
  assumes "distinct (map sagaId (sp_sagas p (tk_world t)))"
  shows "budget (sc_maxActionAttempts cfg) t (runStuckSagaPass p cfg now t)"
proof -
  let ?fs = "detectStuckSagas (sp_sagas p (tk_world t)) now (sc_stuckSagaAgeMs cfg)"
  obtain todo t1 where f: "fold (decide_saga cfg now) ?fs ([], t) = (todo, t1)" by force
  have "map (sagaId \<circ> fst) ?fs = map sagaId (map fst ?fs)" by simp
  also have "map fst ?fs = filter (\<lambda>x. sagaState x \<notin> {SETTLED, FAILED} \<and> now - sagaUpdatedAt x \<ge> sc_stuckSagaAgeMs cfg) (sp_sagas p (tk_world t))"
    by (simp add: detectStuckSagas_def comp_def)
  finally have "distinct (map (sagaId \<circ> fst) ?fs)" using distinct_map_filter [OF assms] by (simp only:)
  then have d: "budget (sc_maxActionAttempts cfg) t t1 \<and> distinct (map sagaId todo) \<and>
    (\<forall>x \<in> set todo. acAttempts (action_of (sagaId x) (tk_sup t1)) < sc_maxActionAttempts cfg)"
    using decide_fold_budget [OF f] by simp
  obtain r y where l: "sp_runSweep p now (tk_world t1) = (r, y)" by force
  let ?u = "emit [audit_entry now ''stuck-saga'' 1 Acted None
      ([(''action'', JStr ''sweep''), (''sagas'', JArr (map (\<lambda>x. JStr (sagaId x)) todo))] @ failure_of r)] (t1\<lparr>tk_world := y\<rparr>)"
  have "budget (sc_maxActionAttempts cfg) t1 ?u" by (rule emit_budget) simp
  moreover have "budget (sc_maxActionAttempts cfg) ?u (fold (verify_saga p now) todo ?u)"
    by (rule verify_fold_budget) (use d in simp_all)
  ultimately show ?thesis
    using d f budget_trans by (simp add: runStuckSagaPass_def actOnStuckSagas_def l) blast
qed

lemma outbox_budget: "budget (sc_maxActionAttempts cfg) t (runOutboxBacklogPass p cfg now t)"
proof -
  let ?v = "verifyOutboxRedrive p now t"
  have v: "budget (sc_maxActionAttempts cfg) t ?v"
    by (simp add: verifyOutboxRedrive_def budget_refl split: option.split prod.split)
      (auto simp: budget_def charged_def action_of_def entry_counts)
  have "budget (sc_maxActionAttempts cfg) ?v (runOutboxBacklogPass p cfg now t)"
  proof (cases "detectOutboxBacklog (sp_signals p (tk_world ?v)) (sc_outboxBacklogAgeMs cfg)")
    case None
    then show ?thesis by (simp add: runOutboxBacklogPass_def Let_def budget_refl)
  next
    case (Some f)
    obtain age pending where f: "f = (age, pending)" by force
    let ?ac = "st_outboxAction (tk_sup ?v)"
    let ?lever = "case sp_runRelay p of Some f \<Rightarrow> f | None \<Rightarrow> sp_runSweep p"
    obtain r y where l: "?lever now (tk_world ?v) = (r, y)" by force
    show ?thesis
    proof (cases "decideSuppression cfg now (tk_sup ?v) ?ac")
      case None
      note n = suppression_free [OF this]
      show ?thesis using None Some n
        by (auto simp: runOutboxBacklogPass_def f Let_def l budget_def charged_def action_of_def entry_counts tried_def)
    next
      case (Some w)
      then show ?thesis using \<open>_ = Some f\<close>
        by (cases w) (auto simp: runOutboxBacklogPass_def f Let_def budget_def charged_def action_of_def entry_counts)
    qed
  qed
  then show ?thesis using budget_trans [OF v] by blast
qed

lemma inbox_budget: "budget (sc_maxActionAttempts cfg) t (runInboxDeadLetterPass p cfg now t)"
proof (cases "detectInboxDeadLetters (sp_signals p (tk_world t)) (st_inboxHandledUpTo (tk_sup t)) (sc_inboxDeadLetterThreshold cfg)")
  case None
  then show ?thesis by (simp add: runInboxDeadLetterPass_def budget_refl)
next
  case found: (Some f)
  obtain n newest where f: "f = (n, newest)" by force
  let ?s = "st_inboxHandledUpTo_update (\<lambda>_. newest) (tk_sup t)"
  note simps = runInboxDeadLetterPass_def found f Let_def budget_def charged_def action_of_def entry_counts
  show ?thesis
  proof (cases "sp_reviveInbox p")
    case None
    then show ?thesis by (auto simp: simps)
  next
    case lever: (Some revive)
    show ?thesis
    proof (cases "decideSuppression cfg now ?s (st_inboxAction (tk_sup t))")
      case None
      obtain r y where l: "revive (sc_inboxReviveLimit cfg) (tk_world t) = (r, y)" by force
      show ?thesis using None suppression_free [OF None] by (auto simp: simps lever l tried_def)
    next
      case (Some w)
      then show ?thesis by (cases w) (auto simp: simps lever)
    qed
  qed
qed

lemma tick_charged:
  assumes "\<And>y. distinct (map sagaId (sp_sagas p y))" "tick p cfg now x s = (out, s', y')"
  shows "charged (sc_maxActionAttempts cfg) out s s'"
proof -
  let ?s0 = "s\<lparr>st_watchStartedAt := Some (case st_watchStartedAt s of Some w0 \<Rightarrow> w0 | None \<Rightarrow> now)\<rparr>"
  let ?start = "\<lparr>tk_world = x, tk_sup = ?s0, tk_out = []\<rparr>"
  let ?told = "report_passes p cfg now (runIntegrityPass p now ?start)"
  have "quiet ?start ?told" using integrity_quiet reports_quiet quiet_trans by blast
  then have r: "budget (sc_maxActionAttempts cfg) ?start ?told" by (rule quiet_budget)
  let ?final = "runInboxDeadLetterPass p cfg now (runOutboxBacklogPass p cfg now (runStuckSagaPass p cfg now ?told))"
  have "budget (sc_maxActionAttempts cfg) ?start ?final"
    by (rule budget_trans [OF _ inbox_budget], rule budget_trans [OF _ outbox_budget],
        rule budget_trans [OF _ stuck_budget [OF assms(1)]], rule r)
  moreover have "tk_out ?final = out" "tk_sup ?final = s'" using assms(2) by (simp_all add: tick_def Let_def)
  ultimately have "charged (sc_maxActionAttempts cfg) out ?s0 s'" by (auto simp: budget_def)
  then show ?thesis by (simp add: charged_def action_of_def)
qed

text \<open>A watch: ticks at the given times, the host in between whatever it has become.\<close>

fun patrol :: "'w ports \<Rightarrow> supervisor_config \<Rightarrow> (int \<times> 'w) list \<Rightarrow> supervisor_state \<Rightarrow> audit_record list \<times> supervisor_state" where
  "patrol p cfg [] s = ([], s)"
| "patrol p cfg ((now, x) # xs) s =
     (let (out, s', _) = tick p cfg now x s; (rest, s'') = patrol p cfg xs s' in (out @ rest, s''))"

lemma patrol_charged:
  assumes "\<And>y. distinct (map sagaId (sp_sagas p y))" "patrol p cfg xs s = (out, s')"
  shows "charged (sc_maxActionAttempts cfg) out s s'"
  using assms(2)
proof (induction xs arbitrary: s out)
  case (Cons f xs)
  obtain now x where f: "f = (now, x)" by force
  obtain o1 s1 y1 where t: "tick p cfg now x s = (o1, s1, y1)" by (cases "tick p cfg now x s") auto
  obtain o2 where "patrol p cfg xs s1 = (o2, s')" "out = o1 @ o2"
    using Cons.prems by (auto simp: f t split: prod.splits)
  then show ?case using Cons.IH charged_trans tick_charged [OF assms(1) t] by blast
qed (simp add: charged_refl)

text \<open>(C9) However long the supervisor watches, and whatever the levers do or throw, it redrives the outbox, revives the
  inbox and sweeps for any one saga at most maxActionAttempts times; and once an integrity mismatch has been seen no
  lever is pulled again: the tick is the same tick whatever the levers are, and containment stays.\<close>

theorem supervisor_guardrails:
  assumes "\<And>y. distinct (map sagaId (sp_sagas p y))" "patrol p cfg xs initialState = (out, s)"
  shows "acted_on ''outbox-backlog'' out \<le> sc_maxActionAttempts cfg \<and> acted_on ''inbox-dead-letter'' out \<le> sc_maxActionAttempts cfg \<and>
    verified_on i out \<le> sc_maxActionAttempts cfg \<and>
    (st_containment s \<or> detectIntegrityMismatches (sp_signals p x) (st_mismatchHandledUpTo s) \<noteq> [] \<longrightarrow>
       tick (with_levers a b d p) cfg now x s = tick p cfg now x s \<and> st_containment (fst (snd (tick p cfg now x s))))"
proof -
  have c: "charged (sc_maxActionAttempts cfg) out initialState s" using patrol_charged [OF assms] .
  have z: "acAttempts (st_outboxAction initialState) = 0" "acAttempts (st_inboxAction initialState) = 0"
    "acAttempts (action_of i initialState) = 0"
    by (simp_all add: initialState_def idleAction_def action_of_def)
  have "verified_on i out + acAttempts (action_of i initialState) = acAttempts (action_of i s)"
    "acAttempts (action_of i s) \<le> max (sc_maxActionAttempts cfg) (acAttempts (action_of i initialState))"
    using c unfolding charged_def by blast+
  then have "verified_on i out \<le> sc_maxActionAttempts cfg" using z(3) by simp
  moreover have "acted_on ''outbox-backlog'' out \<le> sc_maxActionAttempts cfg" "acted_on ''inbox-dead-letter'' out \<le> sc_maxActionAttempts cfg"
    using c z(1,2) by (auto simp: charged_def)
  moreover have "tick (with_levers a b d p) cfg now x s = tick p cfg now x s \<and> st_containment (fst (snd (tick p cfg now x s)))"
    if "st_containment s \<or> detectIntegrityMismatches (sp_signals p x) (st_mismatchHandledUpTo s) \<noteq> []"
    using tick_contained [OF that] by blast
  ultimately show ?thesis by blast
qed

text \<open>A saga stuck since the start, a sweep that always throws and a cap of one: the first tick sweeps, the second hands off.\<close>

definition stuck_saga :: saga where
  "stuck_saga = \<lparr>sagaId = ''s'', sagaUser = ''u'', sagaReserve = \<lparr>currency = CREDIT, minor = 5\<rparr>, sagaRateId = ''r'', sagaTxn = ''t'',
     sagaState = RESERVED, sagaProviderRef = None, sagaReason = None, sagaAttempts = 0, sagaDueAt = 0, sagaUpdatedAt = 0,
     sagaPayoutUsd = None\<rparr>"

definition lone_host :: "unit ports" where
  "lone_host = \<lparr>sp_signals = (\<lambda>_. []), sp_sagas = (\<lambda>_. [stuck_saga]), sp_load = (\<lambda>_ _. Some stuck_saga),
     sp_runSweep = (\<lambda>_ x. (Inl (HostError ''down''), x)), sp_prove = None, sp_pauseWorker = None, sp_runRelay = None,
     sp_reviveInbox = None\<rparr>"

definition one_try :: supervisor_config where
  "one_try = defaultSupervisorConfig\<lparr>sc_maxActionAttempts := 1\<rparr>"

definition tried_once :: supervisor_state where
  "tried_once = initialState\<lparr>st_perSaga := [(''s'', tried 300000 idleAction)], st_watchStartedAt := Some 300000\<rparr>"

lemma patrol_Cons:
  "patrol p cfg ((now, x) # xs) s =
     (let r = tick p cfg now x s in (fst r @ fst (patrol p cfg xs (fst (snd r))), snd (patrol p cfg xs (fst (snd r)))))"
  by (simp add: Let_def split: prod.split)

lemma two_ticks:
  "fst (snd (tick lone_host one_try 300000 () initialState)) = tried_once"
  "verified_on ''s'' (fst (tick lone_host one_try 300000 () initialState)) = 1"
  "verified_on ''s'' (fst (tick lone_host one_try 360000 () tried_once)) = 0"
  "last (map auPhase (fst (tick lone_host one_try 360000 () tried_once))) = Escalated"
  by code_simp+

text \<open>The same host after the checkpoint verifier has logged a mismatch.\<close>

definition alarmed :: "unit ports" where
  "alarmed = lone_host\<lparr>sp_signals := (\<lambda>_. buffer_log DEFAULT_CAPACITY 290000 ''error'' ''worker.checkpoint.mismatch'' [])\<rparr>"

lemma supervisor_guardrails_witness:
  "verified_on ''s'' (fst (patrol lone_host one_try [(300000, ()), (360000, ())] initialState)) = 1 \<and>
   verified_on ''s'' (fst (patrol lone_host one_try [(300000, ()), (360000, ())] initialState)) \<le> sc_maxActionAttempts one_try \<and>
   tick (with_levers (\<lambda>_ x. (Inr (), x)) (\<lambda>_ x. (Inr (), x)) (\<lambda>_ x. (Inr [], x)) alarmed) one_try 300000 () initialState = tick alarmed one_try 300000 () initialState"
proof -
  have l: "\<And>y. distinct (map sagaId (sp_sagas lone_host y))" and r: "\<And>y. distinct (map sagaId (sp_sagas alarmed y))"
    by (simp_all add: alarmed_def lone_host_def)
  have v: "verified_on ''s'' (fst (patrol lone_host one_try [(300000, ()), (360000, ())] initialState)) \<le> sc_maxActionAttempts one_try"
    using supervisor_guardrails [OF l prod.collapse [symmetric]] by blast
  have "detectIntegrityMismatches (sp_signals alarmed ()) (st_mismatchHandledUpTo initialState) \<noteq> []"
    by code_simp
  then have "tick (with_levers (\<lambda>_ x. (Inr (), x)) (\<lambda>_ x. (Inr (), x)) (\<lambda>_ x. (Inr [], x)) alarmed) one_try 300000 () initialState = tick alarmed one_try 300000 () initialState"
    using supervisor_guardrails [OF r, of one_try "[]" "[]" initialState _ "()"] by simp
  then show ?thesis using v by (simp add: patrol_Cons Let_def two_ticks del: patrol.simps(2))
qed

end
