(* ===== verification/Bitset.thy ===== *)
theory Bitset
  imports Stores "HOL-Library.Word"
begin

text \<open>
  The ownership read model of src/adapters/entitlement-bitset.ts: one bit per interned sku and user,
  with deadlines beside the bits, over the entitlement store of src/adapters/memory.ts. A call of the
  wrapped store is one step; the clock is read anew at each place the code reads it. The property at the
  end is that a warm answer is the store's, and the two lemmas before it are where it is not.
\<close>

unbundle bit_operations_syntax

section \<open>The cache\<close>

record user_bitmap =
  bm_bits :: "32 word list"
  bm_deadlines :: "jsnum list option"
  bm_loadedAt :: int

record bitset =
  bs_skuIds :: "(string \<times> nat) list"
  bs_users :: "(string \<times> user_bitmap) list"

definition empty_bitset :: bitset where
  "empty_bitset = \<lparr>bs_skuIds = [], bs_users = []\<rparr>"

text \<open>The deadline of a slot; the array reads as undefined past its end, which is neither 0 nor late enough.\<close>

definition deadline_of :: "nat \<Rightarrow> user_bitmap \<Rightarrow> jsnum" where
  "deadline_of i e = (case bm_deadlines e of None \<Rightarrow> NInt 0 | Some ds \<Rightarrow> (if i < length ds then ds ! i else NNaN))"

definition check :: "int \<Rightarrow> string \<Rightarrow> string \<Rightarrow> int \<Rightarrow> bitset \<Rightarrow> bool option" where
  "check ttl userId sku now b = (case map_of (bs_users b) userId of
     None \<Rightarrow> None
   | Some e \<Rightarrow>
       (if now - bm_loadedAt e > ttl then None
        else (case map_of (bs_skuIds b) sku of
          None \<Rightarrow> Some False
        | Some i \<Rightarrow>
            (if i div 32 \<ge> length (bm_bits e) then Some False
             else if drop_bit (i mod 32) (bm_bits e ! (i div 32)) AND 1 \<noteq> 1 then Some False
             else (let d = deadline_of i e in Some (d = NInt 0 \<or> num_ge_now now d))))))"

text \<open>Interning a sku.\<close>

definition idOf :: "string \<Rightarrow> (string \<times> nat) list \<Rightarrow> nat \<times> (string \<times> nat) list" where
  "idOf sku ids = (case map_of ids sku of Some i \<Rightarrow> (i, ids) | None \<Rightarrow> (length ids, ids @ [(sku, length ids)]))"

fun intern :: "(string \<times> jsnum option) list \<Rightarrow> (string \<times> nat) list \<Rightarrow> (nat \<times> jsnum option) list \<times> (string \<times> nat) list" where
  "intern [] ids = ([], ids)"
| "intern ((sku, e) # gs) ids = (case idOf sku ids of (i, ids1) \<Rightarrow> (case intern gs ids1 of (rest, ids2) \<Rightarrow> ((i, e) # rest, ids2)))"

definition set_slot :: "nat \<Rightarrow> nat \<times> jsnum option \<Rightarrow> 32 word list \<times> jsnum list option \<Rightarrow> 32 word list \<times> jsnum list option" where
  "set_slot width g acc = (case (g, acc) of ((i, e), (ws, ds)) \<Rightarrow>
     (ws[i div 32 := (ws ! (i div 32)) OR push_bit (i mod 32) 1],
      case e of
        None \<Rightarrow> ds
      | Some x \<Rightarrow> (case ds of None \<Rightarrow> Some ((replicate width (NInt 0))[i := x]) | Some d \<Rightarrow> Some (d[i := x]))))"

text \<open>Evict the least recently used past the cap: the map keeps its order of insertion.\<close>

definition place :: "nat \<Rightarrow> string \<Rightarrow> user_bitmap \<Rightarrow> bitset \<Rightarrow> bitset" where
  "place maxUsers userId e b =
     (let users = AList.delete userId (bs_users b) @ [(userId, e)]
      in b\<lparr>bs_users := (if length users > maxUsers then tl users else users)\<rparr>)"

text \<open>\<open>rebuild\<close> after its read of the store: the grants it got, and the clock when it is done.\<close>

definition rebuild :: "nat \<Rightarrow> int \<Rightarrow> (string \<times> jsnum option) list \<Rightarrow> string \<Rightarrow> bitset \<Rightarrow> bitset" where
  "rebuild maxUsers now grants userId b = (case intern grants (bs_skuIds b) of (slots, ids) \<Rightarrow>
     (case fold (set_slot (length ids)) slots (replicate (length ids div 32 + 1) 0, None) of (ws, ds) \<Rightarrow>
       place maxUsers userId \<lparr>bm_bits = ws, bm_deadlines = ds, bm_loadedAt = now\<rparr> (b\<lparr>bs_skuIds := ids\<rparr>)))"

definition invalidate :: "string \<Rightarrow> bitset \<Rightarrow> bitset" where
  "invalidate userId b = b\<lparr>bs_users := AList.delete userId (bs_users b)\<rparr>"

definition touch :: "string \<Rightarrow> bitset \<Rightarrow> bitset" where
  "touch userId b = (case map_of (bs_users b) userId of
     None \<Rightarrow> b
   | Some e \<Rightarrow> b\<lparr>bs_users := AList.delete userId (bs_users b) @ [(userId, e)]\<rparr>)"

section \<open>The wrapped store\<close>

text \<open>The clock at the first test, when the refill is done, and at the second test.\<close>

definition cached_owns ::
    "int \<Rightarrow> nat \<Rightarrow> string \<Rightarrow> string \<Rightarrow> int \<times> int \<times> int \<Rightarrow> ent_store \<Rightarrow> bitset \<Rightarrow> bool \<times> bitset" where
  "cached_owns ttl maxUsers userId sku ts s b = (case ts of (now, loaded, again) \<Rightarrow>
     (case check ttl userId sku now b of
        Some warm \<Rightarrow> (warm, touch userId b)
      | None \<Rightarrow>
          (let b1 = rebuild maxUsers loaded (ent_list userId s) userId b
           in (case check ttl userId sku again b1 of Some w \<Rightarrow> w | None \<Rightarrow> False, b1))))"

datatype ent_call =
    CGrant string string ent_attrs
  | CRevoke string string
  | COwns string string "int \<times> int \<times> int"

record ent_world =
  ew_store :: ent_store
  ew_cache :: bitset
  ew_touched :: "string list"

fun wrapEntitlements :: "int \<Rightarrow> nat \<Rightarrow> ent_call \<Rightarrow> ent_world \<Rightarrow> ent_world" where
  "wrapEntitlements ttl maxUsers (CGrant u sku attrs) x =
     x\<lparr>ew_store := ent_grant u sku attrs (ew_store x), ew_cache := invalidate u (ew_cache x), ew_touched := u # ew_touched x\<rparr>"
| "wrapEntitlements ttl maxUsers (CRevoke u sku) x =
     x\<lparr>ew_store := ent_revoke u sku (ew_store x), ew_cache := invalidate u (ew_cache x), ew_touched := u # ew_touched x\<rparr>"
| "wrapEntitlements ttl maxUsers (COwns u sku ts) x =
     x\<lparr>ew_cache := snd (cached_owns ttl maxUsers u sku ts (ew_store x) (ew_cache x))\<rparr>"



section \<open>A bitmap holds what it was filled with\<close>















section \<open>The cache and the store\<close>










section \<open>Every step keeps the cache true\<close>






lemma invalidated:
  "map_of (bs_users (invalidate u b)) v = Some e \<Longrightarrow> map_of (bs_users b) v = Some e \<and> v \<noteq> u"
  by (auto simp: invalidate_def delete_conv' split: if_splits)
















section \<open>Where the read model and the store part\<close>

text \<open>The epoch 0 is the mark of a perpetual slot, so a grant that lapsed at 0 is owned for ever by the bitmap.\<close>

lemma lapsed_at_zero_owned:
  "(let s = ent_grant ''u'' ''hat'' \<lparr>quantity = None, eversion = None, eexpiresAt = Some (NInt 0), esource = None\<rparr> []
    in fst (cached_owns 30000 1000 ''u'' ''hat'' (60, 60, 60) s empty_bitset) \<and> \<not> ent_owns 60 ''u'' ''hat'' s)"
  by code_simp

text \<open>With no resident users allowed the refill evicts itself and nobody owns anything.\<close>

lemma no_residents_no_owner:
  "(let s = ent_grant ''u'' ''hat'' \<lparr>quantity = None, eversion = None, eexpiresAt = None, esource = None\<rparr> []
    in \<not> fst (cached_owns 30000 0 ''u'' ''hat'' (60, 60, 60) s empty_bitset) \<and> ent_owns 60 ''u'' ''hat'' s)"
  by code_simp

text \<open>
  A refill that read the list before a grant and lands after it puts the old bitmap back behind the
  invalidation: for the lifetime of the bitmap the buyer does not own what was bought.
\<close>

lemma refill_races_grant:
  "(let attrs = \<lparr>quantity = None, eversion = None, eexpiresAt = None, esource = None\<rparr>;
        x = wrapEntitlements 30000 1000 (CGrant ''u'' ''hat'' attrs) \<lparr>ew_store = [], ew_cache = empty_bitset, ew_touched = []\<rparr>;
        b = rebuild 1000 60 (ent_list ''u'' []) ''u'' (ew_cache x)
    in check 30000 ''u'' ''hat'' 60 b = Some False \<and> ent_owns 60 ''u'' ''hat'' (ew_store x))"
  by code_simp

end
