(* ===== verification/Cluster.thy ===== *)
theory Cluster
  imports Orphans Instance
begin

text \<open>
  Several nodes over one store: the rendezvous router of src/router.ts and the node of src/cluster.ts,
  which gates sessions by ownership, shares one reservation counter and runs the orphan sweep under the
  law that binds it to the age of an epoch. A character is one code unit below 256.
\<close>

unbundle bit_operations_syntax

section \<open>The router\<close>

definition FNV_OFFSET :: "64 word" where "FNV_OFFSET = 0xcbf29ce484222325"
definition FNV_PRIME :: "64 word" where "FNV_PRIME = 0x100000001b3"

definition fnv1a64 :: "string \<Rightarrow> 64 word" where
  "fnv1a64 text = foldl (\<lambda>hash c. (hash XOR of_char c) * FNV_PRIME) FNV_OFFSET text"

definition mix64 :: "64 word \<Rightarrow> 64 word" where
  "mix64 input =
     (let x1 = input XOR drop_bit 33 input;
          x2 = x1 * 0xff51afd7ed558ccd;
          x3 = x2 XOR drop_bit 33 x2;
          x4 = x3 * 0xc4ceb9fe1a85ec53
      in x4 XOR drop_bit 33 x4)"

definition weight :: "string \<Rightarrow> string \<Rightarrow> int" where
  "weight scope node = uint (mix64 (fnv1a64 (node @ [CHR 0x0A] @ scope)))"

definition contend :: "string \<Rightarrow> string \<times> int \<Rightarrow> string \<Rightarrow> string \<times> int" where
  "contend scope acc node = (let w = weight scope node in if w > snd acc then (node, w) else acc)"

definition route :: "string list \<Rightarrow> string \<Rightarrow> string" where
  "route nodes scope = fst (foldl (contend scope) (hd nodes, - 1) nodes)"


section \<open>The node\<close>


text \<open>The minter's nonce and counts are the node's own.\<close>

record cluster_node =
  cn_id :: string
  cn_route :: "string \<Rightarrow> string"
  cn_epochMaxAgeMs :: int
  cn_sweep :: "(int \<times> nat option) option"
  cn_nonce :: string
  cn_epochs :: "(string \<times> nat) list"






definition recover_session :: "ctx \<Rightarrow> string \<Rightarrow> net_world \<Rightarrow> unit res \<times> net_state" where
  "recover_session c sid w = recoverSession c (open_session sid 64 16 True) w"

definition laneOptions :: "cluster_node \<Rightarrow> manager_options \<Rightarrow> manager_options" where
  "laneOptions n o2 = o2\<lparr>mo_shared := True, mo_maxAgeMs := Some (cn_epochMaxAgeMs n)\<rparr>"


section \<open>Routing is stable\<close>








section \<open>The sweep keeps the law\<close>






section \<open>What a node promises\<close>




text \<open>Three nodes and two scopes of the second, which part ways when it leaves.\<close>

lemma some_weights:
  "weight ''p'' ''a'' = 795834951785872240"
  "weight ''p'' ''b'' = 11882755055751186737"
  "weight ''p'' ''c'' = 4061613530152172941"
  "weight ''v'' ''a'' = 4857654012762202254"
  "weight ''v'' ''b'' = 12921539923772383059"
  "weight ''v'' ''c'' = 3560003654111622687"
  by code_simp+

lemma second_leaves:
  "route [''a'', ''b'', ''c''] ''p'' = ''b''" "route [''a'', ''b'', ''c''] ''v'' = ''b''"
  "route [''a'', ''c''] ''p'' = ''c''" "route [''a'', ''c''] ''v'' = ''a''"
  by (simp_all add: route_def contend_def some_weights)

end
