(* ===== verification/Edges.thy ===== *)
theory Edges
  imports Economy
begin

text \<open>
  The small parts a host puts around the economy: the actor constructors (src/actor.ts), the configured
  rates (src/adapters/rates.ts), the submit coalescer (src/batching.ts), the page of a stream
  (src/paginate.ts), the in-process rate limiter (src/adapters/memory-rate-limit.ts) and the in-memory
  processor (src/adapters/processor.ts). The batch submit of the economy is a parameter of the coalescer.
\<close>

section \<open>Actors\<close>

definition userActor :: "string \<Rightarrow> principal" where "userActor userId = UserActor userId"
definition systemActor :: "string \<Rightarrow> principal" where "systemActor service = SystemActor service"
definition operatorActor :: "string \<Rightarrow> principal" where "operatorActor operatorId = OperatorActor operatorId"

section \<open>Rates\<close>

record rates_config =
  rc_buyRate :: int
  rc_buyScale :: nat
  rc_parRate :: int
  rc_parScale :: nat
  rc_payoutRate :: int
  rc_payoutScale :: nat

record rates_port =
  rp_buy :: "currency \<Rightarrow> rate"
  rp_par :: "currency \<Rightarrow> rate"
  rp_payout :: "currency \<Rightarrow> currency \<Rightarrow> rate res"

definition identityRate :: "currency \<Rightarrow> currency \<Rightarrow> rate" where
  "identityRate f t = \<lparr>rate = 1, scale = 0, rateId = currency_text f @ ''->'' @ currency_text t @ '':1''\<rparr>"

definition assertRateOrder :: "rates_config \<Rightarrow> unit res" where
  "assertRateOrder k =
     (let gte = (\<lambda>ra sa rb sb. ra * 10 ^ sb \<ge> rb * (10 :: int) ^ sa);
          ordered = (gte (rc_buyRate k) (rc_buyScale k) (rc_parRate k) (rc_parScale k) \<and>
            gte (rc_parRate k) (rc_parScale k) (rc_payoutRate k) (rc_payoutScale k))
      in ensure ordered (fault_retryable CONFIG_INVALID False))"

definition named_rate :: "string \<Rightarrow> int \<Rightarrow> nat \<Rightarrow> rate" where
  "named_rate name r sc = \<lparr>rate = r, scale = sc, rateId = name @ '':CREDIT->USD:'' @ int_text r @ ''/'' @ nat_text sc\<rparr>"

definition configuredRates :: "rates_config \<Rightarrow> rates_port res" where
  "configuredRates k = rbind (assertRateOrder k) (\<lambda>_.
     let buy = named_rate ''buy'' (rc_buyRate k) (rc_buyScale k);
         par = named_rate ''par'' (rc_parRate k) (rc_parScale k);
         payout = named_rate ''payout'' (rc_payoutRate k) (rc_payoutScale k)
     in Inr \<lparr>rp_buy = (\<lambda>cur. if cur = CREDIT then buy else identityRate USD USD),
          rp_par = (\<lambda>cur. if cur = CREDIT then par else identityRate USD USD),
          rp_payout = (\<lambda>f t. if f = t then Inr (identityRate f t)
            else if f = CREDIT \<and> t = USD then Inr payout
            else Inl (HostError ''configuredRates has no such rate''))\<rparr>)"

section \<open>The coalescer\<close>

text \<open>A waiter is its caller's number and the operation.\<close>

record coalescer =
  co_queue :: "(nat \<times> operation) list"
  co_scheduled :: bool

datatype flush_when = FlushNow | Deferred | AlreadyDeferred

definition enqueue :: "nat \<Rightarrow> nat \<times> operation \<Rightarrow> coalescer \<Rightarrow> flush_when \<times> coalescer" where
  "enqueue maxBatch w x =
     (let q = co_queue x @ [w]
      in if length q \<ge> maxBatch then (FlushNow, x\<lparr>co_queue := q\<rparr>)
         else if \<not> co_scheduled x then (Deferred, x\<lparr>co_queue := q, co_scheduled := True\<rparr>)
         else (AlreadyDeferred, x\<lparr>co_queue := q\<rparr>))"

text \<open>One batch: a rejected batch rejects every waiter of it, a slot answers its own.\<close>

definition flush_batch ::
    "(operation list \<Rightarrow> 's \<Rightarrow> outcome res list res \<times> 's) \<Rightarrow> (nat \<times> operation) list \<Rightarrow> 's \<Rightarrow> (nat \<times> outcome res) list \<times> 's" where
  "flush_batch submit_batch ws s = (case submit_batch (map snd ws) s of
     (Inl e, s') \<Rightarrow> (map (\<lambda>w. (fst w, Inl e)) ws, s')
   | (Inr slots, s') \<Rightarrow> (zip (map fst ws) slots, s'))"

text \<open>The loop of \<open>flush\<close>; it ends only when the queue is empty.\<close>

partial_function (option) flush_queue ::
    "(operation list \<Rightarrow> 's \<Rightarrow> outcome res list res \<times> 's) \<Rightarrow> nat \<Rightarrow> (nat \<times> operation) list \<Rightarrow> 's \<Rightarrow>
     ((nat \<times> outcome res) list \<times> 's) option" where
  "flush_queue submit_batch maxBatch q s =
     (if q = [] then Some ([], s)
      else (case flush_batch submit_batch (take maxBatch q) s of (answers, s1) \<Rightarrow>
        Option.bind (flush_queue submit_batch maxBatch (drop maxBatch q) s1) (\<lambda>(rest, s2). Some (answers @ rest, s2))))"

definition coalescer_flush ::
    "(operation list \<Rightarrow> 's \<Rightarrow> outcome res list res \<times> 's) \<Rightarrow> nat \<Rightarrow> coalescer \<Rightarrow> 's \<Rightarrow>
     ((nat \<times> outcome res) list \<times> coalescer \<times> 's) option" where
  "coalescer_flush submit_batch maxBatch x s = (case flush_queue submit_batch maxBatch (co_queue x) s of
     None \<Rightarrow> None
   | Some (answers, s1) \<Rightarrow> Some (answers, x\<lparr>co_queue := [], co_scheduled := False\<rparr>, s1))"

section \<open>A page of a stream\<close>

text \<open>A malformed bound is 0, and there is no bound at all past infinity.\<close>

definition page_bound :: "jsnum \<Rightarrow> nat option" where
  "page_bound x = (case x of NInt i \<Rightarrow> Some (nat i) | NFrac i \<Rightarrow> Some (nat i) | NPosInf \<Rightarrow> None | _ \<Rightarrow> Some 0)"

definition page_row :: "nat option \<Rightarrow> nat option \<Rightarrow> 'a list \<times> nat \<Rightarrow> 'a \<Rightarrow> 'a list \<times> nat" where
  "page_row offset limit acc item = (case acc of (rows, seen) \<Rightarrow>
     ((if (case offset of None \<Rightarrow> False | Some f \<Rightarrow> seen \<ge> f) \<and> (case limit of None \<Rightarrow> True | Some l \<Rightarrow> length rows < l)
       then rows @ [item] else rows), seen + 1))"

definition paginate :: "'a list \<Rightarrow> jsnum \<Rightarrow> jsnum \<Rightarrow> 'a list \<times> nat" where
  "paginate source offset limit = foldl (page_row (page_bound offset) (page_bound limit)) ([], 0) source"

section \<open>The rate limiter\<close>

record rate_window =
  rw_count :: nat
  rw_resetAt :: int

text \<open>The answer to a call: allowed, or denied with the time to wait.\<close>

definition allow :: "nat \<Rightarrow> int \<Rightarrow> int \<Rightarrow> string \<Rightarrow> (string \<times> rate_window) list \<Rightarrow> int option \<times> (string \<times> rate_window) list" where
  "allow limit windowMs now key m =
     (case map_of m key of
        None \<Rightarrow> (None, AList.update key \<lparr>rw_count = 1, rw_resetAt = now + windowMs\<rparr> m)
      | Some x \<Rightarrow>
          (if now \<ge> rw_resetAt x then (None, AList.update key \<lparr>rw_count = 1, rw_resetAt = now + windowMs\<rparr> m)
           else (let n = rw_count x + 1; m1 = AList.update key (x\<lparr>rw_count := n\<rparr>) m
             in if n \<le> limit then (None, m1) else (Some (rw_resetAt x - now), m1))))"

section \<open>The in-memory processor\<close>

definition submitPayout_mem :: "string \<Rightarrow> (string \<times> string) list \<Rightarrow> string \<times> (string \<times> string) list" where
  "submitPayout_mem key refs = (case map_of refs key of
     Some ref \<Rightarrow> (ref, refs)
   | None \<Rightarrow> (let ref = ''mem_'' @ nat_text (length refs + 1) in (ref, refs @ [(key, ref)])))"

section \<open>Cashing out costs no more than backing\<close>

lemma scaled_div:
  assumes "rb * 10 ^ sa \<le> ra * (10 :: int) ^ sb" "0 \<le> x"
  shows "x * rb div 10 ^ sb \<le> x * ra div 10 ^ sa"
proof -
  have "x * rb div 10 ^ sb = (x * rb * 10 ^ sa) div (10 ^ sb * 10 ^ sa)" by simp
  also have "\<dots> \<le> (x * ra * 10 ^ sb) div (10 ^ sb * 10 ^ sa)"
    using mult_left_mono [OF assms(1,2)] by (intro zdiv_mono1) (simp_all add: mult.assoc)
  also have "\<dots> = x * ra div 10 ^ sa" by (simp add: mult.commute [of "10 ^ sb"])
  finally show ?thesis .
qed

text \<open>
  (C31) A rate source that could be built never lets credits cash out for more than they are backed at, nor
  backs them for more than they were bought at: at any non-negative amount the payout in dollars is at
  most the par value, and the par value at most what the credits cost, each rounded down as the ledger rounds.
\<close>

theorem cash_out_never_above:
  assumes "configuredRates k = Inr p" "0 \<le> minor a" "rp_payout p CREDIT USD = Inr r"
    "convertFloor a r USD = Inr out" "convertFloor a (rp_par p CREDIT) USD = Inr backed" "convertFloor a (rp_buy p CREDIT) USD = Inr paid"
  shows "minor out \<le> minor backed \<and> minor backed \<le> minor paid"
proof -
  have o1: "rc_parRate k * 10 ^ rc_buyScale k \<le> rc_buyRate k * 10 ^ rc_parScale k"
    and o2: "rc_payoutRate k * 10 ^ rc_parScale k \<le> rc_parRate k * 10 ^ rc_payoutScale k"
    using assms(1) by (simp_all add: configuredRates_def assertRateOrder_def rbind_Inr_iff Let_def)
  have p: "rp_buy p CREDIT = named_rate ''buy'' (rc_buyRate k) (rc_buyScale k)"
    "rp_par p CREDIT = named_rate ''par'' (rc_parRate k) (rc_parScale k)"
    "r = named_rate ''payout'' (rc_payoutRate k) (rc_payoutScale k)"
    using assms(1,3) by (auto simp: configuredRates_def rbind_Inr_iff Let_def)
  have "minor out = minor a * rc_payoutRate k div 10 ^ rc_payoutScale k"
    "minor backed = minor a * rc_parRate k div 10 ^ rc_parScale k"
    "minor paid = minor a * rc_buyRate k div 10 ^ rc_buyScale k"
    using assms(4-6) by (auto simp: p convertFloor_value named_rate_def Let_def split: if_splits)
  then show ?thesis using scaled_div [OF o1 assms(2)] scaled_div [OF o2 assms(2)] by simp
qed

lemma cash_out_never_above_witness:
  "(case configuredRates \<lparr>rc_buyRate = 8333, rc_buyScale = 6, rc_parRate = 5, rc_parScale = 3, rc_payoutRate = 5, rc_payoutScale = 3\<rparr> of
     Inl _ \<Rightarrow> False
   | Inr p \<Rightarrow> (\<exists>r out backed paid. rp_payout p CREDIT USD = Inr r \<and> convertFloor \<lparr>currency = CREDIT, minor = 12345\<rparr> r USD = Inr out \<and>
       convertFloor \<lparr>currency = CREDIT, minor = 12345\<rparr> (rp_par p CREDIT) USD = Inr backed \<and>
       convertFloor \<lparr>currency = CREDIT, minor = 12345\<rparr> (rp_buy p CREDIT) USD = Inr paid \<and>
       minor out \<le> minor backed \<and> minor backed \<le> minor paid))"
proof -
  let ?k = "\<lparr>rc_buyRate = 8333, rc_buyScale = 6, rc_parRate = 5, rc_parScale = 3, rc_payoutRate = 5, rc_payoutScale = 3\<rparr>"
  let ?a = "\<lparr>currency = CREDIT, minor = 12345\<rparr>"
  obtain p where p: "configuredRates ?k = Inr p" by (simp add: configuredRates_def assertRateOrder_def Let_def)
  then have r: "rp_payout p CREDIT USD = Inr (named_rate ''payout'' 5 3)" "rp_par p CREDIT = named_rate ''par'' 5 3"
    "rp_buy p CREDIT = named_rate ''buy'' 8333 6"
    by (auto simp: configuredRates_def assertRateOrder_def Let_def)
  have c: "convertFloor ?a (named_rate ''payout'' 5 3) USD = Inr \<lparr>currency = USD, minor = 61\<rparr>"
    "convertFloor ?a (rp_par p CREDIT) USD = Inr \<lparr>currency = USD, minor = 61\<rparr>"
    "convertFloor ?a (rp_buy p CREDIT) USD = Inr \<lparr>currency = USD, minor = 102\<rparr>"
    by (simp_all add: r convertFloor_value named_rate_def in_i64_def I64_MIN_def I64_MAX_def Let_def)
  have "minor \<lparr>currency = USD, minor = 61\<rparr> \<le> minor \<lparr>currency = USD, minor = 61\<rparr> \<and> minor \<lparr>currency = USD, minor = 61\<rparr> \<le> minor \<lparr>currency = USD, minor = (102 :: int)\<rparr>"
    using cash_out_never_above [OF p _ r(1) c] by simp
  then show ?thesis using p r(1) c by (simp add: p)
qed

section \<open>Every caller is answered\<close>

fun batches :: "nat \<Rightarrow> 'a list \<Rightarrow> nat \<Rightarrow> 'a list list" where
  "batches m xs 0 = []"
| "batches m xs (Suc n) = take m xs # batches m (drop m xs) n"

text \<open>
  (C30) With a batch size of at least one a flush ends, whatever the economy answers, and every caller in the queue gets
  exactly one answer, in the order they came; and when batches answer a slot per operation and the first batch
  does not fault, each caller of it gets the slot of its own operation.
\<close>

theorem flush_answers_all:
  assumes "0 < maxBatch" "\<And>ops s slots s'. submit_batch ops s = (Inr slots, s') \<Longrightarrow> length slots = length ops"
  shows "\<exists>answers s'. coalescer_flush submit_batch maxBatch x s = Some (answers, \<lparr>co_queue = [], co_scheduled = False\<rparr>, s') \<and>
    map fst answers = map fst (co_queue x) \<and>
    (\<forall>slots s1. submit_batch (map snd (take maxBatch (co_queue x))) s = (Inr slots, s1) \<longrightarrow> co_queue x \<noteq> [] \<longrightarrow>
       map snd (take maxBatch answers) = slots)"
proof -
  have one: "map fst (fst (flush_batch submit_batch ws t)) = map fst ws" for ws t
    using assms(2) by (auto simp: flush_batch_def comp_def split: prod.split sum.split)
  have all: "\<exists>answers s'. flush_queue submit_batch maxBatch q t = Some (answers, s') \<and> map fst answers = map fst q" for q t
  proof (induction q arbitrary: t rule: length_induct)
    case (1 q)
    show ?case
    proof (cases "q = []")
      case False
      obtain as t1 where b: "flush_batch submit_batch (take maxBatch q) t = (as, t1)" by force
      have "length (drop maxBatch q) < length q" using False assms(1) by simp
      then obtain rest t2 where r: "flush_queue submit_batch maxBatch (drop maxBatch q) t1 = Some (rest, t2)" "map fst rest = map fst (drop maxBatch q)"
        using 1 by blast
      have "map fst as = map fst (take maxBatch q)" using one [of "take maxBatch q" t] b by simp
      then have "map fst (as @ rest) = map fst q" using r(2) by (metis append_take_drop_id map_append)
      then show ?thesis using b r(1) False by (subst flush_queue.simps) simp
    qed (simp add: flush_queue.simps)
  qed
  obtain answers s' where a: "flush_queue submit_batch maxBatch (co_queue x) s = Some (answers, s')" "map fst answers = map fst (co_queue x)"
    using all by blast
  have "map snd (take maxBatch answers) = slots"
    if s: "submit_batch (map snd (take maxBatch (co_queue x))) s = (Inr slots, s1)" "co_queue x \<noteq> []" for slots s1
  proof -
    let ?ws = "take maxBatch (co_queue x)"
    have n: "length slots = length ?ws" using assms(2) [OF s(1)] by simp
    have b: "flush_batch submit_batch ?ws s = (zip (map fst ?ws) slots, s1)" using s(1) by (simp add: flush_batch_def)
    obtain rest where "answers = zip (map fst ?ws) slots @ rest" 
      using a(1) s(2) b by (subst (asm) flush_queue.simps) (auto simp: Option.bind_eq_Some_conv)
    moreover have "length (zip (map fst ?ws) slots) = length ?ws" using n by simp
    moreover have "take maxBatch (zip (map fst ?ws) slots @ rest) = zip (map fst ?ws) slots"
    proof (cases "maxBatch \<le> length (co_queue x)")
      case True
      then show ?thesis using n by simp
    next
      case False
      then have "length (zip (map fst ?ws) slots) = length answers" using n arg_cong [OF a(2), of length] by simp
      then have "rest = []" using \<open>answers = _\<close> by simp
      then show ?thesis using n False by simp
    qed
    ultimately show ?thesis using n by simp
  qed
  then show ?thesis using a by (auto simp: coalescer_flush_def)
qed

text \<open>The batch submit of the economy answers a slot per operation, so the coalescer over it answers everybody.\<close>

lemma length_screenBatch: "length (screenBatch c ops seen) = length ops"
  by (induction ops arbitrary: seen) (simp_all split: sum.split option.split)

lemma length_run_entries: "length (fst (run_entries es cor s)) = length es"
  by (induction es cor s rule: run_entries.induct) (auto simp: Let_def split: prod.splits option.splits sum.splits)

definition economy_batch :: "ctx \<Rightarrow> operation list \<Rightarrow> unit_state \<Rightarrow> outcome res list res \<times> unit_state" where
  "economy_batch c ops s = (case submitBatch c (map (\<lambda>opn. (c, opn)) ops) None s of (slots, s') \<Rightarrow> (Inr slots, s'))"

lemma economy_batch_slots: "economy_batch c ops s = (Inr slots, s') \<Longrightarrow> length slots = length ops"
proof -
  let ?es = "map (\<lambda>((c, opn), d). (c, opn, d)) (zip (map (\<lambda>opn. (c, opn)) ops) (screenBatch c ops []))"
  assume "economy_batch c ops s = (Inr slots, s')"
  then have "slots = map fst (fst (run_entries ?es None s))"
    by (auto simp: economy_batch_def submitBatch_def Let_def comp_def split: prod.splits)
  then show "length slots = length ops" by (simp add: length_run_entries length_screenBatch)
qed

lemma flush_answers_all_witness:
  "\<forall>c s opn. \<exists>answers s'. coalescer_flush (economy_batch c) 1 \<lparr>co_queue = [(7, opn), (8, opn)], co_scheduled = True\<rparr> s =
     Some (answers, \<lparr>co_queue = [], co_scheduled = False\<rparr>, s') \<and> map fst answers = [7, 8]"
  using flush_answers_all [of 1 "economy_batch _", OF _ economy_batch_slots] by fastforce

text \<open>Without room in a batch nothing ever leaves the queue, and the loop never ends.\<close>

lemma flush_hangs: "flush_queue submit_batch maxBatch q s = Some r \<Longrightarrow> maxBatch = 0 \<longrightarrow> q = []"
proof (rule flush_queue.raw_induct [where P = "\<lambda>sb m q s r. m = 0 \<longrightarrow> q = []", rotated])
  fix rc :: "(operation list \<Rightarrow> 'a \<Rightarrow> outcome res list res \<times> 'a) \<Rightarrow> nat \<Rightarrow> (nat \<times> operation) list \<Rightarrow> 'a \<Rightarrow> ((nat \<times> outcome res) list \<times> 'a) option"
  fix sb m q s r
  assume IH: "\<And>sb m q s r. rc sb m q s = Some r \<Longrightarrow> m = 0 \<longrightarrow> q = []"
  assume "(if q = [] then Some ([], s)
      else (case flush_batch sb (take m q) s of (answers, s1) \<Rightarrow>
        Option.bind (rc sb m (drop m q) s1) (\<lambda>(rest, s2). Some (answers @ rest, s2)))) = Some r"
  then show "m = 0 \<longrightarrow> q = []"
    using IH [of sb m "drop m q"] by (auto simp: Option.bind_eq_Some_conv split: if_splits prod.splits)
qed

text \<open>
  Two calls of one key in one flush: a direct second submit would be told duplicate, but the batch refuses
  the second slot as malformed before it runs.
\<close>

lemma burst_key_malformed:
  assumes "rbind (validateOperation opn (c_config c)) (\<lambda>_. authorize opn) = Inr u"
  shows "screenBatch c [opn, opn] [] ! 1 = Some (Inl malformed)"
  using assms by simp

section \<open>Pages, windows, references\<close>

text \<open>A page is the rows from its offset on, as many as its limit, and the count of all.\<close>

lemma paginate_window:
  "paginate xs (NInt i) (NInt j) = (take (nat j) (drop (nat i) xs), length xs)"
proof (induction xs rule: rev_induct)
  case (snoc x xs)
  have "length (take (nat j) (drop (nat i) xs)) = min (nat j) (length xs - nat i)" by simp
  then show ?case using snoc
    by (auto simp: paginate_def page_row_def page_bound_def min_def)
qed (simp add: paginate_def)

text \<open>Within a window no key passes more often than the limit, except the call that opened it.\<close>

fun allow_run :: "nat \<Rightarrow> int \<Rightarrow> string \<Rightarrow> int list \<Rightarrow> (string \<times> rate_window) list \<Rightarrow> nat" where
  "allow_run limit windowMs key [] m = 0"
| "allow_run limit windowMs key (t # ts) m =
     (case allow limit windowMs t key m of (d, m1) \<Rightarrow> (if d = None then 1 else 0) + allow_run limit windowMs key ts m1)"

lemma window_run:
  "map_of m key = Some x \<Longrightarrow> \<forall>t \<in> set ts. t < rw_resetAt x \<Longrightarrow> allow_run limit windowMs key ts m \<le> limit - rw_count x"
proof (induction ts arbitrary: m x)
  case (Cons t ts)
  let ?x = "x\<lparr>rw_count := rw_count x + 1\<rparr>"
  have "allow_run limit windowMs key ts (AList.update key ?x m) \<le> limit - rw_count ?x"
    by (rule Cons.IH) (use Cons.prems in \<open>simp_all add: update_conv'\<close>)
  then show ?case using Cons.prems by (auto simp: allow_def Let_def)
qed simp

lemma window_limit:
  assumes "map_of m key = None" "\<forall>t \<in> set ts. t < t0 + windowMs"
  shows "allow_run limit windowMs key (t0 # ts) m \<le> max 1 limit"
  using window_run [of "AList.update key \<lparr>rw_count = 1, rw_resetAt = t0 + windowMs\<rparr> m" key _ ts limit windowMs] assms
  by (simp add: allow_def update_conv')

lemma zero_limit_allows: "fst (allow 0 60000 5 ''k'' []) = None"
  by (simp add: allow_def)

text \<open>A resend gets its reference again, and no two keys share one.\<close>

definition refs_ok :: "(string \<times> string) list \<Rightarrow> bool" where
  "refs_ok refs \<longleftrightarrow> map snd refs = map (\<lambda>i. ''mem_'' @ nat_text (i + 1)) [0..<length refs]"

lemma submitPayout_mem_ok:
  assumes "refs_ok refs" "submitPayout_mem key refs = (ref, refs1)"
  shows "refs_ok refs1" "submitPayout_mem key refs1 = (ref, refs1)"
    "map_of refs other = Some r \<Longrightarrow> map_of refs1 other = Some r"
  using assms by (auto simp: submitPayout_mem_def refs_ok_def Let_def map_add_def split: option.splits)

end
