(* ===== verification/Spec2Isabelle.thy ===== *)
theory Spec2Isabelle
  imports Trust Affordable Orphans Treasury Reconcile Audits Webhooks Instance Export Reads Supervisor Bitset Cluster Edges
begin

text \<open>
  A verification library for economy-lab, a double-entry ledger for a virtual economy written in
  TypeScript under src/src (written src/ below). A client submits operations; one pipeline validates,
  authorizes and screens them, runs a handler inside a transaction of a store, and the handler posts
  balanced legs to a hash-chained ledger. Background jobs advance what time or other systems make due.
  Provers, checkpoints, an archive and an export make the history auditable by others.

  \<^bold>\<open>How the program is modelled.\<close> A record or type of the source is a \<open>record\<close>, a union a \<open>datatype\<close>, a
  bigint an \<open>int\<close> (with its 64-bit range checks written out, and 64-bit words in the column kernel), a
  number that code checks a \<open>jsnum\<close>, a Map an association list in insertion order, a string a character
  list, an async generator the list of what it yields. A throw is \<open>Inl\<close> of an error (type \<open>res\<close>, theory
  Prelude); a computation over a store is a state transformer of type \<open>act\<close> whose fault drops the state,
  as the transaction that runs it does. Where an object of the process outlives a fault (a netting
  session, a lane, a cache) its steps return the state with the fault. The clock, ids, rates, the fee
  policy, the payee directory, the digest, the signer, the payment processor, the archive sink and the
  reconciliation feed are parameters. Transactions of the in-memory store run one at a time, which is
  what its writer queue does, so a transaction is one step. Logs, meters and prose are left out.

  \<^bold>\<open>Values.\<close> MoneyCore and MoneyText model src/money.vendored.ts (rounding division, allocation, decimal
  text); Money src/money.ts (amounts, conversions, the JSON walks); Bytes src/bytes.ts; Accounts
  src/accounts.ts (identifiers, shards, traits, the locks of an operation); Config src/env.ts and
  src/config.ts; Contract the shared types of src/contract.ts and src/ports.ts; Pricing src/pricing.ts.
  Their lemmas are the exactness and bounds of the arithmetic, the round trips of every text form, and
  that a fee split neither makes nor loses a unit.

  \<^bold>\<open>Ledger.\<close> Ledger models src/ledger.ts over an interface (validation, chain preimages), MemLedger the
  in-memory ledger of src/adapters/memory.ts, Column its resident columns (src/fold-column.ts and the
  kernel of src/fold.vendored.ts), Journal its undo journal, with a locale for what makes undoing sound,
  Posting the exact conditions under which a posting is refused. Chain models src/chain.ts (proving a
  chain, checkpoints over a Merkle sum tree, verified reads), Maturity src/maturity.ts (with its paged
  walk, a partial function shown to end), Trust src/trust.ts and its store, Stores the other row stores of
  src/adapters/memory.ts. Shown: the books stay balanced and guarded accounts non-negative, a rollback
  restores the store, an honest history verifies and an edited one does not (or two inputs of the digest
  collide), and each incremental structure refines the plain computation it stands for.

  \<^bold>\<open>Operations.\<close> Unit holds the unit of work and the context; OpsFunds, OpsSpend, OpsPayout and
  OpsSubscribe the fourteen handlers of src/operations; Economy the submit pipeline and the batch
  of src/economy.ts; Webhooks src/webhooks.ts. Sweeps, Billing and Treasury model the jobs of src/worker
  that post; Engine is the state machine of submits, batches and job items, with the invariant every
  step keeps; History and Affordable state what whole histories promise: a committed key replays for
  ever, an order is charged once, an affordable spend goes through.

  \<^bold>\<open>Sessions.\<close> Netting models src/netting.ts, Orphans src/worker/orphans.ts and src/worker/retention.ts,
  Instance src/instance.ts, Cluster src/router.ts and src/cluster.ts. Settling moves every balance by the net of the journal; a lane never accepts
  past its cap and decides an order once; a scope has one owner, which changes only when that node leaves.

  \<^bold>\<open>Around the engine.\<close> Bitset models src/adapters/entitlement-bitset.ts, which answers as the store
  does; Edges the actors, the configured rates, the submit coalescer, the stream page, the in-process rate
  limiter and the in-memory processor. The lemmas that end them exhibit where the code does not do what its
  comments say.

  \<^bold>\<open>Audit.\<close> Integrity models src/integrity.ts, Audits src/worker/checkpoint.ts, reproof.ts and archive.ts,
  Reconcile src/reconcile.ts and its job, Export the export of src/economy.ts with the codec of
  src/adapters/http-wire.ts and src/verify-export.ts, Reads the health and capacity reports and the balance
  cache of src/economy.ts with src/adapters/memory-cache.ts, Supervisor src/ops/runtime.ts, detect.ts and
  supervisor.ts. Shown: the archive keeps what remains provable, pairing is per key, an export verifies
  without the store, the two provers agree, a cached read is the ledger's while the cache is coherent (and a
  refund that breaks coherence is exhibited), and the supervisor's levers are capped and disarmed by a mismatch.

  \<^bold>\<open>Interfaces.\<close> The locales are the undo journal, the ledger a handler posts through, the lot timeline
  of the maturity walk, what the steps of a unit of work keep, and the read cache; each is interpreted on the model's own definitions in the theory that provides them.

  \<^bold>\<open>Termination and fuel.\<close> Every loop over data is structural or has a measure. Two loops of the code may run
  for ever and are \<open>partial_function (option)\<close>: the maturity walk, on a store that keeps returning pages, and the
  flush of the coalescer, with a batch size of 0. The first is proved to return over the in-memory store, the
  second for every batch size but 0 (and never to return for 0). No definition takes fuel.

  \<^bold>\<open>Not modelled.\<close> The SQL engines and the HTTP, Redis, SQS and edge adapters (their behaviour is that of
  databases and services outside the repository), the server, runtime
  wiring (timers, Web Crypto, environment composition), the hash-chained text sink of src/ops/audit.ts,
  the console and docs applications, and the scripts.
\<close>

end
